(* ===== verification/Go_Prelude.thy ===== *)
theory Go_Prelude
  imports Main "HOL-Library.Word"
begin

text \<open>
  Shared vocabulary of the development: the machine types of Go (\<open>byte\<close>, \<open>int32\<close>,
  \<open>int64\<close>), the errors the program creates or passes on, the ways a Go statement can end
  (it returns, it panics, it blocks for ever), big-endian encoding of 32-bit words, decimal
  formatting, \<open>strings\<close> helpers, and the generic list and option lemmas the component
  theories share.
\<close>

unbundle bit_operations_syntax

named_theorems go_simps \<open>unfolding and rewrite rules for the Go vocabulary\<close>

subsection \<open>Machine types and strings\<close>

type_synonym byte = "8 word"
type_synonym int32 = "32 word"
type_synonym int64 = "64 word"

text \<open>A Go string is a byte sequence, and so is an Isabelle \<open>string\<close> of 8-bit characters.\<close>

definition string_bytes :: "string \<Rightarrow> byte list" where
  "string_bytes s = map (\<lambda>c. word_of_nat (of_char c)) s"

definition bytes_string :: "byte list \<Rightarrow> string" where
  "bytes_string bs = map (\<lambda>b. char_of (unat b)) bs"

lemma char_of_byte [simp]: "char_of (unat (word_of_nat (of_char c) :: byte)) = c"
proof -
  have "of_char c < (256::nat)" by simp
  then have "unat (word_of_nat (of_char c) :: byte) = of_char c"
    by (simp add: unat_of_nat)
  then show ?thesis by simp
qed

lemma bytes_string_inverse [simp]: "bytes_string (string_bytes s) = s"
  by (simp add: string_bytes_def bytes_string_def map_idI)

lemma length_string_bytes [simp]: "length (string_bytes s) = length s"
  by (simp add: string_bytes_def)

subsection \<open>Errors, panics and blocking\<close>

text \<open>
  \<open>TransportException t m\<close> is a \<open>thrift.TTransportException\<close> with type id \<open>t\<close> and
  message \<open>m\<close>; \<open>ErrorString\<close> is what \<open>errors.New\<close> and \<open>fmt.Errorf\<close> return.
\<close>

datatype go_error =
    IoEOF
  | IoErrUnexpectedEOF
  | IoErrShortWrite
  | ErrorString string
  | TransportException int32 string

datatype go_panic =
    IndexOutOfRange
  | SliceBounds
  | NilDereference
  | SendOnClosedChannel
  | CloseOfClosedChannel
  | NegativeWaitGroup
  | PanicMsg string

text \<open>
  How a Go call ends: it returns a value, it panics, or it blocks with nobody left to wake it
  (a send on a full channel, a \<open>WaitGroup.Wait\<close> on a positive counter).
\<close>

datatype 'a outcome = Ret 'a | Panic go_panic | Block

fun obind :: "'a outcome \<Rightarrow> ('a \<Rightarrow> 'b outcome) \<Rightarrow> 'b outcome" where
  "obind (Ret x) f = f x"
| "obind (Panic p) f = Panic p"
| "obind Block f = Block"

lemma obind_eq_Ret [simp]:
  "obind m f = Ret y \<longleftrightarrow> (\<exists>x. m = Ret x \<and> f x = Ret y)"
  by (cases m) auto

lemma obind_assoc [simp]: "obind (obind m f) g = obind m (\<lambda>x. obind (f x) g)"
  by (cases m) auto

lemma obind_Ret_right [simp]: "obind m Ret = m"
  by (cases m) auto

fun error_text :: "go_error \<Rightarrow> string" where
  "error_text IoEOF = ''EOF''"
| "error_text IoErrUnexpectedEOF = ''unexpected EOF''"
| "error_text IoErrShortWrite = ''short write''"
| "error_text (ErrorString s) = s"
| "error_text (TransportException t s) = s"

subsection \<open>encoding/binary: big-endian 32-bit words\<close>

definition put_uint32 :: "32 word \<Rightarrow> byte list" where
  "put_uint32 w = [ucast (drop_bit 24 w), ucast (drop_bit 16 w), ucast (drop_bit 8 w), ucast w]"

fun get_uint32 :: "byte list \<Rightarrow> 32 word" where
  "get_uint32 (a # b # c # d # _) =
     push_bit 24 (ucast a) OR push_bit 16 (ucast b) OR push_bit 8 (ucast c) OR ucast d"
| "get_uint32 _ = 0"

lemma length_put_uint32 [simp]: "length (put_uint32 w) = 4"
  by (simp add: put_uint32_def)

lemma put_uint32_Cons: "\<exists>a b c d. put_uint32 w = [a, b, c, d]"
  by (simp add: put_uint32_def)

lemma get_put_uint32_append [simp]: "get_uint32 (put_uint32 w @ rest) = w"
proof (rule bit_word_eqI)
  fix n assume n: "n < LENGTH(32)"
  consider "n < 8" | "8 \<le> n" "n < 16" | "16 \<le> n" "n < 24" | "24 \<le> n" "n < 32"
    using n by fastforce
  then show "bit (get_uint32 (put_uint32 w @ rest)) n = bit w n"
    by cases (auto simp: put_uint32_def bit_simps)
qed

lemma get_put_uint32 [simp]: "get_uint32 (put_uint32 w) = w"
  using get_put_uint32_append [of w "[]"] by simp

lemma unat_of_nat_uint32 [simp]: "n < 2 ^ 32 \<Longrightarrow> unat (of_nat n :: 32 word) = n"
  by (simp add: unat_of_nat)

subsection \<open>fmt: decimal formatting\<close>

fun dec_digits :: "nat \<Rightarrow> string" where
  "dec_digits n = (if n < 10 then [char_of (48 + n)]
     else dec_digits (n div 10) @ [char_of (48 + n mod 10)])"

declare dec_digits.simps [simp del]

definition fmt_d :: "int \<Rightarrow> string" where
  "fmt_d i = (if i < 0 then ''-'' @ dec_digits (nat (- i)) else dec_digits (nat i))"

text \<open>A number with leading zeros.\<close>

definition pad :: "nat \<Rightarrow> nat \<Rightarrow> string" where
  "pad k n = replicate (k - length (dec_digits n)) (CHR ''0'') @ dec_digits n"

subsection \<open>strings: index, split, contains, prefix, replace\<close>

text \<open>\<open>string_index sep s\<close> is the position of the first occurrence of a non-empty \<open>sep\<close>.\<close>

fun string_index :: "string \<Rightarrow> string \<Rightarrow> nat option" where
  "string_index sep [] = (if sep = [] then Some 0 else None)"
| "string_index sep (c # cs) =
     (if take (length sep) (c # cs) = sep then Some 0
      else map_option Suc (string_index sep cs))"

definition strings_Contains :: "string \<Rightarrow> string \<Rightarrow> bool" where
  "strings_Contains s sub \<longleftrightarrow> string_index sub s \<noteq> None"

definition strings_HasPrefix :: "string \<Rightarrow> string \<Rightarrow> bool" where
  "strings_HasPrefix s p \<longleftrightarrow> take (length p) s = p"

text \<open>\<open>strings.SplitN (s, sep, 2)\<close> for a non-empty separator.\<close>

definition strings_SplitN2 :: "string \<Rightarrow> string \<Rightarrow> string list" where
  "strings_SplitN2 s sep =
     (case string_index sep s of
        None \<Rightarrow> [s]
      | Some i \<Rightarrow> [take i s, drop (i + length sep) s])"

lemma string_index_char_None: "string_index [c] s = None \<longleftrightarrow> c \<notin> set s"
  by (induction s) auto

lemma string_index_char_append:
  "c \<notin> set p \<Longrightarrow> string_index [c] (p @ c # s) = Some (length p)"
  by (induction p) auto

lemma string_index_char_Some:
  "string_index [c] s = Some i \<Longrightarrow> i < length s \<and> s ! i = c \<and> c \<notin> set (take i s)"
  by (induction s arbitrary: i) (auto split: if_splits)

lemma SplitN2_char_none: "c \<notin> set s \<Longrightarrow> strings_SplitN2 s [c] = [s]"
  by (simp add: strings_SplitN2_def string_index_char_None [THEN iffD2])

lemma SplitN2_char_some: "c \<notin> set p \<Longrightarrow> strings_SplitN2 (p @ c # s) [c] = [p, s]"
  by (simp add: strings_SplitN2_def string_index_char_append)

lemma Contains_char: "strings_Contains s [c] \<longleftrightarrow> c \<in> set s"
  using string_index_char_None [of c s] by (auto simp: strings_Contains_def)

subsection \<open>Indexing a Go slice\<close>

definition go_get :: "'a list \<Rightarrow> int \<Rightarrow> 'a outcome" where
  "go_get xs i = (if 0 \<le> i \<and> i < int (length xs) then Ret (xs ! nat i) else Panic IndexOutOfRange)"

definition go_set :: "'a list \<Rightarrow> int \<Rightarrow> 'a \<Rightarrow> 'a list outcome" where
  "go_set xs i v =
     (if 0 \<le> i \<and> i < int (length xs) then Ret (xs[nat i := v]) else Panic IndexOutOfRange)"

definition go_prefix :: "'a list \<Rightarrow> int \<Rightarrow> 'a list outcome" where
  "go_prefix xs n =
     (if 0 \<le> n \<and> n \<le> int (length xs) then Ret (take (nat n) xs) else Panic SliceBounds)"

lemma go_get_nth [simp]: "i < length xs \<Longrightarrow> go_get xs (int i) = Ret (xs ! i)"
  by (simp add: go_get_def)

lemma go_set_nth [simp]: "i < length xs \<Longrightarrow> go_set xs (int i) v = Ret (xs[i := v])"
  by (simp add: go_set_def)

lemma go_prefix_take [simp]: "n \<le> length xs \<Longrightarrow> go_prefix xs (int n) = Ret (take n xs)"
  by (simp add: go_prefix_def)

subsection \<open>Lists\<close>

text \<open>Writing \<open>bs\<close> over the elements of \<open>xs\<close> that start at \<open>i\<close>.\<close>

definition overwrite :: "'a list \<Rightarrow> nat \<Rightarrow> 'a list \<Rightarrow> 'a list" where
  "overwrite xs i bs = take i xs @ bs @ drop (i + length bs) xs"

lemma length_overwrite [simp]:
  "i + length bs \<le> length xs \<Longrightarrow> length (overwrite xs i bs) = length xs"
  by (simp add: overwrite_def)

lemma overwrite_Nil [simp]: "overwrite xs i [] = xs"
  by (simp add: overwrite_def)

lemma overwrite_append:
  "i + length as + length bs \<le> length xs \<Longrightarrow>
     overwrite (overwrite xs i as) (i + length as) bs = overwrite xs i (as @ bs)"
  by (simp add: overwrite_def ac_simps)

lemma take_overwrite_before: "n \<le> i \<Longrightarrow> i \<le> length xs \<Longrightarrow> take n (overwrite xs i bs) = take n xs"
  by (simp add: overwrite_def min_def)

lemma drop_overwrite:
  "i \<le> length xs \<Longrightarrow> drop i (overwrite xs i bs) = bs @ drop (i + length bs) xs"
  by (simp add: overwrite_def)

subsection \<open>Maps\<close>

text \<open>Deleting the only key of a value deletes the value.\<close>

lemma ran_remove:
  assumes "m k = Some v" and "\<And>k'. m k' = Some v \<Longrightarrow> k' = k"
  shows "ran (m(k := None)) = ran m - {v}"
proof
  show "ran (m(k := None)) \<subseteq> ran m - {v}"
  proof
    fix x assume "x \<in> ran (m(k := None))"
    then obtain k' where "k' \<noteq> k" "m k' = Some x" by (auto simp: ran_def split: if_splits)
    then show "x \<in> ran m - {v}" using assms(2) [of k'] by (auto simp: ran_def)
  qed
  show "ran m - {v} \<subseteq> ran (m(k := None))"
  proof
    fix x assume "x \<in> ran m - {v}"
    then obtain k' where "m k' = Some x" "x \<noteq> v" by (auto simp: ran_def)
    then have "(m(k := None)) k' = Some x" using assms(1) by auto
    then show "x \<in> ran (m(k := None))" by (rule ranI)
  qed
qed

end
