(* ===== verification/Thrift_Lib.thy ===== *)
theory Thrift_Lib
  imports Go_Prelude
begin

text \<open>
  The Apache Thrift Go library is not part of the repository. What the program calls of it is
  a record of functions and constants, passed to every definition that uses it. The
  hypotheses the theorems need of it are named here: they are the documented layout of a
  strict binary-protocol message header (version and type, name length, name, sequence id)
  and the documented separator of multiplexed names. \<open>strict_binary\<close> instantiates the
  record with that layout, so that the hypotheses are seen to be satisfiable and concrete
  messages can be evaluated.
\<close>

record thrift_lib =
  WriteMessageBegin :: "string \<Rightarrow> int32 \<Rightarrow> int32 \<Rightarrow> byte list list"
  ReadMessageBegin :: "byte list \<Rightarrow> string \<times> int32 \<times> int32 \<times> go_error option"
  WriteMessageEnd :: "byte list list"
  WriteApplicationException :: "int32 \<Rightarrow> string \<Rightarrow> byte list list"
  MULTIPLEXED_SEPARATOR :: string
  EXCEPTION :: int32
  UNKNOWN_APPLICATION_EXCEPTION :: int32
  INTERNAL_ERROR :: int32
  UNKNOWN_TRANSPORT_EXCEPTION :: int32
  NOT_OPEN :: int32
  ALREADY_OPEN :: int32
  TransportExceptionFromError :: "go_error \<Rightarrow> go_error"

text \<open>
  \<open>WriteMessageBegin T name ty seq\<close> is the sequence of \<open>Write\<close> calls that
  \<open>TBinaryProtocol.WriteMessageBegin\<close> makes on its transport. \<open>msg_header\<close> is their
  concatenation.
\<close>

definition msg_header :: "thrift_lib \<Rightarrow> string \<Rightarrow> int32 \<Rightarrow> int32 \<Rightarrow> byte list" where
  "msg_header T name ty seq = concat (WriteMessageBegin T name ty seq)"

text \<open>A message type fits into the byte the header has for it; a name's length is an \<open>int32\<close>.\<close>

definition msg_ok :: "string \<Rightarrow> int32 \<Rightarrow> bool" where
  "msg_ok name ty \<longleftrightarrow> length name < 2 ^ 31 \<and> unat ty < 256"

definition header_length_law :: "thrift_lib \<Rightarrow> bool" where
  "header_length_law T \<longleftrightarrow>
     (\<forall>name ty seq. msg_ok name ty \<longrightarrow> length (msg_header T name ty seq) = 12 + length name)"

definition header_read_law :: "thrift_lib \<Rightarrow> bool" where
  "header_read_law T \<longleftrightarrow>
     (\<forall>name ty seq rest. msg_ok name ty \<longrightarrow>
        ReadMessageBegin T (msg_header T name ty seq @ rest) = (name, ty, seq, None))"

definition thrift_ok :: "thrift_lib \<Rightarrow> bool" where
  "thrift_ok T \<longleftrightarrow> header_length_law T \<and> header_read_law T \<and>
     MULTIPLEXED_SEPARATOR T = '':'' \<and> unat (EXCEPTION T) < 256"

lemma length_header [simp]:
  "thrift_ok T \<Longrightarrow> msg_ok name ty \<Longrightarrow> length (msg_header T name ty seq) = 12 + length name"
  by (simp add: thrift_ok_def header_length_law_def)

lemma read_header [simp]:
  "thrift_ok T \<Longrightarrow> msg_ok name ty \<Longrightarrow>
     ReadMessageBegin T (msg_header T name ty seq @ rest) = (name, ty, seq, None)"
  by (simp add: thrift_ok_def header_read_law_def)

lemma thrift_ok_sep [simp]: "thrift_ok T \<Longrightarrow> MULTIPLEXED_SEPARATOR T = '':''"
  by (simp add: thrift_ok_def)

lemma msg_ok_shorter: "msg_ok name ty \<Longrightarrow> length name' \<le> length name \<Longrightarrow> msg_ok name' ty"
  by (simp add: msg_ok_def)

subsection \<open>The documented strict encoding as an instance\<close>

definition sb_write_begin :: "string \<Rightarrow> int32 \<Rightarrow> int32 \<Rightarrow> byte list list" where
  "sb_write_begin name ty seq =
     [put_uint32 (0x80010000 OR ty), put_uint32 (of_nat (length name)), string_bytes name,
      put_uint32 seq]"

definition sb_read_begin :: "byte list \<Rightarrow> string \<times> int32 \<times> int32 \<times> go_error option" where
  "sb_read_begin bs =
     (let v = get_uint32 bs; n = unat (get_uint32 (drop 4 bs)) in
      if length bs < 8 \<or> v AND 0xFFFF0000 \<noteq> 0x80010000 \<or> length bs < 12 + n
      then ([], 0, 0, Some (ErrorString ''bad message header''))
      else (bytes_string (take n (drop 8 bs)), v AND 0xFF, get_uint32 (drop (8 + n) bs), None))"

definition strict_binary :: thrift_lib where
  "strict_binary =
     \<lparr>WriteMessageBegin = sb_write_begin, ReadMessageBegin = sb_read_begin, WriteMessageEnd = [],
      WriteApplicationException = (\<lambda>t s. [[11, 0, 1], put_uint32 (of_nat (length s)), string_bytes s,
         [8, 0, 2], put_uint32 t, [0]]),
      MULTIPLEXED_SEPARATOR = '':'', EXCEPTION = 3, UNKNOWN_APPLICATION_EXCEPTION = 0,
      INTERNAL_ERROR = 6, UNKNOWN_TRANSPORT_EXCEPTION = 0, NOT_OPEN = 1, ALREADY_OPEN = 2,
      TransportExceptionFromError =
        (\<lambda>e. case e of TransportException t s \<Rightarrow> e
           | IoEOF \<Rightarrow> TransportException 4 (error_text IoEOF)
           | _ \<Rightarrow> TransportException 0 (error_text e))\<rparr>"

lemma version_word:
  assumes "unat (ty :: int32) < 256"
  shows "(0x80010000 OR ty) AND 0xFFFF0000 = 0x80010000" and "(0x80010000 OR ty) AND 0xFF = ty"
proof -
  have "ty < 256" using assms by (simp add: word_less_nat_alt)
  then have m: "ty AND 0xFF = ty"
    using less_mask_eq [of ty 8] by (simp add: mask_eq_exp_minus_1)
  have "(ty AND 0xFF) AND 0xFFFF0000 = 0"
    by (simp add: and.assoc)
  then have z: "ty AND 0xFFFF0000 = 0"
    by (simp only: m)
  show "(0x80010000 OR ty) AND 0xFFFF0000 = 0x80010000"
    using z by (simp add: bit.conj_disj_distrib2)
  show "(0x80010000 OR ty) AND 0xFF = ty"
    using m by (simp add: bit.conj_disj_distrib2)
qed

lemma sb_roundtrip:
  assumes "msg_ok name ty"
  shows "sb_read_begin (concat (sb_write_begin name ty seq) @ rest) = (name, ty, seq, None)"
  using assms
  by (simp add: sb_read_begin_def sb_write_begin_def Let_def msg_ok_def version_word)

lemma thrift_ok_strict_binary [simp]: "thrift_ok strict_binary"
  unfolding thrift_ok_def header_length_law_def header_read_law_def
  by (simp add: msg_header_def strict_binary_def sb_roundtrip) (simp add: sb_write_begin_def)

end
