(* ===== verification/Go_Memory.thy ===== *)
theory Go_Memory
  imports Go_Prelude
begin

text \<open>
  Byte slices with their aliasing. A slice is a header (backing array, offset, length,
  capacity); the bytes are in a store of backing arrays. The two free lists of
  \<open>proxy/memory_alloc.go\<close> are process globals and live in the same record. On top of it:
  slicing, \<open>bytes.Buffer\<close> used for writing, and \<open>proxy/memory_buffer.go\<close>.
\<close>

subsection \<open>Slices and backing arrays\<close>

record slice =
  s_arr :: nat
  s_off :: nat
  s_len :: nat
  s_cap :: nat

record memory =
  arrays :: "nat \<Rightarrow> byte list"
  next_arr :: nat
  memoryBuffer1024 :: "slice list"
  memoryBuffer2048 :: "slice list"

definition empty_memory :: memory where
  "empty_memory = \<lparr>arrays = (\<lambda>_. []), next_arr = 0, memoryBuffer1024 = [], memoryBuffer2048 = []\<rparr>"

definition slice_bytes :: "memory \<Rightarrow> slice \<Rightarrow> byte list" where
  "slice_bytes m s = take (s_len s) (drop (s_off s) (arrays m (s_arr s)))"

definition slice_ok :: "memory \<Rightarrow> slice \<Rightarrow> bool" where
  "slice_ok m s \<longleftrightarrow> s_arr s < next_arr m \<and> s_len s \<le> s_cap s \<and>
     s_off s + s_cap s \<le> length (arrays m (s_arr s))"

text \<open>\<open>make([]byte, n, c)\<close>, the slice expression \<open>s[i:j]\<close>, and a store into an array.\<close>

definition make_slice :: "memory \<Rightarrow> nat \<Rightarrow> nat \<Rightarrow> slice \<times> memory" where
  "make_slice m n c =
     (\<lparr>s_arr = next_arr m, s_off = 0, s_len = n, s_cap = c\<rparr>,
      m\<lparr>arrays := (arrays m)(next_arr m := replicate c 0), next_arr := Suc (next_arr m)\<rparr>)"

definition subslice :: "slice \<Rightarrow> nat \<Rightarrow> nat \<Rightarrow> slice outcome" where
  "subslice s i j =
     (if i \<le> j \<and> j \<le> s_cap s
      then Ret (s\<lparr>s_off := s_off s + i, s_len := j - i, s_cap := s_cap s - i\<rparr>)
      else Panic SliceBounds)"

definition mem_store :: "memory \<Rightarrow> nat \<Rightarrow> nat \<Rightarrow> byte list \<Rightarrow> memory" where
  "mem_store m a i bs = m\<lparr>arrays := (arrays m)(a := overwrite (arrays m a) i bs)\<rparr>"

text \<open>A fresh slice that holds given bytes (a \<open>[]byte\<close> literal or a conversion).\<close>

definition slice_of_bytes :: "memory \<Rightarrow> byte list \<Rightarrow> slice \<times> memory" where
  "slice_of_bytes m bs =
     (\<lparr>s_arr = next_arr m, s_off = 0, s_len = length bs, s_cap = length bs\<rparr>,
      m\<lparr>arrays := (arrays m)(next_arr m := bs), next_arr := Suc (next_arr m)\<rparr>)"

subsection \<open>bytes.Buffer, write side\<close>

text \<open>
  A buffer over \<open>buf\<close> from which nothing has been read is the slice itself. A write that
  fits in the capacity goes into the shared backing array; one that does not moves the
  contents to a new array of capacity \<open>2 * cap + n\<close>.
\<close>

definition buf_write :: "memory \<Rightarrow> slice \<Rightarrow> byte list \<Rightarrow> slice \<times> memory" where
  "buf_write m s bs =
     (let n = length bs in
      if s_len s + n \<le> s_cap s
      then (s\<lparr>s_len := s_len s + n\<rparr>, mem_store m (s_arr s) (s_off s + s_len s) bs)
      else let (s', m') = make_slice m (s_len s + n) (2 * s_cap s + n)
           in (s', mem_store m' (s_arr s') 0 (slice_bytes m s @ bs)))"

fun buf_writes :: "memory \<Rightarrow> slice \<Rightarrow> byte list list \<Rightarrow> slice \<times> memory" where
  "buf_writes m s [] = (s, m)"
| "buf_writes m s (bs # bss) = (let (s', m') = buf_write m s bs in buf_writes m' s' bss)"

subsection \<open>proxy/memory_buffer.go\<close>

record tmemory_buffer =
  Buffer :: slice
  tmb_size :: nat

definition NewTMemoryBufferLen :: "memory \<Rightarrow> nat \<Rightarrow> tmemory_buffer \<times> memory" where
  "NewTMemoryBufferLen m n =
     (let (buf, m') = make_slice m 0 n in (\<lparr>Buffer = buf, tmb_size = n\<rparr>, m'))"

definition NewTMemoryBufferWithBuf :: "slice \<Rightarrow> tmemory_buffer" where
  "NewTMemoryBufferWithBuf buf = \<lparr>Buffer = buf, tmb_size = s_len buf\<rparr>"

definition tmb_Write :: "memory \<Rightarrow> tmemory_buffer \<Rightarrow> byte list list \<Rightarrow> tmemory_buffer \<times> memory" where
  "tmb_Write m b bss = (let (s, m') = buf_writes m (Buffer b) bss in (b\<lparr>Buffer := s\<rparr>, m'))"

definition tmb_IsOpen :: "tmemory_buffer \<Rightarrow> bool" where
  "tmb_IsOpen b = True"

definition tmb_Close :: "tmemory_buffer \<Rightarrow> tmemory_buffer" where
  "tmb_Close b = b\<lparr>Buffer := (Buffer b)\<lparr>s_len := 0\<rparr>\<rparr>"

subsection \<open>Slice lemmas\<close>

lemma length_slice_bytes [simp]: "slice_ok m s \<Longrightarrow> length (slice_bytes m s) = s_len s"
  by (auto simp: slice_ok_def slice_bytes_def min_def)

lemma slice_ok_make:
  "n \<le> c \<Longrightarrow> make_slice m n c = (s, m') \<Longrightarrow> slice_ok m' s"
  by (auto simp: make_slice_def slice_ok_def)

lemma slice_bytes_of_bytes [simp]:
  "slice_of_bytes m bs = (s, m') \<Longrightarrow> slice_bytes m' s = bs"
  by (auto simp: slice_of_bytes_def slice_bytes_def)

lemma slice_ok_of_bytes: "slice_of_bytes m bs = (s, m') \<Longrightarrow> slice_ok m' s"
  by (auto simp: slice_of_bytes_def slice_ok_def)

lemma mem_store_sel [simp]:
  "next_arr (mem_store m a i bs) = next_arr m"
  "memoryBuffer1024 (mem_store m a i bs) = memoryBuffer1024 m"
  "memoryBuffer2048 (mem_store m a i bs) = memoryBuffer2048 m"
  "b \<noteq> a \<Longrightarrow> arrays (mem_store m a i bs) b = arrays m b"
  "arrays (mem_store m a i bs) a = overwrite (arrays m a) i bs"
  by (simp_all add: mem_store_def)

lemma mem_store_Nil [simp]: "mem_store m a i [] = m"
  by (simp add: mem_store_def)

lemma mem_store_append:
  "i + length as + length bs \<le> length (arrays m a) \<Longrightarrow>
     mem_store (mem_store m a i as) a (i + length as) bs = mem_store m a i (as @ bs)"
  by (simp add: mem_store_def overwrite_append)

lemma slice_ok_store:
  "i + length bs \<le> length (arrays m a) \<Longrightarrow> slice_ok m s \<Longrightarrow> slice_ok (mem_store m a i bs) s"
  by (auto simp: slice_ok_def mem_store_def)

lemma slice_bytes_store_other [simp]:
  "s_arr s \<noteq> a \<Longrightarrow> slice_bytes (mem_store m a i bs) s = slice_bytes m s"
  by (simp add: slice_bytes_def)

lemma slice_bytes_store_prefix:
  assumes "slice_ok m s" and "length bs \<le> s_len s"
  shows "slice_bytes (mem_store m (s_arr s) (s_off s) bs) s = bs @ drop (length bs) (slice_bytes m s)"
  using assms
  by (simp add: slice_bytes_def slice_ok_def drop_overwrite drop_take add.commute)

lemma subslice_Ret:
  "subslice s i j = Ret t \<longleftrightarrow>
     i \<le> j \<and> j \<le> s_cap s \<and> t = s\<lparr>s_off := s_off s + i, s_len := j - i, s_cap := s_cap s - i\<rparr>"
  by (auto simp: subslice_def)

lemma slice_ok_subslice: "slice_ok m s \<Longrightarrow> subslice s i j = Ret t \<Longrightarrow> slice_ok m t"
  by (auto simp: subslice_Ret slice_ok_def)

lemma slice_bytes_subslice:
  "slice_ok m s \<Longrightarrow> subslice s i j = Ret t \<Longrightarrow> j \<le> s_len s \<Longrightarrow>
     slice_bytes m t = take (j - i) (drop i (slice_bytes m s))"
  by (auto simp: subslice_Ret slice_bytes_def drop_take min_def add.commute)

subsection \<open>Buffer lemmas\<close>

lemma buf_write_fits:
  "s_len s + length bs \<le> s_cap s \<Longrightarrow>
     buf_write m s bs = (s\<lparr>s_len := s_len s + length bs\<rparr>, mem_store m (s_arr s) (s_off s + s_len s) bs)"
  by (simp add: buf_write_def Let_def)

text \<open>Writes that fit into the capacity together amount to one store of their concatenation.\<close>

lemma buf_writes_fit:
  assumes "slice_ok m s" and "s_len s + length (concat bss) \<le> s_cap s"
  shows "buf_writes m s bss =
    (s\<lparr>s_len := s_len s + length (concat bss)\<rparr>,
     mem_store m (s_arr s) (s_off s + s_len s) (concat bss))"
  using assms
proof (induction bss arbitrary: m s)
  case Nil
  then show ?case by simp
next
  case (Cons bs bss)
  let ?m = "mem_store m (s_arr s) (s_off s + s_len s) bs"
  let ?s = "s\<lparr>s_len := s_len s + length bs\<rparr>"
  have w: "buf_write m s bs = (?s, ?m)"
    using Cons.prems by (intro buf_write_fits) simp
  have ok: "slice_ok ?m ?s" and cap: "s_len ?s + length (concat bss) \<le> s_cap ?s"
    using Cons.prems by (auto simp: slice_ok_def)
  have st: "mem_store ?m (s_arr s) (s_off s + (s_len s + length bs)) (concat bss)
      = mem_store m (s_arr s) (s_off s + s_len s) (bs @ concat bss)"
    using Cons.prems mem_store_append [of "s_off s + s_len s" bs "concat bss" m "s_arr s"]
    by (simp add: slice_ok_def add.assoc)
  show ?case
    using Cons.IH [OF ok cap] by (simp add: w st add.assoc)
qed

text \<open>Whether or not it grows, a buffer's contents are what was written to it.\<close>

lemma buf_write_contents:
  assumes ok: "slice_ok m s" and w: "buf_write m s bs = (s', m')"
  shows "slice_bytes m' s' = slice_bytes m s @ bs \<and> slice_ok m' s' \<and> next_arr m \<le> next_arr m'"
proof (cases "s_len s + length bs \<le> s_cap s")
  case True
  then have s': "s' = s\<lparr>s_len := s_len s + length bs\<rparr>"
    and m': "m' = mem_store m (s_arr s) (s_off s + s_len s) bs"
    using w by (auto simp: buf_write_fits)
  have "take (s_len s + length bs) (drop (s_off s) (overwrite (arrays m (s_arr s)) (s_off s + s_len s) bs))
      = take (s_len s) (drop (s_off s) (arrays m (s_arr s))) @ bs"
    using ok True by (simp add: overwrite_def slice_ok_def take_drop add.commute)
  then show ?thesis
    using ok True by (auto simp: s' m' slice_bytes_def slice_ok_def)
next
  case False
  then show ?thesis
    using ok w
    by (auto simp: buf_write_def Let_def make_slice_def slice_ok_def slice_bytes_def
        mem_store_def overwrite_def)
qed

lemma buf_writes_contents:
  assumes "slice_ok m s" and "buf_writes m s bss = (s', m')"
  shows "slice_bytes m' s' = slice_bytes m s @ concat bss \<and> slice_ok m' s'"
  using assms
proof (induction bss arbitrary: m s)
  case Nil
  then show ?case by simp
next
  case (Cons bs bss)
  obtain s1 m1 where w: "buf_write m s bs = (s1, m1)" by (cases "buf_write m s bs")
  show ?case
    using Cons.IH [of m1 s1] Cons.prems buf_write_contents [OF Cons.prems(1) w] w by simp
qed

text \<open>A buffer write touches no array but its own, and leaves the free lists alone.\<close>

lemma buf_write_frame:
  assumes "buf_write m s bs = (s', m')" and "a < next_arr m" and "a \<noteq> s_arr s"
  shows "arrays m' a = arrays m a \<and> a \<noteq> s_arr s' \<and> a < next_arr m'
    \<and> memoryBuffer1024 m' = memoryBuffer1024 m \<and> memoryBuffer2048 m' = memoryBuffer2048 m"
  using assms by (auto simp: buf_write_def Let_def make_slice_def mem_store_def split: if_splits)

lemma buf_writes_frame:
  assumes "buf_writes m s bss = (s', m')" and "a < next_arr m" and "a \<noteq> s_arr s"
  shows "arrays m' a = arrays m a \<and> a \<noteq> s_arr s' \<and> a < next_arr m'
    \<and> memoryBuffer1024 m' = memoryBuffer1024 m \<and> memoryBuffer2048 m' = memoryBuffer2048 m"
  using assms
proof (induction bss arbitrary: m s)
  case Nil
  then show ?case by simp
next
  case (Cons bs bss)
  obtain s1 m1 where w: "buf_write m s bs = (s1, m1)" by (cases "buf_write m s bs")
  show ?case
    using Cons.IH [of m1 s1] Cons.prems buf_write_frame [OF w Cons.prems(2,3)] w by simp
qed

lemma buf_writes_next:
  assumes "buf_writes m s bss = (s', m')"
  shows "next_arr m \<le> next_arr m'"
  using assms
proof (induction bss arbitrary: m s)
  case Nil
  then show ?case by simp
next
  case (Cons bs bss)
  obtain s1 m1 where w: "buf_write m s bs = (s1, m1)" by (cases "buf_write m s bs")
  then have "next_arr m \<le> next_arr m1"
    by (auto simp: buf_write_def make_slice_def Let_def split: if_splits prod.splits)
  then show ?case using Cons.IH [of m1 s1] Cons.prems w by simp
qed

end
