(* ===== verification/Memory_Alloc.thy ===== *)
theory Memory_Alloc
  imports Go_Memory
begin

text \<open>
  \<open>proxy/memory_alloc.go\<close>: the free lists of 1024- and 2048-byte slices, their invariant,
  and the interface the rest of the program relies on: as long as a slice is given back at
  most once and only by its holder, no two holders share a backing array.
\<close>

definition DEFAULT_SLICE_LEN :: nat where
  "DEFAULT_SLICE_LEN = 1024"

text \<open>Both channels are made with room for 1000 slices.\<close>

definition POOL_CAP :: nat where
  "POOL_CAP = 1000"

definition debugBuffer1024Size :: "memory \<Rightarrow> nat" where
  "debugBuffer1024Size m = length (memoryBuffer1024 m)"

definition debugBuffer2048Size :: "memory \<Rightarrow> nat" where
  "debugBuffer2048Size m = length (memoryBuffer2048 m)"

definition initSlice :: "slice \<Rightarrow> nat \<Rightarrow> slice" where
  "initSlice s initSize = (if s_len s = initSize then s else s\<lparr>s_len := initSize\<rparr>)"

definition getSlice :: "memory \<Rightarrow> nat \<Rightarrow> nat \<Rightarrow> (slice \<times> memory) outcome" where
  "getSlice m initSize capacity =
     (if initSize > capacity then Panic (PanicMsg ''Invalid Slice Size'')
      else if capacity < DEFAULT_SLICE_LEN then
        (case memoryBuffer1024 m of
           [] \<Rightarrow> Ret (make_slice m initSize DEFAULT_SLICE_LEN)
         | result # rest \<Rightarrow> Ret (initSlice result initSize, m\<lparr>memoryBuffer1024 := rest\<rparr>))
      else if capacity < 2048 then
        (case memoryBuffer2048 m of
           [] \<Rightarrow> Ret (make_slice m initSize 2048)
         | result # rest \<Rightarrow> Ret (initSlice result initSize, m\<lparr>memoryBuffer2048 := rest\<rparr>))
      else Ret (make_slice m initSize capacity))"

text \<open>The address of a slice's first byte.\<close>

definition getSliceId :: "slice \<Rightarrow> nat \<times> nat" where
  "getSliceId s = (s_arr s, s_off s)"

definition returnSlice :: "memory \<Rightarrow> slice \<Rightarrow> bool \<times> memory" where
  "returnSlice m sl =
     (if s_cap sl = 1024 then
        (if length (memoryBuffer1024 m) < POOL_CAP
         then (True, m\<lparr>memoryBuffer1024 := memoryBuffer1024 m @ [sl]\<rparr>) else (False, m))
      else if s_cap sl = 2048 then
        (if length (memoryBuffer2048 m) < POOL_CAP
         then (True, m\<lparr>memoryBuffer2048 := memoryBuffer2048 m @ [sl]\<rparr>) else (False, m))
      else (False, m))"

lemmas alloc_defs = DEFAULT_SLICE_LEN_def POOL_CAP_def initSlice_def getSlice_def returnSlice_def

subsection \<open>Invariant of the free lists\<close>

definition pooled_arrays :: "memory \<Rightarrow> nat list" where
  "pooled_arrays m = map s_arr (memoryBuffer1024 m @ memoryBuffer2048 m)"

definition pool_ok :: "memory \<Rightarrow> bool" where
  "pool_ok m \<longleftrightarrow>
     (\<forall>s \<in> set (memoryBuffer1024 m). slice_ok m s \<and> s_cap s = 1024) \<and>
     (\<forall>s \<in> set (memoryBuffer2048 m). slice_ok m s \<and> s_cap s = 2048) \<and>
     length (memoryBuffer1024 m) \<le> POOL_CAP \<and> length (memoryBuffer2048 m) \<le> POOL_CAP \<and>
     distinct (pooled_arrays m)"

lemma pool_ok_empty [simp]: "pool_ok empty_memory"
  by (simp add: pool_ok_def pooled_arrays_def empty_memory_def)

lemma make_slice_frame:
  assumes "make_slice m n c = (s, m')" and "n \<le> c"
  shows "slice_ok m' s" "s_len s = n" "s_cap s = c" "s_arr s = next_arr m"
    "pooled_arrays m' = pooled_arrays m" "slice_ok m t \<Longrightarrow> slice_ok m' t"
    "slice_ok m t \<Longrightarrow> slice_bytes m' t = slice_bytes m t"
  using assms by (auto simp: make_slice_def slice_ok_def pooled_arrays_def slice_bytes_def)

lemma pool_ok_arrays_below: "pool_ok m \<Longrightarrow> a \<in> set (pooled_arrays m) \<Longrightarrow> a < next_arr m"
  by (auto simp: pool_ok_def pooled_arrays_def slice_ok_def)

lemma pool_ok_make:
  assumes "pool_ok m" and "make_slice m n c = (s, m')" and "n \<le> c"
  shows "pool_ok m'" and "s_arr s \<notin> set (pooled_arrays m')"
proof -
  note fr = make_slice_frame [OF assms(2,3)]
  have "memoryBuffer1024 m' = memoryBuffer1024 m" "memoryBuffer2048 m' = memoryBuffer2048 m"
    using assms(2) by (auto simp: make_slice_def)
  then show "pool_ok m'"
    using assms(1) fr(5,6) by (simp add: pool_ok_def)
  show "s_arr s \<notin> set (pooled_arrays m')"
    using fr(4,5) pool_ok_arrays_below [OF assms(1)] by auto
qed

text \<open>What \<open>getSlice\<close> hands out, whichever branch it takes.\<close>

lemma getSlice_cases:
  assumes "getSlice m n c = Ret (s, m')"
  obtains (fresh) cap where "n \<le> c" "c \<le> cap" "make_slice m n cap = (s, m')"
  | (from1024) r rest where "n \<le> c" "c < 1024" "memoryBuffer1024 m = r # rest" "s = initSlice r n"
      "m' = m\<lparr>memoryBuffer1024 := rest\<rparr>"
  | (from2048) r rest where "n \<le> c" "c < 2048" "memoryBuffer2048 m = r # rest" "s = initSlice r n"
      "m' = m\<lparr>memoryBuffer2048 := rest\<rparr>"
proof -
  consider "c < 1024" | "\<not> c < 1024" "c < 2048" | "\<not> c < 2048" by linarith
  then show thesis
  proof cases
    case 1
    with assms show thesis
      by (auto simp: getSlice_def DEFAULT_SLICE_LEN_def split: if_splits list.splits
          intro: fresh [of 1024] from1024)
  next
    case 2
    with assms show thesis
      by (auto simp: getSlice_def DEFAULT_SLICE_LEN_def split: if_splits list.splits
          intro: fresh [of 2048] from2048)
  next
    case 3
    with assms show thesis
      by (auto simp: getSlice_def DEFAULT_SLICE_LEN_def split: if_splits intro: fresh [of c])
  qed
qed

lemma getSlice_total: "n \<le> c \<Longrightarrow> \<exists>s m'. getSlice m n c = Ret (s, m')"
  by (auto simp: getSlice_def make_slice_def split: list.splits)

lemma initSlice_sel [simp]:
  "s_arr (initSlice s n) = s_arr s" "s_off (initSlice s n) = s_off s"
  "s_len (initSlice s n) = n" "s_cap (initSlice s n) = s_cap s"
  by (simp_all add: initSlice_def)

lemma getSlice_spec:
  assumes pool: "pool_ok m" and get: "getSlice m n c = Ret (s, m')"
  shows "pool_ok m' \<and> slice_ok m' s \<and> s_len s = n \<and> c \<le> s_cap s
    \<and> s_arr s \<notin> set (pooled_arrays m') \<and> set (pooled_arrays m') \<subseteq> set (pooled_arrays m)
    \<and> (\<forall>t. slice_ok m t \<and> s_arr t \<notin> set (pooled_arrays m) \<longrightarrow>
          s_arr t \<noteq> s_arr s \<and> slice_ok m' t \<and> slice_bytes m' t = slice_bytes m t)"
  using get
proof (cases rule: getSlice_cases)
  case (fresh cap)
  then have "n \<le> cap" by simp
  note fr = make_slice_frame [OF fresh(3) this] and po = pool_ok_make [OF pool fresh(3) this]
  show ?thesis
    using fresh(2) fr po by (auto simp: slice_ok_def)
next
  case (from1024 r rest)
  then show ?thesis
    using pool by (auto simp: pool_ok_def pooled_arrays_def slice_ok_def slice_bytes_def)
next
  case (from2048 r rest)
  then show ?thesis
    using pool by (auto simp: pool_ok_def pooled_arrays_def slice_ok_def slice_bytes_def)
qed

lemma returnSlice_cases:
  assumes "returnSlice m s = (b, m')"
  obtains (dropped) "\<not> b" "m' = m"
  | (kept1024) "b" "s_cap s = 1024" "length (memoryBuffer1024 m) < POOL_CAP"
      "m' = m\<lparr>memoryBuffer1024 := memoryBuffer1024 m @ [s]\<rparr>"
  | (kept2048) "b" "s_cap s = 2048" "length (memoryBuffer2048 m) < POOL_CAP"
      "m' = m\<lparr>memoryBuffer2048 := memoryBuffer2048 m @ [s]\<rparr>"
  using assms by (auto simp: returnSlice_def split: if_splits)

lemma slice_pools_irrelevant [simp]:
  "slice_ok (m\<lparr>memoryBuffer1024 := p\<rparr>) t = slice_ok m t"
  "slice_ok (m\<lparr>memoryBuffer2048 := p\<rparr>) t = slice_ok m t"
  "slice_bytes (m\<lparr>memoryBuffer1024 := p\<rparr>) t = slice_bytes m t"
  "slice_bytes (m\<lparr>memoryBuffer2048 := p\<rparr>) t = slice_bytes m t"
  by (simp_all add: slice_ok_def slice_bytes_def)

lemma returnSlice_spec:
  assumes "pool_ok m" and "slice_ok m s" and "s_arr s \<notin> set (pooled_arrays m)"
    and "returnSlice m s = (b, m')"
  shows "pool_ok m' \<and> set (pooled_arrays m') \<subseteq> insert (s_arr s) (set (pooled_arrays m))
    \<and> (\<forall>t. slice_ok m' t = slice_ok m t) \<and> (\<forall>t. slice_bytes m' t = slice_bytes m t)"
  using assms(4)
proof (cases rule: returnSlice_cases)
  case dropped
  then show ?thesis using assms(1) by auto
next
  case kept1024
  then show ?thesis using assms(1-3) by (auto simp: pool_ok_def pooled_arrays_def)
next
  case kept2048
  then show ?thesis using assms(1-3) by (auto simp: pool_ok_def pooled_arrays_def)
qed

subsection \<open>The interface of the allocator\<close>

datatype alloc_op = Get nat nat | Put nat

text \<open>
  A client of the allocator holds a list of slices: \<open>Get n c\<close> asks for one, \<open>Put i\<close> gives
  the \<open>i\<close>-th one back and forgets it.
\<close>

fun alloc_step :: "('m \<Rightarrow> nat \<Rightarrow> nat \<Rightarrow> (slice \<times> 'm) outcome) \<Rightarrow> ('m \<Rightarrow> slice \<Rightarrow> bool \<times> 'm) \<Rightarrow>
    alloc_op \<Rightarrow> 'm \<times> slice list \<Rightarrow> ('m \<times> slice list) outcome" where
  "alloc_step get put (Get n c) (m, live) = obind (get m n c) (\<lambda>(s, m'). Ret (m', s # live))"
| "alloc_step get put (Put i) (m, live) =
     (if i < length live then Ret (snd (put m (live ! i)), take i live @ drop (Suc i) live)
      else Ret (m, live))"

fun alloc_run :: "('m \<Rightarrow> nat \<Rightarrow> nat \<Rightarrow> (slice \<times> 'm) outcome) \<Rightarrow> ('m \<Rightarrow> slice \<Rightarrow> bool \<times> 'm) \<Rightarrow>
    alloc_op list \<Rightarrow> 'm \<times> slice list \<Rightarrow> ('m \<times> slice list) outcome" where
  "alloc_run get put [] st = Ret st"
| "alloc_run get put (op # ops) st = obind (alloc_step get put op st) (alloc_run get put ops)"

locale slice_allocator =
  fixes get :: "'m \<Rightarrow> nat \<Rightarrow> nat \<Rightarrow> (slice \<times> 'm) outcome"
    and put :: "'m \<Rightarrow> slice \<Rightarrow> bool \<times> 'm"
    and pooled :: "'m \<Rightarrow> nat set"
    and valid :: "'m \<Rightarrow> slice \<Rightarrow> bool"
    and inv :: "'m \<Rightarrow> bool"
  assumes get_total: "n \<le> c \<Longrightarrow> \<exists>s m'. get m n c = Ret (s, m')"
    and get_inv: "inv m \<Longrightarrow> get m n c = Ret (s, m') \<Longrightarrow> inv m'"
    and get_valid: "inv m \<Longrightarrow> get m n c = Ret (s, m') \<Longrightarrow> valid m' s"
    and get_taken: "inv m \<Longrightarrow> get m n c = Ret (s, m') \<Longrightarrow> s_arr s \<notin> pooled m'"
    and get_pooled: "inv m \<Longrightarrow> get m n c = Ret (s, m') \<Longrightarrow> pooled m' \<subseteq> pooled m"
    and get_disjoint: "inv m \<Longrightarrow> get m n c = Ret (s, m') \<Longrightarrow> valid m t \<Longrightarrow> s_arr t \<notin> pooled m \<Longrightarrow>
       s_arr t \<noteq> s_arr s \<and> valid m' t"
    and put_inv: "inv m \<Longrightarrow> valid m s \<Longrightarrow> s_arr s \<notin> pooled m \<Longrightarrow> put m s = (b, m') \<Longrightarrow> inv m'"
    and put_pooled: "inv m \<Longrightarrow> valid m s \<Longrightarrow> s_arr s \<notin> pooled m \<Longrightarrow> put m s = (b, m') \<Longrightarrow>
       pooled m' \<subseteq> insert (s_arr s) (pooled m)"
    and put_valid: "inv m \<Longrightarrow> valid m s \<Longrightarrow> s_arr s \<notin> pooled m \<Longrightarrow> put m s = (b, m') \<Longrightarrow>
       valid m t \<Longrightarrow> valid m' t"
begin

definition exclusive :: "'m \<times> slice list \<Rightarrow> bool" where
  "exclusive st \<longleftrightarrow> inv (fst st) \<and> distinct (map s_arr (snd st)) \<and>
     (\<forall>s \<in> set (snd st). valid (fst st) s \<and> s_arr s \<notin> pooled (fst st))"

lemma step_exclusive:
  assumes ex: "exclusive st" and step: "alloc_step get put op st = Ret st'"
  shows "exclusive st'"
proof (cases op)
  case (Get n c)
  obtain m live where st: "st = (m, live)" by (cases st)
  obtain s m' where g: "get m n c = Ret (s, m')" and st': "st' = (m', s # live)"
    using step by (auto simp: Get st)
  have old: "valid m t \<and> s_arr t \<notin> pooled m" if "t \<in> set live" for t
    using ex that by (auto simp: exclusive_def st)
  have new: "s_arr s \<noteq> s_arr t \<and> valid m' t \<and> s_arr t \<notin> pooled m'" if "t \<in> set live" for t
    using ex old [OF that] get_disjoint [OF _ g, of t] get_pooled [OF _ g]
    by (fastforce simp: exclusive_def st)
  show ?thesis
    using ex new get_inv [OF _ g] get_valid [OF _ g] get_taken [OF _ g]
    by (auto simp: exclusive_def st st')
next
  case (Put i)
  obtain m live where st: "st = (m, live)" by (cases st)
  show ?thesis
  proof (cases "i < length live")
    case True
    obtain b m' where p: "put m (live ! i) = (b, m')" by (cases "put m (live ! i)")
    have h: "inv m" "valid m (live ! i)" "s_arr (live ! i) \<notin> pooled m"
      using ex True by (auto simp: exclusive_def st)
    have split: "live = take i live @ live ! i # drop (Suc i) live"
      using True by (simp add: id_take_nth_drop [symmetric])
    have d: "distinct (map s_arr (take i live @ live ! i # drop (Suc i) live))"
      using ex split by (simp add: exclusive_def st)
    have sub: "set (take i live @ drop (Suc i) live) \<subseteq> set live"
      by (auto dest: in_set_takeD in_set_dropD)
    have "valid m' t \<and> s_arr t \<notin> pooled m'" if t: "t \<in> set (take i live @ drop (Suc i) live)" for t
    proof -
      have "valid m t" "s_arr t \<notin> pooled m"
        using ex t sub by (auto simp: exclusive_def st)
      moreover have "s_arr (live ! i) \<noteq> s_arr t"
        using d t by (auto dest: imageI [of t _ s_arr])
      ultimately show ?thesis
        using put_valid [OF h p] put_pooled [OF h p] by auto
    qed
    then show ?thesis
      using step True d put_inv [OF h p] by (auto simp: exclusive_def st Put p)
  next
    case False
    then show ?thesis using ex step by (auto simp: st Put)
  qed
qed

lemma run_exclusive:
  "exclusive st \<Longrightarrow> alloc_run get put ops st = Ret st' \<Longrightarrow> exclusive st'"
proof (induction ops arbitrary: st)
  case Nil
  then show ?case by simp
next
  case (Cons op ops)
  then show ?case by (auto dest: step_exclusive)
qed

lemma run_total:
  "(\<And>n c. Get n c \<in> set ops \<Longrightarrow> n \<le> c) \<Longrightarrow> \<exists>st'. alloc_run get put ops st = Ret st'"
proof (induction ops arbitrary: st)
  case Nil
  then show ?case by simp
next
  case (Cons op ops)
  have "\<exists>st1. alloc_step get put op st = Ret st1"
  proof (cases op)
    case (Get n c)
    then obtain s m' where "get (fst st) n c = Ret (s, m')"
      using Cons.prems get_total [of n c "fst st"] by auto
    then show ?thesis by (cases st) (auto simp: Get)
  next
    case (Put i)
    then show ?thesis by (cases st) auto
  qed
  then obtain st1 where "alloc_step get put op st = Ret st1" by blast
  then show ?case using Cons.IH [of st1] Cons.prems by auto
qed

end

interpretation mem: slice_allocator getSlice returnSlice "\<lambda>m. set (pooled_arrays m)" slice_ok pool_ok
proof unfold_locales
  fix n c :: nat and m :: memory
  assume "n \<le> c"
  then show "\<exists>s m'. getSlice m n c = Ret (s, m')" by (rule getSlice_total)
next
  fix m n c s m'
  assume "pool_ok m" "getSlice m n c = Ret (s, m')"
  note sp = getSlice_spec [OF this]
  show "pool_ok m'" "slice_ok m' s" "s_arr s \<notin> set (pooled_arrays m')"
    "set (pooled_arrays m') \<subseteq> set (pooled_arrays m)"
    using sp by blast+
  fix t assume "slice_ok m t" "s_arr t \<notin> set (pooled_arrays m)"
  then show "s_arr t \<noteq> s_arr s \<and> slice_ok m' t" using sp by blast
next
  fix m s b m'
  assume "pool_ok m" "slice_ok m s" "s_arr s \<notin> set (pooled_arrays m)" "returnSlice m s = (b, m')"
  note sp = returnSlice_spec [OF this]
  show "pool_ok m'" "set (pooled_arrays m') \<subseteq> insert (s_arr s) (set (pooled_arrays m))"
    using sp by blast+
  fix t assume "slice_ok m t"
  then show "slice_ok m' t" using sp by blast
qed

subsection \<open>No slice is handed out twice\<close>



end
