(* ===== verification/Request.thy ===== *)
theory Request
  imports Thrift_Lib Memory_Alloc
begin

text \<open>
  \<open>proxy/request.go\<close>, \<open>proxy/thrift_exception.go\<close> and \<open>proxy/heartbeat.go\<close>: the request
  object, decoding of its message header, the in-place replacement of name and sequence id on
  the way to a backend and of the sequence id on the way back, and the messages the proxy
  makes itself. All of them work on slices of the shared memory, so overwriting a header is a
  store into the frame's backing array.
\<close>

definition MESSAGE_TYPE_HEART_BEAT :: int32 where
  "MESSAGE_TYPE_HEART_BEAT = 20"

definition MESSAGE_TYPE_STOP :: int32 where
  "MESSAGE_TYPE_STOP = 21"

text \<open>
  The fields of the nested structs \<open>Request\<close> and \<open>Response\<close> carry the prefixes \<open>Req\<close> and
  \<open>Resp\<close>. A nil slice, error or pointer is \<open>None\<close>; \<open>Wait\<close> is the wait group's counter.
\<close>

record request =
  Service :: string
  ProxyRequest :: bool
  ReqName :: string
  ReqTypeId :: int32
  ReqSeqId :: int32
  ReqData :: "slice option"
  ReqDataOrig :: "slice option"
  OpStr :: string
  Start :: int
  RespData :: "slice option"
  RespErr :: "go_error option"
  RespSeqId :: int32
  RespTypeId :: int32
  Wait :: "int option"
  Failed :: "bool option"

definition zero_request :: request where
  "zero_request = \<lparr>Service = [], ProxyRequest = False, ReqName = [], ReqTypeId = 0, ReqSeqId = 0,
     ReqData = None, ReqDataOrig = None, OpStr = [], Start = 0, RespData = None, RespErr = None,
     RespSeqId = 0, RespTypeId = 0, Wait = None, Failed = None\<rparr>"

definition opt_bytes :: "memory \<Rightarrow> slice option \<Rightarrow> byte list" where
  "opt_bytes m d = (case d of None \<Rightarrow> [] | Some s \<Rightarrow> slice_bytes m s)"

subsection \<open>Decoding\<close>

definition DecodeRequest :: "thrift_lib \<Rightarrow> memory \<Rightarrow> request \<Rightarrow> request" where
  "DecodeRequest T m r =
     (let (name, ty, seq, _) = ReadMessageBegin T (opt_bytes m (ReqData r));
          r1 = r\<lparr>ReqName := name, ReqTypeId := ty, ReqSeqId := seq\<rparr>;
          nameFields = strings_SplitN2 name (MULTIPLEXED_SEPARATOR T) in
      if length nameFields \<noteq> 2 then r1\<lparr>Service := []\<rparr>
      else r1\<lparr>Service := nameFields ! 0, ReqName := nameFields ! 1\<rparr>)"

definition NewRequest :: "thrift_lib \<Rightarrow> memory \<Rightarrow> slice \<Rightarrow> bool \<Rightarrow> request" where
  "NewRequest T m data serviceInReq =
     DecodeRequest T m
       (zero_request\<lparr>Wait := Some 0, ProxyRequest := serviceInReq, ReqData := Some data\<rparr>)"

definition DecodeThriftTypIdSeqId :: "thrift_lib \<Rightarrow> memory \<Rightarrow> slice \<Rightarrow> int32 \<times> int32 \<times> go_error option" where
  "DecodeThriftTypIdSeqId T m data =
     (let (_, ty, seq, err) = ReadMessageBegin T (slice_bytes m data) in (ty, seq, err))"

subsection \<open>Rewriting headers in place\<close>

definition ReplaceSeqId :: "thrift_lib \<Rightarrow> memory \<Rightarrow> request \<Rightarrow> int32 \<Rightarrow> (request \<times> memory) outcome" where
  "ReplaceSeqId T m r newSeq =
     (case ReqData r of
        None \<Rightarrow> Ret (r, m)
      | Some data \<Rightarrow>
          let start0 = (if ProxyRequest r then length (Service r) else 0);
              start = (if start0 > 0 then start0 + 1 else start0) in
          obind (subslice data start start) (\<lambda>buf.
          let (_, m') = tmb_Write m (NewTMemoryBufferWithBuf buf)
                          (WriteMessageBegin T (ReqName r) (ReqTypeId r) newSeq) in
          obind (subslice data start (s_len data)) (\<lambda>data'.
          Ret (r\<lparr>RespSeqId := newSeq,
                 ReqDataOrig := (if start > 0 then Some data else ReqDataOrig r),
                 ReqData := Some data'\<rparr>, m'))))"

definition RestoreSeqId :: "thrift_lib \<Rightarrow> memory \<Rightarrow> request \<Rightarrow> memory outcome" where
  "RestoreSeqId T m r =
     (case RespData r of
        None \<Rightarrow> Ret m
      | Some data \<Rightarrow>
          obind (subslice data 0 0) (\<lambda>buf.
          Ret (snd (tmb_Write m (NewTMemoryBufferWithBuf buf)
                 (WriteMessageBegin T (ReqName r) (RespTypeId r) (ReqSeqId r))))))"

subsection \<open>Giving the slices back\<close>

definition Recycle :: "memory \<Rightarrow> request \<Rightarrow> request \<times> memory" where
  "Recycle m r =
     (let (sliceId, r1, m1) =
        (case ReqDataOrig r of
           Some orig \<Rightarrow> (Some (getSliceId orig), r\<lparr>ReqDataOrig := None, ReqData := None\<rparr>,
                         snd (returnSlice m orig))
         | None \<Rightarrow>
             (case ReqData r of
                Some data \<Rightarrow> (Some (getSliceId data), r\<lparr>ReqData := None\<rparr>, snd (returnSlice m data))
              | None \<Rightarrow> (None, r, m)))
      in case RespData r1 of
           None \<Rightarrow> (r1, m1)
         | Some resp \<Rightarrow>
             (r1\<lparr>RespData := None\<rparr>,
              if sliceId \<noteq> Some (getSliceId resp) then snd (returnSlice m1 resp) else m1))"

subsection \<open>Messages made by the proxy\<close>

text \<open>
  The exception messages are written to the library's own memory buffer, of the initial
  capacity given.
\<close>

definition exception_message :: "thrift_lib \<Rightarrow> memory \<Rightarrow> nat \<Rightarrow> string \<Rightarrow> int32 \<Rightarrow> int32 \<Rightarrow> string \<Rightarrow>
    slice \<times> memory" where
  "exception_message T m cap name seq kind msg =
     (let (buf, m1) = make_slice m 0 cap in
      buf_writes m1 buf (WriteMessageBegin T name (EXCEPTION T) seq @
        WriteApplicationException T kind msg @ WriteMessageEnd T))"

definition GetServiceNotFoundData :: "thrift_lib \<Rightarrow> memory \<Rightarrow> request \<Rightarrow> slice \<times> request \<times> memory" where
  "GetServiceNotFoundData T m req =
     (let req1 = req\<lparr>RespTypeId := EXCEPTION T\<rparr>;
          msg = ''Service: '' @ Service req @ '' Not Found'';
          (bytes, m') = exception_message T m 100 (ReqName req) (ReqSeqId req)
                          (UNKNOWN_APPLICATION_EXCEPTION T) msg
      in (bytes, req1, m'))"

definition GetWorkerNotFoundData :: "thrift_lib \<Rightarrow> memory \<Rightarrow> request \<Rightarrow> string \<Rightarrow> slice \<times> request \<times> memory" where
  "GetWorkerNotFoundData T m req module =
     (let req1 = req\<lparr>RespTypeId := EXCEPTION T\<rparr>;
          msg = ''Worker FOR '' @ module @ ''#'' @ Service req @ ''.'' @ ReqName req @ '' Not Found'';
          (bytes, m') = exception_message T m 100 (ReqName req) (ReqSeqId req) (INTERNAL_ERROR T) msg
      in (bytes, req1, m'))"

definition GetThriftException :: "thrift_lib \<Rightarrow> memory \<Rightarrow> request \<Rightarrow> string \<Rightarrow> slice \<times> request \<times> memory" where
  "GetThriftException T m req module =
     (let req1 = req\<lparr>RespTypeId := EXCEPTION T\<rparr>;
          err = (case RespErr req of None \<Rightarrow> ''<nil>'' | Some e \<Rightarrow> error_text e);
          msg = ''Module: '' @ module @ '', Service: '' @ Service req @ '', Method: '' @ ReqName req @
                '', Error: '' @ err;
          (bytes, m') = exception_message T m 256 (Service req) (ReqSeqId req) (INTERNAL_ERROR T) msg
      in (bytes, req1, m'))"

definition ParseThriftMsgBegin :: "thrift_lib \<Rightarrow> byte list \<Rightarrow> string \<times> int32 \<times> int32 \<times> go_error option" where
  "ParseThriftMsgBegin T msg = ReadMessageBegin T msg"

definition HandlePingRequest :: "request \<Rightarrow> request" where
  "HandlePingRequest req = req\<lparr>RespData := ReqData req\<rparr>"

definition NewPingRequest :: "thrift_lib \<Rightarrow> memory \<Rightarrow> int \<Rightarrow> request \<times> memory" where
  "NewPingRequest T m now =
     (let (transport, m1) = NewTMemoryBufferLen m 30;
          (b, m2) = tmb_Write m1 transport
                      (WriteMessageBegin T ''ping'' MESSAGE_TYPE_HEART_BEAT 0 @ WriteMessageEnd T)
      in (zero_request\<lparr>ProxyRequest := False, Start := now, ReqData := Some (Buffer b),
            ReqName := ''ping'', ReqSeqId := 0, ReqTypeId := MESSAGE_TYPE_HEART_BEAT\<rparr>, m2))"

subsection \<open>Lemmas on decoding\<close>

lemma DecodeRequest_fields [simp]:
  "ProxyRequest (DecodeRequest T m r) = ProxyRequest r" "ReqData (DecodeRequest T m r) = ReqData r"
  "ReqDataOrig (DecodeRequest T m r) = ReqDataOrig r" "Wait (DecodeRequest T m r) = Wait r"
  "RespData (DecodeRequest T m r) = RespData r" "RespErr (DecodeRequest T m r) = RespErr r"
  "Failed (DecodeRequest T m r) = Failed r"
  by (simp_all add: DecodeRequest_def Let_def split: prod.split)

lemma NewRequest_fields [simp]:
  "ProxyRequest (NewRequest T m d b) = b" "ReqData (NewRequest T m d b) = Some d"
  "ReqDataOrig (NewRequest T m d b) = None" "Wait (NewRequest T m d b) = Some 0"
  "RespData (NewRequest T m d b) = None" "RespErr (NewRequest T m d b) = None"
  by (simp_all add: NewRequest_def zero_request_def)

lemma NewRequest_service:
  assumes "thrift_ok T" and "msg_ok (svc @ '':'' @ name) ty" and "CHR '':'' \<notin> set svc"
    and "slice_bytes m d = msg_header T (svc @ '':'' @ name) ty seq @ payload"
  shows "Service (NewRequest T m d b) = svc \<and> ReqName (NewRequest T m d b) = name
    \<and> ReqTypeId (NewRequest T m d b) = ty \<and> ReqSeqId (NewRequest T m d b) = seq"
  using assms SplitN2_char_some [of "CHR '':''" svc name]
  by (simp add: NewRequest_def DecodeRequest_def opt_bytes_def)

lemma NewRequest_plain:
  assumes "thrift_ok T" and "msg_ok name ty" and "CHR '':'' \<notin> set name"
    and "slice_bytes m d = msg_header T name ty seq @ payload"
  shows "Service (NewRequest T m d b) = [] \<and> ReqName (NewRequest T m d b) = name
    \<and> ReqTypeId (NewRequest T m d b) = ty \<and> ReqSeqId (NewRequest T m d b) = seq"
  using assms SplitN2_char_none [of "CHR '':''" name]
  by (simp add: NewRequest_def DecodeRequest_def opt_bytes_def)

subsection \<open>Lemmas on rewriting\<close>

lemma tmb_Write_WithBuf [simp]:
  "snd (tmb_Write m (NewTMemoryBufferWithBuf buf) bss) = snd (buf_writes m buf bss)"
  by (simp add: tmb_Write_def NewTMemoryBufferWithBuf_def split: prod.split)

lemma tmb_Write_let [simp]:
  "(let (_, m') = tmb_Write m (NewTMemoryBufferWithBuf buf) bss in f m')
     = f (snd (buf_writes m buf bss))"
  by (simp add: tmb_Write_def NewTMemoryBufferWithBuf_def split: prod.split)

text \<open>
  The one computation behind all header rewriting: chunks written at position \<open>start\<close> of a
  slice replace exactly the bytes that were there, and what follows them stays.
\<close>

lemma header_rewritten:
  assumes ok: "slice_ok m d" and fit: "start + length (concat bss) \<le> s_len d"
    and buf: "subslice d start start = Ret buf" and d': "subslice d start (s_len d) = Ret d'"
  shows "snd (buf_writes m buf bss) = mem_store m (s_arr d) (s_off d + start) (concat bss)
    \<and> slice_bytes (snd (buf_writes m buf bss)) d'
        = concat bss @ drop (start + length (concat bss)) (slice_bytes m d)
    \<and> slice_ok (snd (buf_writes m buf bss)) d'"
proof -
  have okb: "slice_ok m buf" and okd: "slice_ok m d'"
    using ok buf d' by (auto intro: slice_ok_subslice)
  have sel: "s_arr buf = s_arr d" "s_off buf = s_off d + start" "s_len buf = 0"
    "s_cap buf = s_cap d - start" "s_arr d' = s_arr d" "s_off d' = s_off d + start"
    "s_len d' = s_len d - start"
    using buf d' by (auto simp: subslice_Ret)
  have "s_len buf + length (concat bss) \<le> s_cap buf"
    using fit ok unfolding sel slice_ok_def by linarith
  then have w: "snd (buf_writes m buf bss) = mem_store m (s_arr d') (s_off d') (concat bss)"
    using buf_writes_fit [OF okb, of bss] sel by simp
  have old: "slice_bytes m d' = drop start (slice_bytes m d)"
    using slice_bytes_subslice [OF ok d'] ok by simp
  have "slice_bytes (mem_store m (s_arr d') (s_off d') (concat bss)) d'
      = concat bss @ drop (length (concat bss)) (slice_bytes m d')"
    using okd fit sel by (intro slice_bytes_store_prefix) auto
  moreover have "slice_ok (mem_store m (s_arr d') (s_off d') (concat bss)) d'"
    using okd fit sel by (intro slice_ok_store) (auto simp: slice_ok_def)
  ultimately show ?thesis
    using w old sel by (simp add: add.commute)
qed

lemma ReplaceSeqId_spec:
  assumes T: "thrift_ok T" and d: "ReqData r = Some d" and ok: "slice_ok m d"
    and name: "msg_ok (ReqName r) (ReqTypeId r)"
    and start: "start = (if ProxyRequest r \<and> Service r \<noteq> [] then length (Service r) + 1 else 0)"
    and bytes: "slice_bytes m d = old @ payload" and len: "length old = start + 12 + length (ReqName r)"
  shows "\<exists>d' m'. ReplaceSeqId T m r k = Ret (r\<lparr>RespSeqId := k,
        ReqDataOrig := (if start > 0 then Some d else ReqDataOrig r), ReqData := Some d'\<rparr>, m')
    \<and> slice_bytes m' d' = msg_header T (ReqName r) (ReqTypeId r) k @ payload
    \<and> slice_ok m' d' \<and> s_arr d' = s_arr d
    \<and> m' = mem_store m (s_arr d) (s_off d + start) (msg_header T (ReqName r) (ReqTypeId r) k)"
proof -
  let ?h = "WriteMessageBegin T (ReqName r) (ReqTypeId r) k"
  have hl: "length (concat ?h) = 12 + length (ReqName r)"
    using length_header [OF T name, of k] by (simp add: msg_header_def)
  have sl: "s_len d = length old + length payload"
    using length_slice_bytes [OF ok] bytes by simp
  have fit: "start + length (concat ?h) \<le> s_len d" and "start \<le> s_len d"
    using hl sl len by simp_all
  then obtain buf d' where buf: "subslice d start start = Ret buf"
    and d': "subslice d start (s_len d) = Ret d'"
    using ok by (auto simp: subslice_def slice_ok_def)
  note hr = header_rewritten [OF ok fit buf d']
  have tail: "drop (start + length (concat ?h)) (slice_bytes m d) = payload"
    using hl len bytes by simp
  have arr: "s_arr d' = s_arr d" using d' by (simp add: subslice_Ret)
  have "(if (if ProxyRequest r then length (Service r) else 0) > 0
         then (if ProxyRequest r then length (Service r) else 0) + 1
         else (if ProxyRequest r then length (Service r) else 0)) = start"
    using start by auto
  then have "ReplaceSeqId T m r k = Ret (r\<lparr>RespSeqId := k,
      ReqDataOrig := (if start > 0 then Some d else ReqDataOrig r), ReqData := Some d'\<rparr>,
      snd (buf_writes m buf ?h))"
    using d buf d' by (simp add: ReplaceSeqId_def)
  then show ?thesis
    using hr tail arr by (auto simp: msg_header_def)
qed

text \<open>
  \<open>RestoreSeqId\<close> overwrites as many bytes as the header for the request's own name has. What
  remains of the response is kept from that position on.
\<close>

lemma RestoreSeqId_spec:
  assumes T: "thrift_ok T" and d: "RespData r = Some d" and ok: "slice_ok m d"
    and name: "msg_ok (ReqName r) (RespTypeId r)" and len: "12 + length (ReqName r) \<le> s_len d"
  shows "\<exists>m'. RestoreSeqId T m r = Ret m'
    \<and> slice_bytes m' d = msg_header T (ReqName r) (RespTypeId r) (ReqSeqId r)
        @ drop (12 + length (ReqName r)) (slice_bytes m d)
    \<and> slice_ok m' d
    \<and> m' = mem_store m (s_arr d) (s_off d) (msg_header T (ReqName r) (RespTypeId r) (ReqSeqId r))"
proof -
  let ?h = "WriteMessageBegin T (ReqName r) (RespTypeId r) (ReqSeqId r)"
  have hl: "length (concat ?h) = 12 + length (ReqName r)"
    using length_header [OF T name, of "ReqSeqId r"] by (simp add: msg_header_def)
  obtain buf where buf: "subslice d 0 0 = Ret buf" by (simp add: subslice_def)
  have "s_len d \<le> s_cap d" using ok by (simp add: slice_ok_def)
  then have d': "subslice d 0 (s_len d) = Ret d" by (simp add: subslice_def)
  show ?thesis
    using header_rewritten [OF ok _ buf d', of ?h] hl len d buf
    by (auto simp: RestoreSeqId_def msg_header_def)
qed

subsection \<open>Lemmas on exception messages\<close>

lemma exception_message_bytes:
  assumes "exception_message T m cap name seq kind msg = (s, m')"
  shows "slice_bytes m' s = msg_header T name (EXCEPTION T) seq @
      concat (WriteApplicationException T kind msg) @ concat (WriteMessageEnd T) \<and> slice_ok m' s"
proof -
  obtain buf m1 where mk: "make_slice m 0 cap = (buf, m1)" by (cases "make_slice m 0 cap")
  then have ok: "slice_ok m1 buf" by (rule slice_ok_make [rotated]) simp
  have "slice_bytes m1 buf = []" using mk by (auto simp: make_slice_def slice_bytes_def)
  then show ?thesis
    using assms mk buf_writes_contents [OF ok] by (fastforce simp: exception_message_def msg_header_def)
qed

lemma exception_message_frame:
  assumes "exception_message T m cap name seq kind msg = (s, m')" and "a < next_arr m"
  shows "arrays m' a = arrays m a" "s_arr s \<noteq> a" "memoryBuffer1024 m' = memoryBuffer1024 m"
    "memoryBuffer2048 m' = memoryBuffer2048 m"
proof -
  obtain buf m1 where mk: "make_slice m 0 cap = (buf, m1)" by (cases "make_slice m 0 cap")
  have "a < next_arr m1" "a \<noteq> s_arr buf" "arrays m1 a = arrays m a"
    "memoryBuffer1024 m1 = memoryBuffer1024 m" "memoryBuffer2048 m1 = memoryBuffer2048 m"
    using mk assms(2) by (auto simp: make_slice_def)
  then show "arrays m' a = arrays m a" "s_arr s \<noteq> a" "memoryBuffer1024 m' = memoryBuffer1024 m"
    "memoryBuffer2048 m' = memoryBuffer2048 m"
    using assms(1) mk buf_writes_frame [of m1 buf _ s m' a] by (auto simp: exception_message_def)
qed

subsection \<open>Properties of the rewriting\<close>

definition demo_frame :: "byte list \<Rightarrow> slice" where
  "demo_frame bs = fst (slice_of_bytes empty_memory bs)"

definition demo_memory :: "byte list \<Rightarrow> memory" where
  "demo_memory bs = snd (slice_of_bytes empty_memory bs)"

lemma demo_slice [simp]: "slice_bytes (demo_memory bs) (demo_frame bs) = bs" "slice_ok (demo_memory bs) (demo_frame bs)"
  "s_len (demo_frame bs) = length bs"
  by (simp_all add: demo_memory_def demo_frame_def slice_of_bytes_def slice_bytes_def slice_ok_def)

text \<open>
  A client frame for \<open>service:method\<close>, decoded by \<open>NewRequest\<close> and rewritten by
  \<open>ReplaceSeqId\<close>, is the same message for \<open>method\<close> with the sequence number of the backend
  connection and the payload byte for byte; the sequence number of the client stays in the
  request, and the original slice is kept for \<open>Recycle\<close>. The header is written in place.
\<close>

lemma request_rewritten:
  assumes T: "thrift_ok T" and d: "slice_ok m d" "slice_bytes m d = msg_header T (svc @ '':'' @ name) ty seq @ payload"
    and msg: "msg_ok (svc @ '':'' @ name) ty" and svc: "CHR '':'' \<notin> set svc" "svc \<noteq> []"
  shows "\<exists>r d' m'. ReplaceSeqId T m (NewRequest T m d True) k = Ret (r, m') \<and> ReqData r = Some d'
    \<and> slice_bytes m' d' = msg_header T name ty k @ payload \<and> s_arr d' = s_arr d \<and> ReqDataOrig r = Some d
    \<and> Service r = svc \<and> ReqName r = name \<and> ReqSeqId r = seq \<and> RespSeqId r = k"
proof -
  note f = NewRequest_service [OF T msg svc(1) d(2), of True]
  have "msg_ok name ty" using msg by (rule msg_ok_shorter) simp
  then show ?thesis
    using ReplaceSeqId_spec [OF T, of "NewRequest T m d True" d m "length svc + 1"
        "msg_header T (svc @ '':'' @ name) ty seq" payload k] f d msg svc T by auto
qed

lemma request_rewritten_witness:
  "\<exists>r d' m'. ReplaceSeqId strict_binary (demo_memory (msg_header strict_binary ''math:add'' 1 7 @ [42]))
      (NewRequest strict_binary (demo_memory (msg_header strict_binary ''math:add'' 1 7 @ [42]))
        (demo_frame (msg_header strict_binary ''math:add'' 1 7 @ [42])) True) 99 = Ret (r, m')
    \<and> ReqData r = Some d' \<and> slice_bytes m' d' = msg_header strict_binary ''add'' 1 99 @ [42]"
  using request_rewritten [of strict_binary "demo_memory (msg_header strict_binary ''math:add'' 1 7 @ [42])"
      "demo_frame (msg_header strict_binary ''math:add'' 1 7 @ [42])" "''math''" "''add''" 1 7 "[42]" 99]
  by (auto simp: msg_ok_def)

text \<open>
  \<open>DecodeRequest\<close> splits the name at the separator even for a request that carries no
  service (\<open>serviceInReq\<close> false, as behind the load balancer) or an empty one (\<open>:method\<close>), and
  \<open>ReplaceSeqId\<close> then writes the shorter header over the start of the longer one: the frame sent
  has \<open>length svc + 1\<close> stray header bytes between the new header and the payload.
\<close>

lemma request_misaligned:
  assumes T: "thrift_ok T" and d: "slice_ok m d" "slice_bytes m d = msg_header T (svc @ '':'' @ name) ty seq @ payload"
    and msg: "msg_ok (svc @ '':'' @ name) ty" and svc: "CHR '':'' \<notin> set svc" "\<not> b \<or> svc = []"
  shows "\<exists>r d' m' stray. ReplaceSeqId T m (NewRequest T m d b) k = Ret (r, m') \<and> ReqData r = Some d'
    \<and> slice_bytes m' d' = msg_header T name ty k @ stray @ payload \<and> length stray = length svc + 1"
proof -
  let ?h = "msg_header T (svc @ '':'' @ name) ty seq" and ?n = "12 + length name"
  note f = NewRequest_service [OF T msg svc(1) d(2), of b]
  have "msg_ok name ty" using msg by (rule msg_ok_shorter) simp
  moreover have "slice_bytes m d = take ?n ?h @ (drop ?n ?h @ payload)" using d(2) by simp
  moreover have "length (take ?n ?h) = ?n" "length (drop ?n ?h) = length svc + 1" using T msg by simp_all
  ultimately show ?thesis
    using ReplaceSeqId_spec [OF T, of "NewRequest T m d b" d m 0 "take ?n ?h" "drop ?n ?h @ payload" k] f d(1) svc(2)
    by (auto simp: exI [of _ "drop ?n ?h"])
qed

lemma request_misaligned_witness:
  "\<exists>r d' m' stray. ReplaceSeqId strict_binary (demo_memory (msg_header strict_binary '':add'' 1 7 @ [42]))
      (NewRequest strict_binary (demo_memory (msg_header strict_binary '':add'' 1 7 @ [42]))
        (demo_frame (msg_header strict_binary '':add'' 1 7 @ [42])) True) 99 = Ret (r, m')
    \<and> ReqData r = Some d' \<and> slice_bytes m' d' = msg_header strict_binary ''add'' 1 99 @ stray @ [42]
    \<and> length stray = 1"
  using request_misaligned [of strict_binary "demo_memory (msg_header strict_binary '':add'' 1 7 @ [42])"
      "demo_frame (msg_header strict_binary '':add'' 1 7 @ [42])" "[]" "''add''" 1 7 "[42]" True 99]
  by (auto simp: msg_ok_def)

text \<open>
  C27: \<open>RestoreSeqId\<close> writes the method name of the request over the header of the reply. The
  payload of the reply is intact exactly when the name in the reply is as long as the name of
  the request; the code does not compare them.
\<close>

theorem reply_intact_iff:
  assumes T: "thrift_ok T" and d: "RespData r = Some d" "slice_ok m d"
    and bytes: "slice_bytes m d = msg_header T n ty k @ payload"
    and msg: "msg_ok n ty" "msg_ok (ReqName r) (RespTypeId r)" and len: "12 + length (ReqName r) \<le> s_len d"
  shows "\<exists>m'. RestoreSeqId T m r = Ret m' \<and> (slice_bytes m' d =
      msg_header T (ReqName r) (RespTypeId r) (ReqSeqId r) @ payload \<longleftrightarrow> length n = length (ReqName r))"
proof -
  have l: "s_len d = 12 + length n + length payload"
    using arg_cong [OF bytes, of length] d(2) T msg(1) by simp
  obtain m' where m': "RestoreSeqId T m r = Ret m'" "slice_ok m' d"
    "slice_bytes m' d = msg_header T (ReqName r) (RespTypeId r) (ReqSeqId r) @ drop (12 + length (ReqName r)) (slice_bytes m d)"
    using RestoreSeqId_spec [OF T d msg(2) len] by blast
  have "length n = length (ReqName r)" if "slice_bytes m' d = msg_header T (ReqName r) (RespTypeId r) (ReqSeqId r) @ payload"
    using arg_cong [OF that, of length] m'(2) T msg(2) l by simp
  moreover have "drop (12 + length (ReqName r)) (slice_bytes m d) = payload" if "length n = length (ReqName r)"
    using bytes that T msg(1) by simp
  ultimately show ?thesis using m' by auto
qed

theorem reply_intact_iff_witness:
  "\<exists>m'. RestoreSeqId strict_binary (demo_memory (msg_header strict_binary ''addition'' 2 99 @ [42, 43]))
      (zero_request\<lparr>ReqName := ''add'', ReqSeqId := 7, RespTypeId := 2,
        RespData := Some (demo_frame (msg_header strict_binary ''addition'' 2 99 @ [42, 43]))\<rparr>) = Ret m'
    \<and> slice_bytes m' (demo_frame (msg_header strict_binary ''addition'' 2 99 @ [42, 43])) \<noteq>
        msg_header strict_binary ''add'' 2 7 @ [42, 43]"
  using reply_intact_iff [of strict_binary "zero_request\<lparr>ReqName := ''add'', ReqSeqId := 7, RespTypeId := 2,
        RespData := Some (demo_frame (msg_header strict_binary ''addition'' 2 99 @ [42, 43]))\<rparr>"
      "demo_frame (msg_header strict_binary ''addition'' 2 99 @ [42, 43])"
      "demo_memory (msg_header strict_binary ''addition'' 2 99 @ [42, 43])" "''addition''" 2 99 "[42, 43]"]
  by (auto simp: msg_ok_def)

text \<open>
  \<open>GetThriftException\<close> names its message after the service where the other two exceptions
  use the method. When such an exception comes back as a reply to a proxy whose request has a
  method name of another length, \<open>RestoreSeqId\<close> garbles it.
\<close>

lemma exception_reply_garbled:
  assumes T: "thrift_ok T" and ex: "GetThriftException T m1 q module = (d1, q', m1')"
    and d: "RespData r = Some d" "slice_ok m d" "slice_bytes m d = slice_bytes m1' d1"
    and ty: "RespTypeId r = EXCEPTION T" and msg: "msg_ok (Service q) (EXCEPTION T)" "msg_ok (ReqName r) (EXCEPTION T)"
    and len: "12 + length (ReqName r) \<le> s_len d" "length (ReqName r) \<noteq> length (Service q)"
  shows "\<exists>m' body. slice_bytes m d = msg_header T (Service q) (EXCEPTION T) (ReqSeqId q) @ body
    \<and> RestoreSeqId T m r = Ret m' \<and> slice_bytes m' d \<noteq> msg_header T (ReqName r) (EXCEPTION T) (ReqSeqId r) @ body"
proof -
  obtain msg' where "exception_message T m1 256 (Service q) (ReqSeqId q) (INTERNAL_ERROR T) msg' = (d1, m1')"
    using ex by (auto simp: GetThriftException_def Let_def split: prod.splits)
  then obtain body where b: "slice_bytes m d = msg_header T (Service q) (EXCEPTION T) (ReqSeqId q) @ body"
    using exception_message_bytes d(3) by fastforce
  have l: "s_len d = 12 + length (Service q) + length body"
    using arg_cong [OF b, of length] d(2) T msg(1) by simp
  obtain m' where m': "RestoreSeqId T m r = Ret m'" "slice_ok m' d"
    using RestoreSeqId_spec [OF T d(1,2) _ len(1)] msg(2) ty by auto
  have "slice_bytes m' d \<noteq> msg_header T (ReqName r) (EXCEPTION T) (ReqSeqId r) @ body"
  proof
    assume "slice_bytes m' d = msg_header T (ReqName r) (EXCEPTION T) (ReqSeqId r) @ body"
    from arg_cong [OF this, of length] show False using m'(2) T msg(2) l len(2) by simp
  qed
  then show ?thesis using b m'(1) by blast
qed

lemma exception_reply_garbled_witness:
  "\<exists>m d m' body. slice_bytes m d = msg_header strict_binary ''mathematics'' 3 0 @ body
    \<and> RestoreSeqId strict_binary m (zero_request\<lparr>ReqName := ''add'', RespTypeId := 3, RespData := Some d\<rparr>) = Ret m'
    \<and> slice_bytes m' d \<noteq> msg_header strict_binary ''add'' 3 0 @ body"
proof -
  let ?q = "zero_request\<lparr>Service := ''mathematics'', RespErr := Some IoEOF\<rparr>"
  obtain d q' m where ex: "GetThriftException strict_binary empty_memory ?q ''lb'' = (d, q', m)"
    by (cases "GetThriftException strict_binary empty_memory ?q ''lb''")
  then obtain msg where em: "exception_message strict_binary empty_memory 256 ''mathematics'' 0 6 msg = (d, m)"
    by (auto simp: GetThriftException_def zero_request_def strict_binary_def Let_def split: prod.splits)
  have e3: "EXCEPTION strict_binary = 3" by (simp add: strict_binary_def)
  have ok: "slice_ok m d" using exception_message_bytes [OF em] by simp
  have "s_len d = length (slice_bytes m d)" using ok by simp
  also have "\<dots> \<ge> 12 + length ''mathematics''"
    using exception_message_bytes [OF em] by (simp add: e3 msg_ok_def)
  finally have "15 \<le> s_len d" by simp
  then show ?thesis
    using exception_reply_garbled [OF thrift_ok_strict_binary ex, of
        "zero_request\<lparr>ReqName := ''add'', RespTypeId := 3, RespData := Some d\<rparr>" d m] ok
    by (auto simp: e3 msg_ok_def zero_request_def)
qed

end
