(* ===== verification/Bufio.thy ===== *)
theory Bufio
  imports Go_Prelude
begin

text \<open>
  The buffered reader and writer of Go's \<open>bufio\<close> package, on which the framed transport is
  built. What the network delivers is a list of chunks, the way \<open>Read\<close> calls on a socket
  return them, followed by an error; what it does with a \<open>Write\<close> is a parameter \<open>net\<close>
  that, as the contract of \<open>io.Writer\<close> demands, either takes all bytes or says how many it
  took and why it stopped.
\<close>

definition BUFIO_SIZE :: nat where
  "BUFIO_SIZE = 65536"

subsection \<open>Reader\<close>

record reader =
  rbuf :: "byte list"
  rchunks :: "byte list list"
  rerr :: go_error

definition reader_bytes :: "reader \<Rightarrow> byte list" where
  "reader_bytes r = rbuf r @ concat (rchunks r)"

text \<open>One \<open>Read\<close> on the socket with room for \<open>n\<close> bytes.\<close>

definition net_read :: "reader \<Rightarrow> nat \<Rightarrow> byte list \<times> go_error option \<times> reader" where
  "net_read r n =
     (case rchunks r of
        [] \<Rightarrow> ([], Some (rerr r), r)
      | c # cs \<Rightarrow> (take n c, None,
          r\<lparr>rchunks := (if length c \<le> n then cs else drop n c # cs)\<rparr>))"

definition bufio_Read :: "reader \<Rightarrow> nat \<Rightarrow> byte list \<times> go_error option \<times> reader" where
  "bufio_Read r n =
     (if n = 0 then ([], None, r)
      else if rbuf r \<noteq> [] then (take n (rbuf r), None, r\<lparr>rbuf := drop n (rbuf r)\<rparr>)
      else if n \<ge> BUFIO_SIZE then net_read r n
      else case net_read r BUFIO_SIZE of
             (bs, Some e, r') \<Rightarrow> ([], Some e, r')
           | (bs, None, r') \<Rightarrow> (take n bs, None, r'\<lparr>rbuf := drop n bs\<rparr>))"

lemma net_read_spec:
  assumes "net_read r n = (bs, e, r')"
  shows "rbuf r' = rbuf r" "rerr r' = rerr r" "length bs \<le> n"
    and "concat (rchunks r) = bs @ concat (rchunks r')"
    and "e = None \<longleftrightarrow> rchunks r \<noteq> []"
    and "e = Some x \<Longrightarrow> bs = [] \<and> x = rerr r \<and> rchunks r = [] \<and> r' = r"
    and "length (rchunks r') \<le> length (rchunks r)"
    and "n > 0 \<Longrightarrow> bs = [] \<Longrightarrow> e = None \<Longrightarrow> length (rchunks r') < length (rchunks r)"
  using assms by (auto simp: net_read_def split: list.splits if_splits)

lemma bufio_Read_cases:
  assumes "bufio_Read r n = (bs, e, r')"
  obtains (none) "n = 0" "bs = []" "e = None" "r' = r"
  | (buffered) "n > 0" "rbuf r \<noteq> []" "bs = take n (rbuf r)" "e = None" "r' = r\<lparr>rbuf := drop n (rbuf r)\<rparr>"
  | (direct) "n > 0" "rbuf r = []" "net_read r n = (bs, e, r')"
  | (fill_error) cs where "n > 0" "rbuf r = []" "net_read r BUFIO_SIZE = (cs, e, r')" "e \<noteq> None" "bs = []"
  | (fill) cs q where "n > 0" "rbuf r = []" "net_read r BUFIO_SIZE = (cs, None, q)" "e = None"
      "bs = take n cs" "r' = q\<lparr>rbuf := drop n cs\<rparr>"
proof -
  obtain cs f q where nr: "net_read r BUFIO_SIZE = (cs, f, q)" by (cases "net_read r BUFIO_SIZE")
  consider "n = 0" | "n > 0" "rbuf r \<noteq> []" | "n > 0" "rbuf r = []" "n \<ge> BUFIO_SIZE"
    | "n > 0" "rbuf r = []" "\<not> n \<ge> BUFIO_SIZE" by linarith
  then show thesis
  proof cases
    case 1
    with assms none show thesis by (simp add: bufio_Read_def)
  next
    case 2
    with assms buffered show thesis by (simp add: bufio_Read_def)
  next
    case 3
    with assms direct show thesis by (simp add: bufio_Read_def)
  next
    case 4
    with assms nr have eq: "(case f of Some e \<Rightarrow> ([], Some e, q) | None \<Rightarrow> (take n cs, None, q\<lparr>rbuf := drop n cs\<rparr>))
        = (bs, e, r')"
      by (simp add: bufio_Read_def split: option.splits)
    show thesis
    proof (cases f)
      case None
      with eq nr 4 fill show thesis by simp
    next
      case (Some x)
      with eq nr 4 fill_error [of cs] show thesis by auto
    qed
  qed
qed

lemma bufio_Read_all:
  assumes "bufio_Read r n = (bs, e, r')"
  shows "rerr r' = rerr r \<and> length bs \<le> n \<and> reader_bytes r = bs @ reader_bytes r' \<and>
    (\<forall>x. e = Some x \<longrightarrow> n > 0 \<and> bs = [] \<and> x = rerr r \<and> reader_bytes r = [] \<and> r' = r) \<and>
    length (rchunks r') \<le> length (rchunks r) \<and>
    (n > 0 \<and> bs = [] \<and> e = None \<longrightarrow> length (rchunks r') < length (rchunks r))"
  using assms
proof (cases rule: bufio_Read_cases)
  case direct
  note sp = net_read_spec [OF direct(3)]
  show ?thesis using direct(1,2) sp by (auto simp: reader_bytes_def)
next
  case (fill_error cs)
  note sp = net_read_spec [OF fill_error(3)]
  show ?thesis using fill_error sp by (auto simp: reader_bytes_def)
next
  case (fill cs q)
  have "0 < BUFIO_SIZE" by (simp add: BUFIO_SIZE_def)
  note sp = net_read_spec(1-5,7) [OF fill(3)] net_read_spec(8) [OF fill(3) this]
  show ?thesis using fill sp by (auto simp: reader_bytes_def)
qed (auto simp: reader_bytes_def)

lemma bufio_Read_spec:
  assumes "bufio_Read r n = (bs, e, r')"
  shows "rerr r' = rerr r" "length bs \<le> n"
    and "reader_bytes r = bs @ reader_bytes r'"
    and "e = Some x \<Longrightarrow> n > 0 \<and> bs = [] \<and> x = rerr r \<and> reader_bytes r = [] \<and> r' = r"
  using bufio_Read_all [OF assms] by blast+

lemma bufio_Read_decreases:
  assumes "bufio_Read r n = (bs, None, r')" and "n > 0"
  shows "n - length bs + length (rchunks r') < n + length (rchunks r)"
proof (cases "bs = []")
  case True
  then show ?thesis using bufio_Read_all [OF assms(1)] assms(2) by auto
next
  case False
  then have "0 < length bs" by simp
  then show ?thesis using bufio_Read_all [OF assms(1)] assms(2) by linarith
qed

text \<open>\<open>io.ReadFull\<close>: read until \<open>n\<close> bytes are there or an error comes.\<close>

function read_full :: "reader \<Rightarrow> nat \<Rightarrow> byte list \<Rightarrow> byte list \<times> go_error option \<times> reader" where
  "read_full r n acc =
     (if n = 0 then (acc, None, r)
      else case bufio_Read r n of
             (bs, Some e, r') \<Rightarrow>
               (acc @ bs, Some (if acc @ bs \<noteq> [] \<and> e = IoEOF then IoErrUnexpectedEOF else e), r')
           | (bs, None, r') \<Rightarrow> read_full r' (n - length bs) (acc @ bs))"
  by pat_completeness auto
termination
  by (relation "measure (\<lambda>(r, n, acc). n + length (rchunks r))")
    (auto dest!: bufio_Read_decreases [OF sym])

declare read_full.simps [simp del]

definition io_ReadFull :: "reader \<Rightarrow> nat \<Rightarrow> byte list \<times> go_error option \<times> reader" where
  "io_ReadFull r n = read_full r n []"

lemma read_full_enough:
  "n \<le> length (reader_bytes r) \<Longrightarrow>
     \<exists>r'. read_full r n acc = (acc @ take n (reader_bytes r), None, r')
       \<and> reader_bytes r' = drop n (reader_bytes r) \<and> rerr r' = rerr r"
proof (induction r n acc rule: read_full.induct)
  case (1 r n acc)
  show ?case
  proof (cases "n = 0")
    case True
    then show ?thesis by (simp add: read_full.simps)
  next
    case False
    obtain bs e r1 where rd: "bufio_Read r n = (bs, e, r1)" by (cases "bufio_Read r n")
    note sp = bufio_Read_spec [OF rd]
    have "e = None"
      using sp(4) 1(2) False by (cases e) auto
    moreover have "n - length bs \<le> length (reader_bytes r1)"
      using sp(3) 1(2) by simp
    ultimately show ?thesis
      using 1(1) [OF False rd [symmetric]] False rd sp(1,2,3)
      by (subst read_full.simps) auto
  qed
qed

lemma read_full_short:
  "length (reader_bytes r) < n \<Longrightarrow>
     \<exists>r'. read_full r n acc = (acc @ reader_bytes r,
         Some (if acc @ reader_bytes r \<noteq> [] \<and> rerr r = IoEOF then IoErrUnexpectedEOF else rerr r), r')
       \<and> reader_bytes r' = [] \<and> rerr r' = rerr r"
proof (induction r n acc rule: read_full.induct)
  case (1 r n acc)
  obtain bs e r1 where rd: "bufio_Read r n = (bs, e, r1)" by (cases "bufio_Read r n")
  note sp = bufio_Read_spec [OF rd]
  have n: "n \<noteq> 0" using 1(2) by auto
  show ?case
  proof (cases e)
    case None
    then have "length (reader_bytes r1) < n - length bs"
      using sp(2,3) 1(2) by simp
    with 1(1) [OF n rd [symmetric]] None n rd sp(1,3) show ?thesis
      by (subst read_full.simps) auto
  next
    case (Some x)
    with sp(4) [OF Some] n rd show ?thesis
      by (subst read_full.simps) auto
  qed
qed

lemma io_ReadFull_enough:
  assumes "reader_bytes r = bs @ rest"
  shows "\<exists>r'. io_ReadFull r (length bs) = (bs, None, r') \<and> reader_bytes r' = rest \<and> rerr r' = rerr r"
  using read_full_enough [of "length bs" r "[]"] assms by (simp add: io_ReadFull_def)

lemma io_ReadFull_short:
  assumes "length (reader_bytes r) < n"
  shows "\<exists>r'. io_ReadFull r n = (reader_bytes r,
      Some (if reader_bytes r \<noteq> [] \<and> rerr r = IoEOF then IoErrUnexpectedEOF else rerr r), r')
    \<and> reader_bytes r' = [] \<and> rerr r' = rerr r"
  using read_full_short [OF assms, of "[]"] by (simp add: io_ReadFull_def)

text \<open>Whatever it delivers is what comes next on the stream.\<close>

lemma io_ReadFull_prefix:
  assumes "io_ReadFull r n = (bs, e, r')"
  shows "reader_bytes r = bs @ reader_bytes r' \<and> rerr r' = rerr r
    \<and> (e = None \<longleftrightarrow> length bs = n) \<and> (e = None \<longrightarrow> n \<le> length (reader_bytes r))"
proof (cases "n \<le> length (reader_bytes r)")
  case True
  then show ?thesis
    using assms read_full_enough [OF True, of "[]"] by (auto simp: io_ReadFull_def)
next
  case False
  then show ?thesis
    using assms read_full_short [of r n "[]"] by (auto simp: io_ReadFull_def)
qed

subsection \<open>Writer\<close>

type_synonym 'n net = "'n \<Rightarrow> byte list \<Rightarrow> (nat \<times> go_error) option \<times> 'n"

record 'n writer =
  wbuf :: "byte list"
  werr :: "go_error option"
  under :: 'n

definition bufio_Flush :: "'n net \<Rightarrow> 'n writer \<Rightarrow> go_error option \<times> 'n writer" where
  "bufio_Flush net w =
     (case werr w of
        Some e \<Rightarrow> (Some e, w)
      | None \<Rightarrow>
          if wbuf w = [] then (None, w)
          else case net (under w) (wbuf w) of
                 (None, u) \<Rightarrow> (None, w\<lparr>wbuf := [], under := u\<rparr>)
               | (Some (n, e), u) \<Rightarrow>
                   (Some e, w\<lparr>wbuf := drop n (wbuf w), werr := Some e, under := u\<rparr>))"

text \<open>The bytes that no longer fit: into the empty buffer, or straight to the network.\<close>

definition bufio_write_rest :: "'n net \<Rightarrow> 'n writer \<Rightarrow> nat \<Rightarrow> byte list \<Rightarrow> nat \<times> go_error option \<times> 'n writer" where
  "bufio_write_rest net w nn p =
     (if length p \<le> BUFIO_SIZE then (nn + length p, None, w\<lparr>wbuf := p\<rparr>)
      else case net (under w) p of
             (None, u) \<Rightarrow> (nn + length p, None, w\<lparr>under := u\<rparr>)
           | (Some (n, e), u) \<Rightarrow> (nn + n, Some e, w\<lparr>werr := Some e, under := u\<rparr>))"

definition bufio_Write :: "'n net \<Rightarrow> 'n writer \<Rightarrow> byte list \<Rightarrow> nat \<times> go_error option \<times> 'n writer" where
  "bufio_Write net w p =
     (let avail = BUFIO_SIZE - length (wbuf w) in
      case werr w of
        Some e \<Rightarrow> (0, Some e, w)
      | None \<Rightarrow>
          if length p \<le> avail then (length p, None, w\<lparr>wbuf := wbuf w @ p\<rparr>)
          else if wbuf w = [] then bufio_write_rest net w 0 p
          else case bufio_Flush net (w\<lparr>wbuf := wbuf w @ take avail p\<rparr>) of
                 (Some e, w') \<Rightarrow> (avail, Some e, w')
               | (None, w') \<Rightarrow> bufio_write_rest net w' avail (drop avail p))"

text \<open>
  A network that takes everything: \<open>sent\<close> reads off what has arrived. \<open>writer_bytes\<close> is what
  has been handed to the writer, whether it is still buffered or has left.
\<close>

definition net_accepts :: "'n net \<Rightarrow> ('n \<Rightarrow> byte list) \<Rightarrow> bool" where
  "net_accepts net sent \<longleftrightarrow> (\<forall>u p. fst (net u p) = None \<and> sent (snd (net u p)) = sent u @ p)"

definition writer_bytes :: "('n \<Rightarrow> byte list) \<Rightarrow> 'n writer \<Rightarrow> byte list" where
  "writer_bytes sent w = sent (under w) @ wbuf w"

text \<open>The connection that takes everything; its state is what it has been given.\<close>

definition net_all :: "byte list net" where
  "net_all u p = (None, u @ p)"

lemma net_accepts_all [simp]: "net_accepts net_all id"
  by (simp add: net_accepts_def net_all_def)

lemma net_acceptsD:
  "net_accepts net sent \<Longrightarrow> net u p = (r, u') \<Longrightarrow> r = None \<and> sent u' = sent u @ p"
  by (metis fst_conv net_accepts_def snd_conv)

lemma bufio_Flush_accepts:
  assumes "net_accepts net sent" and "werr w = None" and "bufio_Flush net w = (e, w')"
  shows "e = None \<and> werr w' = None \<and> wbuf w' = [] \<and> sent (under w') = writer_bytes sent w"
  using assms
  by (auto simp: bufio_Flush_def writer_bytes_def split: if_splits prod.splits option.splits
      dest: net_acceptsD)

lemma bufio_write_rest_accepts:
  assumes "net_accepts net sent" and "werr w = None" and "wbuf w = []"
    and "bufio_write_rest net w nn p = (n, e, w')"
  shows "n = nn + length p \<and> e = None \<and> werr w' = None \<and> writer_bytes sent w' = sent (under w) @ p"
  using assms
  by (auto simp: bufio_write_rest_def writer_bytes_def split: if_splits prod.splits option.splits
      dest: net_acceptsD)

lemma bufio_Write_accepts:
  assumes net: "net_accepts net sent" and err: "werr w = None" and wr: "bufio_Write net w p = (n, e, w')"
  shows "n = length p \<and> e = None \<and> werr w' = None \<and> writer_bytes sent w' = writer_bytes sent w @ p"
proof -
  let ?a = "BUFIO_SIZE - length (wbuf w)"
  consider (fits) "length p \<le> ?a" | (direct) "\<not> length p \<le> ?a" "wbuf w = []"
    | (full) "\<not> length p \<le> ?a" "wbuf w \<noteq> []" by blast
  then show ?thesis
  proof cases
    case fits
    then show ?thesis using wr err by (auto simp: bufio_Write_def writer_bytes_def)
  next
    case direct
    then have "bufio_write_rest net w 0 p = (n, e, w')"
      using wr err by (simp add: bufio_Write_def)
    from bufio_write_rest_accepts [OF net err direct(2) this] show ?thesis
      using direct(2) by (simp add: writer_bytes_def)
  next
    case full
    obtain e1 w1 where fl: "bufio_Flush net (w\<lparr>wbuf := wbuf w @ take ?a p\<rparr>) = (e1, w1)"
      by (cases "bufio_Flush net (w\<lparr>wbuf := wbuf w @ take ?a p\<rparr>)")
    have f: "e1 = None" "werr w1 = None" "wbuf w1 = []"
      "sent (under w1) = sent (under w) @ wbuf w @ take ?a p"
      using bufio_Flush_accepts [OF net _ fl] err by (auto simp: writer_bytes_def)
    have "bufio_write_rest net w1 ?a (drop ?a p) = (n, e, w')"
      using wr err full fl f(1) by (simp add: bufio_Write_def Let_def)
    from bufio_write_rest_accepts [OF net f(2,3) this] show ?thesis
      using full f(4) by (auto simp: writer_bytes_def)
  qed
qed

end
