(* ===== verification/Framed_Transport.thy ===== *)
theory Framed_Transport
  imports Bufio Thrift_Lib Memory_Alloc
begin

text \<open>
  \<open>proxy/buffered_framed_transport.go\<close>: a frame is its length as a big-endian 32-bit word
  followed by its bytes. Writing batches frames in the \<open>bufio\<close> writer and flushes by count
  or by age; reading takes a frame into a slice of the allocator, however the network cut the
  stream into chunks. The times are the values \<open>time.Now().UnixNano()\<close> returns, passed in.
\<close>

definition DEFAULT_MAX_LENGTH :: nat where
  "DEFAULT_MAX_LENGTH = 16384000"

record 'n framed =
  Reader :: reader
  Writer :: "'n writer"
  FrameSize :: int
  fbuf :: "byte list"
  maxLength :: nat
  MaxBuffered :: nat
  MaxInterval :: int
  nbuffered :: nat
  lastflush :: int

definition NewTBufferedFramedTransportMaxLength ::
    "reader \<Rightarrow> 'n \<Rightarrow> int \<Rightarrow> nat \<Rightarrow> nat \<Rightarrow> 'n framed" where
  "NewTBufferedFramedTransportMaxLength rd nt maxInterval maxBuffered maxLen =
     \<lparr>Reader = rd, Writer = \<lparr>wbuf = [], werr = None, under = nt\<rparr>, FrameSize = 0, fbuf = [],
      maxLength = maxLen, MaxBuffered = maxBuffered, MaxInterval = maxInterval, nbuffered = 0,
      lastflush = 0\<rparr>"

definition NewTBufferedFramedTransport :: "reader \<Rightarrow> 'n \<Rightarrow> int \<Rightarrow> nat \<Rightarrow> 'n framed" where
  "NewTBufferedFramedTransport rd nt maxInterval maxBuffered =
     NewTBufferedFramedTransportMaxLength rd nt maxInterval maxBuffered DEFAULT_MAX_LENGTH"

subsection \<open>Reading\<close>

definition readFrameHeader :: "thrift_lib \<Rightarrow> 'n framed \<Rightarrow> (go_error + nat) \<times> 'n framed" where
  "readFrameHeader T p =
     (let (buf, err, r) = io_ReadFull (Reader p) 4; p' = p\<lparr>Reader := r\<rparr> in
      case err of
        Some e \<Rightarrow> (Inl e, p')
      | None \<Rightarrow>
          let sz = unat (get_uint32 buf) in
          if sz > maxLength p
          then (Inl (TransportException (UNKNOWN_TRANSPORT_EXCEPTION T)
                  (''Incorrect frame size ('' @ fmt_d (int sz) @ '')'')), p')
          else (Inr sz, p'))"

text \<open>A transport exception keeps its type id and gets a prefix; any other error is converted.\<close>

definition wrap_read_error :: "thrift_lib \<Rightarrow> string \<Rightarrow> go_error \<Rightarrow> go_error" where
  "wrap_read_error T prefix e =
     (case e of
        TransportException t s \<Rightarrow> TransportException t (prefix @ s)
      | _ \<Rightarrow> TransportExceptionFromError T (ErrorString (prefix @ error_text e)))"

definition ReadFrame :: "thrift_lib \<Rightarrow> memory \<Rightarrow> 'n framed \<Rightarrow>
    ((go_error + slice) \<times> memory \<times> 'n framed) outcome" where
  "ReadFrame T m p =
     (if FrameSize p \<noteq> 0
      then Ret (Inl (TransportExceptionFromError T
             (ErrorString (''Unexpected frame size: '' @ fmt_d (FrameSize p)))), m, p)
      else case readFrameHeader T p of
             (Inl e, p1) \<Rightarrow> Ret (Inl (wrap_read_error T ''Frame Header Read Error: '' e), m, p1)
           | (Inr frameSize, p1) \<Rightarrow>
               obind (getSlice m frameSize frameSize) (\<lambda>(bytes, m1).
                 let (bs, err, r) = io_ReadFull (Reader p1) frameSize;
                     m2 = mem_store m1 (s_arr bytes) (s_off bytes) bs;
                     p2 = p1\<lparr>Reader := r\<rparr> in
                 case err of
                   Some e \<Rightarrow> Ret (Inl (wrap_read_error T ''Frame Data Read Error: '' e), m2, p2)
                 | None \<Rightarrow> Ret (Inr bytes, m2, p2)))"

text \<open>
  \<open>Read\<close> with a buffer of \<open>n\<close> bytes: the bytes put into it, the count and error returned.
  A frame shorter than the buffer is read in a recursive call and then reported as an error.
\<close>

definition framed_read_step :: "thrift_lib \<Rightarrow> nat \<Rightarrow> 'n framed \<Rightarrow>
    byte list \<times> nat \<times> go_error option \<times> 'n framed" where
  "framed_read_step T n p =
     (let (bs, err, r) = bufio_Read (Reader p) n;
          p' = p\<lparr>Reader := r, FrameSize := FrameSize p - int (length bs)\<rparr> in
      if FrameSize p' < 0
      then (bs, 0, Some (TransportException (UNKNOWN_TRANSPORT_EXCEPTION T) ''Negative frame size''), p')
      else (bs, length bs, map_option (TransportExceptionFromError T) err, p'))"

function framed_Read :: "thrift_lib \<Rightarrow> nat \<Rightarrow> 'n framed \<Rightarrow>
    (byte list \<times> nat \<times> go_error option \<times> 'n framed) outcome" where
  "framed_Read T n p =
     (case (if FrameSize p = 0
            then (case readFrameHeader T p of
                    (Inl e, p') \<Rightarrow> (Some e, p')
                  | (Inr sz, p') \<Rightarrow> (None, p'\<lparr>FrameSize := int sz\<rparr>))
            else (None, p)) of
        (Some e, p1) \<Rightarrow> Ret ([], 0, Some e, p1)
      | (None, p1) \<Rightarrow>
          if FrameSize p1 < 0 \<and> FrameSize p1 < int n then Panic SliceBounds
          else if FrameSize p1 < int n then
            obind (framed_Read T (nat (FrameSize p1)) p1) (\<lambda>(tmp, l, err, p2).
              case err of
                None \<Rightarrow> Ret (tmp, l, Some (TransportExceptionFromError T
                  (ErrorString (''Not enough frame size '' @ fmt_d (FrameSize p1) @ '' to read '' @
                     fmt_d (int n) @ '' bytes''))), p2)
              | Some _ \<Rightarrow> Ret (framed_read_step T n p2))
          else Ret (framed_read_step T n p1))"
  by pat_completeness auto
termination
  by (relation "measure (\<lambda>(T, n, p). n)") auto

declare framed_Read.simps [simp del]

definition framed_ReadByte :: "thrift_lib \<Rightarrow> 'n framed \<Rightarrow> (go_error + byte) \<times> 'n framed" where
  "framed_ReadByte T p =
     (case (if FrameSize p = 0
            then (case readFrameHeader T p of
                    (Inl e, p') \<Rightarrow> (Some e, p')
                  | (Inr sz, p') \<Rightarrow> (None, p'\<lparr>FrameSize := int sz\<rparr>))
            else (None, p)) of
        (Some e, p1) \<Rightarrow> (Inl e, p1)
      | (None, p1) \<Rightarrow>
          if FrameSize p1 < 1
          then (Inl (TransportExceptionFromError T (ErrorString
                  (''Not enough frame size '' @ fmt_d (FrameSize p1) @ '' to read 1 bytes''))), p1)
          else case io_ReadFull (Reader p1) 1 of
                 (bs, Some e, r) \<Rightarrow> (Inl e, p1\<lparr>Reader := r\<rparr>)
               | (bs, None, r) \<Rightarrow> (Inr (hd bs), p1\<lparr>Reader := r, FrameSize := FrameSize p1 - 1\<rparr>))"

subsection \<open>Writing\<close>

definition framed_Write :: "'n framed \<Rightarrow> byte list \<Rightarrow> nat \<times> 'n framed" where
  "framed_Write p buf = (length buf, p\<lparr>fbuf := fbuf p @ buf\<rparr>)"

definition framed_WriteByte :: "'n framed \<Rightarrow> byte \<Rightarrow> 'n framed" where
  "framed_WriteByte p c = p\<lparr>fbuf := fbuf p @ [c]\<rparr>"

definition framed_WriteString :: "'n framed \<Rightarrow> string \<Rightarrow> nat \<times> 'n framed" where
  "framed_WriteString p s = (length s, p\<lparr>fbuf := fbuf p @ string_bytes s\<rparr>)"

definition needFlush :: "int \<Rightarrow> 'n framed \<Rightarrow> bool" where
  "needFlush now p \<longleftrightarrow> nbuffered p \<noteq> 0 \<and>
     (nbuffered p \<ge> MaxBuffered p \<or> now - lastflush p > MaxInterval p)"

definition FlushTransport :: "'n net \<Rightarrow> int \<Rightarrow> bool \<Rightarrow> 'n framed \<Rightarrow> go_error option \<times> 'n framed" where
  "FlushTransport net now force p =
     (if nbuffered p > 0 \<and> (force \<or> needFlush now p) then
        (case bufio_Flush net (Writer p) of
           (Some e, w) \<Rightarrow> (Some e, p\<lparr>Writer := w\<rparr>)
         | (None, w) \<Rightarrow> (None, p\<lparr>Writer := w, nbuffered := 0, lastflush := now\<rparr>))
      else (None, p))"

definition FlushBuffer :: "thrift_lib \<Rightarrow> 'n net \<Rightarrow> int \<Rightarrow> bool \<Rightarrow> 'n framed \<Rightarrow> go_error option \<times> 'n framed" where
  "FlushBuffer T net now force p =
     (let sz = length (fbuf p) in
      case bufio_Write net (Writer p) (put_uint32 (of_nat sz)) of
        (n, Some e, w) \<Rightarrow> (Some (TransportExceptionFromError T e), p\<lparr>Writer := w\<rparr>)
      | (n, None, w) \<Rightarrow>
          (case (if sz > 0 then bufio_Write net w (fbuf p) else (0, None, w)) of
             (k, Some e, w') \<Rightarrow>
               (Some (TransportExceptionFromError T e), p\<lparr>Writer := w', fbuf := drop k (fbuf p)\<rparr>)
           | (k, None, w') \<Rightarrow>
               FlushTransport net now force
                 (p\<lparr>Writer := w', nbuffered := nbuffered p + 1, fbuf := []\<rparr>)))"

definition framed_Flush :: "thrift_lib \<Rightarrow> 'n net \<Rightarrow> int \<Rightarrow> 'n framed \<Rightarrow> go_error option \<times> 'n framed" where
  "framed_Flush T net now p = FlushBuffer T net now True p"

subsection \<open>Frames on the wire\<close>

definition frame_bytes :: "byte list \<Rightarrow> byte list" where
  "frame_bytes f = put_uint32 (of_nat (length f)) @ f"

text \<open>One frame written and flushed, as every user of the transport does it.\<close>

definition send_frame :: "thrift_lib \<Rightarrow> 'n net \<Rightarrow> int \<Rightarrow> bool \<Rightarrow> byte list \<Rightarrow> 'n framed \<Rightarrow>
    go_error option \<times> 'n framed" where
  "send_frame T net now force f p = FlushBuffer T net now force (snd (framed_Write p f))"

fun send_frames :: "thrift_lib \<Rightarrow> 'n net \<Rightarrow> (int \<times> bool \<times> byte list) list \<Rightarrow> 'n framed \<Rightarrow>
    go_error option \<times> 'n framed" where
  "send_frames T net [] p = (None, p)"
| "send_frames T net ((now, force, f) # fs) p =
     (case send_frame T net now force f p of
        (Some e, p') \<Rightarrow> (Some e, p')
      | (None, p') \<Rightarrow> send_frames T net fs p')"

fun read_frames :: "thrift_lib \<Rightarrow> memory \<Rightarrow> 'n framed \<Rightarrow> nat \<Rightarrow>
    (byte list list \<times> go_error option \<times> 'n framed) outcome" where
  "read_frames T m p 0 = Ret ([], None, p)"
| "read_frames T m p (Suc k) =
     obind (ReadFrame T m p) (\<lambda>(res, m', p').
       case res of
         Inl e \<Rightarrow> Ret ([], Some e, p')
       | Inr s \<Rightarrow> obind (read_frames T m' p' k) (\<lambda>(fs, e, p''). Ret (slice_bytes m' s # fs, e, p'')))"

subsection \<open>Reading lemmas\<close>

lemma readFrameHeader_ok:
  assumes "reader_bytes (Reader p) = put_uint32 (of_nat n) @ rest"
    and "n \<le> maxLength p" and "n < 2 ^ 32"
  shows "\<exists>r. readFrameHeader T p = (Inr n, p\<lparr>Reader := r\<rparr>) \<and> reader_bytes r = rest
    \<and> rerr r = rerr (Reader p)"
proof -
  obtain r where "io_ReadFull (Reader p) 4 = (put_uint32 (of_nat n), None, r)"
    and "reader_bytes r = rest" "rerr r = rerr (Reader p)"
    using io_ReadFull_enough [OF assms(1)] by auto
  then show ?thesis using assms(2,3) by (auto simp: readFrameHeader_def)
qed

lemma ReadFrame_ok:
  assumes pool: "pool_ok m" and fs: "FrameSize p = 0"
    and bytes: "reader_bytes (Reader p) = frame_bytes f @ rest"
    and len: "length f \<le> maxLength p" "length f < 2 ^ 32"
  shows "\<exists>s m' r. ReadFrame T m p = Ret (Inr s, m', p\<lparr>Reader := r\<rparr>) \<and> slice_bytes m' s = f
    \<and> slice_ok m' s \<and> pool_ok m' \<and> s_arr s \<notin> set (pooled_arrays m')
    \<and> reader_bytes r = rest \<and> rerr r = rerr (Reader p)"
proof -
  obtain r1 where hd: "readFrameHeader T p = (Inr (length f), p\<lparr>Reader := r1\<rparr>)"
    and r1: "reader_bytes r1 = f @ rest" "rerr r1 = rerr (Reader p)"
    using readFrameHeader_ok [of p "length f" "f @ rest"] bytes len by (auto simp: frame_bytes_def)
  obtain s m1 where g: "getSlice m (length f) (length f) = Ret (s, m1)"
    using getSlice_total by blast
  note sp = getSlice_spec [OF pool g]
  obtain r2 where rd: "io_ReadFull r1 (length f) = (f, None, r2)"
    and r2: "reader_bytes r2 = rest" "rerr r2 = rerr r1"
    using io_ReadFull_enough [OF r1(1)] by auto
  let ?m = "mem_store m1 (s_arr s) (s_off s) f"
  have inside: "s_off s + length f \<le> length (arrays m1 (s_arr s))"
    using sp by (auto simp: slice_ok_def)
  have "slice_bytes ?m s = f"
    using slice_bytes_store_prefix [of m1 s f] sp by simp
  moreover have "slice_ok ?m s" "pool_ok ?m"
    using sp slice_ok_store [OF inside] by (auto simp: pool_ok_def pooled_arrays_def)
  moreover have "s_arr s \<notin> set (pooled_arrays ?m)"
    using sp by (simp add: pooled_arrays_def)
  ultimately show ?thesis
    using fs hd g rd r2 r1(2) by (auto simp: ReadFrame_def intro: exI [of _ r2])
qed

text \<open>
  A header that announces more than \<open>maxLength\<close> bytes makes \<open>ReadFrame\<close> return the transport
  exception with the announced size, for every content of the stream behind it; no buffer is
  taken for it (the memory is unchanged), so a peer cannot make the proxy allocate beyond the limit.
\<close>

lemma ReadFrame_too_long:
  assumes "FrameSize p = 0" and "reader_bytes (Reader p) = put_uint32 (of_nat n) @ rest"
    and "maxLength p < n" and "n < 2 ^ 32"
  shows "\<exists>r. ReadFrame T m p = Ret (Inl (TransportException (UNKNOWN_TRANSPORT_EXCEPTION T)
      (''Frame Header Read Error: Incorrect frame size ('' @ fmt_d (int n) @ '')'')), m, p\<lparr>Reader := r\<rparr>)"
proof -
  obtain r where "io_ReadFull (Reader p) 4 = (put_uint32 (of_nat n), None, r)"
    using io_ReadFull_enough [OF assms(2)] by auto
  then show ?thesis
    using assms by (auto simp: ReadFrame_def readFrameHeader_def wrap_read_error_def)
qed

lemma ReadFrame_too_long_witness:
  "\<exists>r. ReadFrame strict_binary empty_memory (NewTBufferedFramedTransportMaxLength
        \<lparr>rbuf = [], rchunks = [put_uint32 21, [7]], rerr = IoEOF\<rparr> ([] :: byte list) 0 1 20) =
    Ret (Inl (TransportException 0 (''Frame Header Read Error: Incorrect frame size ('' @ fmt_d 21 @ '')'')),
      empty_memory, r)"
  using ReadFrame_too_long [of "NewTBufferedFramedTransportMaxLength
      \<lparr>rbuf = [], rchunks = [put_uint32 21, [7]], rerr = IoEOF\<rparr> ([] :: byte list) 0 1 20" 21 "[7]"
      strict_binary empty_memory]
  by (auto simp: NewTBufferedFramedTransportMaxLength_def reader_bytes_def strict_binary_def)

lemma ReadFrame_end:
  assumes "FrameSize p = 0" and "reader_bytes (Reader p) = []"
  shows "\<exists>r. ReadFrame T m p = Ret (Inl (wrap_read_error T ''Frame Header Read Error: ''
      (rerr (Reader p))), m, p\<lparr>Reader := r\<rparr>) \<and> reader_bytes r = [] \<and> rerr r = rerr (Reader p)"
  using io_ReadFull_short [of "Reader p" 4] assms
  by (auto simp: ReadFrame_def readFrameHeader_def)

text \<open>However the stream is cut into chunks, the frames come out in order, then the error.\<close>

lemma read_frames_all:
  assumes "pool_ok m" and "FrameSize p = 0"
    and "reader_bytes (Reader p) = concat (map frame_bytes fs)"
    and "\<And>f. f \<in> set fs \<Longrightarrow> length f \<le> maxLength p \<and> length f < 2 ^ 32"
  shows "\<exists>p'. read_frames T m p (Suc (length fs)) =
      Ret (fs, Some (wrap_read_error T ''Frame Header Read Error: '' (rerr (Reader p))), p')"
  using assms
proof (induction fs arbitrary: m p)
  case Nil
  then show ?case using ReadFrame_end [of p T m] by auto
next
  case (Cons f fs)
  obtain s m' r where rf: "ReadFrame T m p = Ret (Inr s, m', p\<lparr>Reader := r\<rparr>)"
    and s: "slice_bytes m' s = f" and pool: "pool_ok m'"
    and r: "reader_bytes r = concat (map frame_bytes fs)" "rerr r = rerr (Reader p)"
    using ReadFrame_ok [OF Cons.prems(1,2), of f "concat (map frame_bytes fs)" T] Cons.prems(3,4)
    by auto
  show ?case
    using Cons.IH [OF pool, of "p\<lparr>Reader := r\<rparr>"] Cons.prems(2,4) rf s r by auto
qed

subsection \<open>Writing lemmas\<close>

text \<open>What the transport has been given as whole frames: buffered or sent.\<close>

definition framed_out :: "('n \<Rightarrow> byte list) \<Rightarrow> 'n framed \<Rightarrow> byte list" where
  "framed_out sent p = writer_bytes sent (Writer p)"

lemma FlushTransport_accepts:
  assumes "net_accepts net sent" and "werr (Writer p) = None" and "FlushTransport net now force p = (e, p')"
  shows "e = None \<and> werr (Writer p') = None \<and> framed_out sent p' = framed_out sent p
    \<and> fbuf p' = fbuf p \<and> (force \<and> nbuffered p > 0 \<longrightarrow> sent (under (Writer p')) = framed_out sent p)"
proof (cases "nbuffered p > 0 \<and> (force \<or> needFlush now p)")
  case True
  obtain e1 w where fl: "bufio_Flush net (Writer p) = (e1, w)" by (cases "bufio_Flush net (Writer p)")
  show ?thesis
    using assms(3) True fl bufio_Flush_accepts [OF assms(1,2) fl]
    by (auto simp: FlushTransport_def framed_out_def writer_bytes_def)
next
  case False
  then show ?thesis using assms by (auto simp: FlushTransport_def)
qed

lemma FlushBuffer_accepts:
  assumes net: "net_accepts net sent" and err: "werr (Writer p) = None"
    and fl: "FlushBuffer T net now force p = (e, p')"
  shows "e = None \<and> werr (Writer p') = None \<and> fbuf p' = []
    \<and> framed_out sent p' = framed_out sent p @ frame_bytes (fbuf p)
    \<and> (force \<longrightarrow> sent (under (Writer p')) = framed_out sent p @ frame_bytes (fbuf p))"
proof -
  obtain n e1 w1 where w1: "bufio_Write net (Writer p) (put_uint32 (of_nat (length (fbuf p)))) = (n, e1, w1)"
    by (cases "bufio_Write net (Writer p) (put_uint32 (of_nat (length (fbuf p))))")
  note a1 = bufio_Write_accepts [OF net err w1]
  obtain k e2 w2 where w2:
    "(if length (fbuf p) > 0 then bufio_Write net w1 (fbuf p) else (0, None, w1)) = (k, e2, w2)"
    by (cases "if length (fbuf p) > 0 then bufio_Write net w1 (fbuf p) else (0, None, w1)")
  have a2: "e2 = None \<and> werr w2 = None \<and> writer_bytes sent w2 = writer_bytes sent w1 @ fbuf p"
    using bufio_Write_accepts [OF net, of w1 "fbuf p" k e2 w2] a1 w2 by (auto split: if_splits)
  let ?q = "p\<lparr>Writer := w2, nbuffered := nbuffered p + 1, fbuf := []\<rparr>"
  have "FlushTransport net now force ?q = (e, p')"
    using fl w1 w2 a1 a2 by (simp add: FlushBuffer_def)
  from FlushTransport_accepts [OF net _ this] show ?thesis
    using a1 a2 by (auto simp: framed_out_def frame_bytes_def)
qed

lemma send_frame_accepts:
  assumes "net_accepts net sent" and "werr (Writer p) = None" and "fbuf p = []"
    and "send_frame T net now force f p = (e, p')"
  shows "e = None \<and> werr (Writer p') = None \<and> fbuf p' = []
    \<and> framed_out sent p' = framed_out sent p @ frame_bytes f
    \<and> (force \<longrightarrow> sent (under (Writer p')) = framed_out sent p @ frame_bytes f)"
  using FlushBuffer_accepts [OF assms(1), of "p\<lparr>fbuf := f\<rparr>" T now force e p'] assms(2-4)
  by (simp add: send_frame_def framed_Write_def framed_out_def)

lemma send_frames_accepts:
  assumes "net_accepts net sent" and "werr (Writer p) = None" and "fbuf p = []"
    and "send_frames T net fs p = (e, p')"
  shows "e = None \<and> werr (Writer p') = None \<and> fbuf p' = []
    \<and> framed_out sent p' = framed_out sent p @ concat (map (frame_bytes \<circ> snd \<circ> snd) fs)"
  using assms
proof (induction fs arbitrary: p)
  case Nil
  then show ?case by simp
next
  case (Cons x fs)
  obtain now force f where x: "x = (now, force, f)" by (cases x)
  obtain e1 p1 where s: "send_frame T net now force f p = (e1, p1)"
    by (cases "send_frame T net now force f p")
  note a = send_frame_accepts [OF Cons.prems(1-3) s]
  then show ?case
    using Cons.IH [OF Cons.prems(1), of p1] Cons.prems(4) s by (auto simp: x)
qed

text \<open>
  A \<open>FlushBuffer\<close> that succeeds leaves fewer than \<open>MaxBuffered\<close> frames unsent, and none
  when it is forced: the writers never hold back a whole batch.
\<close>

lemma FlushBuffer_batch_bound:
  assumes "FlushBuffer T net now force p = (None, p')" and "0 < MaxBuffered p"
  shows "nbuffered p' < MaxBuffered p \<and> MaxBuffered p' = MaxBuffered p
    \<and> (force \<longrightarrow> nbuffered p' = 0)"
  using assms
  by (auto simp: FlushBuffer_def FlushTransport_def needFlush_def Let_def
      split: prod.splits option.splits if_splits)

lemma FlushBuffer_batch_bound_witness:
  "nbuffered (snd (FlushBuffer strict_binary net_all 5 False
      (NewTBufferedFramedTransport \<lparr>rbuf = [], rchunks = [], rerr = IoEOF\<rparr> [] 100 3))) < 3"
  using FlushBuffer_batch_bound [of strict_binary net_all 5 False
      "NewTBufferedFramedTransport \<lparr>rbuf = [], rchunks = [], rerr = IoEOF\<rparr> [] 100 3"
      "snd (FlushBuffer strict_binary net_all 5 False
        (NewTBufferedFramedTransport \<lparr>rbuf = [], rchunks = [], rerr = IoEOF\<rparr> [] 100 3))"]
  by (simp add: NewTBufferedFramedTransport_def NewTBufferedFramedTransportMaxLength_def FlushBuffer_def
      bufio_Write_def BUFIO_SIZE_def FlushTransport_def needFlush_def)

subsection \<open>What is written is what is read\<close>

lemma send_frames_flushed:
  assumes "net_accepts net sent" and "werr (Writer p) = None" and "fbuf p = []"
    and "send_frames T net (fs @ [(now, True, f)]) p = (e, p')"
  shows "sent (under (Writer p')) = framed_out sent p'"
  using assms(2-)
proof (induction fs arbitrary: p)
  case Nil
  obtain e1 p1 where s: "send_frame T net now True f p = (e1, p1)" by (cases "send_frame T net now True f p")
  then show ?case using Nil send_frame_accepts [OF assms(1) Nil(1,2) s] by (auto split: option.splits)
next
  case (Cons x fs)
  obtain t b g where x: "x = (t, b, g)" by (cases x)
  obtain e1 p1 where s: "send_frame T net t b g p = (e1, p1)" by (cases "send_frame T net t b g p")
  note a = send_frame_accepts [OF assms(1) Cons.prems(1,2) s]
  show ?case using Cons.IH [of p1] Cons.prems(3) a s by (simp add: x)
qed

text \<open>
  C6: Frames written by \<open>Write\<close> and \<open>FlushBuffer\<close>, batched by any choice of the flush flags,
  the last one forced, arrive at the reader as exactly these frames in this order, whatever the
  chunks in which the network delivers the bytes; behind them the reader reports the end of the
  stream. This is the wire protocol between the clients, the proxy and the backends.
\<close>

theorem framing_roundtrip:
  assumes net: "net_accepts net sent" and p: "werr (Writer p) = None" "fbuf p = []" "framed_out sent p = []"
    and send: "send_frames T net (fs @ [(now, True, f)]) p = (e, p')"
    and q: "FrameSize q = 0" "reader_bytes (Reader q) = sent (under (Writer p'))" and m: "pool_ok m"
    and len: "\<forall>x \<in> insert f (snd ` snd ` set fs). length x \<le> maxLength q \<and> length x < 2 ^ 32"
  shows "e = None \<and> (\<exists>q'. read_frames T m q (length fs + 2) =
      Ret (map (snd \<circ> snd) fs @ [f], Some (wrap_read_error T ''Frame Header Read Error: '' (rerr (Reader q))), q'))"
proof -
  let ?fs = "fs @ [(now, True, f)]"
  have "e = None" and out: "framed_out sent p' = concat (map (frame_bytes \<circ> snd \<circ> snd) ?fs)"
    using send_frames_accepts [OF net p(1,2) send] p(3) by auto
  have "reader_bytes (Reader q) = concat (map frame_bytes (map (snd \<circ> snd) ?fs))"
    using q(2) send_frames_flushed [OF net p(1,2) send] out by (simp add: comp_assoc)
  moreover have "length x \<le> maxLength q \<and> length x < 2 ^ 32" if "x \<in> set (map (snd \<circ> snd) ?fs)" for x
    by (rule len [THEN bspec]) (use that in \<open>force simp: image_comp\<close>)
  ultimately have "\<exists>q'. read_frames T m q (Suc (length (map (snd \<circ> snd) ?fs))) =
      Ret (map (snd \<circ> snd) ?fs, Some (wrap_read_error T ''Frame Header Read Error: '' (rerr (Reader q))), q')"
    by (intro read_frames_all [OF m q(1)])
  then show ?thesis using \<open>e = None\<close> by simp
qed

definition demo_writer :: "byte list framed" where
  "demo_writer = NewTBufferedFramedTransport \<lparr>rbuf = [], rchunks = [], rerr = IoEOF\<rparr> [] 100 5"

definition demo_reader :: "byte list \<Rightarrow> byte list framed" where
  "demo_reader bs =
     NewTBufferedFramedTransport \<lparr>rbuf = [], rchunks = map (\<lambda>b. [b]) bs, rerr = IoEOF\<rparr> [] 100 5"

lemma demo_transport [simp]:
  "werr (Writer demo_writer) = None" "fbuf demo_writer = []" "framed_out id demo_writer = []"
  "FrameSize (demo_reader bs) = 0" "reader_bytes (Reader (demo_reader bs)) = bs"
  "rerr (Reader (demo_reader bs)) = IoEOF" "maxLength (demo_reader bs) = 16384000"
  by (simp_all add: demo_writer_def demo_reader_def NewTBufferedFramedTransport_def DEFAULT_MAX_LENGTH_def
      NewTBufferedFramedTransportMaxLength_def framed_out_def writer_bytes_def reader_bytes_def)

theorem framing_roundtrip_witness:
  "\<exists>q'. read_frames strict_binary empty_memory (demo_reader (under (Writer (snd
        (send_frames strict_binary net_all [(0, False, [1, 2, 3]), (9, True, [])] demo_writer))))) 3 =
    Ret ([[1, 2, 3], []], Some (wrap_read_error strict_binary ''Frame Header Read Error: '' IoEOF), q')"
  using framing_roundtrip [of net_all id demo_writer strict_binary "[(0, False, [1, 2, 3])]" 9 "[]"
      "fst (send_frames strict_binary net_all [(0, False, [1, 2, 3]), (9, True, [])] demo_writer)"
      "snd (send_frames strict_binary net_all [(0, False, [1, 2, 3]), (9, True, [])] demo_writer)"
      "demo_reader (under (Writer (snd
        (send_frames strict_binary net_all [(0, False, [1, 2, 3]), (9, True, [])] demo_writer))))"
      empty_memory]
  by (auto simp: numeral_3_eq_3 simp del: send_frames.simps read_frames.simps)

end
