(* ===== verification/Completion.thy ===== *)
theory Completion
  imports Request Framed_Transport
begin

text \<open>
  What happens to a request when its response, or an error, is there: the last part of
  \<open>setResponse\<close> and the loop body of \<open>flushRequests\<close>, which \<open>BackendConn\<close> and
  \<open>BackendConnLB\<close> have word for word in common. A completed request is one whose wait
  group has been released.
\<close>

subsection \<open>Wait groups\<close>

definition wait_add :: "request \<Rightarrow> request" where
  "wait_add r = r\<lparr>Wait := map_option (\<lambda>w. w + 1) (Wait r)\<rparr>"

definition wait_done :: "request \<Rightarrow> request outcome" where
  "wait_done r =
     (case Wait r of
        None \<Rightarrow> Ret r
      | Some w \<Rightarrow> if w - 1 < 0 then Panic NegativeWaitGroup else Ret (r\<lparr>Wait := Some (w - 1)\<rparr>))"

definition wait_wait :: "request \<Rightarrow> unit outcome" where
  "wait_wait r =
     (case Wait r of None \<Rightarrow> Panic NilDereference | Some w \<Rightarrow> if w > 0 then Block else Ret ())"

text \<open>A request somebody may still be waiting for.\<close>

definition awaited :: "request \<Rightarrow> bool" where
  "awaited r \<longleftrightarrow> (case Wait r of None \<Rightarrow> True | Some w \<Rightarrow> w \<ge> 1)"

lemma wait_done_awaited:
  "awaited r \<Longrightarrow> wait_done r = Ret (r\<lparr>Wait := map_option (\<lambda>w. w - 1) (Wait r)\<rparr>)"
  by (cases "Wait r") (auto simp: awaited_def wait_done_def)

subsection \<open>Completion\<close>

definition finish_request :: "thrift_lib \<Rightarrow> memory \<Rightarrow> request \<Rightarrow> slice option \<Rightarrow> go_error option \<Rightarrow>
    (request \<times> memory) outcome" where
  "finish_request T m r data err =
     (let r1 = r\<lparr>RespData := data, RespErr := err\<rparr> in
      obind (if data \<noteq> None then RestoreSeqId T m r1 else Ret m) (\<lambda>m'.
      let r2 = (if err \<noteq> None then r1\<lparr>Failed := map_option (\<lambda>_. True) (Failed r1)\<rparr> else r1) in
      obind (wait_done r2) (\<lambda>r3. Ret (r3, m'))))"

definition fail_request :: "go_error \<Rightarrow> request \<Rightarrow> request outcome" where
  "fail_request err r = wait_done (r\<lparr>RespErr := Some err\<rparr>)"

fun fail_requests :: "go_error \<Rightarrow> nat list \<Rightarrow> (nat \<Rightarrow> request) \<Rightarrow> (nat \<Rightarrow> request) outcome" where
  "fail_requests err [] rs = Ret rs"
| "fail_requests err (rid # rids) rs =
     obind (fail_request err (rs rid)) (\<lambda>r. fail_requests err rids (rs(rid := r)))"

subsection \<open>The heap\<close>

text \<open>
  Requests are reached through pointers from sessions, queues and tables at the same time, so
  they live in a store, beside the memory of the frames. Each program extends this record by
  the objects it has; \<open>set_req\<close> is an assignment through a pointer to a request.
\<close>

record heap =
  pmem :: memory
  reqs :: "nat \<Rightarrow> request"
  next_req :: nat

definition set_req :: "nat \<Rightarrow> request \<Rightarrow> 'a heap_scheme \<Rightarrow> 'a heap_scheme" where
  "set_req rid r ps = ps\<lparr>reqs := (reqs ps)(rid := r)\<rparr>"

definition new_req :: "request \<Rightarrow> 'a heap_scheme \<Rightarrow> nat \<times> 'a heap_scheme" where
  "new_req r ps = (next_req ps, (set_req (next_req ps) r ps)\<lparr>next_req := Suc (next_req ps)\<rparr>)"

text \<open>The end of \<open>setResponse\<close>, on a request in the heap; it returns the error it was given.\<close>

definition finish_in :: "thrift_lib \<Rightarrow> nat \<Rightarrow> slice option \<Rightarrow> go_error option \<Rightarrow> 'a heap_scheme \<Rightarrow>
    (go_error option \<times> 'a heap_scheme) outcome" where
  "finish_in T rid data err ps =
     obind (finish_request T (pmem ps) (reqs ps rid) data err) (\<lambda>(r, m).
       Ret (err, (set_req rid r ps)\<lparr>pmem := m\<rparr>))"

lemma set_req_sel [simp]:
  "reqs (set_req rid r ps) = (reqs ps)(rid := r)" "pmem (set_req rid r ps) = pmem ps"
  "next_req (set_req rid r ps) = next_req ps" "heap.more (set_req rid r ps) = heap.more ps"
  by (simp_all add: set_req_def)

subsection \<open>Lemmas on completion\<close>

text \<open>The request after completion: nothing changes but the response and the wait group.\<close>

definition completed :: "request \<Rightarrow> slice option \<Rightarrow> go_error option \<Rightarrow> request" where
  "completed r data err =
     r\<lparr>RespData := data, RespErr := err,
       Failed := (if err \<noteq> None then map_option (\<lambda>_. True) (Failed r) else Failed r),
       Wait := map_option (\<lambda>w. w - 1) (Wait r)\<rparr>"

lemma awaited_upd [simp]:
  "awaited (r\<lparr>RespData := d\<rparr>) = awaited r" "awaited (r\<lparr>RespSeqId := k\<rparr>) = awaited r"
  "awaited (r\<lparr>ReqData := d\<rparr>) = awaited r" "awaited (r\<lparr>ReqDataOrig := d\<rparr>) = awaited r"
  "awaited (r\<lparr>RespErr := e\<rparr>) = awaited r" "awaited (r\<lparr>Failed := f\<rparr>) = awaited r"
  "awaited (r\<lparr>RespTypeId := t\<rparr>) = awaited r"
  by (simp_all add: awaited_def)

lemma finish_request_error:
  "awaited r \<Longrightarrow> finish_request T m r None (Some e) = Ret (completed r None (Some e), m)"
  by (simp add: finish_request_def wait_done_awaited completed_def Let_def)

lemma finish_request_data:
  assumes T: "thrift_ok T" and a: "awaited r" and ok: "slice_ok m d"
    and name: "msg_ok (ReqName r) (RespTypeId r)" and len: "12 + length (ReqName r) \<le> s_len d"
  shows "\<exists>m'. finish_request T m r (Some d) None = Ret (completed r (Some d) None, m')
    \<and> slice_bytes m' d = msg_header T (ReqName r) (RespTypeId r) (ReqSeqId r)
        @ drop (12 + length (ReqName r)) (slice_bytes m d) \<and> slice_ok m' d
    \<and> m' = mem_store m (s_arr d) (s_off d) (msg_header T (ReqName r) (RespTypeId r) (ReqSeqId r))"
proof -
  let ?r = "r\<lparr>RespData := Some d, RespErr := None\<rparr>"
  obtain m' where m': "RestoreSeqId T m ?r = Ret m'"
    "slice_bytes m' d = msg_header T (ReqName r) (RespTypeId r) (ReqSeqId r)
        @ drop (12 + length (ReqName r)) (slice_bytes m d)" "slice_ok m' d"
    "m' = mem_store m (s_arr d) (s_off d) (msg_header T (ReqName r) (RespTypeId r) (ReqSeqId r))"
    using RestoreSeqId_spec [OF T, of ?r d m] ok name len by auto
  have "finish_request T m r (Some d) None = Ret (completed r (Some d) None, m')"
    using a m'(1) by (simp add: finish_request_def Let_def wait_done_awaited completed_def)
  with m'(2-4) show ?thesis by blast
qed

text \<open>A reply to a request that is waited for: the caller's name and sequence id are put back.\<close>

lemma finish_in_reply:
  assumes T: "thrift_ok T" and aw: "awaited (reqs ps rid)" and ok: "slice_ok (pmem ps) d"
    and bytes: "slice_bytes (pmem ps) d = msg_header T n (RespTypeId (reqs ps rid)) k @ payload"
    and msg: "msg_ok n (RespTypeId (reqs ps rid))" and name: "length n = length (ReqName (reqs ps rid))"
  shows "\<exists>m'. finish_in T rid (Some d) None ps =
      Ret (None, (set_req rid (completed (reqs ps rid) (Some d) None) ps)\<lparr>pmem := m'\<rparr>)
    \<and> slice_bytes m' d = msg_header T (ReqName (reqs ps rid)) (RespTypeId (reqs ps rid))
        (ReqSeqId (reqs ps rid)) @ payload \<and> slice_ok m' d"
proof -
  let ?r = "reqs ps rid"
  have mo: "msg_ok (ReqName ?r) (RespTypeId ?r)" using msg name by (simp add: msg_ok_def)
  have "s_len d = 12 + length n + length payload"
    using length_slice_bytes [OF ok] bytes length_header [OF T msg, of k] by simp
  then have len: "12 + length (ReqName ?r) \<le> s_len d" using name by simp
  obtain m' where f: "finish_request T (pmem ps) ?r (Some d) None = Ret (completed ?r (Some d) None, m')"
    and m': "slice_bytes m' d = msg_header T (ReqName ?r) (RespTypeId ?r) (ReqSeqId ?r)
        @ drop (12 + length (ReqName ?r)) (slice_bytes (pmem ps) d)" "slice_ok m' d"
    using finish_request_data [OF T aw ok mo len] by auto
  have "drop (12 + length (ReqName ?r)) (slice_bytes (pmem ps) d) = payload"
    using bytes name length_header [OF T msg, of k] by simp
  then show ?thesis using f m' by (intro exI [of _ m']) (simp add: finish_in_def)
qed

lemma fail_requests_spec:
  assumes "distinct rids" and "\<forall>rid \<in> set rids. awaited (rs rid)"
  shows "fail_requests err rids rs = Ret (\<lambda>rid. if rid \<in> set rids
    then (rs rid)\<lparr>RespErr := Some err, Wait := map_option (\<lambda>w. w - 1) (Wait (rs rid))\<rparr> else rs rid)"
  using assms
proof (induction rids arbitrary: rs)
  case Nil
  then show ?case by simp
next
  case (Cons rid rids)
  let ?r = "(rs rid)\<lparr>RespErr := Some err, Wait := map_option (\<lambda>w. w - 1) (Wait (rs rid))\<rparr>"
  have f: "fail_request err (rs rid) = Ret ?r"
    using Cons.prems(2) by (simp add: fail_request_def wait_done_awaited)
  have "fail_requests err rids (rs(rid := ?r)) = Ret (\<lambda>q. if q \<in> set rids
      then ((rs(rid := ?r)) q)\<lparr>RespErr := Some err,
        Wait := map_option (\<lambda>w. w - 1) (Wait ((rs(rid := ?r)) q))\<rparr> else (rs(rid := ?r)) q)"
    using Cons.prems by (intro Cons.IH) auto
  also have "\<dots> = Ret (\<lambda>q. if q \<in> set (rid # rids)
      then (rs q)\<lparr>RespErr := Some err, Wait := map_option (\<lambda>w. w - 1) (Wait (rs q))\<rparr> else rs q)"
    using Cons.prems(1) by (auto simp: fun_eq_iff)
  finally show ?case by (simp add: f)
qed

subsection \<open>Sending a request\<close>

text \<open>
  The middle of both \<open>loopWriter\<close>s: give the request the next sequence id, write it as a
  frame, flush when nothing else waits.
\<close>

definition write_request :: "thrift_lib \<Rightarrow> 'n net \<Rightarrow> int \<Rightarrow> int32 \<Rightarrow> bool \<Rightarrow> nat \<Rightarrow> 'n framed \<Rightarrow>
    'a heap_scheme \<Rightarrow> (go_error option \<times> 'n framed \<times> 'a heap_scheme) outcome" where
  "write_request T net nano key flush rid p ps =
     obind (ReplaceSeqId T (pmem ps) (reqs ps rid) key) (\<lambda>(r, m).
     let (_, p1) = framed_Write p (opt_bytes m (ReqData r));
         (err, p2) = FlushBuffer T net nano flush p1 in
     Ret (err, p2, (set_req rid r ps)\<lparr>pmem := m\<rparr>))"

definition header_start :: "request \<Rightarrow> nat" where
  "header_start r = (if ProxyRequest r \<and> Service r \<noteq> [] then length (Service r) + 1 else 0)"

text \<open>A request whose data is a header, with its service in front if it has one, and a payload.\<close>

definition sendable :: "memory \<Rightarrow> request \<Rightarrow> byte list \<Rightarrow> bool" where
  "sendable m r payload \<longleftrightarrow> msg_ok (ReqName r) (ReqTypeId r) \<and>
     (\<exists>d old. ReqData r = Some d \<and> slice_ok m d \<and> slice_bytes m d = old @ payload
        \<and> length old = header_start r + 12 + length (ReqName r))"

lemma write_request_spec:
  assumes T: "thrift_ok T" and s: "sendable (pmem ps) (reqs ps rid) payload"
  shows "\<exists>d m' orig. write_request T net nano key flush rid p ps =
      (let (e, p') = send_frame T net nano flush
             (msg_header T (ReqName (reqs ps rid)) (ReqTypeId (reqs ps rid)) key @ payload) p in
       Ret (e, p', (set_req rid ((reqs ps rid)\<lparr>RespSeqId := key, ReqDataOrig := orig,
         ReqData := Some d\<rparr>) ps)\<lparr>pmem := m'\<rparr>))
    \<and> slice_bytes m' d = msg_header T (ReqName (reqs ps rid)) (ReqTypeId (reqs ps rid)) key @ payload
    \<and> slice_ok m' d"
proof -
  let ?r = "reqs ps rid"
  obtain d old where d: "ReqData ?r = Some d" "slice_ok (pmem ps) d" "slice_bytes (pmem ps) d = old @ payload"
    "length old = header_start ?r + 12 + length (ReqName ?r)" and m: "msg_ok (ReqName ?r) (ReqTypeId ?r)"
    using s by (auto simp: sendable_def)
  obtain d' m' where r: "ReplaceSeqId T (pmem ps) ?r key = Ret (?r\<lparr>RespSeqId := key,
        ReqDataOrig := (if header_start ?r > 0 then Some d else ReqDataOrig ?r), ReqData := Some d'\<rparr>, m')"
    and b: "slice_bytes m' d' = msg_header T (ReqName ?r) (ReqTypeId ?r) key @ payload" "slice_ok m' d'"
    using ReplaceSeqId_spec [OF T d(1,2) m header_start_def d(3,4), of key] by blast
  have "write_request T net nano key flush rid p ps =
      (let (e, p') = send_frame T net nano flush (slice_bytes m' d') p in
       Ret (e, p', (set_req rid (?r\<lparr>RespSeqId := key,
         ReqDataOrig := (if header_start ?r > 0 then Some d else ReqDataOrig ?r),
         ReqData := Some d'\<rparr>) ps)\<lparr>pmem := m'\<rparr>))"
    by (simp add: write_request_def r send_frame_def framed_Write_def opt_bytes_def)
  with b show ?thesis by metis
qed

end
