(* ===== verification/Seq_Table.thy ===== *)
theory Seq_Table
  imports Go_Prelude
begin

text \<open>
  Sequence ids and the table from sequence id to waiting request, which both kinds of backend
  connection keep (\<open>seqNum2Request\<close>, \<open>currentSeqId\<close>). The constants are those of
  \<open>proxy/consts.go\<close>. The locale states what a connection relies on and proves that a
  registered request is found again under its id, in spite of the wrap-around of the ids.
\<close>

definition BACKEND_CONN_MIN_SEQ_ID :: int32 where
  "BACKEND_CONN_MIN_SEQ_ID = 1"

definition BACKEND_CONN_MAX_SEQ_ID :: int32 where
  "BACKEND_CONN_MAX_SEQ_ID = 100000"

definition INVALID_ARRAY_INDEX :: int where
  "INVALID_ARRAY_INDEX = -1"

definition HB_TIMEOUT :: int where
  "HB_TIMEOUT = 6"

text \<open>The body of \<open>IncreaseCurrentSeqId\<close> on the counter; \<open>int32\<close> compares as signed.\<close>

definition next_seq_id :: "int32 \<Rightarrow> int32" where
  "next_seq_id c =
     (let c' = c + 1 in if sint c' > sint BACKEND_CONN_MAX_SEQ_ID then BACKEND_CONN_MIN_SEQ_ID else c')"

definition seq_ok :: "int32 \<Rightarrow> bool" where
  "seq_ok c \<longleftrightarrow> 1 \<le> sint c \<and> sint c \<le> 100000"

lemma seq_ok_min [simp]: "seq_ok BACKEND_CONN_MIN_SEQ_ID"
  by (simp add: seq_ok_def BACKEND_CONN_MIN_SEQ_ID_def)

lemma sint_succ:
  assumes "seq_ok c"
  shows "sint (c + 1) = sint c + 1"
proof -
  have "sint (c + 1) = signed_take_bit 31 (sint c + 1)"
    by (simp add: sint_word_ariths(1))
  also have "\<dots> = sint c + 1"
    using assms by (intro signed_take_bit_int_eq_self) (auto simp: seq_ok_def)
  finally show ?thesis .
qed

lemma mod_succ_int:
  assumes "0 < (n::int)"
  shows "(a + 1) mod n = (if a mod n = n - 1 then 0 else a mod n + 1)"
proof -
  have "(a + 1) mod n = (a mod n + 1) mod n" by (simp add: mod_add_left_eq)
  moreover have "a mod n < n" "0 \<le> a mod n" using assms by simp_all
  ultimately show ?thesis by auto
qed

lemma mod_shift_neq:
  assumes "0 \<le> (a::int)" "a < n" "0 < k" "k < n"
  shows "(a + k) mod n \<noteq> a"
proof
  assume "(a + k) mod n = a"
  then have "(a + k) mod n = a mod n" using assms by simp
  then have "n dvd (a + k) - a" by (simp only: mod_eq_dvd_iff)
  then have "n dvd k" by simp
  then show False using assms(3,4) zdvd_imp_le by fastforce
qed

lemma sint_next_seq_id:
  assumes "seq_ok c"
  shows "sint (next_seq_id c) = (if sint c = 100000 then 1 else sint c + 1)"
  using assms
  by (simp add: next_seq_id_def Let_def sint_succ BACKEND_CONN_MAX_SEQ_ID_def
      BACKEND_CONN_MIN_SEQ_ID_def seq_ok_def)

lemma seq_ok_next [simp]: "seq_ok c \<Longrightarrow> seq_ok (next_seq_id c)"
  by (simp add: seq_ok_def sint_next_seq_id)

lemma seq_ok_iter [simp]: "seq_ok c \<Longrightarrow> seq_ok ((next_seq_id ^^ k) c)"
  by (induction k) simp_all

lemma sint_iter_next_seq_id:
  assumes "seq_ok c"
  shows "sint ((next_seq_id ^^ k) c) = (sint c - 1 + int k) mod 100000 + 1"
proof (induction k)
  case 0
  then show ?case using assms by (simp add: seq_ok_def)
next
  case (Suc k)
  have "seq_ok ((next_seq_id ^^ k) c)" using assms by simp
  then have "sint ((next_seq_id ^^ Suc k) c) =
      (if sint ((next_seq_id ^^ k) c) = 100000 then 1 else sint ((next_seq_id ^^ k) c) + 1)"
    by (simp add: sint_next_seq_id)
  moreover have "(sint c - 1 + int (Suc k)) mod 100000 =
      (if (sint c - 1 + int k) mod 100000 = 99999 then 0 else (sint c - 1 + int k) mod 100000 + 1)"
    using mod_succ_int [of 100000 "sint c - 1 + int k"] by (simp add: algebra_simps)
  ultimately show ?case using Suc by simp
qed

lemma iter_next_seq_id_fresh:
  assumes "seq_ok c" and "0 < k" and "k < 100000"
  shows "(next_seq_id ^^ k) c \<noteq> c"
proof
  assume "(next_seq_id ^^ k) c = c"
  then have "sint c = (sint c - 1 + int k) mod 100000 + 1"
    using sint_iter_next_seq_id [OF assms(1), of k] by simp
  then have "(sint c - 1 + int k) mod 100000 = sint c - 1" by simp
  then show False
    using mod_shift_neq [of "sint c - 1" 100000 "int k"] assms by (simp add: seq_ok_def)
qed

lemma iter_next_seq_id_cycle:
  assumes "seq_ok c"
  shows "(next_seq_id ^^ 100000) c = c"
proof -
  have "(sint c - 1 + 100000) mod 100000 = (sint c - 1) mod 100000" by (rule mod_add_self2)
  also have "\<dots> = sint c - 1" using assms by (simp add: seq_ok_def)
  finally have "sint ((next_seq_id ^^ 100000) c) = sint c"
    using sint_iter_next_seq_id [OF assms, of 100000] by simp
  then show ?thesis using signed_word_eqI by blast
qed

subsection \<open>The interface of the table\<close>

datatype table_op = Register nat | Resolve int32

fun table_step :: "('s \<Rightarrow> nat \<Rightarrow> 's) \<Rightarrow> ('s \<Rightarrow> int32 \<Rightarrow> nat option \<times> 's) \<Rightarrow> table_op \<Rightarrow> 's \<Rightarrow> 's" where
  "table_step reg res (Register r) s = reg s r"
| "table_step reg res (Resolve k) s = snd (res s k)"

fun table_run :: "('s \<Rightarrow> nat \<Rightarrow> 's) \<Rightarrow> ('s \<Rightarrow> int32 \<Rightarrow> nat option \<times> 's) \<Rightarrow> table_op list \<Rightarrow> 's \<Rightarrow> 's" where
  "table_run reg res [] s = s"
| "table_run reg res (op # ops) s = table_run reg res ops (table_step reg res op s)"

definition n_register :: "table_op list \<Rightarrow> nat" where
  "n_register ops = length (filter (\<lambda>op. case op of Register _ \<Rightarrow> True | Resolve _ \<Rightarrow> False) ops)"

locale seq_table =
  fixes table :: "'s \<Rightarrow> int32 \<Rightarrow> nat option"
    and cur :: "'s \<Rightarrow> int32"
    and register :: "'s \<Rightarrow> nat \<Rightarrow> 's"
    and resolve :: "'s \<Rightarrow> int32 \<Rightarrow> nat option \<times> 's"
  assumes register_table: "table (register s r) = (table s)(cur s \<mapsto> r)"
    and register_cur: "cur (register s r) = next_seq_id (cur s)"
    and resolve_result: "fst (resolve s k) = table s k"
    and resolve_table: "table (snd (resolve s k)) = (table s)(k := None)"
    and resolve_cur: "cur (snd (resolve s k)) = cur s"
begin

lemma survives_aux:
  "seq_ok key \<Longrightarrow> table s key = Some r \<Longrightarrow> cur s = (next_seq_id ^^ j) key \<Longrightarrow> 0 < j \<Longrightarrow>
     j + n_register ops \<le> 100000 \<Longrightarrow> Resolve key \<notin> set ops \<Longrightarrow>
     table (table_run register resolve ops s) key = Some r"
proof (induction ops arbitrary: s j)
  case Nil
  then show ?case by simp
next
  case (Cons op ops)
  show ?case
  proof (cases op)
    case (Register q)
    have "j < 100000" using Cons.prems(5) by (simp add: Register n_register_def)
    then have "(next_seq_id ^^ j) key \<noteq> key"
      using Cons.prems(1,4) by (rule_tac iter_next_seq_id_fresh)
    then show ?thesis
      using Cons.IH [of "register s q" "Suc j"] Cons.prems
      by (simp add: Register n_register_def register_table register_cur)
  next
    case (Resolve k)
    then show ?thesis
      using Cons.IH [of "snd (resolve s k)" j] Cons.prems
      by (auto simp: n_register_def resolve_table resolve_cur)
  qed
qed

text \<open>Lookup after insertion, with fewer than a full cycle of other insertions in between.\<close>

lemma found_again:
  assumes "seq_ok (cur s)" and "n_register ops < 100000" and "Resolve (cur s) \<notin> set ops"
  shows "fst (resolve (table_run register resolve ops (register s r)) (cur s)) = Some r"
  using survives_aux [of "cur s" "register s r" r 1 ops] assms
  by (simp add: register_table register_cur resolve_result)

text \<open>A full cycle of insertions replaces the entry.\<close>

lemma run_registers:
  "cur (table_run register resolve (map Register rs) s) = (next_seq_id ^^ length rs) (cur s)"
  by (induction rs arbitrary: s) (simp_all add: register_cur funpow_swap1)

lemma run_append:
  "table_run register resolve (xs @ ys) s = table_run register resolve ys (table_run register resolve xs s)"
  by (induction xs arbitrary: s) simp_all

lemma overwritten:
  assumes "seq_ok (cur s)" and "length rs = 99999"
  shows "fst (resolve (table_run register resolve (map Register (rs @ [q])) (register s r)) (cur s)) = Some q"
proof -
  let ?s = "table_run register resolve (map Register rs) (register s r)"
  have "cur ?s = (next_seq_id ^^ 100000) (cur s)"
    using assms(2) funpow_swap1 [of next_seq_id 99999 "cur s"]
      funpow_add [of 1 99999 next_seq_id] by (simp add: run_registers register_cur)
  then have "cur ?s = cur s" using iter_next_seq_id_cycle [OF assms(1)] by simp
  then show ?thesis by (simp add: run_append resolve_result register_table)
qed

lemma resolved_once: "fst (resolve (snd (resolve s k)) k) = None"
  by (simp add: resolve_result resolve_table)

end

end
