(* ===== verification/Pending.thy ===== *)
theory Pending
  imports Completion Seq_Table
begin

text \<open>
  The requests a backend connection is responsible for: those in its queue and those in its
  table of sent requests. Both kinds of connection keep the invariant of this theory; the
  lemmas say what each elementary change of queue, table and request does to it.
\<close>

definition CHAN_CAP :: nat where
  "CHAN_CAP = 1024"

datatype loop_exit = Continue | Return "go_error option"

datatype hb_action = HbTimeout | HbPing | HbStop

definition pending :: "(int32 \<Rightarrow> nat option) \<Rightarrow> nat list \<Rightarrow> nat set" where
  "pending tab inp = set inp \<union> ran tab"

definition pend_inv :: "int32 \<Rightarrow> (int32 \<Rightarrow> nat option) \<Rightarrow> nat list \<Rightarrow> (nat \<Rightarrow> request) \<Rightarrow> bool" where
  "pend_inv cur tab inp rs \<longleftrightarrow> seq_ok cur \<and> finite (dom tab) \<and>
     (\<forall>k rid. tab k = Some rid \<longrightarrow> RespSeqId (rs rid) = k \<and> rid \<notin> set inp) \<and>
     distinct inp \<and> length inp \<le> CHAN_CAP \<and> (\<forall>rid \<in> pending tab inp. awaited (rs rid))"

lemma pend_invD:
  assumes "pend_inv cur tab inp rs"
  shows "seq_ok cur" and "finite (dom tab)"
    and "tab k = Some rid \<Longrightarrow> RespSeqId (rs rid) = k" and "tab k = Some rid \<Longrightarrow> rid \<notin> set inp"
    and "distinct inp" "length inp \<le> CHAN_CAP"
    and "rid \<in> pending tab inp \<Longrightarrow> awaited (rs rid)"
    and "rid \<in> ran tab \<Longrightarrow> awaited (rs rid)" and "rid \<in> set inp \<Longrightarrow> awaited (rs rid)"
  using assms by (auto simp: pend_inv_def pending_def)

text \<open>No request waits under two sequence ids.\<close>

lemma pend_unique:
  assumes "pend_inv cur tab inp rs" and "tab k = Some rid" and "tab k' = Some rid"
  shows "k' = k"
  using pend_invD(3) [OF assms(1)] assms(2,3) by metis

lemma pend_ran_remove:
  assumes "pend_inv cur tab inp rs" and "tab k = Some rid"
  shows "ran (tab(k := None)) = ran tab - {rid}"
  using assms(2) by (rule ran_remove [where m = tab and k = k and v = rid]) (rule pend_unique [OF assms])

lemma pend_init: "pend_inv BACKEND_CONN_MIN_SEQ_ID Map.empty [] rs"
  by (simp add: pend_inv_def pending_def)

lemma pend_cong:
  assumes "\<And>q. q \<in> pending tab inp \<Longrightarrow> rs' q = rs q"
  shows "pend_inv cur tab inp rs' = pend_inv cur tab inp rs"
proof -
  have "rs' q = rs q" if "tab k = Some q" for k q
    using assms [of q] that by (auto simp: pending_def ran_def)
  then show ?thesis using assms by (simp add: pend_inv_def)
qed

subsection \<open>Elementary changes\<close>

lemma pend_push:
  assumes inv: "pend_inv cur tab inp rs" and new: "rid \<notin> pending tab inp" and room: "length inp < CHAN_CAP"
    and r: "awaited r" and rs': "rs' = rs(rid := r)"
  shows "pend_inv cur tab (inp @ [rid]) rs' \<and> pending tab (inp @ [rid]) = insert rid (pending tab inp)"
proof -
  have "rid \<notin> ran tab" "rid \<notin> set inp" using new by (auto simp: pending_def)
  then show ?thesis using inv room r by (auto simp: pend_inv_def pending_def ran_def rs')
qed

lemma pend_taken:
  assumes inv: "pend_inv cur tab inp rs" and tab: "tab k = Some rid" and rs': "rs' = rs(rid := r)"
  shows "pend_inv cur (tab(k := None)) inp rs' \<and> pending (tab(k := None)) inp = pending tab inp - {rid}"
proof -
  have p: "pending (tab(k := None)) inp = pending tab inp - {rid}"
    using pend_ran_remove [OF inv tab] pend_invD(4) [OF inv tab] by (auto simp: pending_def)
  have "RespSeqId (rs' v) = j \<and> v \<notin> set inp" if "(tab(k := None)) j = Some v" for j v
    using that rs' pend_invD(3,4) [OF inv, of j v] pend_unique [OF inv tab, of j]
    by (auto split: if_splits)
  moreover have "awaited (rs' v)" if "v \<in> pending (tab(k := None)) inp" for v
    using that p rs' pend_invD(7) [OF inv, of v] by auto
  moreover have "finite (dom (tab(k := None)))" using pend_invD(2) [OF inv] by simp
  ultimately show ?thesis using inv p by (simp add: pend_inv_def)
qed

lemma pend_flushed:
  assumes inv: "pend_inv cur tab inp rs" and rs': "\<And>v. v \<notin> ran tab \<Longrightarrow> rs' v = rs v"
  shows "pend_inv cur Map.empty inp rs' \<and> pending Map.empty inp = set inp"
proof -
  have "v \<notin> ran tab" if "v \<in> set inp" for v
    using that pend_invD(4) [OF inv] by (auto simp: ran_def)
  then show ?thesis using inv rs' by (auto simp: pend_inv_def pending_def)
qed

text \<open>Taking a request out of the queue for good.\<close>

lemma pend_dequeued:
  assumes inv: "pend_inv cur tab (rid # rest) rs" and rs': "\<And>q. q \<noteq> rid \<Longrightarrow> rs' q = rs q"
  shows "pend_inv cur tab rest rs' \<and> pending tab rest = pending tab (rid # rest) - {rid}"
proof -
  have nrid: "rid \<notin> ran tab" "rid \<notin> set rest"
    using pend_invD(4,5) [OF inv] by (auto simp: ran_def)
  have p: "pending tab rest = pending tab (rid # rest) - {rid}" using nrid by (auto simp: pending_def)
  have "awaited (rs' x)" if "x \<in> pending tab rest" for x
    using that p rs' [of x] pend_invD(7) [OF inv, of x] by auto
  moreover have "RespSeqId (rs' v) = k \<and> v \<notin> set rest" if "tab k = Some v" for k v
    using pend_invD(3,4) [OF inv that] nrid that rs' [of v] by (auto simp: ran_def)
  ultimately show ?thesis using p inv by (simp add: pend_inv_def)
qed

text \<open>
  Storing a request under the current sequence id. A request still stored under the id that
  comes round again is dropped without being completed.
\<close>

lemma pend_store:
  assumes inv: "pend_inv k tab inp rs" and new: "rid \<notin> pending tab inp"
    and rid: "RespSeqId (rs rid) = k" "awaited (rs rid)"
  shows "pend_inv (next_seq_id k) (tab(k \<mapsto> rid)) inp rs \<and> pending (tab(k \<mapsto> rid)) inp =
    insert rid (case tab k of None \<Rightarrow> pending tab inp | Some q \<Rightarrow> pending tab inp - {q})"
proof -
  have nrid: "rid \<notin> ran tab" "rid \<notin> set inp" using new by (auto simp: pending_def)
  have rng: "ran (tab(k \<mapsto> rid)) = insert rid (case tab k of None \<Rightarrow> ran tab | Some q \<Rightarrow> ran tab - {q})"
  proof (cases "tab k")
    case None
    then show ?thesis by (simp add: ran_map_upd)
  next
    case (Some v)
    have "ran (tab(k \<mapsto> rid)) = ran ((tab(k := None))(k \<mapsto> rid))" by simp
    also have "\<dots> = insert rid (ran (tab(k := None)))" by (rule ran_map_upd) simp
    also have "ran (tab(k := None)) = ran tab - {v}" by (rule pend_ran_remove [OF inv Some])
    finally show ?thesis by (simp only: Some option.case)
  qed
  have p: "pending (tab(k \<mapsto> rid)) inp =
      insert rid (case tab k of None \<Rightarrow> pending tab inp | Some q \<Rightarrow> pending tab inp - {q})"
    using rng pend_invD(4) [OF inv, of k] by (cases "tab k") (auto simp: pending_def)
  have "awaited (rs x)" if "x \<in> pending (tab(k \<mapsto> rid)) inp" for x
    using that p rid(2) pend_invD(7) [OF inv, of x] by (auto split: option.splits)
  moreover have "RespSeqId (rs v) = j \<and> v \<notin> set inp" if "(tab(k \<mapsto> rid)) j = Some v" for j v
    using that nrid(2) rid(1) pend_invD(3,4) [OF inv, of j v] by (cases "j = k") auto
  moreover have "seq_ok (next_seq_id k)" "finite (dom (tab(k \<mapsto> rid)))" "distinct inp" "length inp \<le> CHAN_CAP"
    using pend_invD(1,2,5,6) [OF inv] by auto
  ultimately show ?thesis using p unfolding pend_inv_def by blast
qed

text \<open>Both together: the head of the queue moves to the table.\<close>

lemma pend_sent:
  assumes inv: "pend_inv k tab (rid # rest) rs"
    and rs': "RespSeqId (rs' rid) = k" "awaited (rs' rid)" "\<And>q. q \<noteq> rid \<Longrightarrow> rs' q = rs q"
  shows "pend_inv (next_seq_id k) (tab(k \<mapsto> rid)) rest rs' \<and> pending (tab(k \<mapsto> rid)) rest =
    (case tab k of None \<Rightarrow> pending tab (rid # rest) | Some q \<Rightarrow> pending tab (rid # rest) - {q})"
proof -
  have d: "pend_inv k tab rest rs'" "pending tab rest = pending tab (rid # rest) - {rid}"
    using pend_dequeued [OF inv rs'(3)] by auto
  have "rid \<in> pending tab (rid # rest)" by (simp add: pending_def)
  moreover have "q \<noteq> rid" if "tab k = Some q" for q using pend_invD(4) [OF inv that] by auto
  ultimately show ?thesis
    using pend_store [OF d(1) _ rs'(1,2)] d(2) by (auto split: option.splits)
qed

text \<open>A reply takes an entry out whether or not it is there.\<close>

lemma pend_forget:
  assumes "pend_inv cur tab inp rs"
  shows "pend_inv cur (tab(k := None)) inp rs \<and> pending (tab(k := None)) inp \<subseteq> pending tab inp"
proof (cases "tab k")
  case None
  then have "tab(k := None) = tab" by auto
  then show ?thesis using assms by simp
next
  case (Some rid)
  then show ?thesis using pend_taken [OF assms Some, of rs "rs rid"] by auto
qed

subsection \<open>Ranging over the table\<close>

text \<open>An order in which Go may range over a map: every key once.\<close>

definition map_order :: "('k \<Rightarrow> 'v option) \<Rightarrow> 'k list \<Rightarrow> bool" where
  "map_order m ks \<longleftrightarrow> distinct ks \<and> set ks = dom m"

lemma map_order_exists: "finite (dom m) \<Longrightarrow> \<exists>ks. map_order m ks"
  unfolding map_order_def using finite_distinct_list [of "dom m"] by auto

lemma map_order_range:
  assumes ks: "map_order m ks" and inj: "inj_on m (dom m)"
  shows "set (List.map_filter m ks) = ran m \<and> distinct (List.map_filter m ks)"
proof -
  have mf: "List.map_filter m ks = map (the \<circ> m) ks"
    using ks by (simp add: List.map_filter_def map_order_def domIff filter_id_conv)
  have "set (map (the \<circ> m) ks) = ran m"
    using ks by (force simp: map_order_def ran_def dom_def image_iff)
  moreover have "inj_on (the \<circ> m) (set ks)"
    using ks inj by (auto simp: map_order_def inj_on_def dom_def)
  ultimately show ?thesis
    using ks by (simp add: mf map_order_def distinct_map)
qed

lemma pend_order:
  assumes inv: "pend_inv cur tab inp rs" and ks: "map_order tab ks"
  shows "set (List.map_filter tab ks) = ran tab \<and> distinct (List.map_filter tab ks)
    \<and> (\<forall>rid \<in> set (List.map_filter tab ks). awaited (rs rid))"
proof -
  have "inj_on tab (dom tab)" using pend_unique [OF inv] by (auto simp: inj_on_def dom_def)
  from map_order_range [OF ks this] show ?thesis using pend_invD(8) [OF inv] by auto
qed

end
