(* ===== verification/Stats.thy ===== *)
theory Stats
  imports Go_Prelude "HOL-Library.Signed_Division"
begin

text \<open>
  \<open>utils/atomic2\<close> and \<open>proxy/stats.go\<close>: the 64-bit counters (which wrap around) and the
  table of operation counters that the sessions feed. An operation of \<open>sync/atomic\<close> is one
  step here.
\<close>

subsection \<open>Atomic cells\<close>

text \<open>An operation takes the cell's value and gives its result and the new value.\<close>

definition Int64_CompareAndSwap :: "int64 \<Rightarrow> int64 \<Rightarrow> int64 \<Rightarrow> bool \<times> int64" where
  "Int64_CompareAndSwap old new v = (if v = old then (True, new) else (False, v))"

definition Int64_Swap :: "int64 \<Rightarrow> int64 \<Rightarrow> int64 \<times> int64" where
  "Int64_Swap new v = (v, new)"

definition Int64_Add :: "int64 \<Rightarrow> int64 \<Rightarrow> int64 \<times> int64" where
  "Int64_Add d v = (v + d, v + d)"

definition Int64_Sub :: "int64 \<Rightarrow> int64 \<Rightarrow> int64 \<times> int64" where
  "Int64_Sub d v = Int64_Add (- d) v"

definition Int64_Incr :: "int64 \<Rightarrow> int64 \<times> int64" where
  "Int64_Incr v = Int64_Add 1 v"

definition Int64_Decr :: "int64 \<Rightarrow> int64 \<times> int64" where
  "Int64_Decr v = Int64_Add (- 1) v"

definition Bool_toInt64 :: "bool \<Rightarrow> int64" where
  "Bool_toInt64 b = (if b then 1 else 0)"

definition Bool_Get :: "int64 \<Rightarrow> bool" where
  "Bool_Get v \<longleftrightarrow> v \<noteq> 0"

definition Bool_CompareAndSwap :: "bool \<Rightarrow> bool \<Rightarrow> int64 \<Rightarrow> bool \<times> int64" where
  "Bool_CompareAndSwap old new v = Int64_CompareAndSwap (Bool_toInt64 old) (Bool_toInt64 new) v"

definition Bool_Swap :: "bool \<Rightarrow> int64 \<Rightarrow> bool \<times> int64" where
  "Bool_Swap new v = (let (r, v') = Int64_Swap (Bool_toInt64 new) v in (r \<noteq> 0, v'))"

lemma Bool_Get_toInt64 [simp]: "Bool_Get (Bool_toInt64 b) = b"
  by (simp add: Bool_Get_def Bool_toInt64_def)

text \<open>The flag implements an atomic boolean as long as only its own setters write to it.\<close>

lemma Bool_refines:
  assumes "v = Bool_toInt64 b"
  shows "Bool_CompareAndSwap old new v = (b = old, Bool_toInt64 (if b = old then new else b))"
    and "Bool_Swap new v = (b, Bool_toInt64 new)"
  using assms
  by (auto simp: Bool_CompareAndSwap_def Int64_CompareAndSwap_def Bool_Swap_def Int64_Swap_def Bool_toInt64_def)

lemma Int64_Sub_Add: "snd (Int64_Sub d (snd (Int64_Add d v))) = v"
  by (simp add: Int64_Sub_def Int64_Add_def)

subsection \<open>Operation counters\<close>

record op_stats =
  opstr :: string
  calls :: int64
  usecs :: int64

record cmdstats =
  requests :: int64
  opmap :: "string \<Rightarrow> op_stats option"

definition init_cmdstats :: cmdstats where
  "init_cmdstats = \<lparr>requests = 0, opmap = Map.empty\<rparr>"

definition OpCounts :: "cmdstats \<Rightarrow> int64" where
  "OpCounts st = requests st"

definition GetOpStats :: "string \<Rightarrow> bool \<Rightarrow> cmdstats \<Rightarrow> op_stats option \<times> cmdstats" where
  "GetOpStats op create st =
     (case opmap st op of
        Some s \<Rightarrow> (Some s, st)
      | None \<Rightarrow>
          if \<not> create then (None, st)
          else let s = \<lparr>opstr = op, calls = 0, usecs = 0\<rparr> in
               (Some s, st\<lparr>opmap := (opmap st)(op \<mapsto> s)\<rparr>))"

text \<open>The fields of the JSON object; integer division truncates towards zero.\<close>

definition OpStats_fields :: "op_stats \<Rightarrow> string \<times> int64 \<times> int64 \<times> int64" where
  "OpStats_fields s =
     (let perusecs = (if calls s \<noteq> 0 then word_of_int (sint (usecs s) sdiv sint (calls s)) else 0) in
      (opstr s, calls s, usecs s, perusecs))"

text \<open>\<open>order\<close> is the order in which the map is visited.\<close>

definition GetAllOpStats :: "string list \<Rightarrow> cmdstats \<Rightarrow> op_stats list" where
  "GetAllOpStats order st = List.map_filter (opmap st) order"

definition incrOpStats :: "string \<Rightarrow> int64 \<Rightarrow> cmdstats \<Rightarrow> cmdstats" where
  "incrOpStats op us st =
     (let (s, st1) = GetOpStats op True st in
      case s of
        None \<Rightarrow> st1
      | Some s \<Rightarrow>
          let s' = s\<lparr>calls := snd (Int64_Incr (calls s)), usecs := snd (Int64_Add us (usecs s))\<rparr> in
          st1\<lparr>opmap := (opmap st1)(op \<mapsto> s'), requests := snd (Int64_Incr (requests st1))\<rparr>)"

fun incr_all :: "(string \<times> int64) list \<Rightarrow> cmdstats \<Rightarrow> cmdstats" where
  "incr_all [] st = st"
| "incr_all ((op, us) # xs) st = incr_all xs (incrOpStats op us st)"

definition calls_of :: "cmdstats \<Rightarrow> string \<Rightarrow> int64" where
  "calls_of st op = (case opmap st op of None \<Rightarrow> 0 | Some s \<Rightarrow> calls s)"

definition usecs_of :: "cmdstats \<Rightarrow> string \<Rightarrow> int64" where
  "usecs_of st op = (case opmap st op of None \<Rightarrow> 0 | Some s \<Rightarrow> usecs s)"

lemma incrOpStats_sel [simp]:
  "calls_of (incrOpStats op us st) q = calls_of st q + (if q = op then 1 else 0)"
  "usecs_of (incrOpStats op us st) q = usecs_of st q + (if q = op then us else 0)"
  "requests (incrOpStats op us st) = requests st + 1"
  "dom (opmap (incrOpStats op us st)) = insert op (dom (opmap st))"
  by (auto simp: incrOpStats_def GetOpStats_def calls_of_def usecs_of_def Int64_Incr_def Int64_Add_def Let_def
      split: option.splits)

text \<open>Counters over a run: each equals what was added under its name, modulo \<open>2 ^ 64\<close>.\<close>

lemma incr_all_sel:
  "calls_of (incr_all xs st) q = calls_of st q + of_nat (length (filter (\<lambda>(op, _). op = q) xs))"
  "usecs_of (incr_all xs st) q = usecs_of st q + sum_list (map snd (filter (\<lambda>(op, _). op = q) xs))"
  "requests (incr_all xs st) = requests st + of_nat (length xs)"
  by (induction xs arbitrary: st) (auto simp: algebra_simps)

lemma incr_all_dom: "dom (opmap (incr_all xs st)) = dom (opmap st) \<union> fst ` set xs"
proof (induction xs arbitrary: st)
  case (Cons x xs)
  then show ?case by (cases x) simp
qed simp

end
