(* ===== verification/Session.thy ===== *)
theory Session
  imports Completion Pending Stats
begin

text \<open>
  \<open>proxy/session_proxy.go\<close> and \<open>proxy/session_nonblock.go\<close>: a client's connection. The
  reader turns frames into requests and hands them to the dispatcher; the writer takes them
  from the channel \<open>tasks\<close>, waits for their responses and writes these back. A session of
  the proxy keeps the order of its requests; one of the load balancer or of a service answers
  in the order in which the requests are finished.
\<close>

type_synonym 'a dispatch = "nat \<Rightarrow> 'a heap_scheme \<Rightarrow> (go_error option \<times> 'a heap_scheme) outcome"

record session =
  RemoteAddress :: string
  Ops :: int64
  LastOpUnix :: int
  CreateUnix :: int
  quit :: bool
  ses_closed :: bool
  ses_verbose :: bool

record nonblock_session = session +
  failed :: bool
  nb_lastRequestTime :: "int option"

definition NewSession :: "int \<Rightarrow> string \<Rightarrow> bool \<Rightarrow> session" where
  "NewSession now address verbose =
     \<lparr>RemoteAddress = address, Ops = 0, LastOpUnix = 0, CreateUnix = now, quit = False,
      ses_closed = False, ses_verbose = verbose\<rparr>"

definition NewNonBlockSession :: "int \<Rightarrow> string \<Rightarrow> bool \<Rightarrow> int option \<Rightarrow> nonblock_session" where
  "NewNonBlockSession now address verbose lastRequest =
     \<lparr>RemoteAddress = address, Ops = 0, LastOpUnix = 0, CreateUnix = now, quit = False,
      ses_closed = False, ses_verbose = verbose, failed = False, nb_lastRequestTime = lastRequest\<rparr>"

definition Session_Close :: "session \<Rightarrow> session" where
  "Session_Close s = s\<lparr>ses_closed := True\<rparr>"

definition NonBlockSession_Close :: "nonblock_session \<Rightarrow> nonblock_session" where
  "NonBlockSession_Close s = s\<lparr>failed := True, ses_closed := True\<rparr>"

subsection \<open>Requests\<close>

definition Session_handleRequest :: "thrift_lib \<Rightarrow> int \<Rightarrow> 'a dispatch \<Rightarrow> slice \<Rightarrow> session \<Rightarrow> 'a heap_scheme \<Rightarrow>
    (nat \<times> go_error option \<times> session \<times> 'a heap_scheme) outcome" where
  "Session_handleRequest T now d frame s ps =
     (let (rid, ps1) = new_req (NewRequest T (pmem ps) frame True) ps;
          s1 = s\<lparr>LastOpUnix := now, Ops := Ops s + 1\<rparr> in
      obind (d rid ps1) (\<lambda>(err, ps2). Ret (rid, err, s1, ps2)))"

text \<open>Heartbeats are answered here; they do not count as requests.\<close>

definition NonBlockSession_handleRequest :: "thrift_lib \<Rightarrow> int \<Rightarrow> 'a dispatch \<Rightarrow> slice \<Rightarrow> nonblock_session \<Rightarrow>
    'a heap_scheme \<Rightarrow> (nat \<times> go_error option \<times> nonblock_session \<times> 'a heap_scheme) outcome" where
  "NonBlockSession_handleRequest T now d frame s ps =
     (let (rid, ps1) = new_req (NewRequest T (pmem ps) frame False) ps in
      if ReqTypeId (reqs ps1 rid) = MESSAGE_TYPE_HEART_BEAT
      then Ret (rid, None, s, set_req rid (HandlePingRequest (reqs ps1 rid)) ps1)
      else
      let s1 = s\<lparr>nb_lastRequestTime := map_option (\<lambda>_. now) (nb_lastRequestTime s),
                 LastOpUnix := now, Ops := Ops s + 1\<rparr> in
      obind (d rid ps1) (\<lambda>(err, ps2). Ret (rid, err, s1, ps2)))"

text \<open>
  A turn of the reader of a proxy session. \<open>tasks\<close> is the content of the channel, which has
  room for \<open>maxPipeline\<close> requests.
\<close>

definition Session_loopReader_turn :: "thrift_lib \<Rightarrow> int \<Rightarrow> nat \<Rightarrow> 'a dispatch option \<Rightarrow> session \<Rightarrow>
    'n framed \<Rightarrow> nat list \<Rightarrow> 'a heap_scheme \<Rightarrow>
    (loop_exit \<times> session \<times> 'n framed \<times> nat list \<times> 'a heap_scheme) outcome" where
  "Session_loopReader_turn T now maxPipeline d s p tasks ps =
     (case d of
        None \<Rightarrow> Ret (Return (Some (ErrorString ''nil dispatcher'')), s, p, tasks, ps)
      | Some disp \<Rightarrow>
          if quit s then Ret (Return None, s, p, tasks, ps)
          else obind (ReadFrame T (pmem ps) p) (\<lambda>(res, m, p1).
            let ps1 = ps\<lparr>pmem := m\<rparr> in
            case res of
              Inl e \<Rightarrow> Ret (Return (Some e), s, p1, tasks, ps1)
            | Inr frame \<Rightarrow>
                obind (Session_handleRequest T now disp frame s ps1) (\<lambda>(rid, err, s1, ps2).
                case err of
                  Some e \<Rightarrow> Ret (Return (Some e), s1, p1, tasks, ps2)
                | None \<Rightarrow>
                    if length tasks \<ge> maxPipeline then Block
                    else Ret (Continue, s1, p1, tasks @ [rid], ps2))))"

subsection \<open>Responses\<close>

text \<open>
  \<open>handleResponse\<close> of both sessions, which differ in the name they give as \<open>module\<close>;
  \<open>usec\<close> is \<open>microseconds()\<close>.
\<close>

definition handleResponse :: "thrift_lib \<Rightarrow> string \<Rightarrow> int \<Rightarrow> nat \<Rightarrow> cmdstats \<Rightarrow> 'a heap_scheme \<Rightarrow>
    (cmdstats \<times> 'a heap_scheme) outcome" where
  "handleResponse T module usec rid st ps =
     obind (wait_wait (reqs ps rid)) (\<lambda>_.
     let ps1 = (if RespErr (reqs ps rid) \<noteq> None
                then let (data, r, m) = GetThriftException T (pmem ps) (reqs ps rid) module in
                     (set_req rid (r\<lparr>RespData := Some data\<rparr>) ps)\<lparr>pmem := m\<rparr>
                else ps);
         r = reqs ps1 rid in
     Ret (incrOpStats (OpStr r) (word_of_int (usec - Start r)) st, ps1))"

definition Session_handleResponse :: "thrift_lib \<Rightarrow> int \<Rightarrow> nat \<Rightarrow> cmdstats \<Rightarrow> 'a heap_scheme \<Rightarrow>
    (cmdstats \<times> 'a heap_scheme) outcome" where
  "Session_handleResponse T usec rid st ps = handleResponse T ''proxy_session'' usec rid st ps"

definition NonBlockSession_handleResponse :: "thrift_lib \<Rightarrow> int \<Rightarrow> nat \<Rightarrow> cmdstats \<Rightarrow> 'a heap_scheme \<Rightarrow>
    (cmdstats \<times> 'a heap_scheme) outcome" where
  "NonBlockSession_handleResponse T usec rid st ps = handleResponse T ''nonblock_session'' usec rid st ps"

definition recycle_req :: "nat \<Rightarrow> 'a heap_scheme \<Rightarrow> 'a heap_scheme" where
  "recycle_req rid ps = (let (r, m) = Recycle (pmem ps) (reqs ps rid) in (set_req rid r ps)\<lparr>pmem := m\<rparr>)"

text \<open>
  The writers, over the requests received until the channel is closed; \<open>clock\<close> gives the
  times at which each of them is handled. Only the writer of the proxy recycles.
\<close>

fun Session_loopWriter :: "thrift_lib \<Rightarrow> 'n net \<Rightarrow> (nat \<Rightarrow> int) \<Rightarrow> nat list \<Rightarrow> 'n framed \<Rightarrow> cmdstats \<Rightarrow>
    'a heap_scheme \<Rightarrow> (go_error option \<times> 'n framed \<times> cmdstats \<times> 'a heap_scheme) outcome" where
  "Session_loopWriter T net clock [] p st ps = Ret (None, p, st, ps)"
| "Session_loopWriter T net clock (rid # tasks) p st ps =
     obind (Session_handleResponse T (clock rid) rid st ps) (\<lambda>(st1, ps1).
     let (_, p1) = framed_Write p (opt_bytes (pmem ps1) (RespData (reqs ps1 rid)));
         (err, p2) = FlushBuffer T net (clock rid * 1000) True p1 in
     case err of
       Some e \<Rightarrow> Ret (Some e, p2, st1, ps1)
     | None \<Rightarrow> Session_loopWriter T net clock tasks p2 st1 (recycle_req rid ps1))"

fun NonBlockSession_loopWriter :: "thrift_lib \<Rightarrow> 'n net \<Rightarrow> (nat \<Rightarrow> int) \<Rightarrow> nat list \<Rightarrow> 'n framed \<Rightarrow> cmdstats \<Rightarrow>
    'a heap_scheme \<Rightarrow> (go_error option \<times> 'n framed \<times> cmdstats \<times> 'a heap_scheme) outcome" where
  "NonBlockSession_loopWriter T net clock [] p st ps = Ret (None, p, st, ps)"
| "NonBlockSession_loopWriter T net clock (rid # tasks) p st ps =
     obind (NonBlockSession_handleResponse T (clock rid) rid st ps) (\<lambda>(st1, ps1).
     let (_, p1) = framed_Write p (opt_bytes (pmem ps1) (RespData (reqs ps1 rid)));
         (err, p2) = FlushBuffer T net (clock rid * 1000) True p1 in
     case err of
       Some e \<Rightarrow> Ret (Some e, p2, st1, ps1)
     | None \<Rightarrow> NonBlockSession_loopWriter T net clock tasks p2 st1 ps1)"

text \<open>After its writer has failed, a proxy session recycles what is still in the channel.\<close>

fun Session_abandon :: "nat list \<Rightarrow> 'a heap_scheme \<Rightarrow> 'a heap_scheme" where
  "Session_abandon [] ps = ps"
| "Session_abandon (rid # tasks) ps = Session_abandon tasks (recycle_req rid ps)"

subsection \<open>What a session relies on\<close>

text \<open>
  A dispatcher never reports an error to the session, touches no request but the one it is
  given, and creates none.
\<close>

locale dispatcher =
  fixes disp :: "'a dispatch"
  assumes no_error: "disp rid ps = Ret (e, ps') \<Longrightarrow> e = None"
    and only_own: "disp rid ps = Ret (e, ps') \<Longrightarrow> q \<noteq> rid \<Longrightarrow> reqs ps' q = reqs ps q"
    and creates_none: "disp rid ps = Ret (e, ps') \<Longrightarrow> next_req ps' = next_req ps"
begin

text \<open>
  A turn that went on has put one new request at the end of the channel and left the
  earlier ones as they were; a turn that returned did so because of the client.
\<close>

lemma reader_turn:
  assumes "Session_loopReader_turn T now maxPipeline (Some disp) s p tasks ps = Ret (res, s', p', tasks', ps')"
  shows "res = Continue \<Longrightarrow> tasks' = tasks @ [next_req ps] \<and> length tasks' \<le> maxPipeline
      \<and> next_req ps' = Suc (next_req ps) \<and> (\<forall>q < next_req ps. reqs ps' q = reqs ps q) \<and> Ops s' = Ops s + 1"
    and "res = Return e \<Longrightarrow> tasks' = tasks \<and> next_req ps' = next_req ps \<and> s' = s \<and> reqs ps' = reqs ps"
proof -
  have goal: "(res = Continue \<longrightarrow> tasks' = tasks @ [next_req ps] \<and> length tasks' \<le> maxPipeline
      \<and> next_req ps' = Suc (next_req ps) \<and> (\<forall>q < next_req ps. reqs ps' q = reqs ps q) \<and> Ops s' = Ops s + 1)
    \<and> (res = Return e \<longrightarrow> tasks' = tasks \<and> next_req ps' = next_req ps \<and> s' = s \<and> reqs ps' = reqs ps)"
  proof (cases "quit s")
    case True
    then show ?thesis using assms by (auto simp: Session_loopReader_turn_def)
  next
    case False
    obtain rf m p1 where rd: "ReadFrame T (pmem ps) p = Ret (rf, m, p1)"
      using assms False by (auto simp: Session_loopReader_turn_def)
    show ?thesis
    proof (cases rf)
      case (Inl x)
      then show ?thesis using assms False rd by (auto simp: Session_loopReader_turn_def)
    next
      case (Inr frame)
      let ?ps1 = "ps\<lparr>pmem := m\<rparr>" and ?n = "next_req ps"
      let ?ps2 = "(set_req ?n (NewRequest T m frame True) ?ps1)\<lparr>next_req := Suc ?n\<rparr>"
      obtain err ps2 where d: "disp ?n ?ps2 = Ret (err, ps2)"
        using assms False rd Inr by (auto simp: Session_loopReader_turn_def Session_handleRequest_def new_req_def)
      have "err = None" by (rule no_error [OF d])
      then have eq: "res = Continue" "tasks' = tasks @ [?n]" "length tasks < maxPipeline" "ps' = ps2"
        "s' = s\<lparr>LastOpUnix := now, Ops := Ops s + 1\<rparr>"
        using assms False rd Inr d
        by (auto simp: Session_loopReader_turn_def Session_handleRequest_def new_req_def split: if_splits)
      have "reqs ps2 q = reqs ps q" if "q < ?n" for q
        using only_own [OF d, of q] that by simp
      then show ?thesis using eq creates_none [OF d] by simp
    qed
  qed
  show "res = Continue \<Longrightarrow> tasks' = tasks @ [next_req ps] \<and> length tasks' \<le> maxPipeline
      \<and> next_req ps' = Suc (next_req ps) \<and> (\<forall>q < next_req ps. reqs ps' q = reqs ps q) \<and> Ops s' = Ops s + 1"
    using goal by blast
  show "res = Return e \<Longrightarrow> tasks' = tasks \<and> next_req ps' = next_req ps \<and> s' = s \<and> reqs ps' = reqs ps"
    using goal by blast
qed

end

end
