(* ===== verification/Session_Correct.thy ===== *)
theory Session_Correct
  imports Session
begin

text \<open>
  What the client of a session receives: for each request the frame with its response, or an
  exception message made from its error, in the order of the requests.
\<close>

subsection \<open>Responses\<close>

definition exception_bytes :: "thrift_lib \<Rightarrow> request \<Rightarrow> string \<Rightarrow> go_error \<Rightarrow> byte list" where
  "exception_bytes T r module e = msg_header T (Service r) (EXCEPTION T) (ReqSeqId r) @
     concat (WriteApplicationException T (INTERNAL_ERROR T) (''Module: '' @ module @ '', Service: '' @
       Service r @ '', Method: '' @ ReqName r @ '', Error: '' @ error_text e)) @ concat (WriteMessageEnd T)"

definition response_bytes :: "thrift_lib \<Rightarrow> string \<Rightarrow> memory \<Rightarrow> request \<Rightarrow> byte list" where
  "response_bytes T module m r =
     (case RespErr r of None \<Rightarrow> opt_bytes m (RespData r) | Some e \<Rightarrow> exception_bytes T r module e)"

text \<open>A request whose wait group is at zero and whose response, if any, is in the memory.\<close>

definition finished :: "memory \<Rightarrow> request \<Rightarrow> bool" where
  "finished m r \<longleftrightarrow> Wait r = Some 0 \<and> (\<forall>d. RespData r = Some d \<longrightarrow> slice_ok m d)"

text \<open>The memory grows: what was there keeps its contents.\<close>

definition mem_ext :: "memory \<Rightarrow> memory \<Rightarrow> bool" where
  "mem_ext m m' \<longleftrightarrow> (\<forall>t. slice_ok m t \<longrightarrow> slice_ok m' t \<and> slice_bytes m' t = slice_bytes m t)"

lemma mem_ext_refl [simp]: "mem_ext m m"
  by (simp add: mem_ext_def)

lemma mem_ext_trans: "mem_ext m m' \<Longrightarrow> mem_ext m' m'' \<Longrightarrow> mem_ext m m''"
  by (simp add: mem_ext_def)

lemma mem_ext_finished:
  "mem_ext m m' \<Longrightarrow> finished m r \<Longrightarrow> finished m' r \<and> response_bytes T module m' r = response_bytes T module m r"
  by (auto simp: mem_ext_def finished_def response_bytes_def opt_bytes_def split: option.splits)

lemma mem_ext_arrays:
  assumes "\<And>a. a < next_arr m \<Longrightarrow> arrays m' a = arrays m a" and "next_arr m \<le> next_arr m'"
  shows "mem_ext m m'"
  using assms by (auto simp: mem_ext_def slice_ok_def slice_bytes_def)

lemma mem_ext_exception:
  assumes "exception_message T m cap name seq kind msg = (s, m')"
  shows "mem_ext m m'"
proof (rule mem_ext_arrays)
  show "arrays m' a = arrays m a" if "a < next_arr m" for a
    using exception_message_frame [OF assms that] by simp
  obtain buf m1 where mk: "make_slice m 0 cap = (buf, m1)" by (cases "make_slice m 0 cap")
  then have "slice_ok m1 buf" "next_arr m \<le> next_arr m1"
    using slice_ok_make [OF _ mk] by (auto simp: make_slice_def)
  moreover have "buf_writes m1 buf (WriteMessageBegin T name (EXCEPTION T) seq @
      WriteApplicationException T kind msg @ WriteMessageEnd T) = (s, m')"
    using assms mk by (simp add: exception_message_def)
  from buf_writes_next [OF this] have "next_arr m1 \<le> next_arr m'" .
  ultimately show "next_arr m \<le> next_arr m'" by simp
qed

lemma Recycle_mem_ext: "Recycle m r = (r', m') \<Longrightarrow> mem_ext m m'"
  by (auto simp: Recycle_def returnSlice_def mem_ext_def slice_ok_def slice_bytes_def Let_def
      split: option.splits if_splits)

lemma handleResponse_spec:
  assumes fin: "finished (pmem ps) (reqs ps rid)"
  shows "\<exists>ps' st'. handleResponse T module usec rid st ps = Ret (st', ps')
    \<and> opt_bytes (pmem ps') (RespData (reqs ps' rid)) = response_bytes T module (pmem ps) (reqs ps rid)
    \<and> mem_ext (pmem ps) (pmem ps') \<and> (\<forall>q. q \<noteq> rid \<longrightarrow> reqs ps' q = reqs ps q)
    \<and> st' = incrOpStats (OpStr (reqs ps rid)) (word_of_int (usec - Start (reqs ps rid))) st"
proof (cases "RespErr (reqs ps rid)")
  case None
  then show ?thesis
    using fin by (auto simp: handleResponse_def wait_wait_def finished_def response_bytes_def Let_def)
next
  case (Some e)
  let ?r = "reqs ps rid"
  let ?msg = "''Module: '' @ module @ '', Service: '' @ Service ?r @ '', Method: '' @ ReqName ?r @
    '', Error: '' @ error_text e"
  obtain d m where ex: "exception_message T (pmem ps) 256 (Service ?r) (ReqSeqId ?r) (INTERNAL_ERROR T) ?msg = (d, m)"
    by (cases "exception_message T (pmem ps) 256 (Service ?r) (ReqSeqId ?r) (INTERNAL_ERROR T) ?msg")
  have "handleResponse T module usec rid st ps =
      Ret (incrOpStats (OpStr ?r) (word_of_int (usec - Start ?r)) st,
        (set_req rid (?r\<lparr>RespTypeId := EXCEPTION T, RespData := Some d\<rparr>) ps)\<lparr>pmem := m\<rparr>)"
    using fin Some ex by (simp add: handleResponse_def wait_wait_def finished_def GetThriftException_def Let_def)
  then show ?thesis
    using exception_message_bytes [OF ex] mem_ext_exception [OF ex] Some
    by (simp add: opt_bytes_def response_bytes_def exception_bytes_def)
qed

lemma recycle_req_spec:
  "mem_ext (pmem ps) (pmem (recycle_req rid ps)) \<and> (\<forall>q. q \<noteq> rid \<longrightarrow> reqs (recycle_req rid ps) q = reqs ps q)"
  using Recycle_mem_ext [of "pmem ps" "reqs ps rid"]
  by (auto simp: recycle_req_def split: prod.splits)

subsection \<open>The writer keeps the order\<close>

lemma Session_loopWriter_order:
  assumes net: "net_accepts net sent" and "werr (Writer p) = None" and "fbuf p = []"
    and "distinct tasks" and "\<forall>rid \<in> set tasks. finished (pmem ps) (reqs ps rid)"
  shows "\<exists>p' st' ps'. Session_loopWriter T net clock tasks p st ps = Ret (None, p', st', ps')
    \<and> framed_out sent p' = framed_out sent p @
        concat (map (\<lambda>rid. frame_bytes (response_bytes T ''proxy_session'' (pmem ps) (reqs ps rid))) tasks)
    \<and> st' = incr_all (map (\<lambda>rid. (OpStr (reqs ps rid), word_of_int (clock rid - Start (reqs ps rid)))) tasks) st
    \<and> (\<forall>q. q \<notin> set tasks \<longrightarrow> reqs ps' q = reqs ps q)
    \<and> (tasks \<noteq> [] \<longrightarrow> sent (under (Writer p')) = framed_out sent p')"
  using assms(2-5)
proof (induction tasks arbitrary: p st ps)
  case Nil
  then show ?case by simp
next
  case (Cons rid tasks)
  have fin: "finished (pmem ps) (reqs ps rid)" using Cons.prems(4) by simp
  obtain ps1 st1 where h: "handleResponse T ''proxy_session'' (clock rid) rid st ps = Ret (st1, ps1)"
    and b: "opt_bytes (pmem ps1) (RespData (reqs ps1 rid)) = response_bytes T ''proxy_session'' (pmem ps) (reqs ps rid)"
    and m1: "mem_ext (pmem ps) (pmem ps1)" and o1: "\<And>q. q \<noteq> rid \<Longrightarrow> reqs ps1 q = reqs ps q"
    and st1: "st1 = incrOpStats (OpStr (reqs ps rid)) (word_of_int (clock rid - Start (reqs ps rid))) st"
    using handleResponse_spec [OF fin] by blast
  let ?f = "response_bytes T ''proxy_session'' (pmem ps) (reqs ps rid)"
  obtain e1 p1 where fl: "send_frame T net (clock rid * 1000) True ?f p = (e1, p1)"
    by (cases "send_frame T net (clock rid * 1000) True ?f p")
  note a = send_frame_accepts [OF net Cons.prems(1,2) fl]
  define ps2 where "ps2 = recycle_req rid ps1"
  have m2: "mem_ext (pmem ps) (pmem ps2)" and o2: "\<And>q. q \<noteq> rid \<Longrightarrow> reqs ps2 q = reqs ps q"
    using recycle_req_spec [of ps1 rid] m1 o1 by (auto simp: ps2_def intro: mem_ext_trans)
  have same: "reqs ps2 q = reqs ps q" if "q \<in> set tasks" for q
    using that Cons.prems(3) o2 [of q] by auto
  have fin2: "finished (pmem ps2) (reqs ps2 q)
      \<and> response_bytes T ''proxy_session'' (pmem ps2) (reqs ps2 q) = response_bytes T ''proxy_session'' (pmem ps) (reqs ps q)"
    if "q \<in> set tasks" for q
    using mem_ext_finished [OF m2, of "reqs ps q"] Cons.prems(4) same [OF that] that by simp
  have eq: "Session_loopWriter T net clock (rid # tasks) p st ps = Session_loopWriter T net clock tasks p1 st1 ps2"
    using h b fl a by (simp add: Session_handleResponse_def send_frame_def ps2_def framed_Write_def)
  obtain p' st' ps' where ih: "Session_loopWriter T net clock tasks p1 st1 ps2 = Ret (None, p', st', ps')"
    "framed_out sent p' = framed_out sent p1 @
        concat (map (\<lambda>rid. frame_bytes (response_bytes T ''proxy_session'' (pmem ps2) (reqs ps2 rid))) tasks)"
    "st' = incr_all (map (\<lambda>rid. (OpStr (reqs ps2 rid), word_of_int (clock rid - Start (reqs ps2 rid)))) tasks) st1"
    "\<And>q. q \<notin> set tasks \<Longrightarrow> reqs ps' q = reqs ps2 q" "tasks \<noteq> [] \<Longrightarrow> sent (under (Writer p')) = framed_out sent p'"
    using Cons.IH [of p1 ps2 st1] a Cons.prems(3) fin2 by auto
  have "map (\<lambda>rid. frame_bytes (response_bytes T ''proxy_session'' (pmem ps2) (reqs ps2 rid))) tasks =
      map (\<lambda>rid. frame_bytes (response_bytes T ''proxy_session'' (pmem ps) (reqs ps rid))) tasks"
    using fin2 by simp
  from ih(2) [unfolded this] have "framed_out sent p' = framed_out sent p @ concat (map (\<lambda>rid. frame_bytes
      (response_bytes T ''proxy_session'' (pmem ps) (reqs ps rid))) (rid # tasks))"
    using a by simp
  moreover have "map (\<lambda>rid. (OpStr (reqs ps2 rid), word_of_int (clock rid - Start (reqs ps2 rid)) :: int64)) tasks =
      map (\<lambda>rid. (OpStr (reqs ps rid), word_of_int (clock rid - Start (reqs ps rid)))) tasks"
    using same by simp
  from ih(3) [unfolded this] have "st' = incr_all (map (\<lambda>rid. (OpStr (reqs ps rid), word_of_int (clock rid - Start (reqs ps rid)))) (rid # tasks)) st"
    using st1 by simp
  moreover have "sent (under (Writer p')) = framed_out sent p'"
    using ih(1,5) a by (cases "tasks = []") auto
  moreover have "reqs ps' q = reqs ps q" if "q \<notin> set (rid # tasks)" for q using that ih(4) o2 by simp
  ultimately show ?case using eq ih(1) by (intro exI [of _ p'] exI [of _ st'] exI [of _ ps']) simp
qed

lemma Session_loopWriter_append:
  "Session_loopWriter T net clock (as @ bs) p st ps =
    obind (Session_loopWriter T net clock as p st ps) (\<lambda>(e, p', st', ps').
      case e of Some e \<Rightarrow> Ret (Some e, p', st', ps') | None \<Rightarrow> Session_loopWriter T net clock bs p' st' ps')"
proof (induction as arbitrary: p st ps)
  case Nil
  then show ?case by simp
next
  case (Cons rid as)
  then show ?case
    by (cases "Session_handleResponse T (clock rid) rid st ps") (auto simp: Let_def case_prod_beta split: option.splits)
qed

text \<open>
  C8: The writer of a session answers the requests of its client strictly in the order in which
  they were read, whatever the order in which the backends answer: the replies of the finished
  requests at the head of the queue go out, each as one frame and all of them flushed, an error
  as a Thrift exception; and at the first request that is not finished the writer waits, however
  many later ones are.
\<close>

theorem replies_in_order:
  assumes net: "net_accepts net sent" and p: "werr (Writer p) = None" "fbuf p = []" and d: "distinct ready"
    and fin: "\<forall>rid \<in> set ready. finished (pmem ps) (reqs ps rid)"
  shows "\<exists>p' st' ps'. Session_loopWriter T net clock ready p st ps = Ret (None, p', st', ps')
    \<and> framed_out sent p' = framed_out sent p @
        concat (map (\<lambda>rid. frame_bytes (response_bytes T ''proxy_session'' (pmem ps) (reqs ps rid))) ready)
    \<and> (ready \<noteq> [] \<longrightarrow> sent (under (Writer p')) = framed_out sent p')
    \<and> requests st' = requests st + of_nat (length ready)
    \<and> (\<forall>rid later w. rid \<notin> set ready \<and> Wait (reqs ps rid) = Some w \<and> 0 < w \<longrightarrow>
          Session_loopWriter T net clock (ready @ rid # later) p st ps = Block)"
proof -
  obtain p' st' ps' where w: "Session_loopWriter T net clock ready p st ps = Ret (None, p', st', ps')"
    "framed_out sent p' = framed_out sent p @
        concat (map (\<lambda>rid. frame_bytes (response_bytes T ''proxy_session'' (pmem ps) (reqs ps rid))) ready)"
    "st' = incr_all (map (\<lambda>rid. (OpStr (reqs ps rid), word_of_int (clock rid - Start (reqs ps rid)))) ready) st"
    and o: "\<And>q. q \<notin> set ready \<Longrightarrow> reqs ps' q = reqs ps q"
    and fl: "ready \<noteq> [] \<longrightarrow> sent (under (Writer p')) = framed_out sent p'"
    using Session_loopWriter_order [OF net p d fin] by blast
  have "requests st' = requests st + of_nat (length ready)" by (simp add: w(3) incr_all_sel)
  moreover have "Session_loopWriter T net clock (ready @ rid # later) p st ps = Block"
    if "rid \<notin> set ready" "Wait (reqs ps rid) = Some w" "0 < w" for rid later w
    using w(1) o [OF that(1)] that(2,3)
    by (simp add: Session_loopWriter_append Session_handleResponse_def handleResponse_def wait_wait_def)
  ultimately show ?thesis using w(1,2) fl by blast
qed

theorem replies_in_order_witness:
  "\<exists>p' st' ps'. Session_loopWriter strict_binary net_all (\<lambda>_. 5) [3, 1] demo_writer init_cmdstats
      \<lparr>pmem = demo_memory [42], reqs = (\<lambda>rid. zero_request\<lparr>Wait := Some 0, RespData := Some (demo_frame [42])\<rparr>),
        next_req = 4\<rparr> = Ret (None, p', st', ps')
    \<and> under (Writer p') = frame_bytes [42] @ frame_bytes [42] \<and> requests st' = 2"
  using replies_in_order [of net_all id demo_writer "[3, 1]"
      "\<lparr>pmem = demo_memory [42], reqs = (\<lambda>rid. zero_request\<lparr>Wait := Some 0, RespData := Some (demo_frame [42])\<rparr>),
        next_req = 4\<rparr>" strict_binary "\<lambda>_. 5" init_cmdstats]
  by (auto simp: finished_def response_bytes_def opt_bytes_def zero_request_def init_cmdstats_def
      simp del: Session_loopWriter.simps)

text \<open>
  No code sets \<open>OpStr\<close> or \<open>Start\<close> of a client's request. All requests are therefore counted
  under the empty name, and what is added as their duration is the time since the epoch.
\<close>

lemma stats_one_bucket:
  assumes net: "net_accepts net sent" and p: "werr (Writer p) = None" "fbuf p = []" and d: "distinct tasks"
    and fin: "\<forall>rid \<in> set tasks. finished (pmem ps) (reqs ps rid)"
    and made: "\<forall>rid \<in> set tasks. \<exists>m f b. OpStr (reqs ps rid) = OpStr (NewRequest T m f b)
      \<and> Start (reqs ps rid) = Start (NewRequest T m f b)"
  shows "\<exists>p' st' ps'. Session_loopWriter T net clock tasks p st ps = Ret (None, p', st', ps')
    \<and> dom (opmap st') \<subseteq> insert '''' (dom (opmap st))
    \<and> calls_of st' '''' = calls_of st '''' + of_nat (length tasks)
    \<and> usecs_of st' '''' = usecs_of st '''' + sum_list (map (\<lambda>rid. word_of_int (clock rid)) tasks)"
proof -
  obtain p' st' ps' where w: "Session_loopWriter T net clock tasks p st ps = Ret (None, p', st', ps')"
    and st': "st' = incr_all (map (\<lambda>rid. (OpStr (reqs ps rid), word_of_int (clock rid - Start (reqs ps rid)))) tasks) st"
    using Session_loopWriter_order [OF net p d fin] by blast
  have "OpStr (NewRequest T m f b) = [] \<and> Start (NewRequest T m f b) = 0" for m f b
    by (simp add: NewRequest_def DecodeRequest_def zero_request_def Let_def case_prod_beta)
  then have "\<forall>rid \<in> set tasks. OpStr (reqs ps rid) = [] \<and> Start (reqs ps rid) = 0" using made by simp
  then have eq: "map (\<lambda>rid. (OpStr (reqs ps rid), word_of_int (clock rid - Start (reqs ps rid)) :: int64)) tasks =
      map (\<lambda>rid. ([], word_of_int (clock rid))) tasks" by simp
  have st'': "st' = incr_all (map (\<lambda>rid. ([], word_of_int (clock rid))) tasks) st" using st' unfolding eq .
  have "filter (\<lambda>(op, _). op = []) (map (\<lambda>rid. ([], word_of_int (clock rid) :: int64)) tasks) =
      map (\<lambda>rid. ([] :: string, word_of_int (clock rid))) tasks" by (simp add: filter_map comp_def)
  then have "calls_of st' [] = calls_of st [] + of_nat (length tasks)"
    "usecs_of st' [] = usecs_of st [] + sum_list (map (\<lambda>rid. word_of_int (clock rid)) tasks)"
    by (simp_all add: st'' incr_all_sel comp_def)
  moreover have "dom (opmap st') \<subseteq> insert [] (dom (opmap st))" by (auto simp: st'' incr_all_dom)
  ultimately show ?thesis using w by blast
qed

lemma stats_one_bucket_witness:
  "\<exists>p' st' ps'. Session_loopWriter strict_binary net_all (\<lambda>_. 1700000000) [0, 1] demo_writer init_cmdstats
      \<lparr>pmem = demo_memory [42], reqs = (\<lambda>_. (NewRequest strict_binary (demo_memory [42]) (demo_frame [42]) True)
         \<lparr>RespData := Some (demo_frame [42])\<rparr>), next_req = 2\<rparr> = Ret (None, p', st', ps')
    \<and> calls_of st' '''' = 2 \<and> usecs_of st' '''' = 3400000000"
proof -
  let ?r = "NewRequest strict_binary (demo_memory [42]) (demo_frame [42]) True"
  let ?ps = "\<lparr>pmem = demo_memory [42], reqs = (\<lambda>_. ?r\<lparr>RespData := Some (demo_frame [42])\<rparr>), next_req = 2\<rparr>"
  have "\<forall>rid \<in> set [0, 1]. finished (pmem ?ps) (reqs ?ps rid)" by (simp add: finished_def)
  moreover have "\<forall>rid \<in> set [0, 1]. \<exists>m f b. OpStr (reqs ?ps rid) = OpStr (NewRequest strict_binary m f b)
      \<and> Start (reqs ?ps rid) = Start (NewRequest strict_binary m f b)"
    by (auto intro!: exI [of _ "demo_memory [42]"] exI [of _ "demo_frame [42]"] exI [of _ True])
  ultimately show ?thesis
    using stats_one_bucket [of net_all id demo_writer "[0, 1]" ?ps strict_binary "\<lambda>_. 1700000000" init_cmdstats]
    by (auto simp: init_cmdstats_def calls_of_def usecs_of_def simp del: Session_loopWriter.simps)
qed

end
