(* ===== verification/Conn_Pool.thy ===== *)
theory Conn_Pool
  imports Go_Prelude "HOL-Library.Multiset"
begin

text \<open>
  The contract that \<open>BackService\<close> and \<open>BackServiceLB\<close> share: an array of active
  connections in which every connection knows its own position, constant-time removal by
  moving the last element into the gap, and a round-robin cursor. The consequences a
  dispatcher relies on are proved once here; the two services interpret the locale.
\<close>

text \<open>Removal of position \<open>i\<close> by moving the last element there and cutting the end off.\<close>

definition swap_remove :: "nat list \<Rightarrow> nat \<Rightarrow> nat list" where
  "swap_remove xs i = take (length xs - 1) (xs[i := last xs])"

lemma length_swap_remove [simp]: "length (swap_remove xs i) = length xs - 1"
  by (simp add: swap_remove_def)

lemma swap_remove_nth:
  "j < length xs - 1 \<Longrightarrow> i < length xs \<Longrightarrow> swap_remove xs i ! j = (if j = i then last xs else xs ! j)"
  by (simp add: swap_remove_def nth_list_update)

lemma swap_remove_mset:
  assumes "i < length xs"
  shows "add_mset (xs ! i) (mset (swap_remove xs i)) = mset xs"
proof -
  obtain ys y where xs: "xs = ys @ [y]" using assms by (cases xs rule: rev_cases) auto
  show ?thesis
  proof (cases "i = length ys")
    case True
    then show ?thesis by (simp add: swap_remove_def xs list_update_append)
  next
    case False
    then have i: "i < length ys" using assms xs by simp
    then have "mset (ys[i := y]) = add_mset y (mset ys - {#ys ! i#})" by (rule mset_update)
    with i show ?thesis by (simp add: swap_remove_def xs list_update_append nth_append)
  qed
qed

lemma swap_remove_distinct:
  assumes "distinct xs" and "i < length xs"
  shows "distinct (swap_remove xs i) \<and> set (swap_remove xs i) = set xs - {xs ! i}"
proof -
  have m: "mset xs = add_mset (xs ! i) (mset (swap_remove xs i))"
    using swap_remove_mset [OF assms(2)] by simp
  have "distinct (xs ! i # swap_remove xs i)"
    using assms(1) m by (metis mset.simps(2) mset_eq_imp_distinct_iff)
  moreover have "set xs = insert (xs ! i) (set (swap_remove xs i))"
    using m by (metis mset.simps(2) set_mset_mset list.simps(15))
  ultimately show ?thesis by auto
qed

fun next_many :: "('s \<Rightarrow> nat option \<times> 's) \<Rightarrow> nat \<Rightarrow> 's \<Rightarrow> nat option list \<times> 's" where
  "next_many nxt 0 s = ([], s)"
| "next_many nxt (Suc k) s =
     (let (c, s') = nxt s; (cs, s'') = next_many nxt k s' in (c # cs, s''))"

definition rr_start :: "nat \<Rightarrow> nat \<Rightarrow> nat" where
  "rr_start cur n = (if cur \<ge> n then 0 else cur)"

lemma rr_start_step: "j < n \<Longrightarrow> rr_start (j + 1) n = (j + 1) mod n"
  by (cases "j + 1 = n") (auto simp: rr_start_def)

locale conn_pool =
  fixes active :: "'s \<Rightarrow> nat list"
    and idx :: "'s \<Rightarrow> nat \<Rightarrow> int"
    and cursor :: "'s \<Rightarrow> nat"
    and add :: "'s \<Rightarrow> nat \<Rightarrow> 's outcome"
    and remove :: "'s \<Rightarrow> nat \<Rightarrow> 's outcome"
    and nxt :: "'s \<Rightarrow> nat option \<times> 's"
    and addable removable :: "'s \<Rightarrow> nat \<Rightarrow> bool"
  assumes add_law: "addable s c \<Longrightarrow> \<exists>s'. add s c = Ret s' \<and> active s' = active s @ [c]
      \<and> idx s' = (idx s)(c := int (length (active s)))"
    and remove_law: "removable s c \<Longrightarrow> i < length (active s) \<Longrightarrow> active s ! i = c \<Longrightarrow> idx s c = int i \<Longrightarrow>
      \<exists>s'. remove s c = Ret s' \<and> active s' = swap_remove (active s) i
        \<and> (\<forall>d. d \<noteq> c \<longrightarrow> idx s' d = (if d = last (active s) then int i else idx s d))"
    and next_empty: "active s = [] \<Longrightarrow> fst (nxt s) = None"
    and next_some: "active s \<noteq> [] \<Longrightarrow>
      fst (nxt s) = Some (active s ! rr_start (cursor s) (length (active s)))
        \<and> cursor (snd (nxt s)) = rr_start (cursor s) (length (active s)) + 1"
    and next_active: "active (snd (nxt s)) = active s"
    and next_idx: "idx (snd (nxt s)) = idx s"
begin

definition indexed :: "'s \<Rightarrow> bool" where
  "indexed s \<longleftrightarrow> distinct (active s) \<and> (\<forall>i < length (active s). idx s (active s ! i) = int i)"

lemma indexed_next: "indexed s \<Longrightarrow> indexed (snd (nxt s))"
  by (simp add: indexed_def next_active next_idx)

lemma indexed_add:
  assumes "indexed s" and "addable s c" and "c \<notin> set (active s)" and "add s c = Ret s'"
  shows "indexed s' \<and> active s' = active s @ [c]"
proof -
  from add_law [OF assms(2)] assms(4) have a: "active s' = active s @ [c]"
    and i: "idx s' = (idx s)(c := int (length (active s)))" by auto
  have "idx s' (active s' ! j) = int j" if "j < length (active s')" for j
  proof (cases "j < length (active s)")
    case True
    then have "active s ! j \<noteq> c" using assms(3) nth_mem by blast
    with True show ?thesis using assms(1) a i by (simp add: indexed_def nth_append)
  next
    case False
    then show ?thesis using that a i by (simp add: nth_append less_Suc_eq)
  qed
  then show ?thesis using assms(1,3) a by (simp add: indexed_def)
qed

lemma indexed_remove:
  assumes inv: "indexed s" and rem: "removable s c" and c: "c \<in> set (active s)"
    and ret: "remove s c = Ret s'"
  shows "indexed s' \<and> set (active s') = set (active s) - {c}"
proof -
  obtain i where i: "i < length (active s)" "active s ! i = c"
    using c by (auto simp: in_set_conv_nth)
  then have "idx s c = int i" using inv by (auto simp: indexed_def)
  from remove_law [OF rem i this] ret have a: "active s' = swap_remove (active s) i"
    and x: "\<And>d. d \<noteq> c \<Longrightarrow> idx s' d = (if d = last (active s) then int i else idx s d)"
    by auto
  have sd: "distinct (active s')" "set (active s') = set (active s) - {c}"
    using swap_remove_distinct [of "active s" i] inv i a by (auto simp: indexed_def)
  have "idx s' (active s' ! j) = int j" if j: "j < length (active s')" for j
  proof -
    have j1: "j < length (active s) - 1" using j a by simp
    have "active s' ! j \<noteq> c" using sd(2) j nth_mem by blast
    note xj = x [OF this]
    have nth: "active s' ! j = (if j = i then last (active s) else active s ! j)"
      using swap_remove_nth [OF j1 i(1)] a by simp
    show ?thesis
    proof (cases "j = i")
      case True
      then show ?thesis using xj nth by simp
    next
      case False
      have "active s \<noteq> []" using i(1) by auto
      then have "active s ! j \<noteq> last (active s)"
        using inv j1 i(1) by (simp add: indexed_def last_conv_nth nth_eq_iff_index_eq)
      then show ?thesis using xj nth False inv j1 by (simp add: indexed_def)
    qed
  qed
  with sd show ?thesis by (simp add: indexed_def)
qed

lemma remove_returns:
  assumes "indexed s" and "removable s c" and "c \<in> set (active s)"
  shows "\<exists>s'. remove s c = Ret s'"
proof -
  obtain i where "i < length (active s)" "active s ! i = c"
    using assms(3) by (auto simp: in_set_conv_nth)
  moreover from this have "idx s c = int i" using assms(1) by (auto simp: indexed_def)
  ultimately show ?thesis using remove_law [OF assms(2)] by blast
qed

lemma next_in_active:
  assumes "active s \<noteq> []"
  shows "\<exists>c \<in> set (active s). fst (nxt s) = Some c"
proof -
  have "rr_start (cursor s) (length (active s)) < length (active s)"
    using assms by (auto simp: rr_start_def)
  then show ?thesis using next_some [OF assms] by (auto intro: nth_mem)
qed

text \<open>Calls in a row walk through the array cyclically from the cursor.\<close>

lemma next_many_cyclic:
  assumes "active s \<noteq> []"
  shows "fst (next_many nxt k s) = map (\<lambda>i. Some (active s !
      ((rr_start (cursor s) (length (active s)) + i) mod length (active s)))) [0..<k]"
  using assms
proof (induction k arbitrary: s)
  case 0
  then show ?case by simp
next
  case (Suc k)
  let ?n = "length (active s)" and ?j = "rr_start (cursor s) (length (active s))"
  obtain c s' where n: "nxt s = (c, s')" by (cases "nxt s")
  have j: "?j < ?n" using Suc.prems by (auto simp: rr_start_def)
  have c: "c = Some (active s ! ?j)" and cur: "cursor s' = ?j + 1" and a: "active s' = active s"
    using next_some [OF Suc.prems(1)] next_active [of s] n by auto
  have start: "rr_start (cursor s') ?n = (?j + 1) mod ?n"
    using rr_start_step [OF j] cur by simp
  have "fst (next_many nxt (Suc k) s) = c # map (\<lambda>i. Some (active s ! (((?j + 1) mod ?n + i) mod ?n))) [0..<k]"
    using Suc.IH [of s'] Suc.prems a start n by (simp add: split_beta)
  also have "\<dots> = Some (active s ! ((?j + 0) mod ?n)) #
      map (\<lambda>i. Some (active s ! ((?j + Suc i) mod ?n))) [0..<k]"
    using c j by (simp add: mod_add_left_eq)
  also have "\<dots> = map (\<lambda>i. Some (active s ! ((?j + i) mod ?n))) [0..<Suc k]"
    by (simp add: upt_conv_Cons map_Suc_upt [symmetric] comp_def del: upt_Suc)
  finally show ?case .
qed

text \<open>As many calls as there are connections use every connection exactly once.\<close>

lemma round_robin:
  assumes "active s \<noteq> []"
  shows "fst (next_many nxt (length (active s)) s) =
    map Some (rotate (rr_start (cursor s) (length (active s))) (active s))"
proof -
  let ?n = "length (active s)" and ?j = "rr_start (cursor s) (length (active s))"
  have "map (\<lambda>i. active s ! ((?j + i) mod ?n)) [0..<?n] = rotate ?j (active s)"
    by (rule nth_equalityI) (simp_all add: nth_rotate)
  then have "map Some (map (\<lambda>i. active s ! ((?j + i) mod ?n)) [0..<?n]) = map Some (rotate ?j (active s))"
    by (rule arg_cong)
  then have "map (\<lambda>i. Some (active s ! ((?j + i) mod ?n))) [0..<?n] = map Some (rotate ?j (active s))"
    by (simp only: map_map comp_def)
  then show ?thesis using next_many_cyclic [OF assms] by simp
qed

end

end
