(* ===== verification/Backend_Conn.thy ===== *)
theory Backend_Conn
  imports Pending Framed_Transport Conn_Pool
begin

text \<open>
  \<open>proxy/backend_conn_proxy.go\<close> and the state of \<open>proxy/backend_service_proxy.go\<close>: the
  proxy's connection to one backend. Objects that Go reaches through pointers (requests,
  connections, services) are in stores of the process state, so that two references to one
  object see the same updates. \<open>BackService.StateChanged\<close> is here because a connection
  calls it; the other operations of the service are in the next theory.
\<close>

subsection \<open>State\<close>

record backend_conn =
  bc_addr :: string
  bc_service :: string
  bc_input :: "nat list"
  bc_input_closed :: bool
  bc_seqNum2Request :: "int32 \<Rightarrow> nat option"
  bc_currentSeqId :: int32
  bc_Index :: int
  bc_delegate :: "nat option"
  bc_IsMarkOffline :: bool
  bc_IsConnActive :: bool
  bc_verbose :: bool
  bc_hbLastTime :: int

record back_service =
  productName :: string
  serviceName :: string
  activeConns :: "nat list"
  currentConnIndex :: nat
  addr2Conn :: "string \<Rightarrow> nat option"
  svc_verbose :: bool
  svc_stop :: bool
  lastRequestTime :: int
  evtbus :: nat

record pstate = heap +
  conns :: "nat \<Rightarrow> backend_conn"
  next_conn :: nat
  svcs :: "nat \<Rightarrow> back_service"
  next_svc :: nat

text \<open>The process at its start: no requests, no connections, no services.\<close>

definition empty_pstate :: pstate where
  "empty_pstate =
     \<lparr>pmem = empty_memory, reqs = (\<lambda>_. zero_request), next_req = 0,
      conns = (\<lambda>_. \<lparr>bc_addr = [], bc_service = [], bc_input = [], bc_input_closed = False,
        bc_seqNum2Request = Map.empty, bc_currentSeqId = 0, bc_Index = 0, bc_delegate = None,
        bc_IsMarkOffline = False, bc_IsConnActive = False, bc_verbose = False, bc_hbLastTime = 0\<rparr>),
      next_conn = 0,
      svcs = (\<lambda>_. \<lparr>productName = [], serviceName = [], activeConns = [], currentConnIndex = 0,
        addr2Conn = Map.empty, svc_verbose = False, svc_stop = False, lastRequestTime = 0, evtbus = 0\<rparr>),
      next_svc = 0\<rparr>"

definition upd_conn :: "nat \<Rightarrow> (backend_conn \<Rightarrow> backend_conn) \<Rightarrow> pstate \<Rightarrow> pstate" where
  "upd_conn c f ps = ps\<lparr>conns := (conns ps)(c := f (conns ps c))\<rparr>"

definition upd_svc :: "nat \<Rightarrow> (back_service \<Rightarrow> back_service) \<Rightarrow> pstate \<Rightarrow> pstate" where
  "upd_svc s f ps = ps\<lparr>svcs := (svcs ps)(s := f (svcs ps s))\<rparr>"

lemmas upd_defs = upd_conn_def upd_svc_def set_req_def

text \<open>The struct literal of \<open>NewBackendConn\<close>; its goroutine \<open>Run\<close> starts with it.\<close>

definition NewBackendConn :: "string \<Rightarrow> nat option \<Rightarrow> string \<Rightarrow> bool \<Rightarrow> pstate \<Rightarrow> nat \<times> pstate" where
  "NewBackendConn addr dlg svc verbose ps =
     (next_conn ps,
      ps\<lparr>conns := (conns ps)(next_conn ps :=
           \<lparr>bc_addr = addr, bc_service = svc, bc_input = [], bc_input_closed = False,
            bc_seqNum2Request = Map.empty, bc_currentSeqId = BACKEND_CONN_MIN_SEQ_ID,
            bc_Index = INVALID_ARRAY_INDEX, bc_delegate = dlg, bc_IsMarkOffline = False,
            bc_IsConnActive = False, bc_verbose = verbose, bc_hbLastTime = 0\<rparr>),
         next_conn := Suc (next_conn ps)\<rparr>)"

subsection \<open>The array of active connections\<close>

definition BackService_StateChanged :: "nat \<Rightarrow> nat \<Rightarrow> pstate \<Rightarrow> pstate outcome" where
  "BackService_StateChanged s c ps =
     (let act = activeConns (svcs ps s); conn = conns ps c; n = int (length act) in
      if bc_IsConnActive conn then
        (if bc_Index conn = INVALID_ARRAY_INDEX
         then Ret (upd_svc s (\<lambda>v. v\<lparr>activeConns := act @ [c]\<rparr>)
                (upd_conn c (\<lambda>b. b\<lparr>bc_Index := n\<rparr>) ps))
         else Ret ps)
      else if bc_Index conn \<noteq> INVALID_ARRAY_INDEX then
        let lastIndex = n - 1 in
        obind (if lastIndex \<noteq> bc_Index conn
               then obind (go_get act lastIndex) (\<lambda>lastConn.
                    obind (go_set act (bc_Index conn) lastConn) (\<lambda>act'.
                    Ret (act', upd_conn lastConn (\<lambda>b. b\<lparr>bc_Index := bc_Index conn\<rparr>) ps)))
               else Ret (act, ps)) (\<lambda>(act1, ps1).
        obind (go_get act1 lastIndex) (\<lambda>_.
        obind (go_prefix act1 lastIndex) (\<lambda>act2.
        Ret (upd_svc s (\<lambda>v. v\<lparr>activeConns := act2\<rparr>)
              (upd_conn c (\<lambda>b. b\<lparr>bc_Index := INVALID_ARRAY_INDEX\<rparr>) ps1)))))
      else Ret ps)"

subsection \<open>State of the connection\<close>

definition BackendConn_MarkConnActiveFalse :: "nat \<Rightarrow> pstate \<Rightarrow> pstate outcome" where
  "BackendConn_MarkConnActiveFalse c ps =
     (if bc_IsConnActive (conns ps c) then
        let ps1 = upd_conn c (\<lambda>b. b\<lparr>bc_IsConnActive := False\<rparr>) ps in
        (case bc_delegate (conns ps c) of
           Some s \<Rightarrow> BackService_StateChanged s c ps1
         | None \<Rightarrow> Ret ps1)
      else Ret ps)"

definition BackendConn_MarkConnActiveOK :: "nat \<Rightarrow> pstate \<Rightarrow> pstate outcome" where
  "BackendConn_MarkConnActiveOK c ps =
     (let ps1 = upd_conn c (\<lambda>b. b\<lparr>bc_IsConnActive := True\<rparr>) ps in
      case bc_delegate (conns ps c) of
        Some s \<Rightarrow> BackService_StateChanged s c ps1
      | None \<Rightarrow> Ret ps1)"

definition close_input :: "nat \<Rightarrow> pstate \<Rightarrow> pstate outcome" where
  "close_input c ps =
     (if bc_input_closed (conns ps c) then Panic CloseOfClosedChannel
      else Ret (upd_conn c (\<lambda>b. b\<lparr>bc_input_closed := True\<rparr>) ps))"

definition BackendConn_MarkOffline :: "nat \<Rightarrow> pstate \<Rightarrow> pstate outcome" where
  "BackendConn_MarkOffline c ps =
     (if \<not> bc_IsMarkOffline (conns ps c) then
        obind (BackendConn_MarkConnActiveFalse c
                (upd_conn c (\<lambda>b. b\<lparr>bc_IsMarkOffline := True\<rparr>) ps)) (close_input c)
      else Ret ps)"

definition BackendConn_PushBack :: "nat \<Rightarrow> nat \<Rightarrow> pstate \<Rightarrow> pstate outcome" where
  "BackendConn_PushBack c rid ps =
     (let ps1 = set_req rid (wait_add (reqs ps rid)) ps in
      if bc_input_closed (conns ps1 c) then Panic SendOnClosedChannel
      else if length (bc_input (conns ps1 c)) \<ge> CHAN_CAP then Block
      else Ret (upd_conn c (\<lambda>b. b\<lparr>bc_input := bc_input b @ [rid]\<rparr>) ps1))"

definition BackendConn_IncreaseCurrentSeqId :: "backend_conn \<Rightarrow> backend_conn" where
  "BackendConn_IncreaseCurrentSeqId b =
     (let c = bc_currentSeqId b + 1 in
      b\<lparr>bc_currentSeqId :=
          (if sint c > sint BACKEND_CONN_MAX_SEQ_ID then BACKEND_CONN_MIN_SEQ_ID else c)\<rparr>)"

subsection \<open>Responses\<close>

text \<open>The critical sections on \<open>seqNum2Request\<close>: storing a request, taking one out.\<close>

definition bc_store :: "int32 \<Rightarrow> nat \<Rightarrow> backend_conn \<Rightarrow> backend_conn" where
  "bc_store key rid b =
     (BackendConn_IncreaseCurrentSeqId b)
       \<lparr>bc_seqNum2Request := (bc_seqNum2Request b)(key \<mapsto> rid)\<rparr>"

definition bc_take :: "backend_conn \<Rightarrow> int32 \<Rightarrow> nat option \<times> backend_conn" where
  "bc_take b key =
     (bc_seqNum2Request b key,
      b\<lparr>bc_seqNum2Request := (bc_seqNum2Request b)(key := None)\<rparr>)"

definition BackendConn_setResponse :: "thrift_lib \<Rightarrow> int \<Rightarrow> nat \<Rightarrow> nat option \<Rightarrow> slice option \<Rightarrow>
    go_error option \<Rightarrow> pstate \<Rightarrow> (go_error option \<times> pstate) outcome" where
  "BackendConn_setResponse T now c r data err ps =
     (case data of
        None \<Rightarrow> (case r of None \<Rightarrow> Panic NilDereference | Some rid \<Rightarrow> finish_in T rid None err ps)
      | Some d \<Rightarrow>
          let (typeId, seqId, derr) = DecodeThriftTypIdSeqId T (pmem ps) d in
          case derr of
            Some e \<Rightarrow> Ret (Some e, ps)
          | None \<Rightarrow>
              let (req, b) = bc_take (conns ps c) seqId;
                  ps1 = upd_conn c (\<lambda>_. b) ps in
              if typeId = MESSAGE_TYPE_HEART_BEAT
              then Ret (None, upd_conn c (\<lambda>b. b\<lparr>bc_hbLastTime := now\<rparr>) ps1)
              else case req of
                     None \<Rightarrow> Ret (Some (ErrorString ''Invalid Response''), ps1)
                   | Some rid \<Rightarrow>
                       finish_in T rid data err
                         (set_req rid ((reqs ps1 rid)\<lparr>RespTypeId := typeId\<rparr>) ps1))"

text \<open>
  \<open>flushRequests\<close> ranges over the map; the order \<open>keys\<close> in which Go visits the entries is
  not specified and therefore an argument.
\<close>

definition BackendConn_flushRequests :: "nat \<Rightarrow> go_error \<Rightarrow> int32 list \<Rightarrow> pstate \<Rightarrow> pstate outcome" where
  "BackendConn_flushRequests c err keys ps =
     obind (BackendConn_MarkConnActiveFalse c ps) (\<lambda>ps1.
       let seqRequest = bc_seqNum2Request (conns ps1 c);
           ps2 = upd_conn c (\<lambda>b. b\<lparr>bc_seqNum2Request := Map.empty\<rparr>) ps1 in
       obind (fail_requests err (List.map_filter seqRequest keys) (reqs ps2)) (\<lambda>rs.
       Ret (ps2\<lparr>reqs := rs\<rparr>)))"

subsection \<open>The reader\<close>

text \<open>
  One round of the loop of \<open>loopReader\<close>: a frame is handed to \<open>setResponse\<close>, whose result is
  not used; an error ends the loop after \<open>flushRequests\<close>.
\<close>

definition BackendConn_loopReader_turn :: "thrift_lib \<Rightarrow> int \<Rightarrow> nat \<Rightarrow> int32 list \<Rightarrow> 'n framed \<Rightarrow>
    pstate \<Rightarrow> (loop_exit \<times> 'n framed \<times> pstate) outcome" where
  "BackendConn_loopReader_turn T now c keys p ps =
     obind (ReadFrame T (pmem ps) p) (\<lambda>(res, m, p1).
     let ps1 = ps\<lparr>pmem := m\<rparr> in
     case res of
       Inl e \<Rightarrow> obind (BackendConn_flushRequests c e keys ps1) (\<lambda>ps2. Ret (Return None, p1, ps2))
     | Inr resp \<Rightarrow>
         obind (BackendConn_setResponse T now c None (Some resp) None ps1) (\<lambda>(_, ps2).
         Ret (Continue, p1, ps2)))"

subsection \<open>The writer\<close>

definition BackendConn_send :: "thrift_lib \<Rightarrow> 'n net \<Rightarrow> int \<Rightarrow> nat \<Rightarrow> nat \<Rightarrow> 'n framed \<Rightarrow> pstate \<Rightarrow>
    (go_error option \<times> 'n framed \<times> pstate) outcome" where
  "BackendConn_send T net nano c rid p ps =
     (let flush = (length (bc_input (conns ps c)) = 0) in
      write_request T net nano (bc_currentSeqId (conns ps c)) flush rid p ps)"

definition BackendConn_register :: "nat \<Rightarrow> nat \<Rightarrow> pstate \<Rightarrow> pstate" where
  "BackendConn_register c rid ps = upd_conn c (bc_store (RespSeqId (reqs ps rid)) rid) ps"

text \<open>
  One turn of \<open>loopWriter\<close> that received from \<open>bc.input\<close>, at Unix time \<open>now\<close>
  (\<open>nano\<close> in nanoseconds), and the turn that received from \<open>bc.hbTimeout\<close>.
\<close>

definition BackendConn_loopWriter_turn :: "thrift_lib \<Rightarrow> 'n net \<Rightarrow> int \<Rightarrow> int \<Rightarrow> nat \<Rightarrow> 'n framed \<Rightarrow>
    pstate \<Rightarrow> (loop_exit \<times> 'n framed \<times> pstate) outcome" where
  "BackendConn_loopWriter_turn T net now nano c p ps =
     (case bc_input (conns ps c) of
        [] \<Rightarrow> if bc_input_closed (conns ps c) then Ret (Return None, p, ps) else Block
      | rid # rest \<Rightarrow>
          let ps0 = upd_conn c (\<lambda>b. b\<lparr>bc_input := rest\<rparr>) ps in
          if ReqTypeId (reqs ps0 rid) = MESSAGE_TYPE_HEART_BEAT \<and> now - Start (reqs ps0 rid) > 4
          then Ret (Continue, p, ps0)
          else obind (BackendConn_send T net nano c rid p ps0) (\<lambda>(err, p1, ps1).
               case err of
                 None \<Rightarrow> Ret (Continue, p1, BackendConn_register c rid ps1)
               | Some e \<Rightarrow>
                   obind (BackendConn_setResponse T now c (Some rid) None (Some e) ps1) (\<lambda>(e', ps2).
                   Ret (Return e', p1, ps2))))"

definition BackendConn_hb_timeout_error :: "string \<Rightarrow> go_error" where
  "BackendConn_hb_timeout_error svc = ErrorString (''['' @ svc @ '']HB timeout'')"

text \<open>After an error, \<open>Run\<close> fails the requests that were queued when the loop began.\<close>

fun BackendConn_drain :: "thrift_lib \<Rightarrow> int \<Rightarrow> nat \<Rightarrow> go_error \<Rightarrow> nat \<Rightarrow> pstate \<Rightarrow> pstate outcome" where
  "BackendConn_drain T now c err 0 ps = Ret ps"
| "BackendConn_drain T now c err (Suc i) ps =
     (case bc_input (conns ps c) of
        [] \<Rightarrow> if bc_input_closed (conns ps c) then Panic NilDereference else Block
      | rid # rest \<Rightarrow>
          obind (BackendConn_setResponse T now c (Some rid) None (Some err)
                   (upd_conn c (\<lambda>b. b\<lparr>bc_input := rest\<rparr>) ps)) (\<lambda>(_, ps1).
          BackendConn_drain T now c err i ps1))"

definition BackendConn_after_writer :: "thrift_lib \<Rightarrow> int \<Rightarrow> nat \<Rightarrow> go_error option \<Rightarrow> pstate \<Rightarrow> pstate outcome" where
  "BackendConn_after_writer T now c err ps =
     obind (BackendConn_MarkConnActiveFalse c ps) (\<lambda>ps1.
       case err of
         None \<Rightarrow> Ret ps1
       | Some e \<Rightarrow> BackendConn_drain T now c e (length (bc_input (conns ps1 c))) ps1)"

subsection \<open>Heartbeat and reconnection\<close>

definition BackendConn_hb_tick :: "thrift_lib \<Rightarrow> int \<Rightarrow> nat \<Rightarrow> pstate \<Rightarrow> (hb_action \<times> pstate) outcome" where
  "BackendConn_hb_tick T now c ps =
     (if now - bc_hbLastTime (conns ps c) > HB_TIMEOUT then Ret (HbTimeout, ps)
      else if \<not> bc_IsMarkOffline (conns ps c) then
        let (r, m) = NewPingRequest T (pmem ps) now;
            (rid, ps1) = new_req r (ps\<lparr>pmem := m\<rparr>) in
        obind (BackendConn_PushBack c rid ps1) (\<lambda>ps2. Ret (HbPing, ps2))
      else Ret (HbStop, ps))"

text \<open>
  The retry loop of \<open>ensureConn\<close>: \<open>opens k\<close> is the result of the \<open>k\<close>-th \<open>Open\<close>,
  \<open>offline k\<close> the flag read after it. The result is the last error and the sleeps, in
  seconds; the loop may never end.
\<close>

partial_function (option) ensureConn_loop ::
    "(nat \<Rightarrow> go_error option) \<Rightarrow> (nat \<Rightarrow> bool) \<Rightarrow> nat \<Rightarrow> nat \<Rightarrow> nat list \<Rightarrow> (go_error option \<times> nat list) option" where
  "ensureConn_loop opens offline k sleepInterval sleeps =
     (if opens k \<noteq> None \<and> \<not> offline k
      then ensureConn_loop opens offline (Suc k)
             (if sleepInterval < 4 then sleepInterval * 2 else sleepInterval) (sleeps @ [sleepInterval])
      else Some (opens k, sleeps))"

text \<open>An address with a colon is a TCP address, any other a unix domain socket.\<close>

definition BackendConn_ensureConn :: "(string \<Rightarrow> go_error option) \<Rightarrow> (string \<Rightarrow> go_error option) \<Rightarrow>
    string \<Rightarrow> (nat \<Rightarrow> go_error option) \<Rightarrow> (nat \<Rightarrow> bool) \<Rightarrow> (go_error option \<times> nat list) option" where
  "BackendConn_ensureConn newTSocket newTUnixDomain addr opens offline =
     (case (if strings_Contains addr '':'' then newTSocket addr else newTUnixDomain addr) of
        Some e \<Rightarrow> Some (Some e, [])
      | None \<Rightarrow> ensureConn_loop opens offline 0 1 [])"

text \<open>The writer announces itself and starts the heartbeat before its first turn.\<close>

definition BackendConn_loopWriter_start :: "int \<Rightarrow> nat \<Rightarrow> pstate \<Rightarrow> pstate outcome" where
  "BackendConn_loopWriter_start now c ps =
     obind (BackendConn_MarkConnActiveOK c ps) (\<lambda>ps1.
       Ret (upd_conn c (\<lambda>b. b\<lparr>bc_hbLastTime := now\<rparr>) ps1))"

subsection \<open>The table of waiting requests\<close>

lemma bc_store_sel [simp]:
  "bc_seqNum2Request (bc_store k rid b) = (bc_seqNum2Request b)(k \<mapsto> rid)"
  "bc_currentSeqId (bc_store k rid b) = next_seq_id (bc_currentSeqId b)"
  "bc_input (bc_store k rid b) = bc_input b"
  by (simp_all add: bc_store_def BackendConn_IncreaseCurrentSeqId_def next_seq_id_def Let_def)

lemma bc_take_sel [simp]:
  "fst (bc_take b k) = bc_seqNum2Request b k"
  "bc_seqNum2Request (snd (bc_take b k)) = (bc_seqNum2Request b)(k := None)"
  "bc_currentSeqId (snd (bc_take b k)) = bc_currentSeqId b"
  "bc_input (snd (bc_take b k)) = bc_input b"
  by (simp_all add: bc_take_def)

interpretation bc_table: seq_table bc_seqNum2Request bc_currentSeqId
    "\<lambda>b rid. bc_store (bc_currentSeqId b) rid b" bc_take
  by unfold_locales simp_all

subsection \<open>Frame conditions\<close>

lemma upd_sel [simp]:
  "conns (upd_conn c f ps) = (conns ps)(c := f (conns ps c))" "reqs (upd_conn c f ps) = reqs ps"
  "pmem (upd_conn c f ps) = pmem ps" "svcs (upd_conn c f ps) = svcs ps"
  "next_req (upd_conn c f ps) = next_req ps" "next_conn (upd_conn c f ps) = next_conn ps"
  "next_svc (upd_conn c f ps) = next_svc ps"
  "conns (upd_svc s g ps) = conns ps" "reqs (upd_svc s g ps) = reqs ps"
  "pmem (upd_svc s g ps) = pmem ps" "svcs (upd_svc s g ps) = (svcs ps)(s := g (svcs ps s))"
  "next_req (upd_svc s g ps) = next_req ps" "next_conn (upd_svc s g ps) = next_conn ps"
  "next_svc (upd_svc s g ps) = next_svc ps"
  "conns (set_req rid r ps) = conns ps" "svcs (set_req rid r ps) = svcs ps"
  "next_conn (set_req rid r ps) = next_conn ps" "next_svc (set_req rid r ps) = next_svc ps"
  by (simp_all add: upd_defs)

text \<open>Two states that differ at most in positions in the array of active connections.\<close>

definition same_but_index :: "pstate \<Rightarrow> pstate \<Rightarrow> bool" where
  "same_but_index ps ps' \<longleftrightarrow> reqs ps' = reqs ps \<and> pmem ps' = pmem ps \<and> next_req ps' = next_req ps \<and>
     (\<forall>d. \<exists>i. conns ps' d = (conns ps d)\<lparr>bc_Index := i\<rparr>)"

lemma same_but_index_refl [simp]: "same_but_index ps ps"
proof -
  have "conns ps d = (conns ps d)\<lparr>bc_Index := bc_Index (conns ps d)\<rparr>" for d by simp
  then show ?thesis unfolding same_but_index_def by blast
qed

lemma same_but_index_set:
  assumes "same_but_index ps ps'"
  shows "same_but_index ps (upd_conn c (\<lambda>b. b\<lparr>bc_Index := j\<rparr>) ps')"
proof -
  have "\<exists>i. ((conns ps')(c := (conns ps' c)\<lparr>bc_Index := j\<rparr>)) d = (conns ps d)\<lparr>bc_Index := i\<rparr>" for d
  proof -
    obtain i where "conns ps' d = (conns ps d)\<lparr>bc_Index := i\<rparr>"
      using assms by (auto simp: same_but_index_def)
    then show ?thesis by (cases "d = c") auto
  qed
  then show ?thesis using assms by (simp add: same_but_index_def)
qed

lemma same_but_index_svc: "same_but_index ps (upd_svc s g ps') = same_but_index ps ps'"
  by (simp add: same_but_index_def)

lemma StateChanged_frame:
  assumes "BackService_StateChanged s c ps = Ret ps'"
  shows "same_but_index ps ps'"
  using assms
  by (auto simp: BackService_StateChanged_def Let_def same_but_index_svc
      intro!: same_but_index_set split: if_splits)

subsection \<open>Properties of the table\<close>

definition demo_conn :: backend_conn where
  "demo_conn = conns (snd (NewBackendConn ''host:9090'' None ''math'' False empty_pstate)) 0"

lemma demo_conn_seq [simp]: "bc_currentSeqId demo_conn = 1"
  by (simp add: demo_conn_def NewBackendConn_def empty_pstate_def BACKEND_CONN_MIN_SEQ_ID_def)

text \<open>
  C7: A request stored under the current sequence number is found by the reply that carries
  this number, and only by the first such reply, whatever other requests (fewer than 100000) are
  sent and whatever other replies arrive in between, in any order. Sequence numbers wrap around
  from 100000 to 1.
\<close>

theorem reply_found_again:
  assumes "seq_ok (bc_currentSeqId b)" and "n_register ops < 100000" and "Resolve (bc_currentSeqId b) \<notin> set ops"
    and "b' = table_run (\<lambda>b rid. bc_store (bc_currentSeqId b) rid b) bc_take ops
      (bc_store (bc_currentSeqId b) rid b)"
  shows "fst (bc_take b' (bc_currentSeqId b)) = Some rid
    \<and> fst (bc_take (snd (bc_take b' (bc_currentSeqId b))) (bc_currentSeqId b)) = None"
  using bc_table.found_again [OF assms(1-3)] bc_table.resolved_once assms(4) by simp

theorem reply_found_again_witness:
  "fst (bc_take (table_run (\<lambda>b rid. bc_store (bc_currentSeqId b) rid b) bc_take
      [Register 11, Resolve 2, Register 12, Resolve 77] (bc_store 1 10 demo_conn)) 1) = Some 10"
  using reply_found_again [of demo_conn "[Register 11, Resolve 2, Register 12, Resolve 77]" _ 10]
  by (simp add: n_register_def seq_ok_def)

text \<open>
  The table has no guard against a number that is still in use: the request sent 100000
  requests later gets the same number and replaces a request that is still waiting, which no
  reply and no \<open>flushRequests\<close> will reach any more.
\<close>

lemma waiting_request_replaced:
  assumes "seq_ok (bc_currentSeqId b)" and "length rids = 99999"
  shows "fst (bc_take (table_run (\<lambda>b rid. bc_store (bc_currentSeqId b) rid b) bc_take
      (map Register (rids @ [q])) (bc_store (bc_currentSeqId b) rid b)) (bc_currentSeqId b)) = Some q"
  using bc_table.overwritten [OF assms] .

lemma waiting_request_replaced_witness:
  "fst (bc_take (table_run (\<lambda>b rid. bc_store (bc_currentSeqId b) rid b) bc_take
      (map Register (replicate 99999 5 @ [6])) (bc_store (bc_currentSeqId demo_conn) 4 demo_conn))
    (bc_currentSeqId demo_conn)) = Some 6"
  by (rule waiting_request_replaced) (simp_all only: demo_conn_seq seq_ok_def length_replicate, simp)

end
