(* ===== verification/Backend_Conn_Correct.thy ===== *)
theory Backend_Conn_Correct
  imports Backend_Conn
begin

text \<open>
  Correctness of the proxy's backend connection: the invariant that ties the table of waiting
  requests, the queue and the wait groups together, what each operation does to it, and what
  a request's life looks like from \<open>PushBack\<close> to the restored response.
\<close>

subsection \<open>Invariant\<close>

definition bc_pending :: "nat \<Rightarrow> pstate \<Rightarrow> nat set" where
  "bc_pending c ps = pending (bc_seqNum2Request (conns ps c)) (bc_input (conns ps c))"

definition conn_inv :: "nat \<Rightarrow> pstate \<Rightarrow> bool" where
  "conn_inv c ps \<longleftrightarrow> pend_inv (bc_currentSeqId (conns ps c)) (bc_seqNum2Request (conns ps c))
     (bc_input (conns ps c)) (reqs ps)"

lemmas conn_invD = pend_invD [where cur = "bc_currentSeqId (conns ps c)"
  and tab = "bc_seqNum2Request (conns ps c)" and inp = "bc_input (conns ps c)" and rs = "reqs ps" for c and ps :: pstate,
  folded conn_inv_def bc_pending_def]

lemma same_but_index_conn:
  assumes "same_but_index ps ps'"
  shows "reqs ps' = reqs ps" "pmem ps' = pmem ps" "bc_input (conns ps' c) = bc_input (conns ps c)"
    "bc_seqNum2Request (conns ps' c) = bc_seqNum2Request (conns ps c)"
    "bc_currentSeqId (conns ps' c) = bc_currentSeqId (conns ps c)"
    "bc_IsConnActive (conns ps' c) = bc_IsConnActive (conns ps c)"
    "bc_IsMarkOffline (conns ps' c) = bc_IsMarkOffline (conns ps c)"
    "bc_input_closed (conns ps' c) = bc_input_closed (conns ps c)" "next_req ps' = next_req ps"
proof -
  show "reqs ps' = reqs ps" "pmem ps' = pmem ps" "next_req ps' = next_req ps"
    using assms by (auto simp: same_but_index_def)
  obtain i where "conns ps' c = (conns ps c)\<lparr>bc_Index := i\<rparr>"
    using assms by (auto simp: same_but_index_def)
  then show "bc_input (conns ps' c) = bc_input (conns ps c)"
    "bc_seqNum2Request (conns ps' c) = bc_seqNum2Request (conns ps c)"
    "bc_currentSeqId (conns ps' c) = bc_currentSeqId (conns ps c)"
    "bc_IsConnActive (conns ps' c) = bc_IsConnActive (conns ps c)"
    "bc_IsMarkOffline (conns ps' c) = bc_IsMarkOffline (conns ps c)"
    "bc_input_closed (conns ps' c) = bc_input_closed (conns ps c)"
    by simp_all
qed

lemma conn_inv_cong:
  assumes "reqs ps' = reqs ps" "bc_input (conns ps' c) = bc_input (conns ps c)"
    "bc_seqNum2Request (conns ps' c) = bc_seqNum2Request (conns ps c)"
    "bc_currentSeqId (conns ps' c) = bc_currentSeqId (conns ps c)"
  shows "conn_inv c ps' = conn_inv c ps"
  using assms by (simp add: conn_inv_def)

lemma MarkConnActiveFalse_frame_all:
  assumes "BackendConn_MarkConnActiveFalse d ps = Ret ps'"
  shows "reqs ps' = reqs ps \<and> pmem ps' = pmem ps \<and> bc_input (conns ps' c) = bc_input (conns ps c) \<and>
    bc_seqNum2Request (conns ps' c) = bc_seqNum2Request (conns ps c) \<and>
    bc_currentSeqId (conns ps' c) = bc_currentSeqId (conns ps c) \<and> \<not> bc_IsConnActive (conns ps' d) \<and>
    bc_input_closed (conns ps' c) = bc_input_closed (conns ps c) \<and>
    bc_IsMarkOffline (conns ps' c) = bc_IsMarkOffline (conns ps c) \<and> next_req ps' = next_req ps"
proof (cases "bc_IsConnActive (conns ps d)")
  case False
  then show ?thesis using assms by (simp add: BackendConn_MarkConnActiveFalse_def)
next
  case True
  let ?ps = "upd_conn d (\<lambda>b. b\<lparr>bc_IsConnActive := False\<rparr>) ps"
  show ?thesis
  proof (cases "bc_delegate (conns ps d)")
    case None
    then show ?thesis using assms True
      by (cases "c = d") (auto simp: BackendConn_MarkConnActiveFalse_def Let_def)
  next
    case (Some s)
    then have "same_but_index ?ps ps'"
      using assms True by (auto simp: BackendConn_MarkConnActiveFalse_def Let_def dest: StateChanged_frame)
    note fr = same_but_index_conn [OF this]
    show ?thesis using fr(1,2,9) fr(3-8) [of c] fr(6) [of d] by simp
  qed
qed

lemma MarkConnActiveFalse_frame:
  assumes "BackendConn_MarkConnActiveFalse d ps = Ret ps'"
  shows "reqs ps' = reqs ps" "pmem ps' = pmem ps" "bc_input (conns ps' c) = bc_input (conns ps c)"
    "bc_seqNum2Request (conns ps' c) = bc_seqNum2Request (conns ps c)"
    "bc_currentSeqId (conns ps' c) = bc_currentSeqId (conns ps c)"
    "\<not> bc_IsConnActive (conns ps' d)"
    "bc_input_closed (conns ps' c) = bc_input_closed (conns ps c)"
    "bc_IsMarkOffline (conns ps' c) = bc_IsMarkOffline (conns ps c)" "next_req ps' = next_req ps"
  using MarkConnActiveFalse_frame_all [OF assms, of c] by simp_all

lemma conn_inv_MarkConnActiveFalse:
  "BackendConn_MarkConnActiveFalse d ps = Ret ps' \<Longrightarrow> conn_inv c ps' = conn_inv c ps"
  by (intro conn_inv_cong) (simp_all add: MarkConnActiveFalse_frame)

subsection \<open>Queueing\<close>

lemma PushBack_spec:
  assumes inv: "conn_inv c ps" and new: "rid \<notin> bc_pending c ps" and w: "case Wait (reqs ps rid) of None \<Rightarrow> True | Some w \<Rightarrow> w \<ge> 0"
    and ret: "BackendConn_PushBack c rid ps = Ret ps'"
  shows "conn_inv c ps' \<and> bc_pending c ps' = insert rid (bc_pending c ps)
    \<and> bc_input (conns ps' c) = bc_input (conns ps c) @ [rid] \<and> reqs ps' = (reqs ps)(rid := wait_add (reqs ps rid))"
proof -
  have p: "\<not> bc_input_closed (conns ps c)" "length (bc_input (conns ps c)) < CHAN_CAP"
    and ps': "ps' = upd_conn c (\<lambda>b. b\<lparr>bc_input := bc_input b @ [rid]\<rparr>) (set_req rid (wait_add (reqs ps rid)) ps)"
    using ret by (auto simp: BackendConn_PushBack_def Let_def split: if_splits)
  have "awaited (wait_add (reqs ps rid))"
    using w by (cases "Wait (reqs ps rid)") (auto simp: awaited_def wait_add_def)
  from pend_push [OF inv [unfolded conn_inv_def] new [unfolded bc_pending_def] p(2) this refl]
  show ?thesis by (simp add: ps' conn_inv_def bc_pending_def)
qed

subsection \<open>Responses\<close>

lemma setResponse_error:
  assumes "awaited (reqs ps rid)"
  shows "BackendConn_setResponse T now c (Some rid) None (Some e) ps =
    Ret (Some e, set_req rid (completed (reqs ps rid) None (Some e)) ps)"
  using finish_request_error [OF assms, of T "pmem ps" e]
  by (simp add: BackendConn_setResponse_def finish_in_def set_req_def)

lemma setResponse_decode_error:
  assumes "DecodeThriftTypIdSeqId T (pmem ps) d = (ty, k, Some e)"
  shows "BackendConn_setResponse T now c r (Some d) err ps = Ret (Some e, ps)"
  using assms by (simp add: BackendConn_setResponse_def)

lemma setResponse_decoded:
  assumes "thrift_ok T" and "msg_ok n ty" and "slice_bytes (pmem ps) d = msg_header T n ty k @ payload"
  shows "DecodeThriftTypIdSeqId T (pmem ps) d = (ty, k, None)"
  using assms by (simp add: DecodeThriftTypIdSeqId_def)

lemma setResponse_heartbeat:
  assumes "DecodeThriftTypIdSeqId T (pmem ps) d = (MESSAGE_TYPE_HEART_BEAT, k, None)"
  shows "BackendConn_setResponse T now c r (Some d) err ps =
    Ret (None, upd_conn c (\<lambda>b. b\<lparr>bc_seqNum2Request := (bc_seqNum2Request b)(k := None),
      bc_hbLastTime := now\<rparr>) ps)"
  using assms by (simp add: BackendConn_setResponse_def bc_take_def upd_conn_def)

lemma setResponse_unknown:
  assumes "DecodeThriftTypIdSeqId T (pmem ps) d = (ty, k, None)" and "ty \<noteq> MESSAGE_TYPE_HEART_BEAT"
    and "bc_seqNum2Request (conns ps c) k = None"
  shows "BackendConn_setResponse T now c r (Some d) err ps =
    Ret (Some (ErrorString ''Invalid Response''), upd_conn c (\<lambda>_. snd (bc_take (conns ps c) k)) ps)"
  using assms by (simp add: BackendConn_setResponse_def bc_take_def)

lemma setResponse_reply:
  assumes T: "thrift_ok T" and inv: "conn_inv c ps" and ok: "slice_ok (pmem ps) d"
    and bytes: "slice_bytes (pmem ps) d = msg_header T n ty k @ payload"
    and msg: "msg_ok n ty" "ty \<noteq> MESSAGE_TYPE_HEART_BEAT"
    and tab: "bc_seqNum2Request (conns ps c) k = Some rid"
    and name: "length n = length (ReqName (reqs ps rid))"
  shows "\<exists>ps'. BackendConn_setResponse T now c None (Some d) None ps = Ret (None, ps')
    \<and> reqs ps' = (reqs ps)(rid := completed ((reqs ps rid)\<lparr>RespTypeId := ty\<rparr>) (Some d) None)
    \<and> slice_bytes (pmem ps') d = msg_header T (ReqName (reqs ps rid)) ty (ReqSeqId (reqs ps rid)) @ payload
    \<and> slice_ok (pmem ps') d \<and> conns ps' = (conns ps)(c := snd (bc_take (conns ps c) k))"
proof -
  let ?r = "(reqs ps rid)\<lparr>RespTypeId := ty\<rparr>"
  let ?ps = "set_req rid ?r (upd_conn c (\<lambda>_. snd (bc_take (conns ps c) k)) ps)"
  have aw: "awaited ?r"
    using conn_invD(8) [OF inv, of rid] tab by (auto simp: ran_def)
  obtain m' where f: "finish_in T rid (Some d) None ?ps =
      Ret (None, (set_req rid (completed ?r (Some d) None) ?ps)\<lparr>pmem := m'\<rparr>)"
    and m': "slice_bytes m' d = msg_header T (ReqName ?r) ty (ReqSeqId ?r) @ payload" "slice_ok m' d"
    using finish_in_reply [OF T, of ?ps rid d n k payload] aw ok bytes msg name by auto
  have "BackendConn_setResponse T now c None (Some d) None ps = finish_in T rid (Some d) None ?ps"
    using setResponse_decoded [OF T msg(1) bytes] msg(2) tab
    by (simp add: BackendConn_setResponse_def bc_take_def)
  then show ?thesis using f m' by auto
qed

lemma conn_inv_taken:
  assumes inv: "conn_inv c ps" and tab: "bc_seqNum2Request (conns ps c) k = Some rid"
    and ps': "reqs ps' = (reqs ps)(rid := r)" "conns ps' = (conns ps)(c := snd (bc_take (conns ps c) k))"
  shows "conn_inv c ps' \<and> bc_pending c ps' = bc_pending c ps - {rid}"
  using pend_taken [OF inv [unfolded conn_inv_def] tab ps'(1)] ps'(2)
  by (simp add: conn_inv_def bc_pending_def)

subsection \<open>Flushing\<close>

lemma flushRequests_spec:
  assumes inv: "conn_inv c ps" and mark: "BackendConn_MarkConnActiveFalse c ps = Ret ps1"
    and ks: "map_order (bc_seqNum2Request (conns ps c)) ks"
  shows "\<exists>ps'. BackendConn_flushRequests c err ks ps = Ret ps'
    \<and> bc_seqNum2Request (conns ps' c) = Map.empty \<and> \<not> bc_IsConnActive (conns ps' c)
    \<and> bc_input (conns ps' c) = bc_input (conns ps c)
    \<and> bc_currentSeqId (conns ps' c) = bc_currentSeqId (conns ps c) \<and> next_req ps' = next_req ps
    \<and> reqs ps' = (\<lambda>rid. if rid \<in> ran (bc_seqNum2Request (conns ps c))
        then (reqs ps rid)\<lparr>RespErr := Some err, Wait := map_option (\<lambda>w. w - 1) (Wait (reqs ps rid))\<rparr>
        else reqs ps rid)"
proof -
  let ?m = "bc_seqNum2Request (conns ps c)"
  note fr = MarkConnActiveFalse_frame [OF mark]
  have rng: "set (List.map_filter ?m ks) = ran ?m" "distinct (List.map_filter ?m ks)"
    "\<forall>rid \<in> set (List.map_filter ?m ks). awaited (reqs ps rid)"
    using pend_order [OF inv [unfolded conn_inv_def] ks] by auto
  from fail_requests_spec [OF rng(2,3), of err] show ?thesis
    using mark fr(1,3-6,9) rng(1) by (simp add: BackendConn_flushRequests_def)
qed

lemma conn_inv_flushed:
  assumes inv: "conn_inv c ps" and ps': "bc_seqNum2Request (conns ps' c) = Map.empty"
    "bc_input (conns ps' c) = bc_input (conns ps c)"
    "bc_currentSeqId (conns ps' c) = bc_currentSeqId (conns ps c)"
    "\<And>rid. rid \<notin> ran (bc_seqNum2Request (conns ps c)) \<Longrightarrow> reqs ps' rid = reqs ps rid"
  shows "conn_inv c ps' \<and> bc_pending c ps' = set (bc_input (conns ps c))"
  using pend_flushed [OF inv [unfolded conn_inv_def] ps'(4)] ps'(1-3)
  by (simp add: conn_inv_def bc_pending_def)

subsection \<open>The writer\<close>

text \<open>Taking the head of the queue, and what becomes of it.\<close>

lemma turn_closed:
  assumes "bc_input (conns ps c) = []" and "bc_input_closed (conns ps c)"
  shows "BackendConn_loopWriter_turn T net now nano c p ps = Ret (Return None, p, ps)"
  using assms by (simp add: BackendConn_loopWriter_turn_def)

lemma turn_expired:
  assumes "bc_input (conns ps c) = rid # rest" and "ReqTypeId (reqs ps rid) = MESSAGE_TYPE_HEART_BEAT"
    and "now - Start (reqs ps rid) > 4"
  shows "BackendConn_loopWriter_turn T net now nano c p ps =
    Ret (Continue, p, upd_conn c (\<lambda>b. b\<lparr>bc_input := rest\<rparr>) ps)"
  using assms by (simp add: BackendConn_loopWriter_turn_def)

lemma turn_sent:
  assumes T: "thrift_ok T" and inp: "bc_input (conns ps c) = rid # rest"
    and fresh: "\<not> (ReqTypeId (reqs ps rid) = MESSAGE_TYPE_HEART_BEAT \<and> now - Start (reqs ps rid) > 4)"
    and s: "sendable (pmem ps) (reqs ps rid) payload"
    and fl: "send_frame T net nano (rest = []) (msg_header T (ReqName (reqs ps rid))
        (ReqTypeId (reqs ps rid)) (bc_currentSeqId (conns ps c)) @ payload) p = (None, p')"
  shows "\<exists>ps' d orig. BackendConn_loopWriter_turn T net now nano c p ps = Ret (Continue, p', ps')
    \<and> conns ps' = (conns ps)(c := bc_store (bc_currentSeqId (conns ps c)) rid
        ((conns ps c)\<lparr>bc_input := rest\<rparr>))
    \<and> reqs ps' = (reqs ps)(rid := (reqs ps rid)\<lparr>RespSeqId := bc_currentSeqId (conns ps c),
        ReqDataOrig := orig, ReqData := Some d\<rparr>) \<and> svcs ps' = svcs ps"
proof -
  let ?ps0 = "upd_conn c (\<lambda>b. b\<lparr>bc_input := rest\<rparr>) ps" and ?k = "bc_currentSeqId (conns ps c)"
  have s': "sendable (pmem ?ps0) (reqs ?ps0 rid) payload" using s by simp
  obtain d m' orig where w: "write_request T net nano ?k (rest = []) rid p ?ps0 =
      Ret (None, p', (set_req rid ((reqs ps rid)\<lparr>RespSeqId := ?k, ReqDataOrig := orig,
        ReqData := Some d\<rparr>) ?ps0)\<lparr>pmem := m'\<rparr>)"
    using write_request_spec [OF T s', of net nano ?k "rest = []" p] fl by auto
  let ?r = "(reqs ps rid)\<lparr>RespSeqId := ?k, ReqDataOrig := orig, ReqData := Some d\<rparr>"
  let ?ps1 = "BackendConn_register c rid ((set_req rid ?r ?ps0)\<lparr>pmem := m'\<rparr>)"
  have "BackendConn_loopWriter_turn T net now nano c p ps = Ret (Continue, p', ?ps1)"
    using inp fresh w by (auto simp: BackendConn_loopWriter_turn_def BackendConn_send_def)
  moreover have "conns ?ps1 = (conns ps)(c := bc_store ?k rid ((conns ps c)\<lparr>bc_input := rest\<rparr>))"
    "reqs ?ps1 = (reqs ps)(rid := ?r)" "svcs ?ps1 = svcs ps"
    by (simp_all add: BackendConn_register_def)
  ultimately show ?thesis by blast
qed

lemma turn_failed:
  assumes T: "thrift_ok T" and inv: "conn_inv c ps" and inp: "bc_input (conns ps c) = rid # rest"
    and fresh: "\<not> (ReqTypeId (reqs ps rid) = MESSAGE_TYPE_HEART_BEAT \<and> now - Start (reqs ps rid) > 4)"
    and s: "sendable (pmem ps) (reqs ps rid) payload"
    and fl: "send_frame T net nano (rest = []) (msg_header T (ReqName (reqs ps rid))
        (ReqTypeId (reqs ps rid)) (bc_currentSeqId (conns ps c)) @ payload) p = (Some e, p')"
  shows "\<exists>ps' r. BackendConn_loopWriter_turn T net now nano c p ps = Ret (Return (Some e), p', ps')
    \<and> conns ps' = (conns ps)(c := (conns ps c)\<lparr>bc_input := rest\<rparr>) \<and> svcs ps' = svcs ps
    \<and> reqs ps' = (reqs ps)(rid := completed r None (Some e))
    \<and> Wait r = Wait (reqs ps rid)"
proof -
  let ?ps0 = "upd_conn c (\<lambda>b. b\<lparr>bc_input := rest\<rparr>) ps" and ?k = "bc_currentSeqId (conns ps c)"
  have s': "sendable (pmem ?ps0) (reqs ?ps0 rid) payload" using s by simp
  obtain d m' orig where w: "write_request T net nano ?k (rest = []) rid p ?ps0 =
      Ret (Some e, p', (set_req rid ((reqs ps rid)\<lparr>RespSeqId := ?k, ReqDataOrig := orig,
        ReqData := Some d\<rparr>) ?ps0)\<lparr>pmem := m'\<rparr>)"
    using write_request_spec [OF T s', of net nano ?k "rest = []" p] fl by auto
  have "awaited (reqs ps rid)"
    using conn_invD(9) [OF inv, of rid] inp by simp
  moreover define r where "r = (reqs ps rid)\<lparr>RespSeqId := ?k, ReqDataOrig := orig, ReqData := Some d\<rparr>"
  ultimately have a: "awaited r" and wt: "Wait r = Wait (reqs ps rid)" by simp_all
  define ps1 where "ps1 = (set_req rid r ?ps0)\<lparr>pmem := m'\<rparr>"
  have ps1: "reqs ps1 = (reqs ps)(rid := r)" "svcs ps1 = svcs ps"
    "conns ps1 = (conns ps)(c := (conns ps c)\<lparr>bc_input := rest\<rparr>)"
    by (simp_all add: ps1_def)
  have "BackendConn_loopWriter_turn T net now nano c p ps =
      Ret (Return (Some e), p', set_req rid (completed r None (Some e)) ps1)"
    using inp fresh w a setResponse_error [of ps1 rid T now c e] ps1(1)
    by (auto simp: BackendConn_loopWriter_turn_def BackendConn_send_def r_def ps1_def)
  then show ?thesis using ps1 wt by auto
qed

text \<open>The invariant over a turn.\<close>

lemma conn_inv_sent:
  assumes inv: "conn_inv c ps" and inp: "bc_input (conns ps c) = rid # rest"
    and k: "k = bc_currentSeqId (conns ps c)"
    and ps': "conns ps' = (conns ps)(c := bc_store k rid ((conns ps c)\<lparr>bc_input := rest\<rparr>))"
      "reqs ps' = (reqs ps)(rid := (reqs ps rid)\<lparr>RespSeqId := k, ReqDataOrig := orig, ReqData := dat\<rparr>)"
  shows "conn_inv c ps' \<and> bc_pending c ps' =
    (case bc_seqNum2Request (conns ps c) k of None \<Rightarrow> bc_pending c ps | Some q \<Rightarrow> bc_pending c ps - {q})"
proof -
  have "awaited (reqs ps rid)" using conn_invD(9) [OF inv, of rid] inp by simp
  then show ?thesis
    using pend_sent [of k "bc_seqNum2Request (conns ps c)" rid rest "reqs ps" "reqs ps'"] inv inp k ps'
    by (simp add: conn_inv_def bc_pending_def split: option.splits)
qed

lemma conn_inv_dequeued:
  assumes inv: "conn_inv c ps" and inp: "bc_input (conns ps c) = rid # rest"
    and ps': "bc_input (conns ps' c) = rest"
      "bc_seqNum2Request (conns ps' c) = bc_seqNum2Request (conns ps c)"
      "bc_currentSeqId (conns ps' c) = bc_currentSeqId (conns ps c)"
      "\<And>q. q \<noteq> rid \<Longrightarrow> reqs ps' q = reqs ps q"
  shows "conn_inv c ps' \<and> bc_pending c ps' = bc_pending c ps - {rid}"
  using pend_dequeued [OF _ ps'(4)] inv inp ps'(1-3) by (simp add: conn_inv_def bc_pending_def)

text \<open>The drain after a failed writer completes every queued request with the error.\<close>

lemma drain_spec:
  assumes "conn_inv c ps" and "n = length (bc_input (conns ps c))"
  shows "\<exists>ps'. BackendConn_drain T now c e n ps = Ret ps' \<and> bc_input (conns ps' c) = []
    \<and> conn_inv c ps' \<and> bc_pending c ps' = bc_pending c ps - set (bc_input (conns ps c))
    \<and> reqs ps' = (\<lambda>q. if q \<in> set (bc_input (conns ps c)) then completed (reqs ps q) None (Some e) else reqs ps q)
    \<and> svcs ps' = svcs ps \<and> (\<forall>d. d \<noteq> c \<longrightarrow> conns ps' d = conns ps d) \<and> next_req ps' = next_req ps
    \<and> bc_currentSeqId (conns ps' c) = bc_currentSeqId (conns ps c)"
  using assms
proof (induction n arbitrary: ps)
  case 0
  then show ?case by simp
next
  case (Suc n)
  then obtain rid rest where inp: "bc_input (conns ps c) = rid # rest"
    by (cases "bc_input (conns ps c)") auto
  let ?ps0 = "upd_conn c (\<lambda>b. b\<lparr>bc_input := rest\<rparr>) ps"
  let ?ps1 = "set_req rid (completed (reqs ps rid) None (Some e)) ?ps0"
  have "awaited (reqs ps rid)"
    using conn_invD(9) [OF Suc.prems(1), of rid] inp by simp
  then have sr: "BackendConn_setResponse T now c (Some rid) None (Some e) ?ps0 = Ret (Some e, ?ps1)"
    using setResponse_error [of ?ps0 rid] by simp
  have inv1: "conn_inv c ?ps1 \<and> bc_pending c ?ps1 = bc_pending c ps - {rid}"
    by (rule conn_inv_dequeued [OF Suc.prems(1) inp]) simp_all
  have n: "n = length (bc_input (conns ?ps1 c))" using Suc.prems(2) inp by simp
  have nrid: "rid \<notin> set rest" using conn_invD(5) [OF Suc.prems(1)] inp by simp
  from Suc.IH [OF _ n] inv1 obtain ps' where ps': "BackendConn_drain T now c e n ?ps1 = Ret ps'"
    "bc_input (conns ps' c) = []" "conn_inv c ps'" "bc_pending c ps' = bc_pending c ?ps1 - set rest"
    "reqs ps' = (\<lambda>q. if q \<in> set rest then completed (reqs ?ps1 q) None (Some e) else reqs ?ps1 q)"
    "svcs ps' = svcs ps" "\<forall>d. d \<noteq> c \<longrightarrow> conns ps' d = conns ps d" "next_req ps' = next_req ps"
    "bc_currentSeqId (conns ps' c) = bc_currentSeqId (conns ps c)"
    by auto
  have "reqs ps' = (\<lambda>q. if q \<in> set (bc_input (conns ps c)) then completed (reqs ps q) None (Some e) else reqs ps q)"
    using ps'(5) inp nrid by (auto simp: fun_eq_iff)
  moreover have "bc_pending c ps' = bc_pending c ps - set (bc_input (conns ps c))"
    using ps'(4) inv1 inp by auto
  ultimately show ?case
    using ps'(1-3,6-9) inp sr by auto
qed

subsection \<open>Reconnecting\<close>

text \<open>The loop ends as soon as an \<open>Open\<close> succeeds or the connection is marked offline.\<close>

fun backoff :: "nat \<Rightarrow> nat \<Rightarrow> nat list" where
  "backoff 0 s = []"
| "backoff (Suc n) s = s # backoff n (if s < 4 then s * 2 else s)"

lemma ensureConn_loop_stops:
  assumes "\<And>j. j < n \<Longrightarrow> opens (k + j) \<noteq> None \<and> \<not> offline (k + j)"
    and "opens (k + n) = None \<or> offline (k + n)"
  shows "ensureConn_loop opens offline k s sl = Some (opens (k + n), sl @ backoff n s)"
  using assms
proof (induction n arbitrary: k s sl)
  case 0
  then show ?case by (subst ensureConn_loop.simps) auto
next
  case (Suc n)
  have step: "opens k \<noteq> None \<and> \<not> offline k" using Suc.prems(1) [of 0] by simp
  have "ensureConn_loop opens offline (Suc k) (if s < 4 then s * 2 else s) (sl @ [s]) =
      Some (opens (Suc k + n), (sl @ [s]) @ backoff n (if s < 4 then s * 2 else s))"
    using Suc.prems(1) [of "Suc _"] Suc.prems(2) by (intro Suc.IH) auto
  then show ?case using step by (subst ensureConn_loop.simps) simp
qed

lemma backoff_4: "backoff n 4 = replicate n 4"
  by (induction n) simp_all

lemma backoff_1: "backoff n 1 = take n [1, 2] @ replicate (n - 2) 4"
proof (cases "n < 2")
  case True
  then show ?thesis by (cases n) (auto simp: numeral_2_eq_2)
next
  case False
  then obtain k where "n = Suc (Suc k)" by (metis add_2_eq_Suc le_Suc_ex not_less)
  then show ?thesis by (simp add: backoff_4)
qed

text \<open>
  \<open>ensureConn\<close> returns at the first attempt that succeeds or after which the connection is
  marked offline, with the result of that attempt, and has slept 1, 2 and then always 4 seconds
  between the attempts. It is the loop that brings a connection up again.
\<close>

lemma ensureConn_backoff:
  assumes "(if strings_Contains addr '':'' then newTSocket addr else newTUnixDomain addr) = None"
    and "\<forall>j < n. opens j \<noteq> None \<and> \<not> offline j" and "opens n = None \<or> offline n"
  shows "BackendConn_ensureConn newTSocket newTUnixDomain addr opens offline =
    Some (opens n, take n [1, 2] @ replicate (n - 2) 4)"
  using ensureConn_loop_stops [of n opens 0 offline 1 "[]"] assms
  unfolding BackendConn_ensureConn_def backoff_1 [symmetric] by simp

lemma ensureConn_backoff_witness:
  "BackendConn_ensureConn (\<lambda>_. None) (\<lambda>_. Some IoEOF) ''host:9090''
      (\<lambda>k. if k < 5 then Some IoEOF else None) (\<lambda>_. False) = Some (None, [1, 2, 4, 4, 4])"
  using ensureConn_backoff [of "''host:9090''" "\<lambda>_. None" "\<lambda>_. Some IoEOF" 5
      "\<lambda>k. if k < 5 then Some IoEOF else None" "\<lambda>_. False"]
  by (simp add: Contains_char eval_nat_numeral)

end
