(* ===== verification/Back_Service.thy ===== *)
theory Back_Service
  imports Backend_Conn_Correct
begin

text \<open>
  \<open>proxy/backend_service_proxy.go\<close>: the proxy's view of one service, an array of active
  connections with a round-robin cursor and the connections by address, kept in step with the
  endpoints found in zookeeper. The theory interprets \<open>conn_pool\<close> on it, states the
  invariant of a service and proves it of every operation.
\<close>

definition TEST_PRODUCT_NAME :: string where
  "TEST_PRODUCT_NAME = ''test''"

definition EVTBUS_CAP :: nat where
  "EVTBUS_CAP = 2"

text \<open>The number of events waiting in the channel stands for \<open>evtbus\<close>; their values are not used.\<close>

definition NewBackService :: "string \<Rightarrow> string \<Rightarrow> bool \<Rightarrow> pstate \<Rightarrow> nat \<times> pstate" where
  "NewBackService product service verbose ps =
     (next_svc ps,
      ps\<lparr>svcs := (svcs ps)(next_svc ps :=
           \<lparr>productName = product, serviceName = service, activeConns = [], currentConnIndex = 0,
            addr2Conn = Map.empty, svc_verbose = verbose, svc_stop = False, lastRequestTime = 0,
            evtbus = 0\<rparr>),
         next_svc := Suc (next_svc ps)\<rparr>)"

definition BackService_Active :: "nat \<Rightarrow> pstate \<Rightarrow> nat" where
  "BackService_Active s ps = length (activeConns (svcs ps s))"

definition BackService_NextBackendConn :: "nat \<Rightarrow> pstate \<Rightarrow> nat option \<times> pstate" where
  "BackService_NextBackendConn s ps =
     (let v = svcs ps s in
      if length (activeConns v) = 0 then (None, ps)
      else let i = (if currentConnIndex v \<ge> length (activeConns v) then 0 else currentConnIndex v) in
           (Some (activeConns v ! i), upd_svc s (\<lambda>v. v\<lparr>currentConnIndex := i + 1\<rparr>) ps))"

definition BackService_HandleRequest :: "thrift_lib \<Rightarrow> int \<Rightarrow> nat \<Rightarrow> nat \<Rightarrow> pstate \<Rightarrow>
    (go_error option \<times> pstate) outcome" where
  "BackService_HandleRequest T now s rid ps =
     (let (backendConn, ps1) = BackService_NextBackendConn s ps;
          ps2 = upd_svc s (\<lambda>v. v\<lparr>lastRequestTime := now\<rparr>) ps1 in
      case backendConn of
        None \<Rightarrow>
          let (errMsg, r, m) = GetWorkerNotFoundData T (pmem ps2) (reqs ps2 rid) ''BackService'' in
          Ret (None, (set_req rid (r\<lparr>RespData := Some errMsg\<rparr>) ps2)\<lparr>pmem := m\<rparr>)
      | Some c \<Rightarrow> obind (BackendConn_PushBack c rid ps2) (\<lambda>ps3. Ret (None, ps3)))"

subsection \<open>Following zookeeper\<close>

text \<open>
  \<open>lookup\<close> is the result of \<open>GetServiceEndpoint\<close> for a service id: its frontend address, or
  an error, after which the id is skipped.
\<close>

fun addressMap_of :: "string \<Rightarrow> (string \<Rightarrow> go_error + string) \<Rightarrow> string list \<Rightarrow> string set" where
  "addressMap_of product lookup [] = {}"
| "addressMap_of product lookup (serviceId # ids) =
     (case lookup serviceId of
        Inl e \<Rightarrow> addressMap_of product lookup ids
      | Inr frontend \<Rightarrow>
          if strings_Contains frontend '':'' \<or> product = TEST_PRODUCT_NAME
          then insert frontend (addressMap_of product lookup ids)
          else addressMap_of product lookup ids)"

fun connect_new :: "nat \<Rightarrow> string list \<Rightarrow> pstate \<Rightarrow> pstate" where
  "connect_new s [] ps = ps"
| "connect_new s (addr # addrs) ps =
     (case addr2Conn (svcs ps s) addr of
        Some c \<Rightarrow>
          if \<not> bc_IsMarkOffline (conns ps c) then connect_new s addrs ps
          else let (n, ps1) = NewBackendConn addr (Some s) (serviceName (svcs ps s)) (svc_verbose (svcs ps s)) ps in
               connect_new s addrs (upd_svc s (\<lambda>v. v\<lparr>addr2Conn := (addr2Conn v)(addr \<mapsto> n)\<rparr>) ps1)
      | None \<Rightarrow>
          let (n, ps1) = NewBackendConn addr (Some s) (serviceName (svcs ps s)) (svc_verbose (svcs ps s)) ps in
          connect_new s addrs (upd_svc s (\<lambda>v. v\<lparr>addr2Conn := (addr2Conn v)(addr \<mapsto> n)\<rparr>) ps1))"

fun drop_old :: "nat \<Rightarrow> string set \<Rightarrow> string list \<Rightarrow> pstate \<Rightarrow> pstate outcome" where
  "drop_old s addressMap [] ps = Ret ps"
| "drop_old s addressMap (addr # addrs) ps =
     (if addr \<in> addressMap then drop_old s addressMap addrs ps
      else case addr2Conn (svcs ps s) addr of
             None \<Rightarrow> drop_old s addressMap addrs ps
           | Some c \<Rightarrow>
               obind (BackendConn_MarkOffline c ps) (\<lambda>ps1.
               drop_old s addressMap addrs
                 (upd_svc s (\<lambda>v. v\<lparr>addr2Conn := (addr2Conn v)(addr := None)\<rparr>) ps1)))"

text \<open>
  One round of the goroutine of \<open>WatchBackServiceNodes\<close> after a successful read: \<open>adds\<close> is
  the order in which it visits the addresses found, \<open>olds\<close> that of \<open>addr2Conn\<close>.
\<close>

definition WatchBackServiceNodes_round :: "nat \<Rightarrow> string set \<Rightarrow> string list \<Rightarrow> string list \<Rightarrow>
    pstate \<Rightarrow> pstate outcome" where
  "WatchBackServiceNodes_round s addressMap adds olds ps =
     drop_old s addressMap olds (connect_new s adds ps)"

subsection \<open>Stopping\<close>

definition BackService_Stop :: "nat \<Rightarrow> pstate \<Rightarrow> pstate outcome" where
  "BackService_Stop s ps =
     (let ps1 = upd_svc s (\<lambda>v. v\<lparr>svc_stop := True\<rparr>) ps in
      if evtbus (svcs ps1 s) \<ge> EVTBUS_CAP then Block
      else Ret (upd_svc s (\<lambda>v. v\<lparr>evtbus := evtbus v + 1\<rparr>) ps1))"

text \<open>The goroutine of \<open>Stop\<close> waits until the service has been idle, then marks it offline.\<close>

definition Stop_idle :: "int \<Rightarrow> nat \<Rightarrow> pstate \<Rightarrow> bool" where
  "Stop_idle now s ps \<longleftrightarrow> now - lastRequestTime (svcs ps s) > 10"

partial_function (option) Stop_offline :: "nat \<Rightarrow> pstate \<Rightarrow> pstate outcome option" where
  "Stop_offline s ps =
     (case activeConns (svcs ps s) of
        [] \<Rightarrow> Some (Ret ps)
      | c # cs \<Rightarrow>
          (case BackendConn_MarkOffline c ps of
             Ret ps' \<Rightarrow> Stop_offline s ps'
           | Panic p \<Rightarrow> Some (Panic p)
           | Block \<Rightarrow> Some Block))"

subsection \<open>What \<open>StateChanged\<close> does\<close>

lemma StateChanged_add:
  assumes "bc_IsConnActive (conns ps c)" and "bc_Index (conns ps c) = INVALID_ARRAY_INDEX"
  shows "BackService_StateChanged s c ps =
    Ret (upd_svc s (\<lambda>v. v\<lparr>activeConns := activeConns (svcs ps s) @ [c]\<rparr>)
      (upd_conn c (\<lambda>b. b\<lparr>bc_Index := int (length (activeConns (svcs ps s)))\<rparr>) ps))"
  using assms by (simp add: BackService_StateChanged_def Let_def)

lemma StateChanged_remove:
  assumes na: "\<not> bc_IsConnActive (conns ps c)" and i: "i < length (activeConns (svcs ps s))"
    and idx: "bc_Index (conns ps c) = int i"
  shows "\<exists>ps'. BackService_StateChanged s c ps = Ret ps'
    \<and> svcs ps' = (svcs ps)(s := (svcs ps s)\<lparr>activeConns := swap_remove (activeConns (svcs ps s)) i\<rparr>)
    \<and> (\<forall>d. conns ps' d = (conns ps d)\<lparr>bc_Index := (if d = c then INVALID_ARRAY_INDEX
          else if d = last (activeConns (svcs ps s)) \<and> i \<noteq> length (activeConns (svcs ps s)) - 1 then int i
          else bc_Index (conns ps d))\<rparr>)
    \<and> next_conn ps' = next_conn ps \<and> next_svc ps' = next_svc ps"
proof -
  let ?a = "activeConns (svcs ps s)"
  obtain n where n: "length ?a = Suc n" using i by (cases ?a) auto
  then have "?a \<noteq> []" by auto
  then have la: "last ?a = ?a ! n" using n by (simp add: last_conv_nth)
  have inv: "int i \<noteq> INVALID_ARRAY_INDEX" by (simp add: INVALID_ARRAY_INDEX_def)
  show ?thesis
  proof (cases "i = n")
    case True
    then have "swap_remove ?a i = take n ?a"
      using n la by (simp add: swap_remove_def)
    then have "BackService_StateChanged s c ps = Ret (upd_svc s (\<lambda>v. v\<lparr>activeConns := swap_remove ?a i\<rparr>)
        (upd_conn c (\<lambda>b. b\<lparr>bc_Index := INVALID_ARRAY_INDEX\<rparr>) ps))"
      using True na idx inv n by (simp add: BackService_StateChanged_def Let_def)
    then show ?thesis using True n by auto
  next
    case False
    then have "swap_remove ?a i = take n (?a[i := ?a ! n])"
      using n la by (simp add: swap_remove_def)
    then have "BackService_StateChanged s c ps = Ret (upd_svc s (\<lambda>v. v\<lparr>activeConns := swap_remove ?a i\<rparr>)
        (upd_conn c (\<lambda>b. b\<lparr>bc_Index := INVALID_ARRAY_INDEX\<rparr>)
          (upd_conn (last ?a) (\<lambda>b. b\<lparr>bc_Index := int i\<rparr>) ps)))"
      using False na idx inv n i la by (simp add: BackService_StateChanged_def Let_def)
    then show ?thesis using False n by auto
  qed
qed

lemma MarkConnActiveOK_adds:
  assumes "bc_delegate (conns ps c) = Some s" and "bc_Index (conns ps c) = INVALID_ARRAY_INDEX"
  shows "BackendConn_MarkConnActiveOK c ps =
    Ret (upd_svc s (\<lambda>v. v\<lparr>activeConns := activeConns (svcs ps s) @ [c]\<rparr>)
      (upd_conn c (\<lambda>b. b\<lparr>bc_IsConnActive := True, bc_Index := int (length (activeConns (svcs ps s)))\<rparr>) ps))"
  using assms StateChanged_add [of "upd_conn c (\<lambda>b. b\<lparr>bc_IsConnActive := True\<rparr>) ps" c s]
  by (simp add: BackendConn_MarkConnActiveOK_def Let_def upd_defs)

lemma MarkConnActiveFalse_removes:
  assumes "bc_IsConnActive (conns ps c)" and "bc_delegate (conns ps c) = Some s"
    and "i < length (activeConns (svcs ps s))" and "bc_Index (conns ps c) = int i"
  shows "\<exists>ps'. BackendConn_MarkConnActiveFalse c ps = Ret ps'
    \<and> svcs ps' = (svcs ps)(s := (svcs ps s)\<lparr>activeConns := swap_remove (activeConns (svcs ps s)) i\<rparr>)
    \<and> conns ps' c = (conns ps c)\<lparr>bc_IsConnActive := False, bc_Index := INVALID_ARRAY_INDEX\<rparr>
    \<and> (\<forall>d. d \<noteq> c \<longrightarrow> conns ps' d = (conns ps d)\<lparr>bc_Index :=
          (if d = last (activeConns (svcs ps s)) \<and> i \<noteq> length (activeConns (svcs ps s)) - 1 then int i
           else bc_Index (conns ps d))\<rparr>)
    \<and> next_conn ps' = next_conn ps \<and> next_svc ps' = next_svc ps"
proof -
  let ?ps = "upd_conn c (\<lambda>b. b\<lparr>bc_IsConnActive := False\<rparr>) ps"
  obtain ps' where "BackService_StateChanged s c ?ps = Ret ps'"
    and "svcs ps' = (svcs ps)(s := (svcs ps s)\<lparr>activeConns := swap_remove (activeConns (svcs ps s)) i\<rparr>)"
    and d: "\<forall>d. conns ps' d = (conns ?ps d)\<lparr>bc_Index := (if d = c then INVALID_ARRAY_INDEX
          else if d = last (activeConns (svcs ps s)) \<and> i \<noteq> length (activeConns (svcs ps s)) - 1 then int i
          else bc_Index (conns ?ps d))\<rparr>"
    and "next_conn ps' = next_conn ps" "next_svc ps' = next_svc ps"
    using StateChanged_remove [of ?ps c i s] assms(3,4) by auto
  then show ?thesis
    using assms(1,2) d [rule_format, of c] d [rule_format]
    by (auto simp: BackendConn_MarkConnActiveFalse_def Let_def)
qed

subsection \<open>The pool\<close>

interpretation bs: conn_pool "\<lambda>ps. activeConns (svcs ps s)" "\<lambda>ps c. bc_Index (conns ps c)"
    "\<lambda>ps. currentConnIndex (svcs ps s)" "\<lambda>ps c. BackendConn_MarkConnActiveOK c ps"
    "\<lambda>ps c. BackendConn_MarkConnActiveFalse c ps" "BackService_NextBackendConn s"
    "\<lambda>ps c. bc_delegate (conns ps c) = Some s \<and> bc_Index (conns ps c) = INVALID_ARRAY_INDEX"
    "\<lambda>ps c. bc_delegate (conns ps c) = Some s \<and> bc_IsConnActive (conns ps c)" for s
proof unfold_locales
  fix ps :: pstate and c
  assume "bc_delegate (conns ps c) = Some s \<and> bc_Index (conns ps c) = INVALID_ARRAY_INDEX"
  then show "\<exists>ps'. BackendConn_MarkConnActiveOK c ps = Ret ps'
      \<and> activeConns (svcs ps' s) = activeConns (svcs ps s) @ [c]
      \<and> (\<lambda>d. bc_Index (conns ps' d)) = (\<lambda>d. bc_Index (conns ps d))(c := int (length (activeConns (svcs ps s))))"
    by (auto simp: MarkConnActiveOK_adds fun_eq_iff)
next
  fix ps :: pstate and c i
  assume "bc_delegate (conns ps c) = Some s \<and> bc_IsConnActive (conns ps c)"
    "i < length (activeConns (svcs ps s))" "activeConns (svcs ps s) ! i = c" "bc_Index (conns ps c) = int i"
  moreover from this have "c = last (activeConns (svcs ps s))" if "i = length (activeConns (svcs ps s)) - 1"
    using that by (cases "activeConns (svcs ps s)" rule: rev_cases) auto
  ultimately show "\<exists>ps'. BackendConn_MarkConnActiveFalse c ps = Ret ps'
      \<and> activeConns (svcs ps' s) = swap_remove (activeConns (svcs ps s)) i
      \<and> (\<forall>d. d \<noteq> c \<longrightarrow> bc_Index (conns ps' d) =
           (if d = last (activeConns (svcs ps s)) then int i else bc_Index (conns ps d)))"
    using MarkConnActiveFalse_removes [of ps c s i] by auto
qed (auto simp: BackService_NextBackendConn_def rr_start_def Let_def)

text \<open>The same contract for \<open>StateChanged\<close> alone, which both calls of the connection end in.\<close>

interpretation sc: conn_pool "\<lambda>ps. activeConns (svcs ps s)" "\<lambda>ps c. bc_Index (conns ps c)"
    "\<lambda>ps. currentConnIndex (svcs ps s)" "\<lambda>ps c. BackService_StateChanged s c ps"
    "\<lambda>ps c. BackService_StateChanged s c ps" "BackService_NextBackendConn s"
    "\<lambda>ps c. bc_IsConnActive (conns ps c) \<and> bc_Index (conns ps c) = INVALID_ARRAY_INDEX"
    "\<lambda>ps c. \<not> bc_IsConnActive (conns ps c)" for s
proof unfold_locales
  fix ps :: pstate and c
  assume "bc_IsConnActive (conns ps c) \<and> bc_Index (conns ps c) = INVALID_ARRAY_INDEX"
  then show "\<exists>ps'. BackService_StateChanged s c ps = Ret ps'
      \<and> activeConns (svcs ps' s) = activeConns (svcs ps s) @ [c]
      \<and> (\<lambda>d. bc_Index (conns ps' d)) = (\<lambda>d. bc_Index (conns ps d))(c := int (length (activeConns (svcs ps s))))"
    by (auto simp: StateChanged_add fun_eq_iff)
next
  fix ps :: pstate and c i
  assume "\<not> bc_IsConnActive (conns ps c)"
    "i < length (activeConns (svcs ps s))" "activeConns (svcs ps s) ! i = c" "bc_Index (conns ps c) = int i"
  moreover from this have "c = last (activeConns (svcs ps s))" if "i = length (activeConns (svcs ps s)) - 1"
    using that by (cases "activeConns (svcs ps s)" rule: rev_cases) auto
  ultimately show "\<exists>ps'. BackService_StateChanged s c ps = Ret ps'
      \<and> activeConns (svcs ps' s) = swap_remove (activeConns (svcs ps s)) i
      \<and> (\<forall>d. d \<noteq> c \<longrightarrow> bc_Index (conns ps' d) =
           (if d = last (activeConns (svcs ps s)) then int i else bc_Index (conns ps d)))"
    using StateChanged_remove [of ps c i s] by auto
qed (auto simp: BackService_NextBackendConn_def rr_start_def Let_def)

subsection \<open>Invariant of a service\<close>

text \<open>
  \<open>owns s ps c\<close>: connection \<open>c\<close> exists and reports to service \<open>s\<close>. Exactly the active
  ones of them are in the array, each at its own index; the others have the invalid index.
\<close>

definition owns :: "nat \<Rightarrow> pstate \<Rightarrow> nat \<Rightarrow> bool" where
  "owns s ps c \<longleftrightarrow> c < next_conn ps \<and> bc_delegate (conns ps c) = Some s"

definition pool_inv :: "nat \<Rightarrow> pstate \<Rightarrow> bool" where
  "pool_inv s ps \<longleftrightarrow> bs.indexed s ps \<and>
     (\<forall>c. c \<in> set (activeConns (svcs ps s)) \<longleftrightarrow> owns s ps c \<and> bc_IsConnActive (conns ps c)) \<and>
     (\<forall>c. owns s ps c \<and> c \<notin> set (activeConns (svcs ps s)) \<longrightarrow> bc_Index (conns ps c) = INVALID_ARRAY_INDEX) \<and>
     (\<forall>addr c. addr2Conn (svcs ps s) addr = Some c \<longrightarrow> owns s ps c \<and> bc_addr (conns ps c) = addr)"

text \<open>The input of a connection is closed when it has been marked offline, and only then.\<close>

definition chan_inv :: "pstate \<Rightarrow> bool" where
  "chan_inv ps \<longleftrightarrow> (\<forall>c < next_conn ps. bc_input_closed (conns ps c) = bc_IsMarkOffline (conns ps c))"

definition proc_inv :: "pstate \<Rightarrow> bool" where
  "proc_inv ps \<longleftrightarrow> (\<forall>s < next_svc ps. pool_inv s ps) \<and> chan_inv ps \<and>
     (\<forall>c < next_conn ps. \<forall>s. bc_delegate (conns ps c) = Some s \<longrightarrow> s < next_svc ps)"

lemma pool_inv_cong:
  assumes "activeConns (svcs ps' s) = activeConns (svcs ps s)" "addr2Conn (svcs ps' s) = addr2Conn (svcs ps s)"
    and own: "\<And>c. owns s ps' c = owns s ps c"
    and view: "\<And>c. owns s ps c \<Longrightarrow> bc_addr (conns ps' c) = bc_addr (conns ps c)
      \<and> bc_Index (conns ps' c) = bc_Index (conns ps c) \<and> bc_IsConnActive (conns ps' c) = bc_IsConnActive (conns ps c)"
    and inv: "pool_inv s ps"
  shows "pool_inv s ps'"
proof -
  have "bc_Index (conns ps' c) = bc_Index (conns ps c)" if "c \<in> set (activeConns (svcs ps s))" for c
    using that inv view by (simp add: pool_inv_def)
  moreover have "bs.indexed s ps" using inv by (simp add: pool_inv_def)
  ultimately have "bs.indexed s ps'"
    using assms(1) nth_mem by (simp add: bs.indexed_def)
  moreover have "c \<in> set (activeConns (svcs ps' s)) \<longleftrightarrow> owns s ps' c \<and> bc_IsConnActive (conns ps' c)" for c
    using inv view [of c] own [of c] assms(1) by (auto simp: pool_inv_def)
  moreover have "bc_Index (conns ps' c) = INVALID_ARRAY_INDEX"
    if "owns s ps' c" "c \<notin> set (activeConns (svcs ps' s))" for c
    using inv view [of c] own [of c] assms(1) that by (simp add: pool_inv_def)
  moreover have "owns s ps' c \<and> bc_addr (conns ps' c) = addr" if "addr2Conn (svcs ps' s) addr = Some c" for addr c
    using inv view [of c] own [of c] assms(2) that by (simp add: pool_inv_def)
  ultimately show ?thesis unfolding pool_inv_def by blast
qed

lemma pool_invD:
  assumes "pool_inv s ps"
  shows "bs.indexed s ps"
    and "c \<in> set (activeConns (svcs ps s)) \<Longrightarrow> owns s ps c"
    and "c \<in> set (activeConns (svcs ps s)) \<Longrightarrow> bc_IsConnActive (conns ps c)"
    and "owns s ps c \<Longrightarrow> bc_IsConnActive (conns ps c) \<Longrightarrow> c \<in> set (activeConns (svcs ps s))"
    and "owns s ps c \<Longrightarrow> \<not> bc_IsConnActive (conns ps c) \<Longrightarrow> bc_Index (conns ps c) = INVALID_ARRAY_INDEX"
    and "addr2Conn (svcs ps s) addr = Some c \<Longrightarrow> owns s ps c \<and> bc_addr (conns ps c) = addr"
  using assms by (auto simp: pool_inv_def)

lemma pool_inv_position:
  assumes "pool_inv s ps" and "owns s ps c" and "bc_IsConnActive (conns ps c)"
  shows "\<exists>i < length (activeConns (svcs ps s)). activeConns (svcs ps s) ! i = c \<and> bc_Index (conns ps c) = int i"
  using pool_invD(4) [OF assms] pool_invD(1) [OF assms(1)]
  by (auto simp: in_set_conv_nth bs.indexed_def)

lemma MarkConnActiveFalse_pool:
  assumes inv: "pool_inv s ps" and own: "owns s ps c"
  shows "\<exists>ps'. BackendConn_MarkConnActiveFalse c ps = Ret ps' \<and> pool_inv s ps'
    \<and> set (activeConns (svcs ps' s)) = set (activeConns (svcs ps s)) - {c}
    \<and> (\<forall>s'. s' \<noteq> s \<longrightarrow> svcs ps' s' = svcs ps s') \<and> addr2Conn (svcs ps' s) = addr2Conn (svcs ps s)
    \<and> (\<forall>d. \<not> owns s ps d \<longrightarrow> conns ps' d = conns ps d)
    \<and> (\<forall>d. bc_addr (conns ps' d) = bc_addr (conns ps d) \<and> bc_delegate (conns ps' d) = bc_delegate (conns ps d))
    \<and> next_conn ps' = next_conn ps \<and> next_svc ps' = next_svc ps"
proof (cases "bc_IsConnActive (conns ps c)")
  case False
  then have "c \<notin> set (activeConns (svcs ps s))" using pool_invD(3) [OF inv] by blast
  then show ?thesis using False inv by (simp add: BackendConn_MarkConnActiveFalse_def)
next
  case True
  let ?a = "activeConns (svcs ps s)"
  have dlg: "bc_delegate (conns ps c) = Some s" using own by (simp add: owns_def)
  obtain i where i: "i < length ?a" "?a ! i = c" "bc_Index (conns ps c) = int i"
    using pool_inv_position [OF inv own True] by blast
  obtain ps' where ret: "BackendConn_MarkConnActiveFalse c ps = Ret ps'"
    and sv: "svcs ps' = (svcs ps)(s := (svcs ps s)\<lparr>activeConns := swap_remove ?a i\<rparr>)"
    and cc: "conns ps' c = (conns ps c)\<lparr>bc_IsConnActive := False, bc_Index := INVALID_ARRAY_INDEX\<rparr>"
    and cd: "\<And>d. d \<noteq> c \<Longrightarrow> conns ps' d = (conns ps d)\<lparr>bc_Index :=
      (if d = last ?a \<and> i \<noteq> length ?a - 1 then int i else bc_Index (conns ps d))\<rparr>"
    and nx: "next_conn ps' = next_conn ps" "next_svc ps' = next_svc ps"
    using MarkConnActiveFalse_removes [OF True dlg i(1,3)] by auto
  have "last ?a \<in> set ?a" using i(1) by (cases ?a) auto
  then have la: "owns s ps (last ?a)" by (rule pool_invD(2) [OF inv])
  have ix: "bs.indexed s ps'" and st: "set (activeConns (svcs ps' s)) = set ?a - {c}"
    using bs.indexed_remove [OF pool_invD(1) [OF inv] _ _ ret] dlg True i nth_mem by auto
  have same: "bc_addr (conns ps' d) = bc_addr (conns ps d) \<and> bc_delegate (conns ps' d) = bc_delegate (conns ps d)" for d
    using cc cd [of d] by (cases "d = c") auto
  then have ow: "owns s ps' d = owns s ps d" for d by (simp add: owns_def nx)
  have act: "bc_IsConnActive (conns ps' d) = (d \<noteq> c \<and> bc_IsConnActive (conns ps d))" for d
    using cc cd [of d] by (cases "d = c") auto
  have "bc_Index (conns ps' d) = INVALID_ARRAY_INDEX" if "owns s ps d" "d \<notin> set (activeConns (svcs ps' s))" for d
  proof (cases "d = c")
    case False
    then have "d \<notin> set ?a" using that(2) st by simp
    moreover from this have "d \<noteq> last ?a" using \<open>last ?a \<in> set ?a\<close> by auto
    ultimately show ?thesis using cd [OF False] that(1) inv by (simp add: pool_inv_def)
  qed (simp add: cc)
  moreover have "d \<in> set (activeConns (svcs ps' s)) \<longleftrightarrow> owns s ps' d \<and> bc_IsConnActive (conns ps' d)" for d
    using inv st act ow by (auto simp: pool_inv_def)
  ultimately have pi: "pool_inv s ps'"
    using inv ix ow same sv unfolding pool_inv_def by simp
  have "conns ps' d = conns ps d" if "\<not> owns s ps d" for d
    using that cd [of d] la own by (cases "d = last ?a") auto
  then show ?thesis using ret pi st sv same nx by simp
qed

lemma MarkConnActiveOK_pool:
  assumes inv: "pool_inv s ps" and own: "owns s ps c"
  shows "\<exists>ps'. BackendConn_MarkConnActiveOK c ps = Ret ps' \<and> pool_inv s ps'
    \<and> set (activeConns (svcs ps' s)) = insert c (set (activeConns (svcs ps s)))
    \<and> (\<forall>s'. s' \<noteq> s \<longrightarrow> svcs ps' s' = svcs ps s')
    \<and> (\<forall>d. d \<noteq> c \<longrightarrow> conns ps' d = conns ps d)
    \<and> (\<exists>i. conns ps' c = (conns ps c)\<lparr>bc_IsConnActive := True, bc_Index := i\<rparr>)
    \<and> next_conn ps' = next_conn ps \<and> next_svc ps' = next_svc ps"
proof (cases "bc_IsConnActive (conns ps c)")
  case True
  let ?ps = "upd_conn c (\<lambda>b. b\<lparr>bc_IsConnActive := True\<rparr>) ps"
  obtain i where i: "bc_Index (conns ps c) = int i"
    using pool_inv_position [OF inv own True] by blast
  have mem: "c \<in> set (activeConns (svcs ps s))" by (rule pool_invD(4) [OF inv own True])
  have same: "conns ?ps = conns ps" using True by (simp add: fun_eq_iff)
  have "BackendConn_MarkConnActiveOK c ps = Ret ?ps"
    using i own by (simp add: BackendConn_MarkConnActiveOK_def BackService_StateChanged_def owns_def
        INVALID_ARRAY_INDEX_def)
  moreover have "pool_inv s ?ps"
    by (rule pool_inv_cong [OF _ _ _ _ inv]) (use same in \<open>auto simp: owns_def\<close>)
  moreover have "\<exists>i. conns ?ps c = (conns ps c)\<lparr>bc_IsConnActive := True, bc_Index := i\<rparr>"
    by (rule exI [of _ "bc_Index (conns ps c)"]) simp
  ultimately show ?thesis using mem by (intro exI [of _ ?ps]) (simp add: insert_absorb)
next
  case False
  let ?a = "activeConns (svcs ps s)"
  have dlg: "bc_delegate (conns ps c) = Some s" using own by (simp add: owns_def)
  have idx: "bc_Index (conns ps c) = INVALID_ARRAY_INDEX" by (rule pool_invD(5) [OF inv own False])
  have nm: "c \<notin> set ?a" using pool_invD(3) [OF inv] False by blast
  let ?ps = "upd_svc s (\<lambda>v. v\<lparr>activeConns := ?a @ [c]\<rparr>)
      (upd_conn c (\<lambda>b. b\<lparr>bc_IsConnActive := True, bc_Index := int (length ?a)\<rparr>) ps)"
  note ret = MarkConnActiveOK_adds [OF dlg idx]
  have ix: "bs.indexed s ?ps"
    using bs.indexed_add [OF pool_invD(1) [OF inv] _ nm ret] dlg idx by blast
  have ow: "owns s ?ps d = owns s ps d" for d by (simp add: owns_def)
  have "pool_inv s ?ps"
    unfolding pool_inv_def ow using ix inv own by (auto simp: pool_inv_def)
  then show ?thesis using ret by auto
qed

subsection \<open>Invariant of the process\<close>

lemma proc_invD:
  assumes "proc_inv ps"
  shows "s < next_svc ps \<Longrightarrow> pool_inv s ps" and "chan_inv ps"
    and "c < next_conn ps \<Longrightarrow> bc_delegate (conns ps c) = Some s \<Longrightarrow> s < next_svc ps"
    and "owns s ps c \<Longrightarrow> s < next_svc ps"
  using assms by (auto simp: proc_inv_def owns_def)

text \<open>Only one service, and connections it owns, have changed.\<close>

lemma proc_inv_local:
  assumes inv: "proc_inv ps" and pool: "pool_inv s ps'" and chan: "chan_inv ps'"
    and svc: "\<And>s'. s' \<noteq> s \<Longrightarrow> svcs ps' s' = svcs ps s'"
    and other: "\<And>d. \<not> owns s ps d \<Longrightarrow> conns ps' d = conns ps d"
    and dlg: "\<And>d. bc_delegate (conns ps' d) = bc_delegate (conns ps d)"
    and nx: "next_conn ps' = next_conn ps" "next_svc ps' = next_svc ps"
  shows "proc_inv ps'"
proof -
  have "pool_inv s' ps'" if "s' < next_svc ps" for s'
  proof (cases "s' = s")
    case False
    have "conns ps' c = conns ps c" if "owns s' ps c" for c
      using that False other [of c] by (simp add: owns_def)
    then show ?thesis
      using proc_invD(1) [OF inv that] svc [OF False] dlg nx
      by (intro pool_inv_cong [of ps' s' ps]) (auto simp: owns_def)
  qed (simp add: pool)
  then show ?thesis using inv chan dlg nx by (simp add: proc_inv_def)
qed

lemma MarkConnActiveFalse_proc:
  assumes inv: "proc_inv ps" and own: "owns s ps c"
  shows "\<exists>ps'. BackendConn_MarkConnActiveFalse c ps = Ret ps' \<and> proc_inv ps'
    \<and> set (activeConns (svcs ps' s)) = set (activeConns (svcs ps s)) - {c}"
proof -
  obtain ps' where r: "BackendConn_MarkConnActiveFalse c ps = Ret ps'" and p: "pool_inv s ps'"
    and st: "set (activeConns (svcs ps' s)) = set (activeConns (svcs ps s)) - {c}"
    and sv: "\<And>s'. s' \<noteq> s \<Longrightarrow> svcs ps' s' = svcs ps s'"
    and ot: "\<And>d. \<not> owns s ps d \<Longrightarrow> conns ps' d = conns ps d"
    and dl: "\<And>d. bc_delegate (conns ps' d) = bc_delegate (conns ps d)"
    and nx: "next_conn ps' = next_conn ps" "next_svc ps' = next_svc ps"
    using MarkConnActiveFalse_pool [OF proc_invD(1) [OF inv proc_invD(4) [OF inv own]] own] by auto
  have "chan_inv ps'"
    using proc_invD(2) [OF inv] MarkConnActiveFalse_frame(7,8) [OF r] nx by (simp add: chan_inv_def)
  from proc_inv_local [OF inv p this sv ot dl nx] show ?thesis using r st by blast
qed

lemma MarkConnActiveOK_proc:
  assumes inv: "proc_inv ps" and own: "owns s ps c"
  shows "\<exists>ps'. BackendConn_MarkConnActiveOK c ps = Ret ps' \<and> proc_inv ps'
    \<and> set (activeConns (svcs ps' s)) = insert c (set (activeConns (svcs ps s)))"
proof -
  obtain ps' where r: "BackendConn_MarkConnActiveOK c ps = Ret ps'" and p: "pool_inv s ps'"
    and st: "set (activeConns (svcs ps' s)) = insert c (set (activeConns (svcs ps s)))"
    and sv: "\<And>s'. s' \<noteq> s \<Longrightarrow> svcs ps' s' = svcs ps s'"
    and ot: "\<And>d. d \<noteq> c \<Longrightarrow> conns ps' d = conns ps d"
    and cc: "\<exists>i. conns ps' c = (conns ps c)\<lparr>bc_IsConnActive := True, bc_Index := i\<rparr>"
    and nx: "next_conn ps' = next_conn ps" "next_svc ps' = next_svc ps"
    using MarkConnActiveOK_pool [OF proc_invD(1) [OF inv proc_invD(4) [OF inv own]] own] by auto
  have cs: "bc_delegate (conns ps' d) = bc_delegate (conns ps d)
      \<and> bc_input_closed (conns ps' d) = bc_input_closed (conns ps d)
      \<and> bc_IsMarkOffline (conns ps' d) = bc_IsMarkOffline (conns ps d)" for d
    using ot [of d] cc by (cases "d = c") auto
  have "chan_inv ps'" using proc_invD(2) [OF inv] cs nx by (simp add: chan_inv_def)
  moreover have "conns ps' d = conns ps d" if "\<not> owns s ps d" for d
    using that own ot [of d] by (cases "d = c") auto
  ultimately have "proc_inv ps'"
    using proc_inv_local [OF inv p _ sv _ _ nx] cs by blast
  then show ?thesis using r st by blast
qed

end
