(* ===== verification/Back_Service_Correct.thy ===== *)
theory Back_Service_Correct
  imports Back_Service
begin

text \<open>
  The operations of the proxy's services keep the invariant of the process, and what each of
  them does: marking offline, following the endpoints in zookeeper, stopping, and handing a
  request to a connection.
\<close>

subsection \<open>Marking offline\<close>

lemma MarkOffline_already: "bc_IsMarkOffline (conns ps c) \<Longrightarrow> BackendConn_MarkOffline c ps = Ret ps"
  by (simp add: BackendConn_MarkOffline_def)

lemma MarkOffline_proc:
  assumes inv: "proc_inv ps" and own: "owns s ps c"
  shows "\<exists>ps'. BackendConn_MarkOffline c ps = Ret ps' \<and> proc_inv ps' \<and> bc_IsMarkOffline (conns ps' c)
    \<and> set (activeConns (svcs ps' s)) =
        (if bc_IsMarkOffline (conns ps c) then set (activeConns (svcs ps s)) else set (activeConns (svcs ps s)) - {c})
    \<and> (\<forall>s'. addr2Conn (svcs ps' s') = addr2Conn (svcs ps s'))
    \<and> (\<forall>d. d \<noteq> c \<longrightarrow> bc_IsMarkOffline (conns ps' d) = bc_IsMarkOffline (conns ps d))
    \<and> (\<forall>d. bc_addr (conns ps' d) = bc_addr (conns ps d) \<and> bc_delegate (conns ps' d) = bc_delegate (conns ps d))
    \<and> next_conn ps' = next_conn ps \<and> next_svc ps' = next_svc ps"
proof (cases "bc_IsMarkOffline (conns ps c)")
  case True
  then show ?thesis using inv by (simp add: MarkOffline_already)
next
  case False
  let ?ps = "upd_conn c (\<lambda>b. b\<lparr>bc_IsMarkOffline := True\<rparr>) ps"
  have c: "c < next_conn ps" using own by (simp add: owns_def)
  have ow: "owns s' ?ps d = owns s' ps d" for s' d by (simp add: owns_def)
  have pool: "pool_inv s ?ps"
    by (rule pool_inv_cong [OF _ _ ow _ proc_invD(1) [OF inv proc_invD(4) [OF inv own]]]) auto
  obtain ps1 where r: "BackendConn_MarkConnActiveFalse c ?ps = Ret ps1" and p: "pool_inv s ps1"
    and st: "set (activeConns (svcs ps1 s)) = set (activeConns (svcs ps s)) - {c}"
    and sv: "\<And>s'. s' \<noteq> s \<Longrightarrow> svcs ps1 s' = svcs ps s'" and ad: "addr2Conn (svcs ps1 s) = addr2Conn (svcs ps s)"
    and ot: "\<And>d. \<not> owns s ps d \<Longrightarrow> conns ps1 d = conns ?ps d"
    and dl: "\<And>d. bc_addr (conns ps1 d) = bc_addr (conns ?ps d) \<and> bc_delegate (conns ps1 d) = bc_delegate (conns ?ps d)"
    and nx: "next_conn ps1 = next_conn ps" "next_svc ps1 = next_svc ps"
    using MarkConnActiveFalse_pool [OF pool, of c] own ow by auto
  note fr = MarkConnActiveFalse_frame(7,8) [OF r]
  define ps' where "ps' = upd_conn c (\<lambda>b. b\<lparr>bc_input_closed := True\<rparr>) ps1"
  have "\<not> bc_input_closed (conns ps1 c)"
    using fr(1) [of c] proc_invD(2) [OF inv] c False by (simp add: chan_inv_def)
  then have ret: "BackendConn_MarkOffline c ps = Ret ps'"
    using False r by (simp add: BackendConn_MarkOffline_def close_input_def ps'_def)
  have off: "bc_IsMarkOffline (conns ps' d) = (d = c \<or> bc_IsMarkOffline (conns ps d))" for d
    using fr(2) [of d] by (cases "d = c") (auto simp: ps'_def)
  have cl: "bc_input_closed (conns ps' d) = (d = c \<or> bc_input_closed (conns ps d))" for d
    using fr(1) [of d] by (cases "d = c") (auto simp: ps'_def)
  have chan: "chan_inv ps'"
    using proc_invD(2) [OF inv] off cl nx by (simp add: chan_inv_def ps'_def)
  have dl': "bc_addr (conns ps' d) = bc_addr (conns ps d) \<and> bc_delegate (conns ps' d) = bc_delegate (conns ps d)" for d
    using dl [of d] by (cases "d = c") (auto simp: ps'_def)
  have p': "pool_inv s ps'"
    by (rule pool_inv_cong [OF _ _ _ _ p]) (auto simp: owns_def ps'_def)
  have ot': "conns ps' d = conns ps d" if "\<not> owns s ps d" for d
    using ot [OF that] that own by (cases "d = c") (auto simp: ps'_def)
  have "proc_inv ps'"
    by (rule proc_inv_local [OF inv p' chan _ ot']) (use sv dl' nx in \<open>auto simp: ps'_def\<close>)
  moreover have "addr2Conn (svcs ps' s') = addr2Conn (svcs ps s')" for s'
    using sv [of s'] ad by (cases "s' = s") (auto simp: ps'_def)
  moreover have "activeConns (svcs ps' s) = activeConns (svcs ps1 s)" "next_conn ps' = next_conn ps1"
    "next_svc ps' = next_svc ps1" by (simp_all add: ps'_def)
  ultimately show ?thesis
    using ret off st dl' nx False by (intro exI [of _ ps']) simp
qed

lemma MarkConnActiveFalse_owns:
  assumes "proc_inv ps" and "owns s ps c" and "BackendConn_MarkConnActiveFalse c ps = Ret ps'"
  shows "owns s ps' c"
proof -
  have "pool_inv s ps" using proc_invD(1,4) assms(1,2) by blast
  from MarkConnActiveFalse_pool [OF this assms(2)] show ?thesis using assms(2,3) by (auto simp: owns_def)
qed

subsection \<open>New connections and services\<close>

lemma NewBackendConn_sel:
  assumes "NewBackendConn addr dlg svc verbose ps = (n, ps')"
  shows "n = next_conn ps" "next_conn ps' = Suc (next_conn ps)" "next_svc ps' = next_svc ps" "svcs ps' = svcs ps"
    "c \<noteq> n \<Longrightarrow> conns ps' c = conns ps c" "bc_addr (conns ps' n) = addr" "bc_delegate (conns ps' n) = dlg"
    "\<not> bc_IsMarkOffline (conns ps' n)" "\<not> bc_input_closed (conns ps' n)" "\<not> bc_IsConnActive (conns ps' n)"
    "bc_Index (conns ps' n) = INVALID_ARRAY_INDEX" "reqs ps' = reqs ps"
    "bc_currentSeqId (conns ps' n) = BACKEND_CONN_MIN_SEQ_ID" "bc_input (conns ps' n) = []"
    "bc_seqNum2Request (conns ps' n) = Map.empty"
  using assms by (auto simp: NewBackendConn_def)

text \<open>A fresh connection starts with the invariant of connections.\<close>

lemma NewBackendConn_conn_inv:
  assumes "NewBackendConn addr dlg svc verbose ps = (n, ps')"
  shows "conn_inv n ps' \<and> bc_pending n ps' = {}"
  using NewBackendConn_sel(13-15) [OF assms] pend_init by (simp add: conn_inv_def bc_pending_def pending_def)

lemma NewBackendConn_pool:
  assumes new: "NewBackendConn addr (Some s) svc verbose ps = (n, ps')" and inv: "pool_inv s' ps"
    and lt: "\<And>c. owns s' ps c \<Longrightarrow> c < next_conn ps"
  shows "pool_inv s' ps'"
proof -
  note sel = NewBackendConn_sel [OF new]
  have ow: "owns s' ps' d = (owns s' ps d \<or> (d = n \<and> s' = s))" for d
    using sel(1,2,5,7) by (auto simp: owns_def less_Suc_eq)
  have old: "owns s' ps d \<Longrightarrow> conns ps' d = conns ps d" for d
    using sel(1,5) lt [of d] by auto
  have nn: "\<not> owns s' ps n" using sel(1) by (simp add: owns_def)
  have mem: "d \<in> set (activeConns (svcs ps' s')) \<longleftrightarrow> owns s' ps' d \<and> bc_IsConnActive (conns ps' d)" for d
    using inv ow [of d] old [of d] nn sel(4,10) by (auto simp: pool_inv_def)
  have "bc_Index (conns ps' d) = bc_Index (conns ps d)" if "d \<in> set (activeConns (svcs ps s'))" for d
    using that pool_invD(2) [OF inv] old by simp
  then have "bs.indexed s' ps'"
    using pool_invD(1) [OF inv] sel(4) nth_mem by (simp add: bs.indexed_def)
  moreover have "bc_Index (conns ps' d) = INVALID_ARRAY_INDEX"
    if "owns s' ps' d" "d \<notin> set (activeConns (svcs ps' s'))" for d
    using that ow [of d] old [of d] inv sel(4,11) by (auto simp: pool_inv_def)
  moreover have "owns s' ps' d \<and> bc_addr (conns ps' d) = a" if "addr2Conn (svcs ps' s') a = Some d" for a d
    using that pool_invD(6) [OF inv, of a d] old [of d] ow [of d] sel(4) by simp
  ultimately show ?thesis using mem unfolding pool_inv_def by blast
qed

lemma pool_inv_addr2Conn:
  assumes inv: "pool_inv s ps" and act: "activeConns (svcs ps' s) = activeConns (svcs ps s)"
    and cn: "conns ps' = conns ps" "next_conn ps' = next_conn ps"
    and ad: "\<And>a c. addr2Conn (svcs ps' s) a = Some c \<Longrightarrow> owns s ps c \<and> bc_addr (conns ps c) = a"
  shows "pool_inv s ps'"
proof -
  have "owns s ps' = owns s ps" using cn by (simp add: owns_def fun_eq_iff)
  moreover have "bs.indexed s ps'" using pool_invD(1) [OF inv] act cn by (simp add: bs.indexed_def)
  ultimately show ?thesis using inv ad act cn(1) unfolding pool_inv_def by simp
qed

lemma NewBackendConn_proc:
  assumes inv: "proc_inv ps" and s: "s < next_svc ps"
    and new: "NewBackendConn addr (Some s) svc verbose ps = (n, ps1)"
  defines "ps' \<equiv> upd_svc s (\<lambda>v. v\<lparr>addr2Conn := (addr2Conn v)(addr \<mapsto> n)\<rparr>) ps1"
  shows "proc_inv ps'"
proof -
  note sel = NewBackendConn_sel [OF new]
  have p1: "pool_inv s' ps1" if "s' < next_svc ps" for s'
    by (rule NewBackendConn_pool [OF new proc_invD(1) [OF inv that]]) (simp add: owns_def)
  have own: "owns s ps1 n" "bc_addr (conns ps1 n) = addr" using sel by (simp_all add: owns_def)
  have "pool_inv s' ps'" if lt: "s' < next_svc ps" for s'
    by (rule pool_inv_addr2Conn [OF p1 [OF lt]])
      (use own pool_invD(6) [OF p1 [OF lt]] in \<open>auto simp: ps'_def split: if_splits\<close>)
  moreover have "chan_inv ps'"
    using proc_invD(2) [OF inv] sel by (auto simp: chan_inv_def ps'_def less_Suc_eq)
  moreover have "s' < next_svc ps" if "c < next_conn ps'" "bc_delegate (conns ps' c) = Some s'" for c s'
    using that sel s proc_invD(3) [OF inv, of c s'] by (cases "c = n") (auto simp: ps'_def less_Suc_eq)
  moreover have "next_svc ps' = next_svc ps" using sel(3) by (simp add: ps'_def)
  ultimately show ?thesis unfolding proc_inv_def by simp
qed

lemma NewBackService_proc:
  assumes inv: "proc_inv ps" and new: "NewBackService product service verbose ps = (n, ps')"
  shows "proc_inv ps' \<and> n = next_svc ps \<and> next_svc ps' = Suc (next_svc ps) \<and> conns ps' = conns ps
    \<and> next_conn ps' = next_conn ps \<and> (\<forall>s. s \<noteq> n \<longrightarrow> svcs ps' s = svcs ps s)
    \<and> activeConns (svcs ps' n) = [] \<and> addr2Conn (svcs ps' n) = Map.empty
    \<and> \<not> svc_stop (svcs ps' n) \<and> evtbus (svcs ps' n) = 0 \<and> serviceName (svcs ps' n) = service"
proof -
  have sel: "n = next_svc ps" "next_svc ps' = Suc (next_svc ps)" "conns ps' = conns ps" "next_conn ps' = next_conn ps"
    "\<And>s. s \<noteq> n \<Longrightarrow> svcs ps' s = svcs ps s" "activeConns (svcs ps' n) = []" "addr2Conn (svcs ps' n) = Map.empty"
    "\<not> svc_stop (svcs ps' n)" "evtbus (svcs ps' n) = 0" "serviceName (svcs ps' n) = service"
    using new by (auto simp: NewBackService_def)
  have ow: "owns s ps' d = owns s ps d" for s d using sel(3,4) by (simp add: owns_def)
  have "\<not> owns n ps d" for d using proc_invD(4) [OF inv, of n d] sel(1) by auto
  then have "pool_inv n ps'" using sel(6,7) ow by (simp add: pool_inv_def bs.indexed_def)
  moreover have "pool_inv s ps'" if "s < next_svc ps" for s
    using that sel(1,3) sel(5) [of s] proc_invD(1) [OF inv that] ow by (intro pool_inv_cong [of ps' s ps]) auto
  moreover have "chan_inv ps'" using proc_invD(2) [OF inv] sel(3,4) by (simp add: chan_inv_def)
  moreover have "s < next_svc ps'" if "c < next_conn ps'" "bc_delegate (conns ps' c) = Some s" for c s
    using that proc_invD(3) [OF inv, of c s] sel(2-4) by simp
  ultimately have "proc_inv ps'"
    using sel(1,2) unfolding proc_inv_def by (metis less_SucE)
  then show ?thesis using sel by simp
qed

lemma proc_inv_view:
  assumes inv: "proc_inv ps" and nx: "next_conn ps' = next_conn ps" "next_svc ps' = next_svc ps"
    and sv: "\<And>s. activeConns (svcs ps' s) = activeConns (svcs ps s) \<and> addr2Conn (svcs ps' s) = addr2Conn (svcs ps s)"
    and cn: "\<And>c. bc_addr (conns ps' c) = bc_addr (conns ps c) \<and> bc_delegate (conns ps' c) = bc_delegate (conns ps c)
      \<and> bc_Index (conns ps' c) = bc_Index (conns ps c) \<and> bc_IsConnActive (conns ps' c) = bc_IsConnActive (conns ps c)
      \<and> bc_input_closed (conns ps' c) = bc_input_closed (conns ps c)
      \<and> bc_IsMarkOffline (conns ps' c) = bc_IsMarkOffline (conns ps c)"
  shows "proc_inv ps'"
proof -
  have ow: "owns s ps' c = owns s ps c" for s c using cn nx by (simp add: owns_def)
  have "pool_inv s ps'" if "s < next_svc ps" for s
    by (rule pool_inv_cong [OF _ _ ow _ proc_invD(1) [OF inv that]]) (use sv cn in simp_all)
  then show ?thesis using inv cn nx by (simp add: proc_inv_def chan_inv_def)
qed

subsection \<open>A small process\<close>

text \<open>A service with two connections that are up, made by the operations of the program.\<close>

definition demo_ps :: pstate where
  "demo_ps =
     (case obind (BackendConn_MarkConnActiveOK 0 (connect_new 0 [''a:1'', ''b:2'']
              (snd (NewBackService ''prod'' ''math'' False empty_pstate))))
            (BackendConn_MarkConnActiveOK 1) of
        Ret ps \<Rightarrow> ps | _ \<Rightarrow> empty_pstate)"

lemmas demo_defs = empty_pstate_def NewBackService_def NewBackendConn_def upd_defs
  BackendConn_MarkConnActiveOK_def BackService_StateChanged_def INVALID_ARRAY_INDEX_def

lemma demo_ps_sel [simp]:
  "activeConns (svcs demo_ps 0) = [0, 1]" "next_svc demo_ps = 1" "next_conn demo_ps = 2"
  "addr2Conn (svcs demo_ps 0) = [''a:1'' \<mapsto> 0, ''b:2'' \<mapsto> 1]" "serviceName (svcs demo_ps 0) = ''math''"
  "bc_input (conns demo_ps 0) = []" "bc_seqNum2Request (conns demo_ps 0) = Map.empty"
  "bc_currentSeqId (conns demo_ps 0) = 1" "reqs demo_ps = (\<lambda>_. zero_request)" "pmem demo_ps = empty_memory"
  "currentConnIndex (svcs demo_ps 0) = 0" "bc_delegate (conns demo_ps 0) = Some 0" "next_req demo_ps = 0"
  "\<not> bc_input_closed (conns demo_ps 0)" "\<not> bc_IsMarkOffline (conns demo_ps 0)" "\<not> bc_IsMarkOffline (conns demo_ps (Suc 0))"
  by (simp_all add: demo_ps_def demo_defs BACKEND_CONN_MIN_SEQ_ID_def)

subsection \<open>Following zookeeper\<close>

definition online :: "nat \<Rightarrow> pstate \<Rightarrow> string \<Rightarrow> nat \<Rightarrow> bool" where
  "online s ps a c \<longleftrightarrow> addr2Conn (svcs ps s) a = Some c \<and> \<not> bc_IsMarkOffline (conns ps c)"

lemma connect_new_step:
  assumes "\<nexists>c. online s ps a c"
    and "NewBackendConn a (Some s) (serviceName (svcs ps s)) (svc_verbose (svcs ps s)) ps = (n, ps1)"
  shows "connect_new s (a # addrs) ps =
    connect_new s addrs (upd_svc s (\<lambda>v. v\<lparr>addr2Conn := (addr2Conn v)(a \<mapsto> n)\<rparr>) ps1)"
  using assms by (auto simp: online_def split: option.splits)

lemma connect_new_spec:
  assumes "proc_inv ps" and "s < next_svc ps" and "distinct addrs" and "ps' = connect_new s addrs ps"
  shows "proc_inv ps' \<and> next_svc ps' = next_svc ps \<and> next_conn ps \<le> next_conn ps'
    \<and> (\<forall>c < next_conn ps. conns ps' c = conns ps c)
    \<and> (\<forall>s'. activeConns (svcs ps' s') = activeConns (svcs ps s'))
    \<and> (\<forall>a. a \<notin> set addrs \<longrightarrow> addr2Conn (svcs ps' s) a = addr2Conn (svcs ps s) a)
    \<and> (\<forall>a \<in> set addrs. \<exists>c. online s ps' a c \<and> (\<forall>c0. online s ps a c0 \<longrightarrow> c = c0))"
  using assms
proof (induction addrs arbitrary: ps)
  case Nil
  then show ?case by simp
next
  case (Cons a addrs)
  show ?case
  proof (cases "\<exists>c. online s ps a c")
    case True
    then obtain c where c: "online s ps a c" by blast
    then have ps': "ps' = connect_new s addrs ps" using Cons.prems(4) by (simp add: online_def)
    have "distinct addrs" using Cons.prems(3) by simp
    note IH = Cons.IH [OF Cons.prems(1,2) this ps']
    have "c < next_conn ps"
      using pool_invD(6) [OF proc_invD(1) [OF Cons.prems(1,2)]] c by (auto simp: online_def owns_def)
    then have "conns ps' c = conns ps c" using IH by simp
    moreover have "addr2Conn (svcs ps' s) a = addr2Conn (svcs ps s) a" using IH Cons.prems(3) by simp
    ultimately have "online s ps' a c \<and> (\<forall>c0. online s ps a c0 \<longrightarrow> c = c0)"
      using c by (simp add: online_def)
    then have "\<exists>c. online s ps' a c \<and> (\<forall>c0. online s ps a c0 \<longrightarrow> c = c0)" by (rule exI)
    then show ?thesis using IH by simp
  next
    case False
    obtain n ps1 where new: "NewBackendConn a (Some s) (serviceName (svcs ps s)) (svc_verbose (svcs ps s)) ps = (n, ps1)"
      by (cases "NewBackendConn a (Some s) (serviceName (svcs ps s)) (svc_verbose (svcs ps s)) ps")
    note sel = NewBackendConn_sel [OF new]
    define ps2 where "ps2 = upd_svc s (\<lambda>v. v\<lparr>addr2Conn := (addr2Conn v)(a \<mapsto> n)\<rparr>) ps1"
    have ps': "ps' = connect_new s addrs ps2"
      using connect_new_step [OF False new] Cons.prems(4) by (simp add: ps2_def)
    have inv2: "proc_inv ps2" using NewBackendConn_proc [OF Cons.prems(1,2) new] by (simp add: ps2_def)
    have s2: "s < next_svc ps2" "next_svc ps2 = next_svc ps" "next_conn ps2 = Suc (next_conn ps)"
      using sel(2,3) Cons.prems(2) by (simp_all add: ps2_def)
    have c2: "conns ps2 d = conns ps d" if "d \<noteq> n" for d using sel(5) that by (simp add: ps2_def)
    have a2: "addr2Conn (svcs ps2 s) = (addr2Conn (svcs ps s))(a \<mapsto> n)"
      "activeConns (svcs ps2 s') = activeConns (svcs ps s')" for s'
      using sel(4) by (simp_all add: ps2_def)
    have n2: "\<not> bc_IsMarkOffline (conns ps2 n)" using sel(8) by (simp add: ps2_def)
    have d: "distinct addrs" "a \<notin> set addrs" using Cons.prems(3) by simp_all
    note IH = Cons.IH [OF inv2 s2(1) d(1) ps']
    have "online s ps2 b c" if "online s ps b c" "b \<in> set addrs" for b c
    proof -
      have "c < next_conn ps"
        using pool_invD(6) [OF proc_invD(1) [OF Cons.prems(1,2)]] that by (auto simp: online_def owns_def)
      then show ?thesis using that d(2) a2(1) c2 [of c] sel(1) by (auto simp: online_def)
    qed
    moreover have "online s ps' a n"
      using IH a2(1) d(2) n2 s2(3) sel(1) by (simp add: online_def)
    ultimately have "\<forall>b \<in> set (a # addrs). \<exists>c. online s ps' b c \<and> (\<forall>c0. online s ps b c0 \<longrightarrow> c = c0)"
      using IH False by (metis set_ConsD)
    moreover have "conns ps' c = conns ps c" if "c < next_conn ps" for c
      using IH that c2 [of c] s2(3) sel(1) by simp
    ultimately show ?thesis using IH s2 a2 by simp
  qed
qed

lemma proc_inv_empty [simp]: "proc_inv empty_pstate"
  by (simp add: proc_inv_def chan_inv_def empty_pstate_def)

lemma demo_ps_inv [simp]: "proc_inv demo_ps" "owns 0 demo_ps 0"
proof -
  define ps0 where "ps0 = snd (NewBackService ''prod'' ''math'' False empty_pstate)"
  define ps1 where "ps1 = connect_new 0 [''a:1'', ''b:2''] ps0"
  have new: "NewBackService ''prod'' ''math'' False empty_pstate = (next_svc empty_pstate, ps0)"
    by (simp add: ps0_def NewBackService_def)
  have "proc_inv ps0" "next_svc ps0 = 1"
    using NewBackService_proc [OF proc_inv_empty new] by (simp_all add: empty_pstate_def)
  then have inv1: "proc_inv ps1" using connect_new_spec [of ps0 0 "[''a:1'', ''b:2'']" ps1] by (simp add: ps1_def)
  have own: "owns 0 ps1 0" "owns 0 ps1 1" by (simp_all add: ps1_def ps0_def owns_def demo_defs)
  obtain ps2 where ps2: "BackendConn_MarkConnActiveOK 0 ps1 = Ret ps2" "proc_inv ps2"
    using MarkConnActiveOK_proc [OF inv1 own(1)] by blast
  have "owns 0 ps2 1" using ps2(1) by (auto simp: ps1_def ps0_def owns_def demo_defs)
  then obtain ps3 where "BackendConn_MarkConnActiveOK 1 ps2 = Ret ps3" "proc_inv ps3"
    using MarkConnActiveOK_proc [OF ps2(2)] by blast
  then show "proc_inv demo_ps" using ps2(1) by (simp add: demo_ps_def ps1_def ps0_def)
  show "owns 0 demo_ps 0" by (simp add: owns_def)
qed

lemma drop_one:
  assumes inv: "proc_inv ps" and s: "s < next_svc ps" and a: "a \<notin> am" and c: "addr2Conn (svcs ps s) a = Some c"
  shows "\<exists>ps2. drop_old s am (a # olds) ps = drop_old s am olds ps2 \<and> proc_inv ps2
    \<and> next_conn ps2 = next_conn ps \<and> next_svc ps2 = next_svc ps
    \<and> addr2Conn (svcs ps2 s) = (addr2Conn (svcs ps s))(a := None)
    \<and> bc_IsMarkOffline (conns ps2 c) \<and> (\<forall>d. bc_IsMarkOffline (conns ps d) \<longrightarrow> bc_IsMarkOffline (conns ps2 d))
    \<and> (\<forall>b d. addr2Conn (svcs ps s) b = Some d \<longrightarrow>
          bc_IsMarkOffline (conns ps2 d) = (bc_IsMarkOffline (conns ps d) \<or> b = a))
    \<and> (\<forall>b d. online s ps2 b d = (b \<noteq> a \<and> online s ps b d))
    \<and> set (activeConns (svcs ps2 s)) = set (activeConns (svcs ps s)) - {d. online s ps a d}"
proof -
  note pool = proc_invD(1) [OF inv s]
  have own: "owns s ps c" and ca: "bc_addr (conns ps c) = a" using pool_invD(6) [OF pool c] by auto
  obtain ps1 where r: "BackendConn_MarkOffline c ps = Ret ps1" and inv1: "proc_inv ps1"
    and off: "bc_IsMarkOffline (conns ps1 c)" and act1: "set (activeConns (svcs ps1 s)) =
      (if bc_IsMarkOffline (conns ps c) then set (activeConns (svcs ps s)) else set (activeConns (svcs ps s)) - {c})"
    and ad1: "\<And>s'. addr2Conn (svcs ps1 s') = addr2Conn (svcs ps s')"
    and of1: "\<And>d. d \<noteq> c \<Longrightarrow> bc_IsMarkOffline (conns ps1 d) = bc_IsMarkOffline (conns ps d)"
    and nx: "next_conn ps1 = next_conn ps" "next_svc ps1 = next_svc ps"
    using MarkOffline_proc [OF inv own] by auto
  define ps2 where "ps2 = upd_svc s (\<lambda>v. v\<lparr>addr2Conn := (addr2Conn v)(a := None)\<rparr>) ps1"
  have sel2: "conns ps2 = conns ps1" "next_conn ps2 = next_conn ps" "next_svc ps2 = next_svc ps"
    "activeConns (svcs ps2 s') = activeConns (svcs ps1 s')"
    "addr2Conn (svcs ps2 s) = (addr2Conn (svcs ps s))(a := None)" for s'
    using nx ad1 by (simp_all add: ps2_def)
  have p2: "pool_inv s' ps2" if lt: "s' < next_svc ps1" for s'
    by (rule pool_inv_addr2Conn [OF proc_invD(1) [OF inv1 lt]])
      (use pool_invD(6) [OF proc_invD(1) [OF inv1 lt]] in \<open>auto simp: ps2_def split: if_splits\<close>)
  have "proc_inv ps2" using inv1 p2 sel2(1-3) nx by (simp add: proc_inv_def chan_inv_def)
  moreover have uniq: "b \<noteq> a \<Longrightarrow> addr2Conn (svcs ps s) b = Some d \<Longrightarrow> d \<noteq> c" for b d
    using pool_invD(6) [OF pool, of b d] ca by auto
  have "online s ps2 b d = (b \<noteq> a \<and> online s ps b d)" for b d
    using sel2(1,5) of1 [of d] uniq [of b d] by (auto simp: online_def)
  moreover have "bc_IsMarkOffline (conns ps2 d) = (bc_IsMarkOffline (conns ps d) \<or> b = a)"
    if "addr2Conn (svcs ps s) b = Some d" for b d
    using that of1 [of d] off c uniq [of b d] sel2(1) by (cases "b = a") auto
  moreover have "bc_IsMarkOffline (conns ps2 d)" if "bc_IsMarkOffline (conns ps d)" for d
    using of1 [of d] off that sel2(1) by (cases "d = c") auto
  moreover have "set (activeConns (svcs ps2 s)) = set (activeConns (svcs ps s)) - {d. online s ps a d}"
    using act1 sel2(4) c by (auto simp: online_def)
  moreover have "drop_old s am (a # olds) ps = drop_old s am olds ps2" using a c r by (simp add: ps2_def)
  ultimately show ?thesis using sel2 off by (intro exI [of _ ps2]) auto
qed

lemma drop_old_spec:
  assumes "proc_inv ps" and "s < next_svc ps"
  shows "\<exists>ps'. drop_old s am olds ps = Ret ps' \<and> proc_inv ps' \<and> next_svc ps' = next_svc ps
    \<and> next_conn ps' = next_conn ps
    \<and> (\<forall>c. bc_IsMarkOffline (conns ps c) \<longrightarrow> bc_IsMarkOffline (conns ps' c))
    \<and> addr2Conn (svcs ps' s) = (\<lambda>a. if a \<in> set olds \<and> a \<notin> am then None else addr2Conn (svcs ps s) a)
    \<and> (\<forall>a c. addr2Conn (svcs ps s) a = Some c \<longrightarrow> bc_IsMarkOffline (conns ps' c) =
          (bc_IsMarkOffline (conns ps c) \<or> a \<in> set olds \<and> a \<notin> am))
    \<and> set (activeConns (svcs ps' s)) = set (activeConns (svcs ps s)) -
          {c. \<exists>a \<in> set olds. a \<notin> am \<and> online s ps a c}"
  using assms
proof (induction olds arbitrary: ps)
  case Nil
  then show ?case by simp
next
  case (Cons a olds)
  show ?case
  proof (cases "a \<in> am \<or> addr2Conn (svcs ps s) a = None")
    case True
    then have eq: "drop_old s am (a # olds) ps = drop_old s am olds ps" by auto
    have "(\<exists>b \<in> set (a # olds). b \<notin> am \<and> online s ps b c) = (\<exists>b \<in> set olds. b \<notin> am \<and> online s ps b c)" for c
      using True by (auto simp: online_def)
    moreover have "(if b \<in> set (a # olds) \<and> b \<notin> am then None else addr2Conn (svcs ps s) b) =
        (if b \<in> set olds \<and> b \<notin> am then None else addr2Conn (svcs ps s) b)" for b
      using True by auto
    moreover have "(b \<in> set (a # olds) \<and> b \<notin> am) = (b \<in> set olds \<and> b \<notin> am)"
      if "addr2Conn (svcs ps s) b = Some c" for b c
      using True that by auto
    ultimately show ?thesis using Cons.IH [OF Cons.prems] unfolding eq by (simp add: fun_eq_iff)
  next
    case False
    then obtain c where a: "a \<notin> am" and c: "addr2Conn (svcs ps s) a = Some c" by auto
    obtain ps2 where eq: "drop_old s am (a # olds) ps = drop_old s am olds ps2" and inv2: "proc_inv ps2"
      and nx: "next_conn ps2 = next_conn ps" "next_svc ps2 = next_svc ps"
      and ad2: "addr2Conn (svcs ps2 s) = (addr2Conn (svcs ps s))(a := None)"
      and off: "bc_IsMarkOffline (conns ps2 c)" "\<And>d. bc_IsMarkOffline (conns ps d) \<Longrightarrow> bc_IsMarkOffline (conns ps2 d)"
      and offc: "\<And>b d. addr2Conn (svcs ps s) b = Some d \<Longrightarrow>
          bc_IsMarkOffline (conns ps2 d) = (bc_IsMarkOffline (conns ps d) \<or> b = a)"
      and on2: "\<And>b d. online s ps2 b d = (b \<noteq> a \<and> online s ps b d)"
      and act: "set (activeConns (svcs ps2 s)) = set (activeConns (svcs ps s)) - {d. online s ps a d}"
      using drop_one [OF Cons.prems a c, of olds] by blast
    from Cons.IH [OF inv2] obtain ps' where ret: "drop_old s am olds ps2 = Ret ps'" "proc_inv ps'"
      "next_svc ps' = next_svc ps" "next_conn ps' = next_conn ps"
      and mono: "\<And>d. bc_IsMarkOffline (conns ps2 d) \<Longrightarrow> bc_IsMarkOffline (conns ps' d)"
      and ad: "addr2Conn (svcs ps' s) = (\<lambda>b. if b \<in> set olds \<and> b \<notin> am then None else addr2Conn (svcs ps2 s) b)"
      and of2: "\<And>b d. addr2Conn (svcs ps2 s) b = Some d \<Longrightarrow> bc_IsMarkOffline (conns ps' d) =
          (bc_IsMarkOffline (conns ps2 d) \<or> b \<in> set olds \<and> b \<notin> am)"
      and ac: "set (activeConns (svcs ps' s)) = set (activeConns (svcs ps2 s)) -
          {d. \<exists>b \<in> set olds. b \<notin> am \<and> online s ps2 b d}"
      using Cons.prems(2) nx by auto
    have "bc_IsMarkOffline (conns ps' d) = (bc_IsMarkOffline (conns ps d) \<or> b \<in> set (a # olds) \<and> b \<notin> am)"
      if "addr2Conn (svcs ps s) b = Some d" for b d
      using that c off(1) mono a of2 [of b d] ad2 offc [OF that] by (cases "b = a") auto
    moreover have "addr2Conn (svcs ps' s) =
        (\<lambda>b. if b \<in> set (a # olds) \<and> b \<notin> am then None else addr2Conn (svcs ps s) b)"
      using ad ad2 a by (auto simp: fun_eq_iff)
    moreover have "set (activeConns (svcs ps' s)) = set (activeConns (svcs ps s)) -
        {d. \<exists>b \<in> set (a # olds). b \<notin> am \<and> online s ps b d}"
      using ac act on2 a by auto
    ultimately show ?thesis using ret eq mono off(2) by auto
  qed
qed

lemma WatchBackServiceNodes_round_spec:
  assumes inv: "proc_inv ps" and s: "s < next_svc ps" and adds: "distinct adds" "set adds = am"
    and olds: "set olds = dom (addr2Conn (svcs ps s)) \<union> am"
  shows "\<exists>ps'. WatchBackServiceNodes_round s am adds olds ps = Ret ps' \<and> proc_inv ps'
    \<and> dom (addr2Conn (svcs ps' s)) = am
    \<and> (\<forall>a \<in> am. \<exists>c. online s ps' a c \<and> (\<forall>c0. online s ps a c0 \<longrightarrow> c = c0))
    \<and> (\<forall>a c. addr2Conn (svcs ps s) a = Some c \<and> a \<notin> am \<longrightarrow> bc_IsMarkOffline (conns ps' c))
    \<and> set (activeConns (svcs ps' s)) = set (activeConns (svcs ps s)) - {c. \<exists>a. a \<notin> am \<and> online s ps a c}
    \<and> next_svc ps' = next_svc ps"
proof -
  define ps1 where "ps1 = connect_new s adds ps"
  note c1 = connect_new_spec [OF inv s adds(1) ps1_def]
  have old: "c < next_conn ps" if "addr2Conn (svcs ps s) a = Some c" for a c
    using pool_invD(6) [OF proc_invD(1) [OF inv s] that] by (simp add: owns_def)
  have s1: "s < next_svc ps1" using c1 s by simp
  obtain ps' where ret: "drop_old s am olds ps1 = Ret ps'" and inv': "proc_inv ps'" "next_svc ps' = next_svc ps1"
    and ad: "addr2Conn (svcs ps' s) = (\<lambda>a. if a \<in> set olds \<and> a \<notin> am then None else addr2Conn (svcs ps1 s) a)"
    and off: "\<And>a c. addr2Conn (svcs ps1 s) a = Some c \<Longrightarrow> bc_IsMarkOffline (conns ps' c) =
          (bc_IsMarkOffline (conns ps1 c) \<or> a \<in> set olds \<and> a \<notin> am)"
    and act: "set (activeConns (svcs ps' s)) = set (activeConns (svcs ps1 s)) -
          {c. \<exists>a \<in> set olds. a \<notin> am \<and> online s ps1 a c}"
    using drop_old_spec [of ps1 s am olds] c1 s1 by auto
  have nam: "addr2Conn (svcs ps1 s) a = addr2Conn (svcs ps s) a" if "a \<notin> am" for a
    using c1 that adds(2) by simp
  have kept: "\<exists>c. online s ps' a c \<and> (\<forall>c0. online s ps a c0 \<longrightarrow> c = c0)" if "a \<in> am" for a
  proof -
    have "\<exists>c. online s ps1 a c \<and> (\<forall>c0. online s ps a c0 \<longrightarrow> c = c0)" using c1 that adds(2) by blast
    then obtain c where c: "online s ps1 a c" "\<forall>c0. online s ps a c0 \<longrightarrow> c = c0" by blast
    then have "online s ps' a c" using off [of a c] ad that by (simp add: online_def)
    then show ?thesis using c(2) by blast
  qed
  have dom': "dom (addr2Conn (svcs ps' s)) = am"
  proof
    show "am \<subseteq> dom (addr2Conn (svcs ps' s))" using kept by (auto simp: online_def)
    show "dom (addr2Conn (svcs ps' s)) \<subseteq> am"
      using ad nam olds by (auto simp: dom_def split: if_splits)
  qed
  have gone: "bc_IsMarkOffline (conns ps' c)" if "addr2Conn (svcs ps s) a = Some c" "a \<notin> am" for a c
    using off [of a c] nam [OF that(2)] that olds by (auto simp: dom_def)
  have "online s ps1 a c = online s ps a c" if "a \<notin> am" for a c
    using nam [OF that] old [of a c] c1 by (auto simp: online_def)
  then have "{c. \<exists>a \<in> set olds. a \<notin> am \<and> online s ps1 a c} = {c. \<exists>a. a \<notin> am \<and> online s ps a c}"
    using olds by (auto simp: online_def dom_def)
  then have "set (activeConns (svcs ps' s)) = set (activeConns (svcs ps s)) - {c. \<exists>a. a \<notin> am \<and> online s ps a c}"
    using act c1 by simp
  moreover have "WatchBackServiceNodes_round s am adds olds ps = Ret ps'"
    using ret by (simp add: WatchBackServiceNodes_round_def ps1_def)
  moreover have "next_svc ps' = next_svc ps" using inv'(2) c1 by simp
  ultimately show ?thesis using inv'(1) dom' kept gone by blast
qed

subsection \<open>Stopping\<close>

text \<open>The loop of \<open>Stop\<close> ends when no active connection has been marked offline before.\<close>

text \<open>
  Once the service is idle, the loop at the end of \<open>Stop\<close> ends when no active connection is
  marked offline already: every active connection is then offline, with its input closed, and
  the array of active connections is empty.
\<close>

lemma Stop_offline_ends:
  assumes "proc_inv ps" and "s < next_svc ps"
    and "\<forall>c \<in> set (activeConns (svcs ps s)). \<not> bc_IsMarkOffline (conns ps c)"
  shows "\<exists>ps'. Stop_offline s ps = Some (Ret ps') \<and> proc_inv ps' \<and> activeConns (svcs ps' s) = []
    \<and> (\<forall>c. bc_IsMarkOffline (conns ps' c) =
          (bc_IsMarkOffline (conns ps c) \<or> c \<in> set (activeConns (svcs ps s))))"
  using assms
proof (induction "card (set (activeConns (svcs ps s)))" arbitrary: ps)
  case 0
  then show ?case by (subst Stop_offline.simps) simp
next
  case (Suc n)
  then obtain c cs where a: "activeConns (svcs ps s) = c # cs"
    by (cases "activeConns (svcs ps s)") auto
  have own: "owns s ps c" using pool_invD(2) [OF proc_invD(1) [OF Suc.prems(1,2)]] a by simp
  have nc: "\<not> bc_IsMarkOffline (conns ps c)" using Suc.prems(3) a by simp
  obtain ps1 where r: "BackendConn_MarkOffline c ps = Ret ps1" and inv1: "proc_inv ps1"
    and off: "bc_IsMarkOffline (conns ps1 c)"
    and act: "set (activeConns (svcs ps1 s)) = set (activeConns (svcs ps s)) - {c}"
    and of1: "\<And>d. d \<noteq> c \<Longrightarrow> bc_IsMarkOffline (conns ps1 d) = bc_IsMarkOffline (conns ps d)"
    and nx: "next_svc ps1 = next_svc ps"
    using MarkOffline_proc [OF Suc.prems(1) own] nc by auto
  have "n = card (set (activeConns (svcs ps1 s)))"
    using Suc.hyps(2) act a by (simp add: card_insert_if split: if_splits)
  moreover have "s < next_svc ps1" using Suc.prems(2) nx by simp
  moreover have "\<forall>d \<in> set (activeConns (svcs ps1 s)). \<not> bc_IsMarkOffline (conns ps1 d)"
    using Suc.prems(3) act of1 by auto
  ultimately obtain ps' where ps': "Stop_offline s ps1 = Some (Ret ps')" "proc_inv ps'"
    "activeConns (svcs ps' s) = []" "\<forall>d. bc_IsMarkOffline (conns ps' d) =
          (bc_IsMarkOffline (conns ps1 d) \<or> d \<in> set (activeConns (svcs ps1 s)))"
    using Suc.hyps(1) [OF _ inv1] by blast
  have "bc_IsMarkOffline (conns ps' d) = (bc_IsMarkOffline (conns ps d) \<or> d \<in> set (activeConns (svcs ps s)))" for d
    using ps'(4) off of1 [of d] act a by (cases "d = c") auto
  moreover have "Stop_offline s ps = Some (Ret ps')"
    using a r ps'(1) by (subst Stop_offline.simps) simp
  ultimately show ?case using ps'(2,3) by blast
qed

text \<open>It does not end when the first active connection already is offline.\<close>

lemma Stop_offline_ends_witness:
  "\<exists>ps'. Stop_offline 0 demo_ps = Some (Ret ps') \<and> activeConns (svcs ps' 0) = []"
  using Stop_offline_ends [of demo_ps 0] by auto

text \<open>
  If the first active connection is already marked offline (it was marked while it was
  reconnecting and became active afterwards), \<open>MarkOffline\<close> leaves it in the array and the loop
  of \<open>Stop\<close> never ends.
\<close>

lemma Stop_offline_spins:
  assumes "activeConns (svcs ps s) = c # cs" and "bc_IsMarkOffline (conns ps c)"
  shows "Stop_offline s ps = None"
proof -
  have "\<not> (activeConns (svcs ps s) = c # cs \<and> bc_IsMarkOffline (conns ps c))" if "Stop_offline s ps = Some r" for r
    using that
  proof (rule Stop_offline.raw_induct [rotated])
    fix f s ps r
    assume IH: "\<And>s ps r. f s ps = Some r \<Longrightarrow> \<not> (activeConns (svcs ps s) = c # cs \<and> bc_IsMarkOffline (conns ps c))"
      and body: "(case activeConns (svcs ps s) of [] \<Rightarrow> Some (Ret ps)
         | c # cs \<Rightarrow> (case BackendConn_MarkOffline c ps of
              Ret ps' \<Rightarrow> f s ps' | Panic p \<Rightarrow> Some (Panic p) | Block \<Rightarrow> Some Block)) = Some r"
    show "\<not> (activeConns (svcs ps s) = c # cs \<and> bc_IsMarkOffline (conns ps c))"
      using body IH [of s ps r] by (auto simp: MarkOffline_already)
  qed
  then show ?thesis using assms by (cases "Stop_offline s ps") auto
qed

lemma Stop_offline_spins_witness:
  "Stop_offline 0 (upd_conn 0 (\<lambda>b. b\<lparr>bc_IsMarkOffline := True\<rparr>) demo_ps) = None"
  by (rule Stop_offline_spins [of _ _ 0 "[1]"]) simp_all

subsection \<open>Handing out requests\<close>

text \<open>Where a round-robin call lands, and the three ways a push can end.\<close>

definition next_conn_of :: "nat \<Rightarrow> pstate \<Rightarrow> nat" where
  "next_conn_of s ps = activeConns (svcs ps s) !
     rr_start (currentConnIndex (svcs ps s)) (length (activeConns (svcs ps s)))"

lemma next_conn_of_active: "activeConns (svcs ps s) \<noteq> [] \<Longrightarrow> next_conn_of s ps \<in> set (activeConns (svcs ps s))"
  by (auto simp: next_conn_of_def rr_start_def)

lemma NextBackendConn_sel:
  assumes "BackService_NextBackendConn s ps = (b, ps')"
  shows "conns ps' = conns ps" "reqs ps' = reqs ps" "pmem ps' = pmem ps" "next_req ps' = next_req ps"
    "next_conn ps' = next_conn ps" "next_svc ps' = next_svc ps"
    "activeConns (svcs ps' s') = activeConns (svcs ps s')" "addr2Conn (svcs ps' s') = addr2Conn (svcs ps s')"
    "b = (if activeConns (svcs ps s) = [] then None else Some (next_conn_of s ps))"
  using assms
  by (auto simp: BackService_NextBackendConn_def Let_def next_conn_of_def rr_start_def split: if_splits)

lemma HandleRequest_no_worker:
  assumes "activeConns (svcs ps s) = []"
  shows "\<exists>ps' d. BackService_HandleRequest T now s rid ps = Ret (None, ps')
    \<and> reqs ps' = (reqs ps)(rid := (reqs ps rid)\<lparr>RespTypeId := EXCEPTION T, RespData := Some d\<rparr>)
    \<and> slice_bytes (pmem ps') d = msg_header T (ReqName (reqs ps rid)) (EXCEPTION T) (ReqSeqId (reqs ps rid)) @
        concat (WriteApplicationException T (INTERNAL_ERROR T) (''Worker FOR BackService#'' @
          Service (reqs ps rid) @ ''.'' @ ReqName (reqs ps rid) @ '' Not Found'')) @ concat (WriteMessageEnd T) \<and> slice_ok (pmem ps') d
    \<and> conns ps' = conns ps"
proof -
  let ?r = "reqs ps rid"
  let ?msg = "''Worker FOR BackService#'' @ Service ?r @ ''.'' @ ReqName ?r @ '' Not Found''"
  obtain d m where e: "exception_message T (pmem ps) 100 (ReqName ?r) (ReqSeqId ?r) (INTERNAL_ERROR T) ?msg = (d, m)"
    by (cases "exception_message T (pmem ps) 100 (ReqName ?r) (ReqSeqId ?r) (INTERNAL_ERROR T) ?msg")
  then have "BackService_HandleRequest T now s rid ps =
      Ret (None, (set_req rid (?r\<lparr>RespTypeId := EXCEPTION T, RespData := Some d\<rparr>)
        (upd_svc s (\<lambda>v. v\<lparr>lastRequestTime := now\<rparr>) ps))\<lparr>pmem := m\<rparr>)"
    using assms by (simp add: BackService_HandleRequest_def BackService_NextBackendConn_def
        GetWorkerNotFoundData_def Let_def)
  then show ?thesis using exception_message_bytes [OF e] by auto
qed

lemma HandleRequest_worker:
  assumes "activeConns (svcs ps s) \<noteq> []"
  shows "BackService_HandleRequest T now s rid ps =
    obind (BackendConn_PushBack (next_conn_of s ps) rid
      (upd_svc s (\<lambda>v. v\<lparr>currentConnIndex :=
          rr_start (currentConnIndex (svcs ps s)) (length (activeConns (svcs ps s))) + 1,
        lastRequestTime := now\<rparr>) ps)) (\<lambda>ps'. Ret (None, ps'))"
  using assms
  by (simp add: BackService_HandleRequest_def BackService_NextBackendConn_def next_conn_of_def Let_def
      rr_start_def upd_svc_def)

lemma PushBack_cases:
  "BackendConn_PushBack c rid ps =
    (if bc_input_closed (conns ps c) then Panic SendOnClosedChannel
     else if CHAN_CAP \<le> length (bc_input (conns ps c)) then Block
     else Ret (upd_conn c (\<lambda>b. b\<lparr>bc_input := bc_input b @ [rid]\<rparr>) (set_req rid (wait_add (reqs ps rid)) ps)))"
  by (simp add: BackendConn_PushBack_def Let_def)

subsection \<open>Interleaved state changes\<close>

text \<open>
  \<open>MarkConnActiveFalse\<close> and \<open>MarkConnActiveOK\<close> write the flag before they take the lock in
  \<open>StateChanged\<close>, so calls for one connection can interleave. Whatever the flags are,
  \<open>StateChanged\<close> keeps the array and the indices consistent, and leaves the connection in
  the array exactly if its flag is set at that time.
\<close>

definition lock_inv :: "nat \<Rightarrow> pstate \<Rightarrow> bool" where
  "lock_inv s ps \<longleftrightarrow> bs.indexed s ps \<and>
     (\<forall>c. bc_Index (conns ps c) \<noteq> INVALID_ARRAY_INDEX \<and> owns s ps c \<longleftrightarrow> c \<in> set (activeConns (svcs ps s)))"

lemma lock_inv_remove:
  assumes inv: "lock_inv s ps" and c: "\<not> bc_IsConnActive (conns ps c)" "c \<in> set (activeConns (svcs ps s))"
  shows "\<exists>ps'. BackService_StateChanged s c ps = Ret ps' \<and> lock_inv s ps'
    \<and> (c \<in> set (activeConns (svcs ps' s)) \<longleftrightarrow> bc_IsConnActive (conns ps c))
    \<and> (\<forall>d. bc_IsConnActive (conns ps' d) = bc_IsConnActive (conns ps d))
    \<and> set (activeConns (svcs ps' s)) - {c} = set (activeConns (svcs ps s)) - {c}"
proof -
  let ?a = "activeConns (svcs ps s)"
  have ix: "bs.indexed s ps" and mem: "\<And>d. d \<in> set ?a \<longleftrightarrow> bc_Index (conns ps d) \<noteq> INVALID_ARRAY_INDEX \<and> owns s ps d"
    using inv by (auto simp: lock_inv_def)
  obtain i where i: "i < length ?a" "?a ! i = c" using c(2) by (auto simp: in_set_conv_nth)
  then have idx: "bc_Index (conns ps c) = int i" using ix by (auto simp: bs.indexed_def)
  obtain ps' where ret: "BackService_StateChanged s c ps = Ret ps'"
    and cd: "\<And>d. conns ps' d = (conns ps d)\<lparr>bc_Index := (if d = c then INVALID_ARRAY_INDEX
        else if d = last ?a \<and> i \<noteq> length ?a - 1 then int i else bc_Index (conns ps d))\<rparr>"
    and nx: "next_conn ps' = next_conn ps"
    using StateChanged_remove [OF c(1) i(1) idx] by auto
  have ix': "bs.indexed s ps'" and st: "set (activeConns (svcs ps' s)) = set ?a - {c}"
    using sc.indexed_remove [OF ix c ret] by auto
  have ow: "owns s ps' d = owns s ps d" for d by (simp add: owns_def cd nx)
  have "last ?a \<in> set ?a" using i(1) by (cases ?a) auto
  then have "bc_Index (conns ps' d) \<noteq> INVALID_ARRAY_INDEX \<and> owns s ps' d \<longleftrightarrow> d \<in> set (activeConns (svcs ps' s))" for d
    using mem [of d] st ow by (auto simp: cd INVALID_ARRAY_INDEX_def)
  then have "lock_inv s ps'" using ix' by (simp add: lock_inv_def)
  then show ?thesis using ret st c(1) cd by auto
qed

text \<open>
  C25: \<open>StateChanged\<close> of the service tolerates any interleaving of the goroutines that mark
  connections: the flag of a connection may have changed any number of times before the lock is
  taken, and one connection may be reported several times. Each call returns, keeps the array
  and the stored indices consistent, makes the connection a member of the array exactly when its
  flag is set, and moves no other connection in or out.
\<close>

theorem StateChanged_lock_inv:
  assumes inv: "lock_inv s ps" and own: "owns s ps c"
  shows "\<exists>ps'. BackService_StateChanged s c ps = Ret ps' \<and> lock_inv s ps'
    \<and> (c \<in> set (activeConns (svcs ps' s)) \<longleftrightarrow> bc_IsConnActive (conns ps c))
    \<and> (\<forall>d. bc_IsConnActive (conns ps' d) = bc_IsConnActive (conns ps d))
    \<and> set (activeConns (svcs ps' s)) - {c} = set (activeConns (svcs ps s)) - {c}"
proof -
  let ?a = "activeConns (svcs ps s)"
  have ix: "bs.indexed s ps" and mem: "\<And>d. d \<in> set ?a \<longleftrightarrow> bc_Index (conns ps d) \<noteq> INVALID_ARRAY_INDEX \<and> owns s ps d"
    using inv by (auto simp: lock_inv_def)
  consider (add) "bc_IsConnActive (conns ps c)" "c \<notin> set ?a"
    | (remove) "\<not> bc_IsConnActive (conns ps c)" "c \<in> set ?a"
    | (same) "bc_IsConnActive (conns ps c) = (c \<in> set ?a)" by blast
  then show ?thesis
  proof cases
    case same
    then have "BackService_StateChanged s c ps = Ret ps"
      using mem [of c] own by (auto simp: BackService_StateChanged_def Let_def)
    then show ?thesis using inv same by simp
  next
    case add
    then have idx: "bc_Index (conns ps c) = INVALID_ARRAY_INDEX" using mem own by blast
    define ps' where "ps' = upd_svc s (\<lambda>v. v\<lparr>activeConns := ?a @ [c]\<rparr>)
      (upd_conn c (\<lambda>b. b\<lparr>bc_Index := int (length ?a)\<rparr>) ps)"
    have ret: "BackService_StateChanged s c ps = Ret ps'"
      using StateChanged_add [OF add(1) idx] by (simp add: ps'_def)
    have ix': "bs.indexed s ps'"
      using sc.indexed_add [OF ix _ add(2) ret] add(1) idx by blast
    have "d \<in> set (activeConns (svcs ps' s)) \<longleftrightarrow> bc_Index (conns ps' d) \<noteq> INVALID_ARRAY_INDEX \<and> owns s ps' d" for d
      using mem [of d] own by (cases "d = c") (auto simp: ps'_def owns_def INVALID_ARRAY_INDEX_def)
    then show ?thesis using ret ix' add by (auto simp: lock_inv_def ps'_def)
  next
    case remove
    then show ?thesis using lock_inv_remove [OF inv] by blast
  qed
qed

theorem StateChanged_lock_inv_witness:
  "\<exists>ps'. BackService_StateChanged 0 0 (upd_conn 0 (\<lambda>b. b\<lparr>bc_IsConnActive := False\<rparr>) demo_ps) = Ret ps'
    \<and> 0 \<notin> set (activeConns (svcs ps' 0))"
proof -
  let ?ps = "upd_conn 0 (\<lambda>b. b\<lparr>bc_IsConnActive := False\<rparr>) demo_ps"
  have pool: "pool_inv 0 demo_ps" using proc_invD(1) [OF demo_ps_inv(1), of 0] by simp
  have c: "c \<in> set (activeConns (svcs demo_ps 0)) \<Longrightarrow> owns 0 demo_ps c" "owns 0 demo_ps c \<Longrightarrow> c = 0 \<or> c = 1" for c
    using pool_invD(2) [OF pool] by (auto simp: owns_def)
  have idx: "bc_Index (conns demo_ps 0) = 0" "bc_Index (conns demo_ps (Suc 0)) = 1"
    by (simp_all add: demo_ps_def demo_defs)
  have "bs.indexed 0 ?ps" by (simp add: bs.indexed_def idx less_Suc_eq numeral_2_eq_2)
  moreover have "owns 0 ?ps d = owns 0 demo_ps d" for d by (simp add: owns_def)
  ultimately have "lock_inv 0 ?ps"
    using c idx pool_invD(2) [OF pool] by (auto simp: lock_inv_def INVALID_ARRAY_INDEX_def)
  moreover have "owns 0 ?ps 0" by (simp add: owns_def)
  ultimately show ?thesis using StateChanged_lock_inv [of 0 ?ps 0] by auto
qed

subsection \<open>Properties of the service\<close>

text \<open>
  As long as the array of active connections does not change, \<open>NextBackendConn\<close> goes through
  it in order and cyclically: among as many consecutive calls as there are connections each one
  is chosen exactly once, from wherever the cursor stands (beyond the end of a shrunk array too).
\<close>

lemma round_robin_fair:
  assumes "activeConns (svcs ps s) \<noteq> []"
  shows "fst (next_many (BackService_NextBackendConn s) (length (activeConns (svcs ps s))) ps) =
    map Some (rotate (rr_start (currentConnIndex (svcs ps s)) (length (activeConns (svcs ps s))))
      (activeConns (svcs ps s)))"
  using assms by (rule bs.round_robin)

lemma round_robin_fair_witness:
  "fst (next_many (BackService_NextBackendConn 0) 2 demo_ps) = [Some 0, Some 1]"
  using round_robin_fair [of demo_ps 0] by (simp add: rr_start_def numeral_2_eq_2)

text \<open>A connection with one request sent and one queued.\<close>

definition demo_busy :: pstate where
  "demo_busy = upd_conn 0 (\<lambda>b. b\<lparr>bc_seqNum2Request := [1 \<mapsto> 0], bc_input := [1], bc_currentSeqId := 2\<rparr>)
     (demo_ps\<lparr>reqs := (\<lambda>_. zero_request)(0 := zero_request\<lparr>RespSeqId := 1, Wait := Some 1\<rparr>,
        1 := zero_request\<lparr>Wait := Some 1\<rparr>), next_req := 2\<rparr>)"

lemma demo_busy_inv [simp]: "proc_inv demo_busy" "owns 0 demo_busy 0" "conn_inv 0 demo_busy"
proof -
  show "proc_inv demo_busy" by (rule proc_inv_view [OF demo_ps_inv(1)]) (auto simp: demo_busy_def)
  show "owns 0 demo_busy 0" by (simp add: demo_busy_def owns_def)
  show "conn_inv 0 demo_busy"
    by (auto simp: conn_inv_def pend_inv_def pending_def demo_busy_def awaited_def seq_ok_def CHAN_CAP_def
        split: if_splits)
qed

text \<open>
  C11: When the reader of a connection fails, \<open>flushRequests\<close> takes the connection out of the
  service and answers every request that has been sent, and no other, with the error, once (one
  \<open>Done\<close> on its wait group), in whatever order the table is traversed. The requests still queued
  stay queued.
\<close>

theorem connection_lost_fails_sent:
  assumes inv: "proc_inv ps" "owns s ps c" "conn_inv c ps"
    and ks: "map_order (bc_seqNum2Request (conns ps c)) ks"
  shows "\<exists>ps'. BackendConn_flushRequests c err ks ps = Ret ps' \<and> c \<notin> set (activeConns (svcs ps' s))
    \<and> conn_inv c ps' \<and> bc_pending c ps' = set (bc_input (conns ps c))
    \<and> (\<forall>rid. if rid \<in> ran (bc_seqNum2Request (conns ps c))
          then RespErr (reqs ps' rid) = Some err \<and> wait_done (reqs ps rid) = Ret ((reqs ps rid)\<lparr>Wait := Wait (reqs ps' rid)\<rparr>)
          else reqs ps' rid = reqs ps rid)"
proof -
  obtain ps1 where m: "BackendConn_MarkConnActiveFalse c ps = Ret ps1"
    and out: "c \<notin> set (activeConns (svcs ps1 s))" using MarkConnActiveFalse_proc [OF inv(1,2)] by blast
  obtain ps' where f: "BackendConn_flushRequests c err ks ps = Ret ps'"
    and sp: "bc_seqNum2Request (conns ps' c) = Map.empty" "bc_input (conns ps' c) = bc_input (conns ps c)"
      "bc_currentSeqId (conns ps' c) = bc_currentSeqId (conns ps c)"
      "reqs ps' = (\<lambda>rid. if rid \<in> ran (bc_seqNum2Request (conns ps c))
        then (reqs ps rid)\<lparr>RespErr := Some err, Wait := map_option (\<lambda>w. w - 1) (Wait (reqs ps rid))\<rparr>
        else reqs ps rid)"
    using flushRequests_spec [OF inv(3) m ks, of err] by blast
  have "svcs ps' = svcs ps1" using f m by (auto simp: BackendConn_flushRequests_def Let_def)
  moreover have "conn_inv c ps' \<and> bc_pending c ps' = set (bc_input (conns ps c))"
    by (rule conn_inv_flushed [OF inv(3) sp(1-3)]) (simp add: sp(4))
  moreover have "wait_done (reqs ps rid) = Ret ((reqs ps rid)\<lparr>Wait := map_option (\<lambda>w. w - 1) (Wait (reqs ps rid))\<rparr>)"
    if "rid \<in> ran (bc_seqNum2Request (conns ps c))" for rid
    using wait_done_awaited [OF conn_invD(8) [OF inv(3) that]] .
  ultimately show ?thesis using f out sp(4) by auto
qed

theorem connection_lost_fails_sent_witness:
  "\<exists>ps'. BackendConn_flushRequests 0 IoEOF [1] demo_busy = Ret ps' \<and> RespErr (reqs ps' 0) = Some IoEOF
    \<and> reqs ps' 1 = reqs demo_busy 1 \<and> 0 \<notin> set (activeConns (svcs ps' 0))"
proof -
  have t: "bc_seqNum2Request (conns demo_busy 0) = [1 \<mapsto> 0]" by (simp add: demo_busy_def)
  have "map_order (bc_seqNum2Request (conns demo_busy 0)) [1]" by (simp add: t map_order_def)
  from connection_lost_fails_sent [OF demo_busy_inv this, of IoEOF] show ?thesis by (auto simp: t split: if_splits)
qed

text \<open>
  C12: When the writer of a connection ends with an error, the rest of the round of \<open>Run\<close> takes
  the connection out of the service and completes every queued request, and no other, with that
  error: no request is left in the input of a connection whose writer is gone.
\<close>

theorem writer_failure_answers_queued:
  assumes inv: "proc_inv ps" "owns s ps c" "conn_inv c ps"
  shows "\<exists>ps'. BackendConn_after_writer T now c (Some e) ps = Ret ps' \<and> c \<notin> set (activeConns (svcs ps' s))
    \<and> conn_inv c ps' \<and> bc_input (conns ps' c) = []
    \<and> bc_pending c ps' = bc_pending c ps - set (bc_input (conns ps c))
    \<and> reqs ps' = (\<lambda>q. if q \<in> set (bc_input (conns ps c)) then completed (reqs ps q) None (Some e) else reqs ps q)"
proof -
  obtain ps1 where m: "BackendConn_MarkConnActiveFalse c ps = Ret ps1"
    and out: "c \<notin> set (activeConns (svcs ps1 s))" using MarkConnActiveFalse_proc [OF inv(1,2)] by blast
  note fr = MarkConnActiveFalse_frame [OF m]
  have inv1: "conn_inv c ps1" using inv(3) conn_inv_MarkConnActiveFalse [OF m] by simp
  have "bc_pending c ps1 = bc_pending c ps" "bc_input (conns ps1 c) = bc_input (conns ps c)" and rs: "reqs ps1 = reqs ps"
    using fr by (simp_all add: bc_pending_def)
  then show ?thesis
    using drain_spec [OF inv1 refl, of T now e] m out unfolding rs by (auto simp: BackendConn_after_writer_def)
qed

theorem writer_failure_answers_queued_witness:
  "\<exists>ps'. BackendConn_after_writer strict_binary 0 0 (Some IoEOF) demo_busy = Ret ps'
    \<and> RespErr (reqs ps' 1) = Some IoEOF \<and> Wait (reqs ps' 1) = Some 0 \<and> bc_input (conns ps' 0) = []"
  using writer_failure_answers_queued [OF demo_busy_inv, of strict_binary 0 IoEOF]
  by (auto simp: demo_busy_def completed_def)

end
