(* ===== verification/Router.thy ===== *)
theory Router
  imports Back_Service_Correct
begin

text \<open>
  \<open>proxy/router_proxy.go\<close>: the map from service names to services, kept in step with the
  service directory in zookeeper, and the dispatch of a request by its service name.
\<close>

record router =
  rt_productName :: string
  rt_services :: "string \<Rightarrow> nat option"
  rt_verbose :: bool

definition NewRouter :: "string \<Rightarrow> bool \<Rightarrow> router" where
  "NewRouter product verbose = \<lparr>rt_productName = product, rt_services = Map.empty, rt_verbose = verbose\<rparr>"

definition GetBackService :: "router \<Rightarrow> string \<Rightarrow> nat option" where
  "GetBackService r service = rt_services r service"

definition Router_Dispatch :: "thrift_lib \<Rightarrow> int \<Rightarrow> router \<Rightarrow> nat \<Rightarrow> pstate \<Rightarrow>
    (go_error option \<times> pstate) outcome" where
  "Router_Dispatch T now r rid ps =
     (case GetBackService r (Service (reqs ps rid)) of
        None \<Rightarrow>
          let (data, req, m) = GetServiceNotFoundData T (pmem ps) (reqs ps rid) in
          Ret (None, (set_req rid (req\<lparr>RespData := Some data\<rparr>) ps)\<lparr>pmem := m\<rparr>)
      | Some s \<Rightarrow> BackService_HandleRequest T now s rid ps)"

definition addBackService :: "string \<Rightarrow> router \<Rightarrow> pstate \<Rightarrow> router \<times> pstate" where
  "addBackService service r ps =
     (case rt_services r service of
        Some _ \<Rightarrow> (r, ps)
      | None \<Rightarrow>
          let (n, ps') = NewBackService (rt_productName r) service (rt_verbose r) ps in
          (r\<lparr>rt_services := (rt_services r)(service \<mapsto> n)\<rparr>, ps'))"

text \<open>The loop over the services found: known ones are taken over, new ones created.\<close>

fun claim_services :: "string list \<Rightarrow> (string \<Rightarrow> nat option) \<Rightarrow> router \<Rightarrow> pstate \<Rightarrow>
    (string \<Rightarrow> nat option) \<times> router \<times> pstate" where
  "claim_services [] old r ps = (old, r, ps)"
| "claim_services (service # names) old r ps =
     (case old service of
        Some back \<Rightarrow>
          claim_services names (old(service := None))
            (r\<lparr>rt_services := (rt_services r)(service \<mapsto> back)\<rparr>) ps
      | None \<Rightarrow> let (r', ps') = addBackService service r ps in claim_services names old r' ps')"

fun stop_services :: "nat list \<Rightarrow> pstate \<Rightarrow> pstate outcome" where
  "stop_services [] ps = Ret ps"
| "stop_services (s # ss) ps = obind (BackService_Stop s ps) (stop_services ss)"

text \<open>
  One round of the goroutine of \<open>WatchServices\<close> after a successful read of the directory;
  \<open>order\<close> is the order in which it visits the services that are left over.
\<close>

definition WatchServices_round :: "string list \<Rightarrow> string list \<Rightarrow> router \<Rightarrow> pstate \<Rightarrow>
    (router \<times> pstate) outcome" where
  "WatchServices_round names order r ps =
     (let (old, r', ps') = claim_services names (rt_services r) (r\<lparr>rt_services := Map.empty\<rparr>) ps in
      obind (stop_services (List.map_filter old order) ps') (\<lambda>ps''. Ret (r', ps'')))"

subsection \<open>Dispatch\<close>

lemma Dispatch_unknown:
  assumes "rt_services r (Service (reqs ps rid)) = None"
  shows "\<exists>ps' d. Router_Dispatch T now r rid ps = Ret (None, ps')
    \<and> reqs ps' = (reqs ps)(rid := (reqs ps rid)\<lparr>RespTypeId := EXCEPTION T, RespData := Some d\<rparr>)
    \<and> slice_bytes (pmem ps') d = msg_header T (ReqName (reqs ps rid)) (EXCEPTION T) (ReqSeqId (reqs ps rid)) @
        concat (WriteApplicationException T (UNKNOWN_APPLICATION_EXCEPTION T)
          (''Service: '' @ Service (reqs ps rid) @ '' Not Found'')) @ concat (WriteMessageEnd T) \<and> slice_ok (pmem ps') d
    \<and> conns ps' = conns ps \<and> svcs ps' = svcs ps"
proof -
  let ?r = "reqs ps rid"
  let ?msg = "''Service: '' @ Service ?r @ '' Not Found''"
  obtain d m where e: "exception_message T (pmem ps) 100 (ReqName ?r) (ReqSeqId ?r)
      (UNKNOWN_APPLICATION_EXCEPTION T) ?msg = (d, m)"
    by (cases "exception_message T (pmem ps) 100 (ReqName ?r) (ReqSeqId ?r) (UNKNOWN_APPLICATION_EXCEPTION T) ?msg")
  then have "Router_Dispatch T now r rid ps =
      Ret (None, (set_req rid (?r\<lparr>RespTypeId := EXCEPTION T, RespData := Some d\<rparr>) ps)\<lparr>pmem := m\<rparr>)"
    using assms by (simp add: Router_Dispatch_def GetBackService_def GetServiceNotFoundData_def)
  then show ?thesis using exception_message_bytes [OF e] by auto
qed

lemma Dispatch_known:
  "rt_services r (Service (reqs ps rid)) = Some s \<Longrightarrow>
     Router_Dispatch T now r rid ps = BackService_HandleRequest T now s rid ps"
  by (simp add: Router_Dispatch_def GetBackService_def)

subsection \<open>Following the service directory\<close>

definition router_inv :: "router \<Rightarrow> pstate \<Rightarrow> bool" where
  "router_inv r ps \<longleftrightarrow>
     (\<forall>n s. rt_services r n = Some s \<longrightarrow> s < next_svc ps \<and> serviceName (svcs ps s) = n)"

lemma addBackService_spec:
  assumes inv: "proc_inv ps" and add: "addBackService service r ps = (r', ps')"
  shows "proc_inv ps' \<and> next_svc ps \<le> next_svc ps' \<and> (\<forall>s < next_svc ps. svcs ps' s = svcs ps s)
    \<and> conns ps' = conns ps \<and> (\<exists>s. rt_services r' = (rt_services r)(service \<mapsto> s)
        \<and> (rt_services r service = Some s \<or> rt_services r service = None \<and> s = next_svc ps \<and> s < next_svc ps'
            \<and> serviceName (svcs ps' s) = service))"
proof (cases "rt_services r service")
  case None
  obtain n ps1 where new: "NewBackService (rt_productName r) service (rt_verbose r) ps = (n, ps1)"
    by (cases "NewBackService (rt_productName r) service (rt_verbose r) ps")
  then show ?thesis using NewBackService_proc [OF inv new] add None by (auto simp: addBackService_def)
next
  case (Some s)
  then show ?thesis using add inv by (auto simp: addBackService_def fun_upd_idem)
qed

text \<open>
  The loop's effect, by its two maps: the services found are in the new map, with their old
  identity if they had one, and what remains of the old map are the services not found.
\<close>

lemma claim_services_spec:
  assumes "proc_inv ps" and "claim_services names old r ps = (old', r', ps')"
    and "\<And>n s. rt_services r n = Some s \<or> old n = Some s \<Longrightarrow> s < next_svc ps \<and> serviceName (svcs ps s) = n"
    and "\<And>n. rt_services r n \<noteq> None \<Longrightarrow> old n = None"
  shows "proc_inv ps' \<and> next_svc ps \<le> next_svc ps' \<and> (\<forall>s < next_svc ps. svcs ps' s = svcs ps s)
    \<and> conns ps' = conns ps \<and> old' = (\<lambda>n. if n \<in> set names then None else old n)
    \<and> dom (rt_services r') = dom (rt_services r) \<union> set names
    \<and> (\<forall>n s. rt_services r n = Some s \<longrightarrow> rt_services r' n = Some s)
    \<and> (\<forall>n \<in> set names. \<forall>s. old n = Some s \<longrightarrow> rt_services r' n = Some s)
    \<and> router_inv r' ps'"
  using assms
proof (induction names arbitrary: old r ps)
  case Nil
  then show ?case by (auto simp: router_inv_def)
next
  case (Cons a names)
  show ?case
  proof (cases "old a")
    case (Some b)
    let ?r = "r\<lparr>rt_services := (rt_services r)(a \<mapsto> b)\<rparr>"
    have step: "claim_services names (old(a := None)) ?r ps = (old', r', ps')"
      using Cons.prems(2) Some by simp
    have ok: "s < next_svc ps \<and> serviceName (svcs ps s) = n"
      if "rt_services ?r n = Some s \<or> (old(a := None)) n = Some s" for n s
      using that Cons.prems(3) [of n s] Cons.prems(3) [of a b] Some by (auto split: if_splits)
    have ex: "(old(a := None)) n = None" if "rt_services ?r n \<noteq> None" for n
      using that Cons.prems(4) [of n] by (auto split: if_splits)
    have ra: "rt_services r a = None" using Cons.prems(4) [of a] Some by (cases "rt_services r a") auto
    note IH = Cons.IH [OF Cons.prems(1) step ok ex]
    have "rt_services ?r a = Some b" by simp
    then have "rt_services r' a = Some b" using IH by blast
    moreover have "rt_services r' n = Some s" if "rt_services r n = Some s" for n s
      using IH that ra by (cases "n = a") auto
    ultimately show ?thesis using IH Some by (auto split: if_splits)
  next
    case None
    obtain r1 ps1 where ad: "addBackService a r ps = (r1, ps1)" by (cases "addBackService a r ps")
    have step: "claim_services names old r1 ps1 = (old', r', ps')" using Cons.prems(2) None ad by simp
    note A = addBackService_spec [OF Cons.prems(1) ad]
    then obtain sa where sa: "rt_services r1 = (rt_services r)(a \<mapsto> sa)"
      "rt_services r a = Some sa \<or> rt_services r a = None \<and> sa = next_svc ps \<and> sa < next_svc ps1
        \<and> serviceName (svcs ps1 sa) = a" by blast
    have ok: "s < next_svc ps1 \<and> serviceName (svcs ps1 s) = n"
      if "rt_services r1 n = Some s \<or> old n = Some s" for n s
    proof (cases "rt_services r n = Some s \<or> old n = Some s")
      case True
      then show ?thesis using Cons.prems(3) [OF True] A by simp
    next
      case False
      then have "n = a" "s = sa" "rt_services r a \<noteq> Some sa" using that sa(1) by (auto split: if_splits)
      then show ?thesis using sa(2) by auto
    qed
    have ex: "old n = None" if "rt_services r1 n \<noteq> None" for n
      using that sa(1) Cons.prems(4) [of n] None by (auto split: if_splits)
    have inv1: "proc_inv ps1" using A by blast
    note IH = Cons.IH [OF inv1 step ok ex]
    have "rt_services r' n = Some s" if "rt_services r n = Some s" for n s
      using IH sa that by (cases "n = a") auto
    moreover have "\<forall>s < next_svc ps. svcs ps' s = svcs ps s" "next_svc ps \<le> next_svc ps'" "conns ps' = conns ps"
      using IH A by auto
    moreover have "dom (rt_services r') = dom (rt_services r) \<union> set (a # names)" using IH sa(1) by auto
    moreover have "old' = (\<lambda>n. if n \<in> set (a # names) then None else old n)" using IH None by auto
    moreover have "\<forall>n \<in> set (a # names). \<forall>s. old n = Some s \<longrightarrow> rt_services r' n = Some s" using IH None by simp
    ultimately show ?thesis using IH by blast
  qed
qed

lemma stop_services_spec:
  assumes "distinct ss" and "\<forall>s \<in> set ss. evtbus (svcs ps s) < EVTBUS_CAP"
  shows "\<exists>ps'. stop_services ss ps = Ret ps' \<and> conns ps' = conns ps \<and> next_conn ps' = next_conn ps
    \<and> next_svc ps' = next_svc ps \<and> (\<forall>s. svcs ps' s = (if s \<in> set ss
        then (svcs ps s)\<lparr>svc_stop := True, evtbus := evtbus (svcs ps s) + 1\<rparr> else svcs ps s))"
  using assms
proof (induction ss arbitrary: ps)
  case Nil
  then show ?case by simp
next
  case (Cons s ss)
  define ps1 where "ps1 = upd_svc s (\<lambda>v. v\<lparr>evtbus := evtbus v + 1\<rparr>) (upd_svc s (\<lambda>v. v\<lparr>svc_stop := True\<rparr>) ps)"
  have st: "BackService_Stop s ps = Ret ps1"
    using Cons.prems(2) by (simp add: BackService_Stop_def ps1_def Let_def)
  have sel: "conns ps1 = conns ps" "next_conn ps1 = next_conn ps" "next_svc ps1 = next_svc ps"
    "svcs ps1 = (svcs ps)(s := (svcs ps s)\<lparr>svc_stop := True, evtbus := evtbus (svcs ps s) + 1\<rparr>)"
    by (simp_all add: ps1_def)
  have "distinct ss" "\<forall>q \<in> set ss. evtbus (svcs ps1 q) < EVTBUS_CAP"
    using Cons.prems sel(4) by auto
  from Cons.IH [OF this] show ?case using st sel Cons.prems(1) by auto
qed

lemma proc_inv_svc_flags:
  assumes inv: "proc_inv ps" and cn: "conns ps' = conns ps" "next_conn ps' = next_conn ps" "next_svc ps' = next_svc ps"
    and sv: "\<And>s. activeConns (svcs ps' s) = activeConns (svcs ps s) \<and> addr2Conn (svcs ps' s) = addr2Conn (svcs ps s)"
  shows "proc_inv ps'"
proof -
  have "pool_inv s ps'" if "s < next_svc ps" for s
    by (rule pool_inv_addr2Conn [OF proc_invD(1) [OF inv that]])
      (use pool_invD(6) [OF proc_invD(1) [OF inv that]] sv [of s] cn in simp_all)
  then show ?thesis using inv cn by (simp add: proc_inv_def chan_inv_def)
qed

lemma WatchServices_round_spec:
  assumes inv: "proc_inv ps" and rinv: "router_inv r ps"
    and order: "distinct order" "set order = dom (rt_services r) - set names"
    and room: "\<And>n s. rt_services r n = Some s \<Longrightarrow> n \<notin> set names \<Longrightarrow> evtbus (svcs ps s) < EVTBUS_CAP"
  shows "\<exists>r' ps'. WatchServices_round names order r ps = Ret (r', ps') \<and> proc_inv ps' \<and> router_inv r' ps'
    \<and> dom (rt_services r') = set names
    \<and> (\<forall>n \<in> set names. \<forall>s. rt_services r n = Some s \<longrightarrow> rt_services r' n = Some s)
    \<and> (\<forall>n s. rt_services r n = Some s \<longrightarrow> svc_stop (svcs ps' s) = (svc_stop (svcs ps s) \<or> n \<notin> set names))
    \<and> conns ps' = conns ps"
proof -
  obtain old r' ps1 where cl: "claim_services names (rt_services r) (r\<lparr>rt_services := Map.empty\<rparr>) ps = (old, r', ps1)"
    by (cases "claim_services names (rt_services r) (r\<lparr>rt_services := Map.empty\<rparr>) ps")
  have C: "proc_inv ps1 \<and> next_svc ps \<le> next_svc ps1 \<and> (\<forall>s < next_svc ps. svcs ps1 s = svcs ps s)
    \<and> conns ps1 = conns ps \<and> old = (\<lambda>n. if n \<in> set names then None else rt_services r n)
    \<and> dom (rt_services r') = set names
    \<and> (\<forall>n \<in> set names. \<forall>s. rt_services r n = Some s \<longrightarrow> rt_services r' n = Some s) \<and> router_inv r' ps1"
    using claim_services_spec [OF inv cl] rinv by (auto simp: router_inv_def)
  have lt: "s < next_svc ps" "serviceName (svcs ps s) = n" if "rt_services r n = Some s" for n s
    using rinv that by (auto simp: router_inv_def)
  have "map_order old order" using order C by (auto simp: map_order_def dom_def)
  moreover have "x = y" if "rt_services r x = Some v" "rt_services r y = Some v" for x y v
    using lt(2) [OF that(1)] lt(2) [OF that(2)] by simp
  then have "inj_on old (dom old)"
    using C by (auto simp: inj_on_def dom_def split: if_splits)
  ultimately have ss: "set (List.map_filter old order) = ran old" "distinct (List.map_filter old order)"
    using map_order_range by auto
  have ran: "s \<in> ran old \<longleftrightarrow> (\<exists>n. rt_services r n = Some s \<and> n \<notin> set names)" for s
    using C by (auto simp: ran_def split: if_splits)
  have "\<forall>s \<in> set (List.map_filter old order). evtbus (svcs ps1 s) < EVTBUS_CAP"
    using ss(1) ran room lt(1) C by auto
  from stop_services_spec [OF ss(2) this] obtain ps' where st: "stop_services (List.map_filter old order) ps1 = Ret ps'"
    and cn: "conns ps' = conns ps1" "next_conn ps' = next_conn ps1" "next_svc ps' = next_svc ps1"
    and sv: "\<And>s. svcs ps' s = (if s \<in> ran old
        then (svcs ps1 s)\<lparr>svc_stop := True, evtbus := evtbus (svcs ps1 s) + 1\<rparr> else svcs ps1 s)"
    using ss(1) by auto
  have "proc_inv ps1" using C by blast
  then have "proc_inv ps'" by (rule proc_inv_svc_flags) (use cn sv in simp_all)
  moreover have "router_inv r' ps'" using C cn(3) sv by (auto simp: router_inv_def)
  moreover have "svc_stop (svcs ps' s) = (svc_stop (svcs ps s) \<or> n \<notin> set names)" if "rt_services r n = Some s" for n s
  proof -
    have "s \<in> ran old \<longleftrightarrow> n \<notin> set names"
      using ran [of s] that lt(2) by metis
    then show ?thesis using sv [of s] C lt(1) [OF that] by auto
  qed
  moreover have "WatchServices_round names order r ps = Ret (r', ps')"
    using cl st by (simp add: WatchServices_round_def)
  ultimately show ?thesis using C cn(1) by (intro exI [of _ r'] exI [of _ ps']) simp
qed

end
