(* ===== verification/Backend_Conn_LB.thy ===== *)
theory Backend_Conn_LB
  imports Pending Conn_Pool
begin

text \<open>
  \<open>proxy/backend_conn_lb.go\<close> and \<open>proxy/backend_service_lb.go\<close>: the load balancer's
  connections to its workers and the array it keeps them in. The layout follows the proxy's
  side; where the two programs differ, so do the definitions.
\<close>

subsection \<open>State\<close>

record backend_conn_lb =
  lb_addr4Log :: string
  lb_serviceName :: string
  lb_input :: "nat list"
  lb_input_closed :: bool
  lb_seqNum2Request :: "int32 \<Rightarrow> nat option"
  lb_currentSeqId :: int32
  lb_Index :: int
  lb_delegate :: bool
  lb_verbose :: bool
  lb_IsConnActive :: bool
  lb_hbLastTime :: int

record back_service_lb =
  lbs_serviceName :: string
  lbs_backendAddr :: string
  lbs_activeConns :: "nat list"
  lbs_currentConnIndex :: nat
  lbs_verbose :: bool

record lstate = heap +
  lconns :: "nat \<Rightarrow> backend_conn_lb"
  next_lconn :: nat
  lbs :: back_service_lb

definition upd_lconn :: "nat \<Rightarrow> (backend_conn_lb \<Rightarrow> backend_conn_lb) \<Rightarrow> lstate \<Rightarrow> lstate" where
  "upd_lconn c f ls = ls\<lparr>lconns := (lconns ls)(c := f (lconns ls c))\<rparr>"

definition upd_lbs :: "(back_service_lb \<Rightarrow> back_service_lb) \<Rightarrow> lstate \<Rightarrow> lstate" where
  "upd_lbs g ls = ls\<lparr>lbs := g (lbs ls)\<rparr>"

definition NewBackServiceLB :: "string \<Rightarrow> string \<Rightarrow> bool \<Rightarrow> back_service_lb" where
  "NewBackServiceLB service addr verbose =
     \<lparr>lbs_serviceName = service, lbs_backendAddr = addr, lbs_activeConns = [], lbs_currentConnIndex = 0,
      lbs_verbose = verbose\<rparr>"

definition NewBackendConnLB :: "string \<Rightarrow> string \<Rightarrow> bool \<Rightarrow> bool \<Rightarrow> lstate \<Rightarrow> nat \<times> lstate" where
  "NewBackendConnLB service addr delegate verbose ls =
     (next_lconn ls,
      ls\<lparr>lconns := (lconns ls)(next_lconn ls :=
           \<lparr>lb_addr4Log = addr, lb_serviceName = service, lb_input = [], lb_input_closed = False,
            lb_seqNum2Request = Map.empty, lb_currentSeqId = BACKEND_CONN_MIN_SEQ_ID,
            lb_Index = INVALID_ARRAY_INDEX, lb_delegate = delegate, lb_verbose = verbose,
            lb_IsConnActive = True, lb_hbLastTime = 0\<rparr>),
         next_lconn := Suc (next_lconn ls)\<rparr>)"

text \<open>The process of the load balancer before the first worker connects.\<close>

definition empty_lstate :: "string \<Rightarrow> string \<Rightarrow> bool \<Rightarrow> lstate" where
  "empty_lstate service addr verbose =
     \<lparr>pmem = empty_memory, reqs = (\<lambda>_. zero_request), next_req = 0,
      lconns = (\<lambda>_. \<lparr>lb_addr4Log = [], lb_serviceName = [], lb_input = [], lb_input_closed = False,
        lb_seqNum2Request = Map.empty, lb_currentSeqId = 0, lb_Index = 0, lb_delegate = False,
        lb_verbose = False, lb_IsConnActive = False, lb_hbLastTime = 0\<rparr>),
      next_lconn = 0, lbs = NewBackServiceLB service addr verbose\<rparr>"

subsection \<open>The array of workers\<close>

text \<open>An accepted worker is added at once (the goroutine of \<open>run\<close> that ranges over \<open>s.ch\<close>).\<close>

definition BackServiceLB_append :: "nat \<Rightarrow> lstate \<Rightarrow> lstate" where
  "BackServiceLB_append c ls =
     upd_lbs (\<lambda>v. v\<lparr>lbs_activeConns := lbs_activeConns v @ [c]\<rparr>)
       (upd_lconn c (\<lambda>b. b\<lparr>lb_Index := int (length (lbs_activeConns (lbs ls)))\<rparr>) ls)"

definition BackServiceLB_accept :: "string \<Rightarrow> lstate \<Rightarrow> lstate" where
  "BackServiceLB_accept addr ls =
     (let (c, ls1) = NewBackendConnLB (lbs_serviceName (lbs ls)) addr True (lbs_verbose (lbs ls)) ls in
      BackServiceLB_append c ls1)"

definition BackServiceLB_Active :: "lstate \<Rightarrow> nat" where
  "BackServiceLB_Active ls = length (lbs_activeConns (lbs ls))"

definition BackServiceLB_nextBackendConn :: "lstate \<Rightarrow> nat option \<times> lstate" where
  "BackServiceLB_nextBackendConn ls =
     (let v = lbs ls in
      if length (lbs_activeConns v) = 0 then (None, ls)
      else let i = (if lbs_currentConnIndex v \<ge> length (lbs_activeConns v) then 0 else lbs_currentConnIndex v) in
           (Some (lbs_activeConns v ! i), upd_lbs (\<lambda>v. v\<lparr>lbs_currentConnIndex := i + 1\<rparr>) ls))"

text \<open>The index of the connection is reset only when it was not the last of the array.\<close>

definition BackServiceLB_StateChanged :: "nat \<Rightarrow> lstate \<Rightarrow> lstate outcome" where
  "BackServiceLB_StateChanged c ls =
     (let act = lbs_activeConns (lbs ls); conn = lconns ls c in
      if lb_IsConnActive conn then
        (if lbs_verbose (lbs ls) then Panic (PanicMsg ''Unexpected BackendConnLB State'') else Ret ls)
      else if lb_Index conn \<noteq> INVALID_ARRAY_INDEX then
        let lastIndex = int (length act) - 1 in
        obind (if lastIndex \<noteq> lb_Index conn
               then obind (go_get act lastIndex) (\<lambda>lastConn.
                    obind (go_set act (lb_Index conn) lastConn) (\<lambda>act1.
                    obind (go_get act1 lastIndex) (\<lambda>_.
                    Ret (act1, upd_lconn c (\<lambda>b. b\<lparr>lb_Index := INVALID_ARRAY_INDEX\<rparr>)
                      (upd_lconn lastConn (\<lambda>b. b\<lparr>lb_Index := lb_Index conn\<rparr>) ls)))))
               else Ret (act, ls)) (\<lambda>(act1, ls1).
        obind (go_prefix act1 lastIndex) (\<lambda>act2.
        Ret (upd_lbs (\<lambda>v. v\<lparr>lbs_activeConns := act2\<rparr>) ls1)))
      else Ret ls)"

definition BackendConnLB_MarkConnActiveFalse :: "nat \<Rightarrow> lstate \<Rightarrow> lstate outcome" where
  "BackendConnLB_MarkConnActiveFalse c ls =
     (let ls1 = upd_lconn c (\<lambda>b. b\<lparr>lb_IsConnActive := False\<rparr>) ls in
      if lb_IsConnActive (lconns ls c) \<and> lb_delegate (lconns ls c)
      then BackServiceLB_StateChanged c ls1 else Ret ls1)"

subsection \<open>Requests and responses\<close>

definition BackendConnLB_PushBack :: "nat \<Rightarrow> nat \<Rightarrow> lstate \<Rightarrow> lstate outcome" where
  "BackendConnLB_PushBack c rid ls =
     (let r = wait_add ((reqs ls rid)\<lparr>Service := lb_serviceName (lconns ls c)\<rparr>);
          ls1 = set_req rid r ls in
      if lb_input_closed (lconns ls1 c) then Panic SendOnClosedChannel
      else if length (lb_input (lconns ls1 c)) \<ge> CHAN_CAP then Block
      else Ret (upd_lconn c (\<lambda>b. b\<lparr>lb_input := lb_input b @ [rid]\<rparr>) ls1))"

definition BackendConnLB_IncreaseCurrentSeqId :: "backend_conn_lb \<Rightarrow> backend_conn_lb" where
  "BackendConnLB_IncreaseCurrentSeqId b =
     (let c = lb_currentSeqId b + 1 in
      b\<lparr>lb_currentSeqId :=
          (if sint c > sint BACKEND_CONN_MAX_SEQ_ID then BACKEND_CONN_MIN_SEQ_ID else c)\<rparr>)"

definition lb_store :: "int32 \<Rightarrow> nat \<Rightarrow> backend_conn_lb \<Rightarrow> backend_conn_lb" where
  "lb_store key rid b =
     (BackendConnLB_IncreaseCurrentSeqId b)
       \<lparr>lb_seqNum2Request := (lb_seqNum2Request b)(key \<mapsto> rid)\<rparr>"

definition lb_take :: "backend_conn_lb \<Rightarrow> int32 \<Rightarrow> nat option \<times> backend_conn_lb" where
  "lb_take b key =
     (lb_seqNum2Request b key,
      b\<lparr>lb_seqNum2Request := (lb_seqNum2Request b)(key := None)\<rparr>)"

text \<open>A worker that is about to stop says so with a message of type \<open>MESSAGE_TYPE_STOP\<close>.\<close>

definition BackendConnLB_setResponse :: "thrift_lib \<Rightarrow> int \<Rightarrow> nat \<Rightarrow> nat option \<Rightarrow> slice option \<Rightarrow>
    go_error option \<Rightarrow> lstate \<Rightarrow> (go_error option \<times> lstate) outcome" where
  "BackendConnLB_setResponse T now c r data err ls =
     (case data of
        None \<Rightarrow> (case r of None \<Rightarrow> Panic NilDereference | Some rid \<Rightarrow> finish_in T rid None err ls)
      | Some d \<Rightarrow>
          let (typeId, seqId, derr) = DecodeThriftTypIdSeqId T (pmem ls) d in
          case derr of
            Some e \<Rightarrow> Ret (Some e, ls)
          | None \<Rightarrow>
              if typeId = MESSAGE_TYPE_STOP
              then obind (BackendConnLB_MarkConnActiveFalse c ls) (\<lambda>ls1. Ret (None, ls1))
              else
              let (req, b) = lb_take (lconns ls c) seqId;
                  ls1 = upd_lconn c (\<lambda>_. b) ls in
              if typeId = MESSAGE_TYPE_HEART_BEAT
              then Ret (None, upd_lconn c (\<lambda>b. b\<lparr>lb_hbLastTime := now\<rparr>) ls1)
              else case req of
                     None \<Rightarrow> Ret (Some (ErrorString ''Invalid Response''), ls1)
                   | Some rid \<Rightarrow>
                       finish_in T rid data err
                         (set_req rid ((reqs ls1 rid)\<lparr>RespTypeId := typeId\<rparr>) ls1))"

text \<open>Heartbeats are dropped silently; nobody may send to this connection afterwards.\<close>

definition BackendConnLB_flushRequests :: "nat \<Rightarrow> go_error \<Rightarrow> int32 list \<Rightarrow> lstate \<Rightarrow> lstate outcome" where
  "BackendConnLB_flushRequests c err keys ls =
     obind (BackendConnLB_MarkConnActiveFalse c ls) (\<lambda>ls1.
       let seqRequest = lb_seqNum2Request (lconns ls1 c);
           ls2 = upd_lconn c (\<lambda>b. b\<lparr>lb_seqNum2Request := Map.empty\<rparr>) ls1 in
       obind (fail_requests err (filter (\<lambda>rid. ReqTypeId (reqs ls2 rid) \<noteq> MESSAGE_TYPE_HEART_BEAT)
                (List.map_filter seqRequest keys)) (reqs ls2)) (\<lambda>rs.
       if lb_input_closed (lconns ls2 c) then Panic CloseOfClosedChannel
       else Ret ((upd_lconn c (\<lambda>b. b\<lparr>lb_input_closed := True\<rparr>) ls2)\<lparr>reqs := rs\<rparr>)))"

subsection \<open>The reader\<close>

definition BackendConnLB_loopReader_turn :: "thrift_lib \<Rightarrow> int \<Rightarrow> nat \<Rightarrow> int32 list \<Rightarrow> 'n framed \<Rightarrow>
    lstate \<Rightarrow> (loop_exit \<times> 'n framed \<times> lstate) outcome" where
  "BackendConnLB_loopReader_turn T now c keys p ls =
     obind (ReadFrame T (pmem ls) p) (\<lambda>(res, m, p1).
     let ls1 = ls\<lparr>pmem := m\<rparr> in
     case res of
       Inl e \<Rightarrow> obind (BackendConnLB_flushRequests c e keys ls1) (\<lambda>ls2. Ret (Return None, p1, ls2))
     | Inr frame \<Rightarrow>
         obind (BackendConnLB_setResponse T now c None (Some frame) None ls1) (\<lambda>(_, ls2).
         Ret (Continue, p1, ls2)))"

subsection \<open>The writer\<close>

definition BackendConnLB_loopWriter_turn :: "thrift_lib \<Rightarrow> 'n net \<Rightarrow> int \<Rightarrow> int \<Rightarrow> nat \<Rightarrow> 'n framed \<Rightarrow>
    lstate \<Rightarrow> (loop_exit \<times> 'n framed \<times> lstate) outcome" where
  "BackendConnLB_loopWriter_turn T net now nano c p ls =
     (case lb_input (lconns ls c) of
        [] \<Rightarrow> if lb_input_closed (lconns ls c) then Ret (Return None, p, ls) else Block
      | rid # rest \<Rightarrow>
          let ls0 = upd_lconn c (\<lambda>b. b\<lparr>lb_input := rest\<rparr>) ls in
          if ReqTypeId (reqs ls0 rid) = MESSAGE_TYPE_HEART_BEAT \<and> now - Start (reqs ls0 rid) > 4
          then Ret (Continue, p, ls0)
          else
          let flush = (length (lb_input (lconns ls0 c)) = 0) in
          obind (write_request T net nano (lb_currentSeqId (lconns ls0 c)) flush rid p ls0) (\<lambda>(err, p1, ls1).
               case err of
                 None \<Rightarrow> Ret (Continue, p1, upd_lconn c (lb_store (RespSeqId (reqs ls1 rid)) rid) ls1)
               | Some e \<Rightarrow>
                   obind (BackendConnLB_setResponse T now c (Some rid) None (Some e) ls1) (\<lambda>(e', ls2).
                   Ret (Return e', p1, ls2))))"

definition BackendConnLB_hb_timeout_error :: go_error where
  "BackendConnLB_hb_timeout_error = ErrorString ''HB timeout''"

fun BackendConnLB_drain :: "thrift_lib \<Rightarrow> int \<Rightarrow> nat \<Rightarrow> go_error \<Rightarrow> nat \<Rightarrow> lstate \<Rightarrow> lstate outcome" where
  "BackendConnLB_drain T now c err 0 ls = Ret ls"
| "BackendConnLB_drain T now c err (Suc i) ls =
     (case lb_input (lconns ls c) of
        [] \<Rightarrow> if lb_input_closed (lconns ls c) then Panic NilDereference else Block
      | rid # rest \<Rightarrow>
          obind (BackendConnLB_setResponse T now c (Some rid) None (Some err)
                   (upd_lconn c (\<lambda>b. b\<lparr>lb_input := rest\<rparr>) ls)) (\<lambda>(_, ls1).
          BackendConnLB_drain T now c err i ls1))"

text \<open>The rest of \<open>Run\<close> once the writer has returned.\<close>

definition BackendConnLB_after_writer :: "thrift_lib \<Rightarrow> int \<Rightarrow> nat \<Rightarrow> go_error option \<Rightarrow> lstate \<Rightarrow> lstate outcome" where
  "BackendConnLB_after_writer T now c err ls =
     obind (BackendConnLB_MarkConnActiveFalse c ls) (\<lambda>ls1.
       case err of
         None \<Rightarrow> Ret ls1
       | Some e \<Rightarrow> BackendConnLB_drain T now c e (length (lb_input (lconns ls1 c))) ls1)"

definition BackendConnLB_hb_tick :: "thrift_lib \<Rightarrow> int \<Rightarrow> nat \<Rightarrow> lstate \<Rightarrow> (hb_action \<times> lstate) outcome" where
  "BackendConnLB_hb_tick T now c ls =
     (if now - lb_hbLastTime (lconns ls c) > HB_TIMEOUT then Ret (HbTimeout, ls)
      else if lb_IsConnActive (lconns ls c) then
        let (r, m) = NewPingRequest T (pmem ls) now;
            (rid, ls1) = new_req r (ls\<lparr>pmem := m\<rparr>) in
        obind (BackendConnLB_PushBack c rid ls1) (\<lambda>ls2. Ret (HbPing, ls2))
      else Ret (HbStop, ls))"

subsection \<open>Dispatch\<close>

text \<open>
  \<open>Dispatch\<close> up to its \<open>r.Wait.Wait()\<close>, with the connection it waits for, if any; and the
  wait, which goes on only when the counter is zero.
\<close>

definition BackServiceLB_Dispatch :: "thrift_lib \<Rightarrow> nat \<Rightarrow> lstate \<Rightarrow> (nat option \<times> lstate) outcome" where
  "BackServiceLB_Dispatch T rid ls =
     (let (backendConn, ls1) = BackServiceLB_nextBackendConn ls;
          ls2 = set_req rid ((reqs ls1 rid)\<lparr>Service := lbs_serviceName (lbs ls1)\<rparr>) ls1 in
      case backendConn of
        None \<Rightarrow>
          let (errMsg, r, m) = GetWorkerNotFoundData T (pmem ls2) (reqs ls2 rid) ''BackServiceLB'' in
          Ret (None, (set_req rid (r\<lparr>RespData := Some errMsg\<rparr>) ls2)\<lparr>pmem := m\<rparr>)
      | Some c \<Rightarrow> obind (BackendConnLB_PushBack c rid ls2) (\<lambda>ls3. Ret (Some c, ls3)))"

end
