(* ===== verification/Backend_Conn_LB_Correct.thy ===== *)
theory Backend_Conn_LB_Correct
  imports Backend_Conn_LB
begin

text \<open>
  Correctness of the load balancer's connections and of its array of workers. The array and
  the table of sent requests satisfy the same contracts as the proxy's; removal is correct as
  long as it happens once per connection, and is not when it happens twice.
\<close>

lemma lupd_sel [simp]:
  "lconns (upd_lconn c f ls) = (lconns ls)(c := f (lconns ls c))" "reqs (upd_lconn c f ls) = reqs ls"
  "pmem (upd_lconn c f ls) = pmem ls" "lbs (upd_lconn c f ls) = lbs ls"
  "next_lconn (upd_lconn c f ls) = next_lconn ls" "next_req (upd_lconn c f ls) = next_req ls"
  "lconns (upd_lbs g ls) = lconns ls" "reqs (upd_lbs g ls) = reqs ls" "pmem (upd_lbs g ls) = pmem ls"
  "lbs (upd_lbs g ls) = g (lbs ls)" "next_lconn (upd_lbs g ls) = next_lconn ls"
  "next_req (upd_lbs g ls) = next_req ls"
  "lconns (set_req rid r ls) = lconns ls" "lbs (set_req rid r ls) = lbs ls"
  "next_lconn (set_req rid r ls) = next_lconn ls"
  by (simp_all add: upd_lconn_def upd_lbs_def set_req_def)

subsection \<open>The table of sent requests\<close>

lemma lb_store_sel [simp]:
  "lb_seqNum2Request (lb_store k rid b) = (lb_seqNum2Request b)(k \<mapsto> rid)"
  "lb_currentSeqId (lb_store k rid b) = next_seq_id (lb_currentSeqId b)"
  "lb_input (lb_store k rid b) = lb_input b"
  by (simp_all add: lb_store_def BackendConnLB_IncreaseCurrentSeqId_def next_seq_id_def Let_def)

lemma lb_take_sel [simp]:
  "fst (lb_take b k) = lb_seqNum2Request b k"
  "lb_seqNum2Request (snd (lb_take b k)) = (lb_seqNum2Request b)(k := None)"
  "lb_currentSeqId (snd (lb_take b k)) = lb_currentSeqId b"
  "lb_input (snd (lb_take b k)) = lb_input b"
  by (simp_all add: lb_take_def)

interpretation lb_table: seq_table lb_seqNum2Request lb_currentSeqId
    "\<lambda>b rid. lb_store (lb_currentSeqId b) rid b" lb_take
  by unfold_locales simp_all

subsection \<open>The array of workers\<close>

lemma LB_StateChanged_remove:
  assumes na: "\<not> lb_IsConnActive (lconns ls c)" and i: "i < length (lbs_activeConns (lbs ls))"
    and idx: "lb_Index (lconns ls c) = int i"
  shows "\<exists>ls'. BackServiceLB_StateChanged c ls = Ret ls'
    \<and> lbs ls' = (lbs ls)\<lparr>lbs_activeConns := swap_remove (lbs_activeConns (lbs ls)) i\<rparr>
    \<and> (\<forall>d. lconns ls' d = (lconns ls d)\<lparr>lb_Index :=
          (if i = length (lbs_activeConns (lbs ls)) - 1 then lb_Index (lconns ls d)
           else if d = c then INVALID_ARRAY_INDEX
           else if d = last (lbs_activeConns (lbs ls)) then int i else lb_Index (lconns ls d))\<rparr>)
    \<and> reqs ls' = reqs ls \<and> pmem ls' = pmem ls \<and> next_lconn ls' = next_lconn ls"
proof -
  let ?a = "lbs_activeConns (lbs ls)"
  obtain n where n: "length ?a = Suc n" using i by (cases ?a) auto
  then have "?a \<noteq> []" by auto
  then have la: "last ?a = ?a ! n" using n by (simp add: last_conv_nth)
  have inv: "int i \<noteq> INVALID_ARRAY_INDEX" by (simp add: INVALID_ARRAY_INDEX_def)
  show ?thesis
  proof (cases "i = n")
    case True
    then have "swap_remove ?a i = take n ?a" using n la by (simp add: swap_remove_def)
    then have "BackServiceLB_StateChanged c ls = Ret (upd_lbs (\<lambda>v. v\<lparr>lbs_activeConns := swap_remove ?a i\<rparr>) ls)"
      using True na idx inv n by (simp add: BackServiceLB_StateChanged_def Let_def)
    then show ?thesis using True n by simp
  next
    case False
    then have "swap_remove ?a i = take n (?a[i := ?a ! n])" using n la by (simp add: swap_remove_def)
    then have "BackServiceLB_StateChanged c ls = Ret (upd_lbs (\<lambda>v. v\<lparr>lbs_activeConns := swap_remove ?a i\<rparr>)
        (upd_lconn c (\<lambda>b. b\<lparr>lb_Index := INVALID_ARRAY_INDEX\<rparr>)
          (upd_lconn (last ?a) (\<lambda>b. b\<lparr>lb_Index := int i\<rparr>) ls)))"
      using False na idx inv n i la by (simp add: BackServiceLB_StateChanged_def Let_def)
    then show ?thesis using False n by auto
  qed
qed

lemma LB_MarkConnActiveFalse_removes:
  assumes "lb_IsConnActive (lconns ls c)" and "lb_delegate (lconns ls c)"
    and "i < length (lbs_activeConns (lbs ls))" and "lb_Index (lconns ls c) = int i"
  shows "\<exists>ls'. BackendConnLB_MarkConnActiveFalse c ls = Ret ls'
    \<and> lbs ls' = (lbs ls)\<lparr>lbs_activeConns := swap_remove (lbs_activeConns (lbs ls)) i\<rparr>
    \<and> (\<exists>j. lconns ls' c = (lconns ls c)\<lparr>lb_IsConnActive := False, lb_Index := j\<rparr>)
    \<and> (\<forall>d. d \<noteq> c \<longrightarrow> lconns ls' d = (lconns ls d)\<lparr>lb_Index :=
          (if d = last (lbs_activeConns (lbs ls)) \<and> i \<noteq> length (lbs_activeConns (lbs ls)) - 1 then int i
           else lb_Index (lconns ls d))\<rparr>)
    \<and> reqs ls' = reqs ls \<and> pmem ls' = pmem ls \<and> next_lconn ls' = next_lconn ls"
proof -
  let ?ls = "upd_lconn c (\<lambda>b. b\<lparr>lb_IsConnActive := False\<rparr>) ls"
  let ?a = "lbs_activeConns (lbs ls)"
  obtain ls' where r: "BackServiceLB_StateChanged c ?ls = Ret ls'"
    and l: "lbs ls' = (lbs ls)\<lparr>lbs_activeConns := swap_remove ?a i\<rparr>"
    and d: "\<And>d. lconns ls' d = (lconns ?ls d)\<lparr>lb_Index :=
          (if i = length ?a - 1 then lb_Index (lconns ?ls d) else if d = c then INVALID_ARRAY_INDEX
           else if d = last ?a then int i else lb_Index (lconns ?ls d))\<rparr>"
    and f: "reqs ls' = reqs ls" "pmem ls' = pmem ls" "next_lconn ls' = next_lconn ls"
    using LB_StateChanged_remove [of ?ls c i] assms(3,4) by auto
  have "BackendConnLB_MarkConnActiveFalse c ls = Ret ls'"
    using assms(1,2) r by (simp add: BackendConnLB_MarkConnActiveFalse_def Let_def)
  moreover have "\<exists>j. lconns ls' c = (lconns ls c)\<lparr>lb_IsConnActive := False, lb_Index := j\<rparr>"
    by (rule exI [of _ "if i = length ?a - 1 then lb_Index (lconns ls c) else INVALID_ARRAY_INDEX"])
      (use d [of c] in simp)
  moreover have "lconns ls' x = (lconns ls x)\<lparr>lb_Index :=
      (if x = last ?a \<and> i \<noteq> length ?a - 1 then int i else lb_Index (lconns ls x))\<rparr>" if "x \<noteq> c" for x
    using d [of x] that by simp
  ultimately show ?thesis using l f by blast
qed

interpretation lbp: conn_pool "\<lambda>ls. lbs_activeConns (lbs ls)" "\<lambda>ls c. lb_Index (lconns ls c)"
    "\<lambda>ls. lbs_currentConnIndex (lbs ls)" "\<lambda>ls c. Ret (BackServiceLB_append c ls)"
    "\<lambda>ls c. BackendConnLB_MarkConnActiveFalse c ls" BackServiceLB_nextBackendConn
    "\<lambda>ls c. True" "\<lambda>ls c. lb_IsConnActive (lconns ls c) \<and> lb_delegate (lconns ls c)"
proof unfold_locales
  fix ls :: lstate and c
  show "\<exists>ls'. Ret (BackServiceLB_append c ls) = Ret ls'
      \<and> lbs_activeConns (lbs ls') = lbs_activeConns (lbs ls) @ [c]
      \<and> (\<lambda>d. lb_Index (lconns ls' d)) = (\<lambda>d. lb_Index (lconns ls d))(c := int (length (lbs_activeConns (lbs ls))))"
    by (auto simp: BackServiceLB_append_def fun_eq_iff)
next
  fix ls :: lstate and c i
  assume "lb_IsConnActive (lconns ls c) \<and> lb_delegate (lconns ls c)"
    "i < length (lbs_activeConns (lbs ls))" "lbs_activeConns (lbs ls) ! i = c" "lb_Index (lconns ls c) = int i"
  moreover from this have "c = last (lbs_activeConns (lbs ls))" if "i = length (lbs_activeConns (lbs ls)) - 1"
    using that by (cases "lbs_activeConns (lbs ls)" rule: rev_cases) auto
  ultimately show "\<exists>ls'. BackendConnLB_MarkConnActiveFalse c ls = Ret ls'
      \<and> lbs_activeConns (lbs ls') = swap_remove (lbs_activeConns (lbs ls)) i
      \<and> (\<forall>d. d \<noteq> c \<longrightarrow> lb_Index (lconns ls' d) =
           (if d = last (lbs_activeConns (lbs ls)) then int i else lb_Index (lconns ls d)))"
    using LB_MarkConnActiveFalse_removes [of ls c i] by auto
qed (auto simp: BackServiceLB_nextBackendConn_def rr_start_def Let_def)

text \<open>
  The invariant of the load balancer: the array holds exactly the active connections, each at
  its index. A connection that has left the array may keep a stale index.
\<close>

definition lb_inv :: "lstate \<Rightarrow> bool" where
  "lb_inv ls \<longleftrightarrow> lbp.indexed ls \<and> (\<forall>c < next_lconn ls. lb_delegate (lconns ls c)) \<and>
     (\<forall>c. c \<in> set (lbs_activeConns (lbs ls)) \<longleftrightarrow> c < next_lconn ls \<and> lb_IsConnActive (lconns ls c))"

lemma lb_inv_position:
  assumes "lb_inv ls" and "c < next_lconn ls" and "lb_IsConnActive (lconns ls c)"
  shows "\<exists>i < length (lbs_activeConns (lbs ls)). lbs_activeConns (lbs ls) ! i = c \<and> lb_Index (lconns ls c) = int i"
proof -
  have "c \<in> set (lbs_activeConns (lbs ls))" using assms by (simp add: lb_inv_def)
  moreover have "lbp.indexed ls" using assms(1) by (simp add: lb_inv_def)
  ultimately show ?thesis by (auto simp: in_set_conv_nth lbp.indexed_def)
qed

lemma LB_accept_inv:
  assumes inv: "lb_inv ls"
  shows "lb_inv (BackServiceLB_accept addr ls)
    \<and> lbs_activeConns (lbs (BackServiceLB_accept addr ls)) = lbs_activeConns (lbs ls) @ [next_lconn ls]
    \<and> (\<forall>c < next_lconn ls. lconns (BackServiceLB_accept addr ls) c = lconns ls c)"
proof -
  obtain ls1 where new: "NewBackendConnLB (lbs_serviceName (lbs ls)) addr True (lbs_verbose (lbs ls)) ls = (next_lconn ls, ls1)"
    and n: "next_lconn ls1 = Suc (next_lconn ls)" "lbs ls1 = lbs ls" "\<And>c. c \<noteq> next_lconn ls \<Longrightarrow> lconns ls1 c = lconns ls c"
      "lb_IsConnActive (lconns ls1 (next_lconn ls))" "lb_delegate (lconns ls1 (next_lconn ls))"
    by (auto simp: NewBackendConnLB_def)
  let ?c = "next_lconn ls" and ?a = "lbs_activeConns (lbs ls)"
  have nm: "?c \<notin> set ?a" using inv by (auto simp: lb_inv_def)
  have "lb_Index (lconns ls1 (?a ! i)) = lb_Index (lconns ls (?a ! i))" if "i < length ?a" for i
  proof -
    have "?a ! i \<noteq> ?c" using nm nth_mem [OF that] by auto
    then show ?thesis using n(3) by simp
  qed
  then have "lbp.indexed ls1" using inv n(2) by (simp add: lb_inv_def lbp.indexed_def)
  then have ix: "lbp.indexed (BackServiceLB_append ?c ls1)"
    using lbp.indexed_add [of ls1 ?c "BackServiceLB_append ?c ls1"] nm n(2) by simp
  have eq: "BackServiceLB_accept addr ls = BackServiceLB_append ?c ls1"
    using new by (simp add: BackServiceLB_accept_def)
  have sel: "lconns (BackServiceLB_append ?c ls1) d = (if d = ?c then (lconns ls1 d)\<lparr>lb_Index := int (length ?a)\<rparr> else lconns ls1 d)"
    "lbs_activeConns (lbs (BackServiceLB_append ?c ls1)) = ?a @ [?c]"
    "next_lconn (BackServiceLB_append ?c ls1) = Suc ?c" for d
    using n by (simp_all add: BackServiceLB_append_def)
  have "d \<in> set (?a @ [?c]) \<longleftrightarrow> d < Suc ?c \<and> lb_IsConnActive (lconns (BackServiceLB_append ?c ls1) d)" for d
    using inv n(3) [of d] n(4) by (cases "d = ?c") (auto simp: sel(1) lb_inv_def)
  moreover have "lb_delegate (lconns (BackServiceLB_append ?c ls1) d)" if "d < Suc ?c" for d
    using inv n(3) [of d] n(5) that by (cases "d = ?c") (auto simp: sel(1) lb_inv_def)
  ultimately have "lb_inv (BackServiceLB_append ?c ls1)"
    using ix sel(2,3) unfolding lb_inv_def by simp
  then show ?thesis using eq sel n(3) by simp
qed

lemma LB_MarkConnActiveFalse_inv:
  assumes inv: "lb_inv ls" and c: "c < next_lconn ls"
  shows "\<exists>ls'. BackendConnLB_MarkConnActiveFalse c ls = Ret ls' \<and> lb_inv ls'
    \<and> set (lbs_activeConns (lbs ls')) = set (lbs_activeConns (lbs ls)) - {c}
    \<and> reqs ls' = reqs ls \<and> pmem ls' = pmem ls \<and> next_lconn ls' = next_lconn ls
    \<and> (\<forall>d. \<exists>j. lconns ls' d = (lconns ls d)\<lparr>lb_IsConnActive := (d \<noteq> c \<and> lb_IsConnActive (lconns ls d)), lb_Index := j\<rparr>)"
proof (cases "lb_IsConnActive (lconns ls c)")
  case False
  let ?ls = "upd_lconn c (\<lambda>b. b\<lparr>lb_IsConnActive := False\<rparr>) ls"
  have same: "lconns ?ls d = lconns ls d" for d using False by (cases "d = c") auto
  have "lb_inv ?ls" using inv same by (simp add: lb_inv_def lbp.indexed_def)
  moreover have "c \<notin> set (lbs_activeConns (lbs ls))" using inv False by (simp add: lb_inv_def)
  moreover have "\<exists>j. lconns ?ls d = (lconns ls d)\<lparr>lb_IsConnActive := (d \<noteq> c \<and> lb_IsConnActive (lconns ls d)), lb_Index := j\<rparr>" for d
    by (rule exI [of _ "lb_Index (lconns ls d)"]) (use False same [of d] in \<open>cases "d = c"; simp\<close>)
  ultimately show ?thesis
    using False by (intro exI [of _ ?ls]) (simp add: BackendConnLB_MarkConnActiveFalse_def Let_def)
next
  case True
  let ?a = "lbs_activeConns (lbs ls)"
  have dl: "lb_delegate (lconns ls c)" using inv c by (simp add: lb_inv_def)
  obtain i where i: "i < length ?a" "?a ! i = c" "lb_Index (lconns ls c) = int i"
    using lb_inv_position [OF inv c True] by blast
  obtain ls' where r: "BackendConnLB_MarkConnActiveFalse c ls = Ret ls'"
    and cc: "\<exists>j. lconns ls' c = (lconns ls c)\<lparr>lb_IsConnActive := False, lb_Index := j\<rparr>"
    and cd: "\<And>d. d \<noteq> c \<Longrightarrow> \<exists>j. lconns ls' d = (lconns ls d)\<lparr>lb_Index := j\<rparr>"
    and f: "reqs ls' = reqs ls" "pmem ls' = pmem ls" "next_lconn ls' = next_lconn ls"
    using LB_MarkConnActiveFalse_removes [OF True dl i(1,3)] by blast
  have mem: "c \<in> set ?a" using i nth_mem by blast
  have ix: "lbp.indexed ls'" and st: "set (lbs_activeConns (lbs ls')) = set ?a - {c}"
    using lbp.indexed_remove [OF _ _ mem r] inv dl True by (auto simp: lb_inv_def)
  have sel: "\<exists>j. lconns ls' d = (lconns ls d)\<lparr>lb_IsConnActive := (d \<noteq> c \<and> lb_IsConnActive (lconns ls d)), lb_Index := j\<rparr>" for d
  proof (cases "d = c")
    case False
    then obtain j where "lconns ls' d = (lconns ls d)\<lparr>lb_Index := j\<rparr>" using cd by blast
    then show ?thesis using False by (intro exI [of _ j]) simp
  qed (use cc in simp)
  have "lb_IsConnActive (lconns ls' d) = (d \<noteq> c \<and> lb_IsConnActive (lconns ls d))
      \<and> lb_delegate (lconns ls' d) = lb_delegate (lconns ls d)" for d
    using sel [of d] by auto
  then have "lb_inv ls'" using inv ix st f(3) by (auto simp: lb_inv_def)
  then show ?thesis using r st f sel by blast
qed

text \<open>Any sequence of workers that connect, workers that fail or stop, and choices of a worker.\<close>

datatype lb_op = LbAccept string | LbFail nat | LbNext

fun lb_step :: "lb_op \<Rightarrow> lstate \<Rightarrow> lstate outcome" where
  "lb_step (LbAccept addr) ls = Ret (BackServiceLB_accept addr ls)"
| "lb_step (LbFail c) ls = (if c < next_lconn ls then BackendConnLB_MarkConnActiveFalse c ls else Ret ls)"
| "lb_step LbNext ls = Ret (snd (BackServiceLB_nextBackendConn ls))"

fun lb_run :: "lb_op list \<Rightarrow> lstate \<Rightarrow> lstate outcome" where
  "lb_run [] ls = Ret ls"
| "lb_run (op # ops) ls = obind (lb_step op ls) (lb_run ops)"

lemma LB_next_inv: "lb_inv ls \<Longrightarrow> lb_inv (snd (BackServiceLB_nextBackendConn ls))"
  by (auto simp: lb_inv_def lbp.indexed_def BackServiceLB_nextBackendConn_def Let_def)

lemma lb_step_inv:
  assumes "lb_inv ls"
  shows "\<exists>ls'. lb_step op ls = Ret ls' \<and> lb_inv ls'"
proof (cases op)
  case (LbFail c)
  then show ?thesis using LB_MarkConnActiveFalse_inv [OF assms, of c] assms by (cases "c < next_lconn ls") auto
qed (use LB_accept_inv [OF assms] LB_next_inv [OF assms] in auto)

lemma lb_inv_empty: "lb_inv (empty_lstate service addr verbose)"
  by (simp add: lb_inv_def lbp.indexed_def empty_lstate_def NewBackServiceLB_def)

lemma lb_run_inv: "lb_inv ls \<Longrightarrow> \<exists>ls'. lb_run ops ls = Ret ls' \<and> lb_inv ls'"
proof (induction ops arbitrary: ls)
  case Nil
  then show ?case by simp
next
  case (Cons op ops)
  then obtain ls1 where "lb_step op ls = Ret ls1" "lb_inv ls1" using lb_step_inv by blast
  then show ?case using Cons.IH by simp
qed



subsection \<open>Removal twice\<close>

definition demo_ls :: lstate where
  "demo_ls = (case lb_run [LbAccept ''w:1'', LbAccept ''w:2''] (empty_lstate ''math'' ''lb:1'' False) of
     Ret ls \<Rightarrow> ls | _ \<Rightarrow> empty_lstate [] [] False)"

lemma demo_ls_inv [simp]: "lb_inv demo_ls" "next_lconn demo_ls = 2" "lbs_activeConns (lbs demo_ls) = [0, 1]"
  "lb_Index (lconns demo_ls 1) = 1" "lb_Index (lconns demo_ls (Suc 0)) = 1" "lbs_currentConnIndex (lbs demo_ls) = 0"
  "lb_seqNum2Request (lconns demo_ls 0) = Map.empty" "lb_input (lconns demo_ls 0) = []"
  "lb_currentSeqId (lconns demo_ls 0) = 1" "\<not> lb_input_closed (lconns demo_ls 0)"
proof -
  from lb_run_inv [OF lb_inv_empty, of "[LbAccept ''w:1'', LbAccept ''w:2'']" "''math''" "''lb:1''" False]
  show "lb_inv demo_ls" by (auto simp: demo_ls_def)
qed (simp_all add: demo_ls_def empty_lstate_def NewBackServiceLB_def BackServiceLB_accept_def NewBackendConnLB_def
  BackServiceLB_append_def upd_lbs_def upd_lconn_def BACKEND_CONN_MIN_SEQ_ID_def)


text \<open>
  \<open>MarkConnActiveFalse\<close> reads the flag and clears it in two steps, so the reader and the
  writer of a connection can both go on to \<open>StateChanged\<close>. For the last of the array the
  second call finds the stale index.
\<close>

text \<open>
  The load balancer forgets to reset the index of a removed connection that was the last of
  the array. If the reader and the writer both see the connection up and both report its
  failure, the second \<open>StateChanged\<close> finds the stale index and panics with an index out of range.
\<close>

lemma LB_StateChanged_twice:
  assumes na: "\<not> lb_IsConnActive (lconns ls c)" and act: "lbs_activeConns (lbs ls) = ws @ [c]"
    and idx: "lb_Index (lconns ls c) = int (length ws)"
  shows "\<exists>ls1. BackServiceLB_StateChanged c ls = Ret ls1 \<and> lbs_activeConns (lbs ls1) = ws
    \<and> lb_Index (lconns ls1 c) = int (length ws) \<and> BackServiceLB_StateChanged c ls1 = Panic IndexOutOfRange"
proof -
  have inv: "int (length ws) \<noteq> INVALID_ARRAY_INDEX" by (simp add: INVALID_ARRAY_INDEX_def)
  define ls1 where "ls1 = upd_lbs (\<lambda>v. v\<lparr>lbs_activeConns := ws\<rparr>) ls"
  have "BackServiceLB_StateChanged c ls = Ret ls1"
    using na act idx inv by (simp add: BackServiceLB_StateChanged_def Let_def go_prefix_def ls1_def)
  moreover have "BackServiceLB_StateChanged c ls1 = Panic IndexOutOfRange"
  proof (cases ws rule: rev_cases)
    case Nil
    then show ?thesis using na idx inv
      by (simp add: BackServiceLB_StateChanged_def Let_def ls1_def go_get_def)
  next
    case (snoc vs v)
    then show ?thesis using na idx inv
      by (simp add: BackServiceLB_StateChanged_def Let_def ls1_def go_get_def go_set_def)
  qed
  ultimately show ?thesis using idx by (simp add: ls1_def)
qed

text \<open>With a new worker accepted in between, that worker is thrown out instead.\<close>

lemma LB_StateChanged_twice_witness:
  "\<exists>ls1. BackServiceLB_StateChanged 1 (upd_lconn 1 (\<lambda>b. b\<lparr>lb_IsConnActive := False\<rparr>) demo_ls) = Ret ls1
    \<and> BackServiceLB_StateChanged 1 ls1 = Panic IndexOutOfRange"
  using LB_StateChanged_twice [of "upd_lconn 1 (\<lambda>b. b\<lparr>lb_IsConnActive := False\<rparr>) demo_ls" 1 "[0]"] by auto

text \<open>
  If another worker connects between the two reports, the second one silently removes this
  new worker, which is up and gets no requests any more.
\<close>

lemma LB_StateChanged_evicts:
  assumes na: "\<not> lb_IsConnActive (lconns ls c)" and act: "lbs_activeConns (lbs ls) = ws @ [c]"
    and idx: "lb_Index (lconns ls c) = int (length ws)" and c: "c < next_lconn ls"
  shows "\<exists>ls1 ls3. BackServiceLB_StateChanged c ls = Ret ls1
    \<and> lbs_activeConns (lbs (BackServiceLB_accept addr ls1)) = ws @ [next_lconn ls]
    \<and> BackServiceLB_StateChanged c (BackServiceLB_accept addr ls1) = Ret ls3
    \<and> lbs_activeConns (lbs ls3) = ws \<and> lb_IsConnActive (lconns ls3 (next_lconn ls))"
proof -
  have inv: "int (length ws) \<noteq> INVALID_ARRAY_INDEX" by (simp add: INVALID_ARRAY_INDEX_def)
  define ls1 where "ls1 = upd_lbs (\<lambda>v. v\<lparr>lbs_activeConns := ws\<rparr>) ls"
  have r1: "BackServiceLB_StateChanged c ls = Ret ls1"
    using na act idx inv by (simp add: BackServiceLB_StateChanged_def Let_def go_prefix_def ls1_def)
  define ls2 where "ls2 = BackServiceLB_accept addr ls1"
  have ls2: "lbs_activeConns (lbs ls2) = ws @ [next_lconn ls]" "lconns ls2 c = lconns ls c"
    "lb_IsConnActive (lconns ls2 (next_lconn ls))"
    using c by (simp_all add: ls2_def ls1_def BackServiceLB_accept_def NewBackendConnLB_def BackServiceLB_append_def)
  have "BackServiceLB_StateChanged c ls2 = Ret (upd_lbs (\<lambda>v. v\<lparr>lbs_activeConns := ws\<rparr>) ls2)"
    using ls2(1,2) na idx inv by (simp add: BackServiceLB_StateChanged_def Let_def go_prefix_def)
  then show ?thesis using r1 ls2 by (simp add: ls2_def)
qed

lemma LB_StateChanged_evicts_witness:
  "\<exists>ls1 ls3. BackServiceLB_StateChanged 1 (upd_lconn 1 (\<lambda>b. b\<lparr>lb_IsConnActive := False\<rparr>) demo_ls) = Ret ls1
    \<and> BackServiceLB_StateChanged 1 (BackServiceLB_accept ''w:3'' ls1) = Ret ls3
    \<and> lbs_activeConns (lbs ls3) = [0] \<and> lb_IsConnActive (lconns ls3 2)"
  using LB_StateChanged_evicts [of "upd_lconn 1 (\<lambda>b. b\<lparr>lb_IsConnActive := False\<rparr>) demo_ls" 1 "[0]" "''w:3''"] by auto

text \<open>
  As long as no worker comes or goes, the load balancer gives its requests to the workers in
  turn: among as many consecutive choices as there are workers each worker occurs once.
\<close>

lemma workers_in_turn:
  assumes "lbs_activeConns (lbs ls) \<noteq> []"
  shows "fst (next_many BackServiceLB_nextBackendConn (length (lbs_activeConns (lbs ls))) ls) =
    map Some (rotate (rr_start (lbs_currentConnIndex (lbs ls)) (length (lbs_activeConns (lbs ls))))
      (lbs_activeConns (lbs ls)))"
  using assms by (rule lbp.round_robin)

lemma workers_in_turn_witness:
  "fst (next_many BackServiceLB_nextBackendConn 2 demo_ls) = [Some 0, Some 1]"
  using workers_in_turn [of demo_ls] by (simp add: rr_start_def numeral_2_eq_2)

subsection \<open>Requests of a connection\<close>

definition lb_pending :: "nat \<Rightarrow> lstate \<Rightarrow> nat set" where
  "lb_pending c ls = pending (lb_seqNum2Request (lconns ls c)) (lb_input (lconns ls c))"

definition lconn_inv :: "nat \<Rightarrow> lstate \<Rightarrow> bool" where
  "lconn_inv c ls \<longleftrightarrow> pend_inv (lb_currentSeqId (lconns ls c)) (lb_seqNum2Request (lconns ls c))
     (lb_input (lconns ls c)) (reqs ls)"

lemmas lconn_invD = pend_invD [where cur = "lb_currentSeqId (lconns ls c)"
  and tab = "lb_seqNum2Request (lconns ls c)" and inp = "lb_input (lconns ls c)" and rs = "reqs ls"
  for c and ls :: lstate, folded lconn_inv_def lb_pending_def]

lemma LB_PushBack_spec:
  assumes inv: "lconn_inv c ls" and new: "rid \<notin> lb_pending c ls"
    and w: "case Wait (reqs ls rid) of None \<Rightarrow> True | Some w \<Rightarrow> w \<ge> 0"
    and ret: "BackendConnLB_PushBack c rid ls = Ret ls'"
  shows "lconn_inv c ls' \<and> lb_pending c ls' = insert rid (lb_pending c ls)
    \<and> lb_input (lconns ls' c) = lb_input (lconns ls c) @ [rid]
    \<and> reqs ls' = (reqs ls)(rid := wait_add ((reqs ls rid)\<lparr>Service := lb_serviceName (lconns ls c)\<rparr>))
    \<and> lbs ls' = lbs ls"
proof -
  let ?r = "wait_add ((reqs ls rid)\<lparr>Service := lb_serviceName (lconns ls c)\<rparr>)"
  have p: "length (lb_input (lconns ls c)) < CHAN_CAP"
    and ls': "ls' = upd_lconn c (\<lambda>b. b\<lparr>lb_input := lb_input b @ [rid]\<rparr>) (set_req rid ?r ls)"
    using ret by (auto simp: BackendConnLB_PushBack_def Let_def split: if_splits)
  have "awaited ?r"
    using w by (cases "Wait (reqs ls rid)") (auto simp: awaited_def wait_add_def)
  from pend_push [OF inv [unfolded lconn_inv_def] new [unfolded lb_pending_def] p this refl]
  show ?thesis by (simp add: ls' lconn_inv_def lb_pending_def)
qed

lemma LB_setResponse_error:
  assumes "awaited (reqs ls rid)"
  shows "BackendConnLB_setResponse T now c (Some rid) None (Some e) ls =
    Ret (Some e, set_req rid (completed (reqs ls rid) None (Some e)) ls)"
  using finish_request_error [OF assms, of T "pmem ls" e]
  by (simp add: BackendConnLB_setResponse_def finish_in_def set_req_def)

lemma LB_setResponse_stop:
  assumes "DecodeThriftTypIdSeqId T (pmem ls) d = (MESSAGE_TYPE_STOP, k, None)"
  shows "BackendConnLB_setResponse T now c r (Some d) err ls =
    obind (BackendConnLB_MarkConnActiveFalse c ls) (\<lambda>ls1. Ret (None, ls1))"
  using assms by (simp add: BackendConnLB_setResponse_def)

lemma LB_setResponse_heartbeat:
  assumes "DecodeThriftTypIdSeqId T (pmem ls) d = (MESSAGE_TYPE_HEART_BEAT, k, None)"
  shows "BackendConnLB_setResponse T now c r (Some d) err ls =
    Ret (None, upd_lconn c (\<lambda>b. b\<lparr>lb_seqNum2Request := (lb_seqNum2Request b)(k := None),
      lb_hbLastTime := now\<rparr>) ls)"
  using assms
  by (simp add: BackendConnLB_setResponse_def lb_take_def upd_lconn_def MESSAGE_TYPE_HEART_BEAT_def
      MESSAGE_TYPE_STOP_def)

text \<open>
  A reply from a worker whose number is in the table completes exactly the request stored
  there: the request gets the reply with its own name and the sequence number of the proxy in
  the header and the payload of the worker, its wait group is released once, and the entry is
  gone.
\<close>

lemma LB_setResponse_reply:
  assumes T: "thrift_ok T" and inv: "lconn_inv c ls" and ok: "slice_ok (pmem ls) d"
    and bytes: "slice_bytes (pmem ls) d = msg_header T n ty k @ payload"
    and msg: "msg_ok n ty" "ty \<noteq> MESSAGE_TYPE_HEART_BEAT" "ty \<noteq> MESSAGE_TYPE_STOP"
    and tab: "lb_seqNum2Request (lconns ls c) k = Some rid"
    and name: "length n = length (ReqName (reqs ls rid))"
  shows "\<exists>ls'. BackendConnLB_setResponse T now c None (Some d) None ls = Ret (None, ls')
    \<and> reqs ls' = (reqs ls)(rid := completed ((reqs ls rid)\<lparr>RespTypeId := ty\<rparr>) (Some d) None)
    \<and> slice_bytes (pmem ls') d = msg_header T (ReqName (reqs ls rid)) ty (ReqSeqId (reqs ls rid)) @ payload
    \<and> lconns ls' = (lconns ls)(c := snd (lb_take (lconns ls c) k)) \<and> lconn_inv c ls'
    \<and> lb_pending c ls' = lb_pending c ls - {rid} \<and> slice_ok (pmem ls') d"
proof -
  let ?r = "(reqs ls rid)\<lparr>RespTypeId := ty\<rparr>"
  let ?ls = "set_req rid ?r (upd_lconn c (\<lambda>_. snd (lb_take (lconns ls c) k)) ls)"
  have aw: "awaited ?r" using lconn_invD(8) [OF inv, of rid] tab by (auto simp: ran_def)
  have dec: "DecodeThriftTypIdSeqId T (pmem ls) d = (ty, k, None)"
    using T msg(1) bytes by (simp add: DecodeThriftTypIdSeqId_def)
  obtain m' where f: "finish_in T rid (Some d) None ?ls =
      Ret (None, (set_req rid (completed ?r (Some d) None) ?ls)\<lparr>pmem := m'\<rparr>)"
    and m': "slice_bytes m' d = msg_header T (ReqName ?r) ty (ReqSeqId ?r) @ payload" "slice_ok m' d"
    using finish_in_reply [OF T, of ?ls rid d n k payload] aw ok bytes msg name by auto
  define ls' where "ls' = (set_req rid (completed ?r (Some d) None) ?ls)\<lparr>pmem := m'\<rparr>"
  have "BackendConnLB_setResponse T now c None (Some d) None ls = Ret (None, ls')"
    using dec msg(2,3) tab f by (simp add: BackendConnLB_setResponse_def lb_take_def ls'_def)
  moreover have sel: "reqs ls' = (reqs ls)(rid := completed ?r (Some d) None)" "pmem ls' = m'"
    "lconns ls' = (lconns ls)(c := snd (lb_take (lconns ls c) k))"
    by (simp_all add: ls'_def)
  moreover have "lconn_inv c ls' \<and> lb_pending c ls' = lb_pending c ls - {rid}"
    using pend_taken [OF inv [unfolded lconn_inv_def] tab sel(1)] sel(3)
    by (simp add: lconn_inv_def lb_pending_def)
  ultimately show ?thesis using m' by auto
qed

text \<open>
  When a connection is lost, every request that was sent and is not a heartbeat fails with
  the error, the table is empty and the input closed.
\<close>

definition demo_lbusy :: lstate where
  "demo_lbusy = upd_lconn 0 (\<lambda>b. b\<lparr>lb_seqNum2Request := [1 \<mapsto> 0], lb_input := [1], lb_currentSeqId := 2\<rparr>)
     (demo_ls\<lparr>pmem := demo_memory (msg_header strict_binary ''add'' 2 1 @ [42]),
       reqs := (\<lambda>_. zero_request)(0 := zero_request\<lparr>ReqName := ''add'', ReqSeqId := 7, RespSeqId := 1, Wait := Some 1\<rparr>,
        1 := zero_request\<lparr>Wait := Some 1\<rparr>), next_req := 2\<rparr>)"

lemma demo_lbusy_sel [simp]:
  "lb_seqNum2Request (lconns demo_lbusy 0) = [1 \<mapsto> 0]" "next_lconn demo_lbusy = 2" "\<not> lb_input_closed (lconns demo_lbusy 0)"
  "pmem demo_lbusy = demo_memory (msg_header strict_binary ''add'' 2 1 @ [42])"
  "reqs demo_lbusy 0 = zero_request\<lparr>ReqName := ''add'', ReqSeqId := 7, RespSeqId := 1, Wait := Some 1\<rparr>"
  by (simp_all add: demo_lbusy_def)

lemma demo_lbusy_inv [simp]: "lconn_inv 0 demo_lbusy" "lb_inv demo_lbusy"
proof -
  show "lconn_inv 0 demo_lbusy"
    by (auto simp: lconn_inv_def pend_inv_def pending_def demo_lbusy_def awaited_def seq_ok_def CHAN_CAP_def
        split: if_splits)
  have "lb_Index (lconns demo_lbusy d) = lb_Index (lconns demo_ls d) \<and> lb_delegate (lconns demo_lbusy d) = lb_delegate (lconns demo_ls d)
      \<and> lb_IsConnActive (lconns demo_lbusy d) = lb_IsConnActive (lconns demo_ls d)" for d
    by (simp add: demo_lbusy_def)
  moreover have "lbs demo_lbusy = lbs demo_ls" by (simp add: demo_lbusy_def)
  ultimately show "lb_inv demo_lbusy" using demo_ls_inv(1) by (simp add: lb_inv_def lbp.indexed_def)
qed

lemma LB_setResponse_reply_witness:
  "\<exists>ls'. BackendConnLB_setResponse strict_binary 0 0 None
      (Some (demo_frame (msg_header strict_binary ''add'' 2 1 @ [42]))) None demo_lbusy = Ret (None, ls')
    \<and> slice_bytes (pmem ls') (demo_frame (msg_header strict_binary ''add'' 2 1 @ [42])) =
        msg_header strict_binary ''add'' 2 7 @ [42]
    \<and> Wait (reqs ls' 0) = Some 0"
  using LB_setResponse_reply [of strict_binary 0 demo_lbusy "demo_frame (msg_header strict_binary ''add'' 2 1 @ [42])"
      "''add''" 2 1 "[42]" 0 0]
  by (auto simp: msg_ok_def MESSAGE_TYPE_HEART_BEAT_def MESSAGE_TYPE_STOP_def completed_def)

text \<open>
  A worker that announces its end with a \<open>STOP\<close> message gets no further requests, and
  nothing else changes: its connection stays open and the requests already queued or sent are
  still completed by its replies.
\<close>

lemma LB_stop_is_graceful:
  assumes lb: "lb_inv ls" and c: "c < next_lconn ls"
    and stop: "DecodeThriftTypIdSeqId T (pmem ls) d = (MESSAGE_TYPE_STOP, k, None)"
  shows "\<exists>ls'. BackendConnLB_setResponse T now c None (Some d) None ls = Ret (None, ls') \<and> lb_inv ls'
    \<and> set (lbs_activeConns (lbs ls')) = set (lbs_activeConns (lbs ls)) - {c}
    \<and> lb_pending c ls' = lb_pending c ls \<and> reqs ls' = reqs ls \<and> pmem ls' = pmem ls
    \<and> lb_seqNum2Request (lconns ls' c) = lb_seqNum2Request (lconns ls c)
    \<and> lb_input_closed (lconns ls' c) = lb_input_closed (lconns ls c)"
proof -
  obtain ls' where m: "BackendConnLB_MarkConnActiveFalse c ls = Ret ls'" and inv: "lb_inv ls'"
    and st: "set (lbs_activeConns (lbs ls')) = set (lbs_activeConns (lbs ls)) - {c}"
    and f: "reqs ls' = reqs ls" "pmem ls' = pmem ls"
    and cs: "\<And>d. \<exists>j. lconns ls' d = (lconns ls d)\<lparr>lb_IsConnActive := (d \<noteq> c \<and> lb_IsConnActive (lconns ls d)), lb_Index := j\<rparr>"
    using LB_MarkConnActiveFalse_inv [OF lb c] by blast
  have "lb_seqNum2Request (lconns ls' c) = lb_seqNum2Request (lconns ls c)" "lb_input (lconns ls' c) = lb_input (lconns ls c)"
    "lb_input_closed (lconns ls' c) = lb_input_closed (lconns ls c)"
    using cs [of c] by auto
  then show ?thesis using LB_setResponse_stop [OF stop] m inv st f by (auto simp: lb_pending_def)
qed

lemma LB_stop_is_graceful_witness:
  "\<exists>ls'. BackendConnLB_setResponse strict_binary 0 0 None
      (Some (demo_frame (msg_header strict_binary ''stop'' 21 0))) None
      (demo_lbusy\<lparr>pmem := demo_memory (msg_header strict_binary ''stop'' 21 0)\<rparr>) = Ret (None, ls')
    \<and> 0 \<notin> set (lbs_activeConns (lbs ls')) \<and> lb_seqNum2Request (lconns ls' 0) = [1 \<mapsto> 0]"
proof -
  let ?bs = "msg_header strict_binary ''stop'' 21 0" and ?ls = "demo_lbusy\<lparr>pmem := demo_memory (msg_header strict_binary ''stop'' 21 0)\<rparr>"
  have "ReadMessageBegin strict_binary (?bs @ []) = (''stop'', 21, 0, None)" by (simp add: msg_ok_def del: append_Nil2)
  then have "DecodeThriftTypIdSeqId strict_binary (pmem ?ls) (demo_frame ?bs) = (MESSAGE_TYPE_STOP, 0, None)"
    by (simp add: DecodeThriftTypIdSeqId_def MESSAGE_TYPE_STOP_def)
  moreover have "lb_inv ?ls" using demo_lbusy_inv(2) by (simp add: lb_inv_def lbp.indexed_def)
  ultimately show ?thesis using LB_stop_is_graceful [of ?ls 0 strict_binary "demo_frame ?bs" 0 0] by auto
qed

text \<open>
  When the reader of a worker's connection fails, the worker leaves the array, every request
  that has been sent to it (heartbeats apart) fails with the error once, and the input is closed
  behind the requests still queued, which are unchanged.
\<close>

lemma LB_flushRequests_spec:
  assumes lb: "lb_inv ls" and c: "c < next_lconn ls" and inv: "lconn_inv c ls"
    and ks: "map_order (lb_seqNum2Request (lconns ls c)) ks" and open_in: "\<not> lb_input_closed (lconns ls c)"
  shows "\<exists>ls'. BackendConnLB_flushRequests c err ks ls = Ret ls' \<and> lb_inv ls'
    \<and> c \<notin> set (lbs_activeConns (lbs ls')) \<and> lb_input_closed (lconns ls' c)
    \<and> lb_seqNum2Request (lconns ls' c) = Map.empty \<and> lb_input (lconns ls' c) = lb_input (lconns ls c)
    \<and> lconn_inv c ls'
    \<and> reqs ls' = (\<lambda>rid. if rid \<in> ran (lb_seqNum2Request (lconns ls c)) \<and> ReqTypeId (reqs ls rid) \<noteq> MESSAGE_TYPE_HEART_BEAT
        then (reqs ls rid)\<lparr>RespErr := Some err, Wait := map_option (\<lambda>w. w - 1) (Wait (reqs ls rid))\<rparr>
        else reqs ls rid)"
proof -
  let ?m = "lb_seqNum2Request (lconns ls c)"
  obtain ls1 where r1: "BackendConnLB_MarkConnActiveFalse c ls = Ret ls1" and inv1: "lb_inv ls1"
    and st: "set (lbs_activeConns (lbs ls1)) = set (lbs_activeConns (lbs ls)) - {c}"
    and f1: "reqs ls1 = reqs ls" "next_lconn ls1 = next_lconn ls"
    and cs: "\<And>d. \<exists>j. lconns ls1 d = (lconns ls d)\<lparr>lb_IsConnActive := (d \<noteq> c \<and> lb_IsConnActive (lconns ls d)), lb_Index := j\<rparr>"
    using LB_MarkConnActiveFalse_inv [OF lb c] by blast
  have sel1: "lb_seqNum2Request (lconns ls1 c) = ?m" "lb_input (lconns ls1 c) = lb_input (lconns ls c)"
    "lb_currentSeqId (lconns ls1 c) = lb_currentSeqId (lconns ls c)" "\<not> lb_input_closed (lconns ls1 c)"
    using cs [of c] open_in by auto
  let ?ids = "filter (\<lambda>rid. ReqTypeId (reqs ls rid) \<noteq> MESSAGE_TYPE_HEART_BEAT) (List.map_filter ?m ks)"
  note po = pend_order [OF inv [unfolded lconn_inv_def] ks]
  have ids: "distinct ?ids" "\<forall>rid \<in> set ?ids. awaited (reqs ls rid)"
    using po by auto
  define rs where "rs = (\<lambda>rid. if rid \<in> ran ?m \<and> ReqTypeId (reqs ls rid) \<noteq> MESSAGE_TYPE_HEART_BEAT
        then (reqs ls rid)\<lparr>RespErr := Some err, Wait := map_option (\<lambda>w. w - 1) (Wait (reqs ls rid))\<rparr>
        else reqs ls rid)"
  have fl: "fail_requests err ?ids (reqs ls) = Ret rs"
    using fail_requests_spec [OF ids(1,2), of err] po by (simp add: rs_def)
  define ls' where "ls' = (upd_lconn c (\<lambda>b. b\<lparr>lb_seqNum2Request := Map.empty, lb_input_closed := True\<rparr>) ls1)\<lparr>reqs := rs\<rparr>"
  have "BackendConnLB_flushRequests c err ks ls = Ret ls'"
    using r1 fl f1(1) sel1 by (simp add: BackendConnLB_flushRequests_def Let_def ls'_def upd_lconn_def)
  moreover have sel: "lbs ls' = lbs ls1" "next_lconn ls' = next_lconn ls1" "reqs ls' = rs"
    "lconns ls' = (lconns ls1)(c := (lconns ls1 c)\<lparr>lb_seqNum2Request := Map.empty, lb_input_closed := True\<rparr>)"
    by (simp_all add: ls'_def)
  moreover have "lb_Index (lconns ls' d) = lb_Index (lconns ls1 d) \<and> lb_delegate (lconns ls' d) = lb_delegate (lconns ls1 d)
      \<and> lb_IsConnActive (lconns ls' d) = lb_IsConnActive (lconns ls1 d)" for d
    using sel(4) by simp
  then have "lb_inv ls'" using inv1 sel(1,2) by (simp add: lb_inv_def lbp.indexed_def)
  moreover have "lconn_inv c ls'"
    using pend_flushed [OF inv [unfolded lconn_inv_def], of rs] sel sel1 by (simp add: lconn_inv_def rs_def)
  ultimately show ?thesis using st sel1 by (auto simp: rs_def)
qed

lemma LB_flushRequests_spec_witness:
  "\<exists>ls'. BackendConnLB_flushRequests 0 IoEOF [1] demo_lbusy = Ret ls' \<and> RespErr (reqs ls' 0) = Some IoEOF
    \<and> 0 \<notin> set (lbs_activeConns (lbs ls')) \<and> lb_input_closed (lconns ls' 0)"
  using LB_flushRequests_spec [of demo_lbusy 0 "[1]" IoEOF]
  by (auto simp: map_order_def MESSAGE_TYPE_HEART_BEAT_def zero_request_def)

subsection \<open>The writer\<close>

lemma LB_turn_sent:
  assumes T: "thrift_ok T" and inv: "lconn_inv c ls" and inp: "lb_input (lconns ls c) = rid # rest"
    and fresh: "\<not> (ReqTypeId (reqs ls rid) = MESSAGE_TYPE_HEART_BEAT \<and> now - Start (reqs ls rid) > 4)"
    and s: "sendable (pmem ls) (reqs ls rid) payload"
    and fl: "send_frame T net nano (rest = []) (msg_header T (ReqName (reqs ls rid))
        (ReqTypeId (reqs ls rid)) (lb_currentSeqId (lconns ls c)) @ payload) p = (None, p')"
  shows "\<exists>ls'. BackendConnLB_loopWriter_turn T net now nano c p ls = Ret (Continue, p', ls')
    \<and> lb_seqNum2Request (lconns ls' c) = (lb_seqNum2Request (lconns ls c))(lb_currentSeqId (lconns ls c) \<mapsto> rid)
    \<and> lb_currentSeqId (lconns ls' c) = next_seq_id (lb_currentSeqId (lconns ls c))
    \<and> lb_input (lconns ls' c) = rest \<and> lconn_inv c ls'
    \<and> (\<exists>orig d. reqs ls' = (reqs ls)(rid := (reqs ls rid)\<lparr>RespSeqId := lb_currentSeqId (lconns ls c),
        ReqDataOrig := orig, ReqData := Some d\<rparr>))"
proof -
  let ?ls0 = "upd_lconn c (\<lambda>b. b\<lparr>lb_input := rest\<rparr>) ls" and ?k = "lb_currentSeqId (lconns ls c)"
  have s': "sendable (pmem ?ls0) (reqs ?ls0 rid) payload" using s by simp
  obtain d m' orig where w: "write_request T net nano ?k (rest = []) rid p ?ls0 =
      Ret (None, p', (set_req rid ((reqs ls rid)\<lparr>RespSeqId := ?k, ReqDataOrig := orig,
        ReqData := Some d\<rparr>) ?ls0)\<lparr>pmem := m'\<rparr>)"
    using write_request_spec [OF T s', of net nano ?k "rest = []" p] fl by auto
  define r where "r = (reqs ls rid)\<lparr>RespSeqId := ?k, ReqDataOrig := orig, ReqData := Some d\<rparr>"
  define ls' where "ls' = upd_lconn c (lb_store ?k rid) ((set_req rid r ?ls0)\<lparr>pmem := m'\<rparr>)"
  have "BackendConnLB_loopWriter_turn T net now nano c p ls = Ret (Continue, p', ls')"
    using inp fresh w by (auto simp: BackendConnLB_loopWriter_turn_def Let_def ls'_def r_def)
  moreover have sel: "lb_seqNum2Request (lconns ls' c) = (lb_seqNum2Request (lconns ls c))(?k \<mapsto> rid)"
    "lb_currentSeqId (lconns ls' c) = next_seq_id ?k" "lb_input (lconns ls' c) = rest" "reqs ls' = (reqs ls)(rid := r)"
    by (simp_all add: ls'_def)
  moreover have "awaited (reqs ls rid)" using lconn_invD(9) [OF inv, of rid] inp by simp
  then have "lconn_inv c ls'"
    using pend_sent [of ?k "lb_seqNum2Request (lconns ls c)" rid rest "reqs ls" "reqs ls'"] inv inp sel
    by (simp add: lconn_inv_def r_def)
  ultimately show ?thesis unfolding r_def by blast
qed

lemma LB_drain_spec:
  assumes "lconn_inv c ls" and "n = length (lb_input (lconns ls c))"
  shows "\<exists>ls'. BackendConnLB_drain T now c e n ls = Ret ls' \<and> lb_input (lconns ls' c) = []
    \<and> lconn_inv c ls'
    \<and> reqs ls' = (\<lambda>q. if q \<in> set (lb_input (lconns ls c)) then completed (reqs ls q) None (Some e) else reqs ls q)
    \<and> lbs ls' = lbs ls"
  using assms
proof (induction n arbitrary: ls)
  case 0
  then show ?case by simp
next
  case (Suc n)
  then obtain rid rest where inp: "lb_input (lconns ls c) = rid # rest"
    by (cases "lb_input (lconns ls c)") auto
  let ?ls0 = "upd_lconn c (\<lambda>b. b\<lparr>lb_input := rest\<rparr>) ls"
  define ls1 where "ls1 = set_req rid (completed (reqs ls rid) None (Some e)) ?ls0"
  have "awaited (reqs ls rid)" using lconn_invD(9) [OF Suc.prems(1), of rid] inp by simp
  then have sr: "BackendConnLB_setResponse T now c (Some rid) None (Some e) ?ls0 = Ret (Some e, ls1)"
    using LB_setResponse_error [of ?ls0 rid] by (simp add: ls1_def)
  have sel: "lb_input (lconns ls1 c) = rest" "reqs ls1 = (reqs ls)(rid := completed (reqs ls rid) None (Some e))"
    "lbs ls1 = lbs ls" "lb_seqNum2Request (lconns ls1 c) = lb_seqNum2Request (lconns ls c)"
    "lb_currentSeqId (lconns ls1 c) = lb_currentSeqId (lconns ls c)"
    by (simp_all add: ls1_def)
  have inv1: "lconn_inv c ls1"
    using pend_dequeued [of _ _ rid rest "reqs ls" "reqs ls1"] Suc.prems(1) inp sel by (simp add: lconn_inv_def)
  have "rid \<notin> set rest" using lconn_invD(5) [OF Suc.prems(1)] inp by simp
  moreover from Suc.IH [OF inv1] obtain ls' where "BackendConnLB_drain T now c e n ls1 = Ret ls'"
    "lb_input (lconns ls' c) = []" "lconn_inv c ls'" "lbs ls' = lbs ls"
    "reqs ls' = (\<lambda>q. if q \<in> set rest then completed (reqs ls1 q) None (Some e) else reqs ls1 q)"
    using Suc.prems(2) inp sel by auto
  ultimately show ?case using inp sr sel(2) by (auto simp: fun_eq_iff)
qed

subsection \<open>Dispatch\<close>

lemma LB_Dispatch_no_worker:
  assumes "lbs_activeConns (lbs ls) = []"
  shows "\<exists>ls' d. BackServiceLB_Dispatch T rid ls = Ret (None, ls')
    \<and> reqs ls' = (reqs ls)(rid := (reqs ls rid)\<lparr>Service := lbs_serviceName (lbs ls),
        RespTypeId := EXCEPTION T, RespData := Some d\<rparr>)
    \<and> slice_bytes (pmem ls') d = msg_header T (ReqName (reqs ls rid)) (EXCEPTION T) (ReqSeqId (reqs ls rid)) @
        concat (WriteApplicationException T (INTERNAL_ERROR T) (''Worker FOR BackServiceLB#'' @
          lbs_serviceName (lbs ls) @ ''.'' @ ReqName (reqs ls rid) @ '' Not Found'')) @ concat (WriteMessageEnd T)
    \<and> lbs ls' = lbs ls \<and> lconns ls' = lconns ls"
proof -
  let ?r = "(reqs ls rid)\<lparr>Service := lbs_serviceName (lbs ls)\<rparr>"
  let ?msg = "''Worker FOR BackServiceLB#'' @ Service ?r @ ''.'' @ ReqName ?r @ '' Not Found''"
  obtain d m where e: "exception_message T (pmem ls) 100 (ReqName ?r) (ReqSeqId ?r) (INTERNAL_ERROR T) ?msg = (d, m)"
    by (cases "exception_message T (pmem ls) 100 (ReqName ?r) (ReqSeqId ?r) (INTERNAL_ERROR T) ?msg")
  define ls' where "ls' = (set_req rid (?r\<lparr>RespTypeId := EXCEPTION T, RespData := Some d\<rparr>) (set_req rid ?r ls))\<lparr>pmem := m\<rparr>"
  have "BackServiceLB_Dispatch T rid ls = Ret (None, ls')"
    using assms e by (simp add: BackServiceLB_Dispatch_def BackServiceLB_nextBackendConn_def
        GetWorkerNotFoundData_def Let_def ls'_def)
  moreover have "reqs ls' = (reqs ls)(rid := ?r\<lparr>RespTypeId := EXCEPTION T, RespData := Some d\<rparr>)" "pmem ls' = m"
    "lbs ls' = lbs ls" "lconns ls' = lconns ls"
    by (simp_all add: ls'_def)
  ultimately show ?thesis using exception_message_bytes [OF e] by auto
qed

definition lb_next :: "lstate \<Rightarrow> nat" where
  "lb_next ls = lbs_activeConns (lbs ls) !
     rr_start (lbs_currentConnIndex (lbs ls)) (length (lbs_activeConns (lbs ls)))"

lemma LB_Dispatch_worker:
  assumes act: "lbs_activeConns (lbs ls) \<noteq> []" and inv: "lconn_inv (lb_next ls) ls"
    and new: "rid \<notin> lb_pending (lb_next ls) ls" and w: "case Wait (reqs ls rid) of None \<Rightarrow> True | Some w \<Rightarrow> w \<ge> 0"
    and ret: "BackServiceLB_Dispatch T rid ls = Ret (c, ls')"
  shows "c = Some (lb_next ls) \<and> lb_next ls \<in> set (lbs_activeConns (lbs ls))
    \<and> lb_input (lconns ls' (lb_next ls)) = lb_input (lconns ls (lb_next ls)) @ [rid]
    \<and> Wait (reqs ls' rid) = map_option (\<lambda>w. w + 1) (Wait (reqs ls rid)) \<and> lconn_inv (lb_next ls) ls'"
proof -
  let ?c = "lb_next ls"
  obtain ls1 where nx: "BackServiceLB_nextBackendConn ls = (Some ?c, ls1)"
    and l1: "reqs ls1 = reqs ls" "lconns ls1 = lconns ls"
    using act by (auto simp: BackServiceLB_nextBackendConn_def Let_def lb_next_def rr_start_def)
  let ?r = "(reqs ls rid)\<lparr>Service := lbs_serviceName (lbs ls1)\<rparr>"
  define ls2 where "ls2 = set_req rid ?r ls1"
  have l2: "reqs ls2 = (reqs ls)(rid := ?r)" "lconns ls2 = lconns ls" using l1 by (simp_all add: ls2_def)
  have push: "BackendConnLB_PushBack ?c rid ls2 = Ret ls'" and c: "c = Some ?c"
    using ret nx l1 by (auto simp: BackServiceLB_Dispatch_def Let_def ls2_def)
  have "awaited ((reqs ls2) q) = awaited (reqs ls q)" for q by (simp add: l2 awaited_def)
  then have "lconn_inv ?c ls2"
    using inv l2 by (auto simp: lconn_inv_def pend_inv_def split: if_splits)
  from LB_PushBack_spec [OF this _ _ push] have "lconn_inv ?c ls'
      \<and> lb_input (lconns ls' ?c) = lb_input (lconns ls2 ?c) @ [rid]
      \<and> reqs ls' = (reqs ls2)(rid := wait_add ((reqs ls2 rid)\<lparr>Service := lb_serviceName (lconns ls2 ?c)\<rparr>))"
    using new w l2 by (simp add: lb_pending_def)
  moreover have "?c \<in> set (lbs_activeConns (lbs ls))"
    using act by (auto simp: lb_next_def rr_start_def)
  ultimately show ?thesis using c l2 by (simp add: wait_add_def)
qed

end
