(* ===== verification/Rpc_Server.thy ===== *)
theory Rpc_Server
  imports Session_Correct Router Backend_Conn_LB_Correct
begin

text \<open>
  \<open>proxy/server_general_rpc.go\<close>: a service that answers requests itself. Its dispatcher runs
  the generated processor on a slice of the allocator. The theory also interprets
  \<open>dispatcher\<close> on the three dispatchers of the program.
\<close>

subsection \<open>Service identities\<close>

definition strings_Replace1 :: "string \<Rightarrow> char \<Rightarrow> string \<Rightarrow> string" where
  "strings_Replace1 s old new = concat (map (\<lambda>c. if c = old then new else [c]) s)"

definition GetServiceIdentity :: "string \<Rightarrow> string" where
  "GetServiceIdentity frontendAddr =
     (let fid = strings_Replace1 frontendAddr CHR ''.'' ''_'';
          fid = strings_Replace1 fid CHR '':'' ''_'';
          fid = strings_Replace1 fid CHR ''/'' '''' in
      if length fid > 20 then drop (length fid - 20) fid else fid)"

lemma set_Replace1: "set (strings_Replace1 s old new) = set s - {old} \<union> (if old \<in> set s then set new else {})"
  by (auto simp: strings_Replace1_def split: if_splits)

text \<open>Dots and colons become underscores one for one, so only removed slashes change the length.\<close>

lemma length_Replace1 [simp]: "length new = 1 \<Longrightarrow> length (strings_Replace1 s old new) = length s"
  by (induction s) (auto simp: strings_Replace1_def)


text \<open>
  The identity keeps the last twenty characters of the address only. Two addresses that
  differ in front of them get the same identity, and since a registration first deletes the node
  of its identity, each of the two services removes the endpoint of the other.
\<close>

lemma GetServiceIdentity_collides:
  assumes "length (strings_Replace1 rest CHR ''/'' '''') \<ge> 20"
  shows "GetServiceIdentity (front @ rest) = GetServiceIdentity rest"
proof -
  let ?f = "\<lambda>s. strings_Replace1 (strings_Replace1 (strings_Replace1 s CHR ''.'' ''_'') CHR '':'' ''_'') CHR ''/'' ''''"
  have app: "?f (front @ rest) = ?f front @ ?f rest" by (simp add: strings_Replace1_def)
  have sub: "strings_Replace1 (strings_Replace1 s c ''_'') CHR ''/'' '''' = strings_Replace1 (strings_Replace1 s CHR ''/'' '''') c ''_''"
    if "c \<noteq> CHR ''/''" for s c
    using that by (induction s) (auto simp: strings_Replace1_def)
  have "length (?f rest) = length (strings_Replace1 rest CHR ''/'' '''')" by (simp add: sub)
  then have len: "20 \<le> length (?f rest)" using assms by simp
  have "drop (length xs + length ys - 20) (xs @ ys) = drop (length ys - 20) ys" if "20 \<le> length ys" for xs ys :: string
    using that by simp
  then show ?thesis using len app unfolding GetServiceIdentity_def Let_def by auto
qed

lemma GetServiceIdentity_collides_witness:
  "GetServiceIdentity ''110.100.100.100:12345'' = GetServiceIdentity ''210.100.100.100:12345''"
  using GetServiceIdentity_collides [of "''10.100.100.100:12345''" "''1''"]
    GetServiceIdentity_collides [of "''10.100.100.100:12345''" "''2''"]
  by (simp add: strings_Replace1_def)

subsection \<open>Dispatch\<close>

text \<open>
  \<open>process\<close> stands for \<open>Processor.Process\<close>: the chunks it writes for the message it reads.
\<close>

definition ThriftRpcServer_Dispatch :: "(byte list \<Rightarrow> byte list list) \<Rightarrow> 'a dispatch" where
  "ThriftRpcServer_Dispatch process rid ps =
     obind (getSlice (pmem ps) 0 DEFAULT_SLICE_LEN) (\<lambda>(sl, m1).
     let (transport, m2) = tmb_Write m1 (NewTMemoryBufferWithBuf sl)
           (process (opt_bytes m1 (ReqData (reqs ps rid))));
         data = Buffer transport;
         m3 = (if s_cap data \<noteq> DEFAULT_SLICE_LEN then snd (returnSlice m2 sl) else m2) in
     Ret (None, (set_req rid ((reqs ps rid)\<lparr>RespData := Some data\<rparr>) ps)\<lparr>pmem := m3\<rparr>))"

text \<open>The slice comes from the list of 2048-byte slices, since 1024 is not below 1024.\<close>

lemma getSlice_default:
  assumes "pool_ok m" and "getSlice m 0 DEFAULT_SLICE_LEN = Ret (s, m')"
  shows "s_cap s = 2048" "s_len s = 0" "slice_ok m' s" "s_arr s \<notin> set (pooled_arrays m')"
    "length (memoryBuffer2048 m') \<le> length (memoryBuffer2048 m)" "memoryBuffer2048 m = [] \<Longrightarrow> memoryBuffer2048 m' = []"
proof -
  note sp = getSlice_spec [OF assms]
  show "s_len s = 0" "slice_ok m' s" "s_arr s \<notin> set (pooled_arrays m')" using sp by auto
  show "s_cap s = 2048" "length (memoryBuffer2048 m') \<le> length (memoryBuffer2048 m)"
    "memoryBuffer2048 m = [] \<Longrightarrow> memoryBuffer2048 m' = []"
    using assms by (auto simp: getSlice_def DEFAULT_SLICE_LEN_def make_slice_def pool_ok_def split: list.splits)
qed

text \<open>
  The slice is always given back although the response still points to it, unless the list is
  full or the response has outgrown it.
\<close>

text \<open>
  C40: \<open>Dispatch\<close> of the RPC server asks for a slice of 1024 bytes and gets one of 2048, so that
  its test for a reallocation by the processor always succeeds: it gives the slice back to the
  pool while \<open>Response.Data\<close> still points into it. With an empty pool the next request is
  given the very buffer that holds the response not yet sent.
\<close>

theorem Dispatch_returns_live_slice:
  assumes pool: "pool_ok (pmem ps)" and room: "length (memoryBuffer2048 (pmem ps)) < POOL_CAP"
    and fit: "\<And>bs. length (concat (process bs)) \<le> 2048"
  shows "\<exists>ps' d sl. ThriftRpcServer_Dispatch process rid ps = Ret (None, ps')
    \<and> RespData (reqs ps' rid) = Some d
    \<and> (\<exists>bs. slice_bytes (pmem ps') d = concat (process bs)) \<and> slice_ok (pmem ps') d
    \<and> sl \<in> set (memoryBuffer2048 (pmem ps')) \<and> s_arr sl = s_arr d \<and> s_off sl = s_off d
    \<and> (memoryBuffer2048 (pmem ps) = [] \<longrightarrow>
          (\<exists>s m. getSlice (pmem ps') 0 DEFAULT_SLICE_LEN = Ret (s, m) \<and> s_arr s = s_arr d \<and> s_off s = s_off d))"
proof -
  obtain sl m1 where g: "getSlice (pmem ps) 0 DEFAULT_SLICE_LEN = Ret (sl, m1)"
    using getSlice_total by blast
  note gd = getSlice_default [OF pool g]
  let ?out = "process (opt_bytes m1 (ReqData (reqs ps rid)))"
  have fits: "s_len sl + length (concat ?out) \<le> s_cap sl" using gd(1,2) fit by simp
  define d where "d = sl\<lparr>s_len := length (concat ?out)\<rparr>"
  define m2 where "m2 = mem_store m1 (s_arr sl) (s_off sl) (concat ?out)"
  have w: "buf_writes m1 sl ?out = (d, m2)"
    using buf_writes_fit [OF gd(3) fits] gd(2) by (simp add: d_def m2_def)
  have b: "slice_bytes m2 d = concat ?out" "slice_ok m2 d"
    using buf_writes_contents [OF gd(3) w] gd(2) by (simp_all add: slice_bytes_def)
  have pools: "memoryBuffer1024 m2 = memoryBuffer1024 m1" "memoryBuffer2048 m2 = memoryBuffer2048 m1"
    by (simp_all add: m2_def)
  have room1: "length (memoryBuffer2048 m1) < POOL_CAP" using room gd(5) by simp
  define m3 where "m3 = m2\<lparr>memoryBuffer2048 := memoryBuffer2048 m2 @ [sl]\<rparr>"
  have r: "snd (returnSlice m2 sl) = m3"
    using gd(1) room1 pools by (simp add: returnSlice_def m3_def)
  define ps' where "ps' = (set_req rid ((reqs ps rid)\<lparr>RespData := Some d\<rparr>) ps)\<lparr>pmem := m3\<rparr>"
  have "ThriftRpcServer_Dispatch process rid ps = Ret (None, ps')"
    using g w r gd(1)
    by (simp add: ThriftRpcServer_Dispatch_def tmb_Write_def NewTMemoryBufferWithBuf_def
        DEFAULT_SLICE_LEN_def d_def ps'_def)
  moreover have "slice_bytes (pmem ps') d = concat ?out" "slice_ok (pmem ps') d"
    using b by (simp_all add: ps'_def m3_def slice_bytes_def slice_ok_def)
  moreover have "RespData (reqs ps' rid) = Some d" "sl \<in> set (memoryBuffer2048 (pmem ps'))"
    "s_arr sl = s_arr d" "s_off sl = s_off d"
    by (simp_all add: ps'_def m3_def d_def)
  moreover have "\<exists>s m. getSlice (pmem ps') 0 DEFAULT_SLICE_LEN = Ret (s, m) \<and> s_arr s = s_arr d \<and> s_off s = s_off d"
    if "memoryBuffer2048 (pmem ps) = []"
    using gd(6) that pools by (simp add: ps'_def m3_def getSlice_def DEFAULT_SLICE_LEN_def d_def)
  ultimately show ?thesis by blast
qed

lemma empty_pools: "memoryBuffer1024 empty_memory = []" "memoryBuffer2048 empty_memory = []"
  by (simp_all add: empty_memory_def)

theorem Dispatch_returns_live_slice_witness:
  "\<exists>ps' d s m. ThriftRpcServer_Dispatch (\<lambda>_. [[1, 2], [3]]) 0
      \<lparr>pmem = empty_memory, reqs = (\<lambda>_. zero_request), next_req = 1\<rparr> = Ret (None, ps')
    \<and> RespData (reqs ps' 0) = Some d \<and> slice_bytes (pmem ps') d = [1, 2, 3]
    \<and> getSlice (pmem ps') 0 DEFAULT_SLICE_LEN = Ret (s, m) \<and> s_arr s = s_arr d"
  using Dispatch_returns_live_slice [of "\<lparr>pmem = empty_memory, reqs = (\<lambda>_. zero_request), next_req = 1\<rparr>"
      "\<lambda>_. [[1, 2], [3]]" 0]
  by (auto simp: POOL_CAP_def empty_pools)

subsection \<open>The dispatchers of the program\<close>

lemma ThriftRpcServer_Dispatch_shape:
  "\<exists>d m. ThriftRpcServer_Dispatch process rid ps =
     Ret (None, (set_req rid ((reqs ps rid)\<lparr>RespData := Some d\<rparr>) ps)\<lparr>pmem := m\<rparr>)"
proof -
  obtain sl m1 where g: "getSlice (pmem ps) 0 DEFAULT_SLICE_LEN = Ret (sl, m1)"
    using getSlice_total by blast
  obtain b m2 where w: "tmb_Write m1 (NewTMemoryBufferWithBuf sl) (process (opt_bytes m1 (ReqData (reqs ps rid)))) = (b, m2)"
    by fastforce
  show ?thesis using g w by (simp add: ThriftRpcServer_Dispatch_def Let_def) blast
qed

interpretation rpc_dispatch: dispatcher "ThriftRpcServer_Dispatch process" for process
proof unfold_locales
  fix rid q e and ps ps' :: "'a heap_scheme"
  assume "ThriftRpcServer_Dispatch process rid ps = Ret (e, ps')"
  moreover obtain d m where "ThriftRpcServer_Dispatch process rid ps =
      Ret (None, (set_req rid ((reqs ps rid)\<lparr>RespData := Some d\<rparr>) ps)\<lparr>pmem := m\<rparr>)"
    using ThriftRpcServer_Dispatch_shape by blast
  ultimately show "e = None" "q \<noteq> rid \<Longrightarrow> reqs ps' q = reqs ps q" "next_req ps' = next_req ps" by auto
qed

lemma PushBack_frame:
  assumes "BackendConn_PushBack c rid ps = Ret ps'"
  shows "q \<noteq> rid \<Longrightarrow> reqs ps' q = reqs ps q" "next_req ps' = next_req ps"
  using assms by (auto simp: PushBack_cases split: if_splits)

lemma HandleRequest_frame:
  assumes "BackService_HandleRequest T now s rid ps = Ret (e, ps')"
  shows "e = None" "q \<noteq> rid \<Longrightarrow> reqs ps' q = reqs ps q" "next_req ps' = next_req ps"
proof -
  obtain b ps1 where n: "BackService_NextBackendConn s ps = (b, ps1)"
    by (cases "BackService_NextBackendConn s ps")
  have "e = None \<and> (q \<noteq> rid \<longrightarrow> reqs ps' q = reqs ps q) \<and> next_req ps' = next_req ps"
    using assms n NextBackendConn_sel(2,4) [OF n] PushBack_frame
    by (cases b) (fastforce simp: BackService_HandleRequest_def GetWorkerNotFoundData_def Let_def split: prod.splits)+
  then show "e = None" "q \<noteq> rid \<Longrightarrow> reqs ps' q = reqs ps q" "next_req ps' = next_req ps" by auto
qed

interpretation router_dispatch: dispatcher "Router_Dispatch T now r" for T now r
proof unfold_locales
  fix rid q e and ps ps' :: pstate
  assume d: "Router_Dispatch T now r rid ps = Ret (e, ps')"
  have "e = None \<and> (q \<noteq> rid \<longrightarrow> reqs ps' q = reqs ps q) \<and> next_req ps' = next_req ps"
  proof (cases "rt_services r (Service (reqs ps rid))")
    case None
    then show ?thesis using d by (auto simp: Router_Dispatch_def GetBackService_def split: prod.splits)
  next
    case (Some s)
    then show ?thesis using d HandleRequest_frame [of T now s rid ps e ps'] by (simp add: Dispatch_known)
  qed
  then show "e = None" "q \<noteq> rid \<Longrightarrow> reqs ps' q = reqs ps q" "next_req ps' = next_req ps" by auto
qed

text \<open>The load balancer's dispatcher, up to the point where it waits for the worker.\<close>

definition LB_Dispatch_enter :: "thrift_lib \<Rightarrow> nat \<Rightarrow> lstate \<Rightarrow> (go_error option \<times> lstate) outcome" where
  "LB_Dispatch_enter T rid ls = obind (BackServiceLB_Dispatch T rid ls) (\<lambda>(_, ls'). Ret (None, ls'))"

interpretation lb_dispatch: dispatcher "LB_Dispatch_enter T" for T
proof unfold_locales
  fix rid q e and ls ls' :: lstate
  assume d: "LB_Dispatch_enter T rid ls = Ret (e, ls')"
  obtain b ls1 where n: "BackServiceLB_nextBackendConn ls = (b, ls1)"
    by (cases "BackServiceLB_nextBackendConn ls")
  then have l1: "reqs ls1 = reqs ls" "next_req ls1 = next_req ls"
    by (auto simp: BackServiceLB_nextBackendConn_def Let_def split: if_splits)
  have "e = None \<and> (q \<noteq> rid \<longrightarrow> reqs ls' q = reqs ls q) \<and> next_req ls' = next_req ls"
    using d n l1
    by (cases b) (auto simp: LB_Dispatch_enter_def BackServiceLB_Dispatch_def BackendConnLB_PushBack_def
        GetWorkerNotFoundData_def Let_def split: prod.splits if_splits)
  then show "e = None" "q \<noteq> rid \<Longrightarrow> reqs ls' q = reqs ls q" "next_req ls' = next_req ls" by auto
qed

subsection \<open>Reading requests\<close>

text \<open>
  Each round of the reader of a client session that goes on appends exactly one new request
  to the queue of its session, never more than \<open>maxPipeline\<close> of them, and changes no request
  made before; a round that ends the loop leaves the queue and all requests as they are. This
  holds for every dispatcher that keeps the contract of the sessions, here for the router.
\<close>

lemma reader_queues_one:
  assumes "Session_loopReader_turn T now maxPipeline (Some (Router_Dispatch T now r)) s p tasks ps =
    Ret (res, s', p', tasks', ps')"
  shows "(res = Continue \<longrightarrow> tasks' = tasks @ [next_req ps] \<and> length tasks' \<le> maxPipeline
      \<and> next_req ps' = Suc (next_req ps) \<and> (\<forall>q < next_req ps. reqs ps' q = reqs ps q) \<and> Ops s' = Ops s + 1)
    \<and> (\<forall>e. res = Return e \<longrightarrow> tasks' = tasks \<and> s' = s \<and> reqs ps' = reqs ps)"
  using router_dispatch.reader_turn [OF assms] by blast

lemma reader_queues_one_witness:
  "\<exists>s' p' tasks' ps'. Session_loopReader_turn strict_binary 0 10 (Some (Router_Dispatch strict_binary 0 (NewRouter ''prod'' False)))
      (NewSession 0 ''client'' False) (demo_reader (frame_bytes [1, 2, 3])) [] empty_pstate =
      Ret (Continue, s', p', tasks', ps') \<and> tasks' = [0]"
proof -
  let ?d = "Router_Dispatch strict_binary 0 (NewRouter ''prod'' False)"
  let ?t = "Session_loopReader_turn strict_binary 0 10 (Some ?d)
      (NewSession 0 ''client'' False) (demo_reader (frame_bytes [1, 2, 3])) [] empty_pstate"
  obtain f m q where rf: "ReadFrame strict_binary (pmem empty_pstate) (demo_reader (frame_bytes [1, 2, 3])) = Ret (Inr f, m, q)"
    using ReadFrame_ok [of "pmem empty_pstate" "demo_reader (frame_bytes [1, 2, 3])" "[1, 2, 3]" "[]" strict_binary]
    by (auto simp: empty_pstate_def)
  define qs where "qs = snd (new_req (NewRequest strict_binary m f True) (empty_pstate\<lparr>pmem := m\<rparr>))"
  obtain ps' where "?d 0 qs = Ret (None, ps')"
    using Dispatch_unknown [of "NewRouter ''prod'' False" qs 0 strict_binary 0] by (auto simp: NewRouter_def)
  then obtain s' p' tasks' ps' where t: "?t = Ret (Continue, s', p', tasks', ps')"
    using rf by (auto simp: Session_loopReader_turn_def Session_handleRequest_def NewSession_def qs_def new_req_def empty_pstate_def)
  have "next_req empty_pstate = 0" by (simp add: empty_pstate_def)
  then show ?thesis using reader_queues_one [OF t] t by auto
qed

end
