(* ===== verification/Conn_Machine.thy ===== *)
theory Conn_Machine
  imports Back_Service_Correct "HOL-Library.Transitive_Closure_Table"
begin

text \<open>
  The goroutines of one \<open>BackendConn\<close> as a step relation: the writer (\<open>loopWriter\<close>, its
  deferred function and the end of the round of \<open>Run\<close>), the heartbeat, the reader, and the
  service that pushes requests. A send and a receive on the unbuffered channels \<open>hbStop\<close> and
  \<open>hbTimeout\<close> are one step of both sides. Between the flush of a request and its entry in
  the table the other goroutines may run, as in the program.
\<close>

subsection \<open>Machine\<close>

text \<open>
  \<open>WrDefer e\<close>: the loop has returned \<open>e\<close> and the deferred function is at \<open>bc.hbStop <- true\<close>.
  \<open>HbSending\<close>: the heartbeat is at \<open>bc.hbTimeout <- true\<close>.
\<close>

datatype wr_pc = WrSelect | WrSent nat | WrDefer "go_error option" | WrReturned "go_error option" | WrEnded

datatype hb_pc = HbSelect | HbSending | HbDone

record 'n life =
  l_ps :: pstate
  l_tr :: "'n framed"
  l_wr :: wr_pc
  l_hb :: hb_pc

inductive life_step :: "thrift_lib \<Rightarrow> 'n net \<Rightarrow> nat \<Rightarrow> 'n life \<Rightarrow> 'n life \<Rightarrow> bool"
  for T :: thrift_lib and net :: "'n net" and c :: nat where
  expired: "l_wr L = WrSelect \<Longrightarrow> bc_input (conns (l_ps L) c) = rid # rest \<Longrightarrow>
     ReqTypeId (reqs (l_ps L) rid) = MESSAGE_TYPE_HEART_BEAT \<Longrightarrow> now - Start (reqs (l_ps L) rid) > 4 \<Longrightarrow>
     life_step T net c L (L\<lparr>l_ps := upd_conn c (\<lambda>b. b\<lparr>bc_input := rest\<rparr>) (l_ps L)\<rparr>)"
| send: "l_wr L = WrSelect \<Longrightarrow> bc_input (conns (l_ps L) c) = rid # rest \<Longrightarrow>
     \<not> (ReqTypeId (reqs (l_ps L) rid) = MESSAGE_TYPE_HEART_BEAT \<and> now - Start (reqs (l_ps L) rid) > 4) \<Longrightarrow>
     BackendConn_send T net nano c rid (l_tr L)
       (upd_conn c (\<lambda>b. b\<lparr>bc_input := rest\<rparr>) (l_ps L)) = Ret (None, p', ps') \<Longrightarrow>
     life_step T net c L (L\<lparr>l_ps := ps', l_tr := p', l_wr := WrSent rid\<rparr>)"
| register: "l_wr L = WrSent rid \<Longrightarrow>
     life_step T net c L (L\<lparr>l_ps := BackendConn_register c rid (l_ps L), l_wr := WrSelect\<rparr>)"
| leave: "l_wr L = WrSelect \<Longrightarrow>
     BackendConn_loopWriter_turn T net now nano c (l_tr L) (l_ps L) = Ret (Return e, p', ps') \<Longrightarrow>
     life_step T net c L (L\<lparr>l_ps := ps', l_tr := p', l_wr := WrDefer e\<rparr>)"
| hb_timeout: "l_wr L = WrSelect \<Longrightarrow> l_hb L = HbSending \<Longrightarrow>
     life_step T net c L (L\<lparr>l_wr := WrDefer (Some (BackendConn_hb_timeout_error
       (bc_service (conns (l_ps L) c)))), l_hb := HbDone\<rparr>)"
| hb_stop: "l_wr L = WrDefer e \<Longrightarrow> l_hb L = HbSelect \<Longrightarrow>
     life_step T net c L (L\<lparr>l_wr := WrReturned e, l_hb := HbDone\<rparr>)"
| after: "l_wr L = WrReturned e \<Longrightarrow> BackendConn_after_writer T now c e (l_ps L) = Ret ps' \<Longrightarrow>
     life_step T net c L (L\<lparr>l_ps := ps', l_wr := WrEnded\<rparr>)"
| tick_ping: "l_hb L = HbSelect \<Longrightarrow> BackendConn_hb_tick T now c (l_ps L) = Ret (HbPing, ps') \<Longrightarrow>
     life_step T net c L (L\<lparr>l_ps := ps'\<rparr>)"
| tick_timeout: "l_hb L = HbSelect \<Longrightarrow> BackendConn_hb_tick T now c (l_ps L) = Ret (HbTimeout, ps') \<Longrightarrow>
     life_step T net c L (L\<lparr>l_ps := ps', l_hb := HbSending\<rparr>)"
| tick_offline: "l_hb L = HbSelect \<Longrightarrow> BackendConn_hb_tick T now c (l_ps L) = Ret (HbStop, ps') \<Longrightarrow>
     life_step T net c L (L\<lparr>l_ps := ps', l_hb := HbDone\<rparr>)"
| reply: "BackendConn_setResponse T now c None (Some d) None ((l_ps L)\<lparr>pmem := m\<rparr>) = Ret (e, ps') \<Longrightarrow>
     life_step T net c L (L\<lparr>l_ps := ps'\<rparr>)"
| lost: "BackendConn_flushRequests c err ks ((l_ps L)\<lparr>pmem := m\<rparr>) = Ret ps' \<Longrightarrow>
     map_order (bc_seqNum2Request (conns (l_ps L) c)) ks \<Longrightarrow>
     life_step T net c L (L\<lparr>l_ps := ps'\<rparr>)"
| push: "BackendConn_PushBack c rid (l_ps L) = Ret ps' \<Longrightarrow> rid \<notin> bc_pending c (l_ps L) \<Longrightarrow>
     l_wr L \<noteq> WrSent rid \<Longrightarrow> rid < next_req (l_ps L) \<Longrightarrow> ReqData (reqs (l_ps L) rid) \<noteq> None \<Longrightarrow>
     (case Wait (reqs (l_ps L) rid) of None \<Rightarrow> True | Some w \<Rightarrow> w \<ge> 0) \<Longrightarrow>
     life_step T net c L (L\<lparr>l_ps := ps'\<rparr>)"

inductive_cases life_stepE: "life_step T net c L L'"

abbreviation life_reach :: "thrift_lib \<Rightarrow> 'n net \<Rightarrow> nat \<Rightarrow> 'n life \<Rightarrow> 'n life \<Rightarrow> bool" where
  "life_reach T net c \<equiv> (life_step T net c)\<^sup>*\<^sup>*"

subsection \<open>Turns of the writer are send and register\<close>

lemma turn_decomposes:
  assumes "BackendConn_loopWriter_turn T net now nano c p ps = Ret (Continue, p', ps')"
    and "bc_input (conns ps c) = rid # rest"
    and "\<not> (ReqTypeId (reqs ps rid) = MESSAGE_TYPE_HEART_BEAT \<and> now - Start (reqs ps rid) > 4)"
  shows "\<exists>ps1. BackendConn_send T net nano c rid p (upd_conn c (\<lambda>b. b\<lparr>bc_input := rest\<rparr>) ps) = Ret (None, p', ps1)
    \<and> ps' = BackendConn_register c rid ps1"
proof -
  let ?send = "BackendConn_send T net nano c rid p (upd_conn c (\<lambda>b. b\<lparr>bc_input := rest\<rparr>) ps)"
  have t: "obind ?send (\<lambda>(err, p1, ps1). case err of
        None \<Rightarrow> Ret (Continue, p1, BackendConn_register c rid ps1)
      | Some e \<Rightarrow> obind (BackendConn_setResponse T now c (Some rid) None (Some e) ps1)
          (\<lambda>(e', ps2). Ret (Return e', p1, ps2))) = Ret (Continue, p', ps')"
    using assms by (auto simp: BackendConn_loopWriter_turn_def Let_def)
  then obtain err p1 ps1 where s: "?send = Ret (err, p1, ps1)" by auto
  show ?thesis using t s by (cases err) auto
qed

subsection \<open>The writer that never returns\<close>

text \<open>
  Once the heartbeat goroutine has ended while the writer has not yet delivered its stop
  signal, no step takes the writer further.
\<close>

definition stuck :: "'n life \<Rightarrow> bool" where
  "stuck L \<longleftrightarrow> (\<exists>e. l_wr L = WrDefer e) \<and> l_hb L \<noteq> HbSelect"

lemma stuck_step:
  assumes "life_step T net c L L'" and "stuck L"
  shows "stuck L' \<and> l_wr L' = l_wr L"
  using assms by (cases rule: life_stepE) (auto simp: stuck_def)

lemma stuck_forever:
  assumes "life_reach T net c L L'" and "stuck L"
  shows "l_wr L' = l_wr L"
proof -
  have "stuck L' \<and> l_wr L' = l_wr L"
    using assms by (induction rule: rtranclp_induct) (auto dest: stuck_step)
  then show ?thesis by blast
qed

lemma heartbeat_ended_stuck:
  assumes "life_reach T net c L L'" and "l_hb L = HbDone" and "l_wr L \<noteq> WrEnded" and "\<forall>e. l_wr L \<noteq> WrReturned e"
  shows "l_hb L' = HbDone \<and> l_wr L' \<noteq> WrEnded \<and> (\<forall>e. l_wr L' \<noteq> WrReturned e)"
  using assms
proof (induction rule: rtranclp_induct)
  case base
  then show ?case by simp
next
  case (step y z)
  then show ?case by (auto elim: life_stepE)
qed

subsection \<open>Invariant\<close>

lemma ReplaceSeqId_shape:
  assumes "ReplaceSeqId T m r k = Ret (r', m')" and "ReqData r \<noteq> None"
  shows "RespSeqId r' = k \<and> ReqData r' \<noteq> None \<and> Wait r' = Wait r"
  using assms by (auto simp: ReplaceSeqId_def Let_def case_prod_beta)

lemma write_request_shape:
  assumes "write_request T net nano k flush rid p ps = Ret (e, p', ps')" and "ReqData (reqs ps rid) \<noteq> None"
  shows "\<exists>r m. ps' = (set_req rid r ps)\<lparr>pmem := m\<rparr> \<and> RespSeqId r = k \<and> ReqData r \<noteq> None
    \<and> Wait r = Wait (reqs ps rid)"
proof -
  obtain r m where r: "ReplaceSeqId T (pmem ps) (reqs ps rid) k = Ret (r, m)"
    and ps': "ps' = (set_req rid r ps)\<lparr>pmem := m\<rparr>"
    using assms(1) by (auto simp: write_request_def Let_def case_prod_beta)
  from ReplaceSeqId_shape [OF r assms(2)] ps' show ?thesis by blast
qed

lemma finish_in_total:
  assumes "awaited (reqs ps rid)"
  shows "\<exists>r m. finish_in T rid data err ps = Ret (err, (set_req rid r ps)\<lparr>pmem := m\<rparr>)"
proof -
  have "\<exists>m. RestoreSeqId T (pmem ps) r = Ret m" for r
    by (cases "RespData r") (auto simp: RestoreSeqId_def subslice_def)
  then obtain m where "(if data \<noteq> None then RestoreSeqId T (pmem ps) ((reqs ps rid)\<lparr>RespData := data, RespErr := err\<rparr>)
      else Ret (pmem ps)) = Ret m" by (metis (full_types))
  then show ?thesis
    using assms by (auto simp: finish_in_def finish_request_def wait_done_awaited Let_def)
qed

text \<open>Whatever a backend sends, the reader does not panic and completes at most one request.\<close>

lemma setResponse_robust:
  assumes inv: "conn_inv c ps"
  shows "\<exists>e ps'. BackendConn_setResponse T now c r (Some d) None ps = Ret (e, ps') \<and> conn_inv c ps'
    \<and> bc_pending c ps' \<subseteq> bc_pending c ps \<and> svcs ps' = svcs ps \<and> next_req ps' = next_req ps
    \<and> bc_input (conns ps' c) = bc_input (conns ps c) \<and> bc_currentSeqId (conns ps' c) = bc_currentSeqId (conns ps c)
    \<and> (\<forall>q. q \<notin> bc_pending c ps \<or> q \<in> bc_pending c ps' \<longrightarrow> reqs ps' q = reqs ps q)"
proof -
  obtain ty k derr where dec: "DecodeThriftTypIdSeqId T (pmem ps) d = (ty, k, derr)"
    by (cases "DecodeThriftTypIdSeqId T (pmem ps) d")
  let ?b = "snd (bc_take (conns ps c) k)"
  note forget = pend_forget [OF inv [unfolded conn_inv_def], of k]
  show ?thesis
  proof (cases derr)
    case (Some e)
    then show ?thesis using setResponse_decode_error [of T ps d ty k e now c r None] dec inv by simp
  next
    case None
    show ?thesis
    proof (cases "ty = MESSAGE_TYPE_HEART_BEAT")
      case True
      then show ?thesis
        using setResponse_heartbeat [of T ps d k now c r None] dec None forget
        by (simp add: conn_inv_def bc_pending_def)
    next
      case False
      show ?thesis
      proof (cases "bc_seqNum2Request (conns ps c) k")
        case NoneT: None
        then show ?thesis
          using setResponse_unknown [of T ps d ty k c now r None] dec None False forget
          by (simp add: conn_inv_def bc_pending_def)
      next
        case (Some rid)
        let ?ps = "set_req rid ((reqs ps rid)\<lparr>RespTypeId := ty\<rparr>) (upd_conn c (\<lambda>_. ?b) ps)"
        have "awaited (reqs ?ps rid)" using conn_invD(8) [OF inv, of rid] Some by (auto simp: ran_def)
        then obtain r' m where f: "finish_in T rid (Some d) None ?ps = Ret (None, (set_req rid r' ?ps)\<lparr>pmem := m\<rparr>)"
          using finish_in_total by blast
        define ps' where "ps' = (set_req rid r' ?ps)\<lparr>pmem := m\<rparr>"
        have "BackendConn_setResponse T now c r (Some d) None ps = Ret (None, ps')"
          using dec None False Some f by (simp add: BackendConn_setResponse_def bc_take_def ps'_def)
        moreover have sel: "reqs ps' = (reqs ps)(rid := r')" "conns ps' = (conns ps)(c := ?b)" "svcs ps' = svcs ps"
          "next_req ps' = next_req ps"
          by (simp_all add: ps'_def)
        moreover have "conn_inv c ps' \<and> bc_pending c ps' = bc_pending c ps - {rid}"
          by (rule conn_inv_taken [OF inv Some sel(1,2)])
        moreover have "rid \<in> bc_pending c ps" using Some by (auto simp: bc_pending_def pending_def ran_def)
        ultimately show ?thesis by auto
      qed
    qed
  qed
qed

definition life_inv :: "nat \<Rightarrow> 'n life \<Rightarrow> bool" where
  "life_inv c L \<longleftrightarrow> conn_inv c (l_ps L) \<and>
     (\<forall>rid \<in> bc_pending c (l_ps L). rid < next_req (l_ps L) \<and> ReqData (reqs (l_ps L) rid) \<noteq> None) \<and>
     (\<forall>rid. l_wr L = WrSent rid \<longrightarrow> rid < next_req (l_ps L) \<and> rid \<notin> bc_pending c (l_ps L) \<and>
        awaited (reqs (l_ps L) rid) \<and> RespSeqId (reqs (l_ps L) rid) = bc_currentSeqId (conns (l_ps L) c) \<and>
        ReqData (reqs (l_ps L) rid) \<noteq> None)"

text \<open>What every step that is not a push does to the requests: fewer pending, none of them changed.\<close>

definition shrinks :: "nat \<Rightarrow> pstate \<Rightarrow> pstate \<Rightarrow> bool" where
  "shrinks c ps ps' \<longleftrightarrow> conn_inv c ps' \<and> bc_pending c ps' \<subseteq> bc_pending c ps \<and> next_req ps' = next_req ps \<and>
     bc_currentSeqId (conns ps' c) = bc_currentSeqId (conns ps c) \<and>
     (\<forall>q. q \<notin> bc_pending c ps \<or> q \<in> bc_pending c ps' \<longrightarrow> reqs ps' q = reqs ps q)"

lemma pmem_irrelevant [simp]:
  "conn_inv c (ps\<lparr>pmem := m\<rparr>) = conn_inv c ps" "bc_pending c (ps\<lparr>pmem := m\<rparr>) = bc_pending c ps"
  "shrinks c (ps\<lparr>pmem := m\<rparr>) ps' = shrinks c ps ps'"
  by (simp_all add: conn_inv_def bc_pending_def shrinks_def)

lemma life_inv_shrinks:
  assumes inv: "life_inv c L" and sh: "shrinks c (l_ps L) (l_ps L')"
    and wr: "\<And>rid. l_wr L' = WrSent rid \<Longrightarrow> l_wr L = WrSent rid"
  shows "life_inv c L'"
  using inv sh wr unfolding life_inv_def shrinks_def by (metis subsetD)

lemma shrinks_dequeue:
  assumes inv: "conn_inv c ps" and inp: "bc_input (conns ps c) = rid # rest"
    and ps': "bc_input (conns ps' c) = rest"
      "bc_seqNum2Request (conns ps' c) = bc_seqNum2Request (conns ps c)"
      "bc_currentSeqId (conns ps' c) = bc_currentSeqId (conns ps c)"
      "\<And>q. q \<noteq> rid \<Longrightarrow> reqs ps' q = reqs ps q" "next_req ps' = next_req ps"
  shows "shrinks c ps ps' \<and> rid \<notin> bc_pending c ps'"
proof -
  have "conn_inv c ps' \<and> bc_pending c ps' = bc_pending c ps - {rid}"
    by (rule conn_inv_dequeued [OF inv inp ps'(1-4)])
  moreover have "rid \<in> bc_pending c ps" using inp by (simp add: bc_pending_def pending_def)
  moreover from this have "reqs ps' q = reqs ps q" if "q \<notin> bc_pending c ps \<or> q \<in> bc_pending c ps - {rid}" for q
    using that ps'(4) [of q] by auto
  ultimately show ?thesis using ps'(3,5) unfolding shrinks_def by simp
qed

lemma shrinks_leave:
  assumes inv: "conn_inv c ps" and dat: "\<forall>rid \<in> bc_pending c ps. ReqData (reqs ps rid) \<noteq> None"
    and t: "BackendConn_loopWriter_turn T net now nano c p ps = Ret (Return e, p', ps')"
  shows "shrinks c ps ps'"
proof (cases "bc_input (conns ps c)")
  case Nil
  then show ?thesis using t inv by (auto simp: BackendConn_loopWriter_turn_def shrinks_def split: if_splits)
next
  case (Cons rid rest)
  let ?ps0 = "upd_conn c (\<lambda>b. b\<lparr>bc_input := rest\<rparr>) ps"
  obtain e0 p1 ps1 where w: "write_request T net nano (bc_currentSeqId (conns ps c)) (rest = []) rid p ?ps0 = Ret (Some e0, p1, ps1)"
    and s: "BackendConn_setResponse T now c (Some rid) None (Some e0) ps1 = Ret (e, ps')"
    using t Cons by (auto simp: BackendConn_loopWriter_turn_def BackendConn_send_def Let_def split: if_splits option.splits)
  have d: "ReqData (reqs ?ps0 rid) \<noteq> None" using dat Cons by (simp add: bc_pending_def pending_def)
  obtain r m where ps1: "ps1 = (set_req rid r ?ps0)\<lparr>pmem := m\<rparr>" and r: "Wait r = Wait (reqs ps rid)"
    using write_request_shape [OF w d] by auto
  have "awaited (reqs ps1 rid)"
    using conn_invD(9) [OF inv, of rid] Cons r ps1 by (simp add: awaited_def)
  then have "ps' = set_req rid (completed (reqs ps1 rid) None (Some e0)) ps1"
    using s setResponse_error [of ps1 rid T now c e0] by auto
  then show ?thesis using shrinks_dequeue [OF inv Cons, of ps'] ps1 by simp
qed

lemma shrinks_after:
  assumes inv: "conn_inv c ps" and t: "BackendConn_after_writer T now c e ps = Ret ps'"
  shows "shrinks c ps ps'"
proof -
  obtain ps1 where m: "BackendConn_MarkConnActiveFalse c ps = Ret ps1"
    and r: "(case e of None \<Rightarrow> Ret ps1
       | Some e \<Rightarrow> BackendConn_drain T now c e (length (bc_input (conns ps1 c))) ps1) = Ret ps'"
    using t by (auto simp: BackendConn_after_writer_def)
  note fr = MarkConnActiveFalse_frame [OF m]
  have inv1: "conn_inv c ps1" using inv conn_inv_MarkConnActiveFalse [OF m] by simp
  have p1: "bc_pending c ps1 = bc_pending c ps" using fr by (simp add: bc_pending_def)
  show ?thesis
  proof (cases e)
    case None
    then show ?thesis using r inv1 p1 fr by (simp add: shrinks_def)
  next
    case (Some x)
    then have d: "BackendConn_drain T now c x (length (bc_input (conns ps1 c))) ps1 = Ret ps'" using r by simp
    have "bc_pending c ps' = bc_pending c ps1 - set (bc_input (conns ps1 c))" "conn_inv c ps'" "next_req ps' = next_req ps1"
      and rs: "reqs ps' = (\<lambda>q. if q \<in> set (bc_input (conns ps1 c)) then completed (reqs ps1 q) None (Some x) else reqs ps1 q)"
      and cu: "bc_currentSeqId (conns ps' c) = bc_currentSeqId (conns ps1 c)"
      using drain_spec [OF inv1 refl, of T now x] d by auto
    then show ?thesis using p1 fr unfolding shrinks_def rs by (auto simp: bc_pending_def pending_def)
  qed
qed

lemma shrinks_lost:
  assumes inv: "conn_inv c ps" and f: "BackendConn_flushRequests c err ks ps = Ret ps'"
    and ks: "map_order (bc_seqNum2Request (conns ps c)) ks"
  shows "shrinks c ps ps'"
proof -
  obtain ps1 where m: "BackendConn_MarkConnActiveFalse c ps = Ret ps1"
    using f by (auto simp: BackendConn_flushRequests_def)
  note sp = flushRequests_spec [OF inv m ks, of err]
  let ?t = "bc_seqNum2Request (conns ps c)"
  have i: "bc_seqNum2Request (conns ps' c) = Map.empty" "bc_input (conns ps' c) = bc_input (conns ps c)"
    "bc_currentSeqId (conns ps' c) = bc_currentSeqId (conns ps c)" "next_req ps' = next_req ps"
    "\<And>q. q \<notin> ran ?t \<Longrightarrow> reqs ps' q = reqs ps q"
    using sp f by auto
  have "conn_inv c ps' \<and> bc_pending c ps' = set (bc_input (conns ps c))"
    by (rule conn_inv_flushed [OF inv i(1-3,5)])
  moreover have "q \<notin> ran ?t" if "q \<notin> bc_pending c ps \<or> q \<in> set (bc_input (conns ps c))" for q
    using that conn_invD(4) [OF inv] by (auto simp: bc_pending_def pending_def ran_def)
  ultimately show ?thesis using i(3-5) unfolding shrinks_def by (auto simp: bc_pending_def pending_def)
qed

lemma life_inv_push:
  assumes inv: "life_inv c L" and fresh: "rid \<notin> bc_pending c (l_ps L)" "l_wr L \<noteq> WrSent rid" "rid < next_req ps1"
    and ps1: "conns ps1 = conns (l_ps L)" "\<And>q. q \<noteq> rid \<Longrightarrow> reqs ps1 q = reqs (l_ps L) q"
      "next_req (l_ps L) \<le> next_req ps1"
    and r: "ReqData (reqs ps1 rid) \<noteq> None" "case Wait (reqs ps1 rid) of None \<Rightarrow> True | Some w \<Rightarrow> w \<ge> 0"
    and push: "BackendConn_PushBack c rid ps1 = Ret ps'"
  shows "life_inv c (L\<lparr>l_ps := ps'\<rparr>)"
proof -
  let ?ps = "l_ps L"
  have inv0: "conn_inv c ?ps" using inv by (simp add: life_inv_def)
  have pend1: "bc_pending c ps1 = bc_pending c ?ps" using ps1(1) by (simp add: bc_pending_def)
  have "reqs ps1 q = reqs ?ps q" if "q \<in> bc_pending c ?ps" for q
    using that fresh(1) ps1(2) [of q] by auto
  then have inv1: "conn_inv c ps1"
    using inv0 pend_cong [of "bc_seqNum2Request (conns ?ps c)" "bc_input (conns ?ps c)" "reqs ps1" "reqs ?ps"] ps1(1)
    by (simp add: conn_inv_def bc_pending_def)
  have sp: "conn_inv c ps'" "bc_pending c ps' = insert rid (bc_pending c ps1)"
    "reqs ps' = (reqs ps1)(rid := wait_add (reqs ps1 rid))"
    using PushBack_spec [OF inv1 _ r(2) push] fresh(1) pend1 by auto
  have fr: "next_req ps' = next_req ps1" "bc_currentSeqId (conns ps' c) = bc_currentSeqId (conns ps1 c)"
    using push by (auto simp: BackendConn_PushBack_def Let_def split: if_splits)
  have "q < next_req ps' \<and> ReqData (reqs ps' q) \<noteq> None" if "q \<in> bc_pending c ps'" for q
  proof (cases "q = rid")
    case True
    then show ?thesis using fresh(3) fr(1) r(1) sp(3) by (simp add: wait_add_def)
  next
    case False
    then have "q \<in> bc_pending c ?ps" using that sp(2) pend1 by simp
    then have "q < next_req ?ps \<and> ReqData (reqs ?ps q) \<noteq> None" using inv by (simp add: life_inv_def)
    then show ?thesis using False sp(3) ps1(2) [OF False] ps1(3) fr(1) by simp
  qed
  moreover have "q < next_req ps' \<and> q \<notin> bc_pending c ps' \<and> awaited (reqs ps' q)
      \<and> RespSeqId (reqs ps' q) = bc_currentSeqId (conns ps' c) \<and> ReqData (reqs ps' q) \<noteq> None" if "l_wr L = WrSent q" for q
  proof -
    have "q \<noteq> rid" using that fresh(2) by auto
    then show ?thesis using that inv sp(2,3) pend1 ps1 fr by (auto simp: life_inv_def)
  qed
  ultimately show ?thesis using sp(1) by (simp add: life_inv_def)
qed

lemma life_inv_tick_ping:
  assumes inv: "life_inv c L" and t: "BackendConn_hb_tick T now c (l_ps L) = Ret (HbPing, ps')"
  shows "life_inv c (L\<lparr>l_ps := ps'\<rparr>)"
proof -
  let ?ps = "l_ps L" and ?n = "next_req (l_ps L)"
  obtain r m where n: "NewPingRequest T (pmem ?ps) now = (r, m)" by (cases "NewPingRequest T (pmem ?ps) now")
  then have r: "ReqData r \<noteq> None" "Wait r = None"
    by (auto simp: NewPingRequest_def zero_request_def Let_def split: prod.splits)
  define ps1 where "ps1 = (set_req ?n r (?ps\<lparr>pmem := m\<rparr>))\<lparr>next_req := Suc ?n\<rparr>"
  have push: "BackendConn_PushBack c ?n ps1 = Ret ps'"
    using t n by (auto simp: BackendConn_hb_tick_def new_req_def ps1_def split: if_splits)
  have "?n \<notin> bc_pending c ?ps" "l_wr L \<noteq> WrSent ?n"
    using inv by (auto simp: life_inv_def)
  then show ?thesis
    by (rule life_inv_push [OF inv _ _ _ _ _ _ _ _ push]) (use r in \<open>simp_all add: ps1_def\<close>)
qed

lemma life_inv_send:
  assumes inv: "life_inv c L" and inp: "bc_input (conns (l_ps L) c) = rid # rest"
    and s: "BackendConn_send T net nano c rid (l_tr L)
       (upd_conn c (\<lambda>b. b\<lparr>bc_input := rest\<rparr>) (l_ps L)) = Ret (None, p', ps')"
  shows "life_inv c (L\<lparr>l_ps := ps', l_tr := p', l_wr := WrSent rid\<rparr>)"
proof -
  let ?ps = "l_ps L" and ?qs = "upd_conn c (\<lambda>b. b\<lparr>bc_input := rest\<rparr>) (l_ps L)"
  have inv0: "conn_inv c ?ps" using inv by (simp add: life_inv_def)
  have mem: "rid \<in> bc_pending c ?ps" using inp by (simp add: bc_pending_def pending_def)
  then have d: "ReqData (reqs ?qs rid) \<noteq> None" and lt: "rid < next_req ?ps" using inv by (auto simp: life_inv_def)
  have w: "write_request T net nano (bc_currentSeqId (conns ?ps c)) (rest = []) rid (l_tr L) ?qs = Ret (None, p', ps')"
    using s by (simp add: BackendConn_send_def)
  obtain r m where ps': "ps' = (set_req rid r ?qs)\<lparr>pmem := m\<rparr>"
    and r: "RespSeqId r = bc_currentSeqId (conns ?ps c)" "Wait r = Wait (reqs ?ps rid)" "ReqData r \<noteq> None"
    using write_request_shape [OF w d] by auto
  have sel: "bc_input (conns ps' c) = rest" "bc_seqNum2Request (conns ps' c) = bc_seqNum2Request (conns ?ps c)"
    "bc_currentSeqId (conns ps' c) = bc_currentSeqId (conns ?ps c)" "\<And>q. q \<noteq> rid \<Longrightarrow> reqs ps' q = reqs ?ps q"
    "next_req ps' = next_req ?ps" "reqs ps' rid = r"
    by (simp_all add: ps')
  note sh = shrinks_dequeue [OF inv0 inp sel(1-5)]
  have "life_inv c (L\<lparr>l_ps := ps', l_wr := WrSelect\<rparr>)"
    by (rule life_inv_shrinks [OF inv]) (use sh in simp_all)
  moreover have "awaited r" using conn_invD(9) [OF inv0, of rid] inp r(2) by (simp add: awaited_def)
  ultimately show ?thesis using sh lt r(1,3) sel(3,5,6) by (simp add: life_inv_def)
qed

lemma life_inv_register:
  assumes inv: "life_inv c L" and wr: "l_wr L = WrSent rid"
  shows "life_inv c (L\<lparr>l_ps := BackendConn_register c rid (l_ps L), l_wr := WrSelect\<rparr>)"
proof -
  let ?ps = "l_ps L"
  have inv0: "conn_inv c ?ps" and r: "rid < next_req ?ps" "rid \<notin> bc_pending c ?ps" "awaited (reqs ?ps rid)"
    "RespSeqId (reqs ?ps rid) = bc_currentSeqId (conns ?ps c)" "ReqData (reqs ?ps rid) \<noteq> None"
    using inv wr by (auto simp: life_inv_def)
  note ps = pend_store [OF inv0 [unfolded conn_inv_def] r(2) [unfolded bc_pending_def] r(4,3)]
  let ?ps' = "BackendConn_register c rid ?ps"
  have "conn_inv c ?ps'" using ps r(4) by (simp add: conn_inv_def BackendConn_register_def)
  moreover have "bc_pending c ?ps' \<subseteq> insert rid (bc_pending c ?ps)"
    using ps r(4) by (auto simp: bc_pending_def BackendConn_register_def split: option.splits)
  moreover have "next_req ?ps' = next_req ?ps" "reqs ?ps' = reqs ?ps" by (simp_all add: BackendConn_register_def)
  ultimately show ?thesis using inv r(1,5) by (auto simp: life_inv_def)
qed

theorem life_inv_step:
  assumes step: "life_step T net c L L'" and inv: "life_inv c L"
  shows "life_inv c L'"
proof -
  have inv0: "conn_inv c (l_ps L)" and dat: "\<forall>rid \<in> bc_pending c (l_ps L). ReqData (reqs (l_ps L) rid) \<noteq> None"
    using inv by (auto simp: life_inv_def)
  have self: "shrinks c (l_ps L) (l_ps L)" using inv0 by (simp add: shrinks_def)
  note by_shrinks = life_inv_shrinks [OF inv]
  from step show ?thesis
  proof (cases rule: life_step.cases)
    case (expired rid rest now)
    then show ?thesis using shrinks_dequeue [OF inv0 expired(3), of "l_ps L'"] by (intro by_shrinks) auto
  next
    case (send rid rest now nano p' ps')
    then show ?thesis using life_inv_send [OF inv send(3) send(5)] by simp
  next
    case (register rid)
    then show ?thesis using life_inv_register [OF inv] by simp
  next
    case (leave now nano e p' ps')
    then show ?thesis using shrinks_leave [OF inv0 dat leave(3)] by (intro by_shrinks) auto
  next
    case hb_timeout
    then show ?thesis using self by (intro by_shrinks) auto
  next
    case (hb_stop e)
    then show ?thesis using self by (intro by_shrinks) auto
  next
    case (after e now ps')
    then show ?thesis using shrinks_after [OF inv0 after(3)] by (intro by_shrinks) auto
  next
    case (tick_ping now ps')
    then show ?thesis using life_inv_tick_ping [OF inv tick_ping(3)] by simp
  next
    case (tick_timeout now ps')
    then show ?thesis using self
      by (intro by_shrinks) (auto simp: BackendConn_hb_tick_def Let_def case_prod_beta split: if_splits)
  next
    case (tick_offline now ps')
    then show ?thesis using self
      by (intro by_shrinks) (auto simp: BackendConn_hb_tick_def Let_def case_prod_beta split: if_splits)
  next
    case (reply now d m e ps')
    then have "shrinks c ((l_ps L)\<lparr>pmem := m\<rparr>) ps'"
      using setResponse_robust [of c "(l_ps L)\<lparr>pmem := m\<rparr>" T now None d] inv0 by (auto simp: shrinks_def)
    then have "shrinks c (l_ps L) ps'" by simp
    then show ?thesis using reply(1) by (intro by_shrinks) auto
  next
    case (lost err ks m ps')
    then have "shrinks c ((l_ps L)\<lparr>pmem := m\<rparr>) ps'"
      using shrinks_lost [of c "(l_ps L)\<lparr>pmem := m\<rparr>" err ks ps'] inv0 by simp
    then have "shrinks c (l_ps L) ps'" by simp
    then show ?thesis using lost(1) by (intro by_shrinks) auto
  next
    case (push rid ps')
    then show ?thesis using life_inv_push [OF inv push(3,4,5) refl _ _ push(6,7,2)] by simp
  qed
qed

lemma life_inv_reach:
  assumes "life_reach T net c L L'" and "life_inv c L"
  shows "life_inv c L'"
  using assms by (induction rule: rtranclp_induct) (auto intro: life_inv_step)

subsection \<open>A reply that comes too early\<close>

text \<open>
  The reader may see the reply before the writer has put the request into the table. The reply
  is then refused, and the request is stored afterwards, to wait for a reply that never comes.
\<close>

text \<open>
  The writer stores a request in the table only after it has flushed it. A reply that arrives
  in between is refused with \<open>Invalid Response\<close>; the request is stored afterwards and stays
  there, its client waiting, until the connection fails.
\<close>

lemma early_reply_lost:
  assumes inv: "life_inv c L" and wr: "l_wr L = WrSent rid"
    and free: "bc_seqNum2Request (conns (l_ps L) c) (RespSeqId (reqs (l_ps L) rid)) = None"
    and dec: "DecodeThriftTypIdSeqId T (pmem (l_ps L)) d = (ty, RespSeqId (reqs (l_ps L) rid), None)"
    and ty: "ty \<noteq> MESSAGE_TYPE_HEART_BEAT" and w: "Wait (reqs (l_ps L) rid) = Some n"
  shows "\<exists>L1 L2. BackendConn_setResponse T now c None (Some d) None (l_ps L) =
        Ret (Some (ErrorString ''Invalid Response''), l_ps L1)
    \<and> life_step T net c L L1 \<and> life_step T net c L1 L2
    \<and> bc_seqNum2Request (conns (l_ps L2) c) (RespSeqId (reqs (l_ps L) rid)) = Some rid
    \<and> l_wr L2 = WrSelect \<and> wait_wait (reqs (l_ps L2) rid) = Block"
proof -
  let ?k = "RespSeqId (reqs (l_ps L) rid)"
  define ps1 where "ps1 = upd_conn c (\<lambda>_. snd (bc_take (conns (l_ps L) c) ?k)) (l_ps L)"
  define L1 where "L1 = L\<lparr>l_ps := ps1\<rparr>"
  define L2 where "L2 = L1\<lparr>l_ps := BackendConn_register c rid ps1, l_wr := WrSelect\<rparr>"
  have r: "BackendConn_setResponse T now c None (Some d) None (l_ps L) = Ret (Some (ErrorString ''Invalid Response''), ps1)"
    using setResponse_unknown [OF dec ty free] by (simp add: ps1_def)
  have "life_step T net c L L1" unfolding L1_def by (rule life_step.reply [of T now c d "pmem (l_ps L)"]) (use r in simp)
  moreover have "life_step T net c L1 L2"
    unfolding L2_def using life_step.register [of L1 rid] wr by (simp add: L1_def)
  moreover have "awaited (reqs (l_ps L) rid)" using inv wr by (simp add: life_inv_def)
  then have "wait_wait (reqs (l_ps L2) rid) = Block"
    using w by (simp add: L2_def BackendConn_register_def ps1_def awaited_def wait_wait_def)
  moreover have "bc_seqNum2Request (conns (l_ps L2) c) ?k = Some rid"
    by (simp add: L2_def BackendConn_register_def ps1_def)
  moreover have "l_ps L1 = ps1" "l_wr L2 = WrSelect" by (simp_all add: L1_def L2_def)
  ultimately show ?thesis using r by metis
qed

definition demo_life :: "byte list life" where
  "demo_life = \<lparr>l_ps = (snd (NewBackendConn ''host:9090'' None ''math'' False empty_pstate))
      \<lparr>pmem := demo_memory (msg_header strict_binary ''add'' 2 1 @ [42]),
       reqs := (\<lambda>_. zero_request\<lparr>ReqName := ''add'', ReqTypeId := 1, RespSeqId := 1, Wait := Some 1,
         ReqData := Some (demo_frame [])\<rparr>), next_req := 1\<rparr>,
     l_tr = demo_writer, l_wr = WrSent 0, l_hb = HbSelect\<rparr>"

lemma early_reply_lost_witness:
  "\<exists>L1 L2. BackendConn_setResponse strict_binary 0 0 None
        (Some (demo_frame (msg_header strict_binary ''add'' 2 1 @ [42]))) None (l_ps demo_life) =
      Ret (Some (ErrorString ''Invalid Response''), l_ps L1)
    \<and> life_step strict_binary net_all 0 demo_life L1 \<and> life_step strict_binary net_all 0 L1 L2
    \<and> wait_wait (reqs (l_ps L2) 0) = Block"
proof -
  let ?d = "demo_frame (msg_header strict_binary ''add'' 2 1 @ [42])"
  have s: "reqs (l_ps demo_life) 0 = zero_request\<lparr>ReqName := ''add'', ReqTypeId := 1, RespSeqId := 1, Wait := Some 1,
      ReqData := Some (demo_frame [])\<rparr>" "bc_seqNum2Request (conns (l_ps demo_life) 0) = Map.empty"
    "bc_input (conns (l_ps demo_life) 0) = []" "bc_currentSeqId (conns (l_ps demo_life) 0) = 1"
    "next_req (l_ps demo_life) = 1" "l_wr demo_life = WrSent 0"
    "pmem (l_ps demo_life) = demo_memory (msg_header strict_binary ''add'' 2 1 @ [42])"
    by (simp_all add: demo_life_def NewBackendConn_def empty_pstate_def BACKEND_CONN_MIN_SEQ_ID_def)
  have inv: "life_inv 0 demo_life"
    by (auto simp: life_inv_def conn_inv_def pend_inv_def bc_pending_def pending_def s awaited_def seq_ok_def CHAN_CAP_def)
  have dec: "DecodeThriftTypIdSeqId strict_binary (pmem (l_ps demo_life)) ?d = (2, 1, None)"
    unfolding s(7) by (rule setResponse_decoded [of _ "''add''" 2 "l_ps demo_life", unfolded s(7)]) (simp_all add: msg_ok_def)
  show ?thesis
    using early_reply_lost [OF inv s(6), of strict_binary ?d 2 1 0 net_all] dec s(1,2)
    by (auto simp: MESSAGE_TYPE_HEART_BEAT_def)
qed

subsection \<open>Properties of the machine\<close>

text \<open>
  C39: When the heartbeat times out, the writer takes the signal and leaves its loop, and its
  deferred \<open>bc.hbStop <- true\<close> then waits for a heartbeat goroutine that has ended: in every
  later state, whatever the other goroutines do, the writer is still there. \<open>Run\<close> never gets
  to mark the connection inactive or to reconnect.
\<close>

theorem heartbeat_timeout_hangs:
  assumes "l_wr L = WrSelect" and "l_hb L = HbSending"
  shows "\<exists>L1. life_step T net c L L1 \<and> l_hb L1 = HbDone \<and> (\<forall>L'. life_reach T net c L1 L' \<longrightarrow>
    l_wr L' = WrDefer (Some (BackendConn_hb_timeout_error (bc_service (conns (l_ps L) c)))))"
proof -
  let ?e = "Some (BackendConn_hb_timeout_error (bc_service (conns (l_ps L) c)))"
  let ?L1 = "L\<lparr>l_wr := WrDefer ?e, l_hb := HbDone\<rparr>"
  have "life_step T net c L ?L1" using assms by (rule life_step.hb_timeout)
  moreover have "l_wr L' = WrDefer ?e" if "life_reach T net c ?L1 L'" for L'
    using stuck_forever [OF that] by (simp add: stuck_def)
  ultimately show ?thesis by (intro exI [of _ ?L1]) simp
qed

theorem heartbeat_timeout_hangs_witness:
  "\<exists>L1. life_step strict_binary net_all 0 (demo_life\<lparr>l_wr := WrSelect, l_hb := HbSending\<rparr>) L1 \<and> l_hb L1 = HbDone"
  using heartbeat_timeout_hangs [of "demo_life\<lparr>l_wr := WrSelect, l_hb := HbSending\<rparr>" strict_binary net_all 0] by auto

text \<open>The operations of one connection leave the array and the flags of the service alone.\<close>

definition same_view :: "pstate \<Rightarrow> pstate \<Rightarrow> bool" where
  "same_view ps ps' \<longleftrightarrow> next_conn ps' = next_conn ps \<and> svcs ps' = svcs ps \<and> next_svc ps' = next_svc ps \<and>
     (\<forall>c. bc_addr (conns ps' c) = bc_addr (conns ps c) \<and> bc_delegate (conns ps' c) = bc_delegate (conns ps c)
       \<and> bc_Index (conns ps' c) = bc_Index (conns ps c) \<and> bc_IsConnActive (conns ps' c) = bc_IsConnActive (conns ps c)
       \<and> bc_input_closed (conns ps' c) = bc_input_closed (conns ps c)
       \<and> bc_IsMarkOffline (conns ps' c) = bc_IsMarkOffline (conns ps c))"

lemma same_view_trans: "same_view ps ps' \<Longrightarrow> same_view ps' ps'' \<Longrightarrow> same_view ps ps''"
  by (simp add: same_view_def)

lemma same_view_basic [simp]:
  "same_view ps ps" "same_view ps (ps\<lparr>pmem := m\<rparr>)" "same_view ps (ps\<lparr>reqs := rs\<rparr>)" "same_view ps (set_req rid r ps)"
  "same_view ps ((set_req rid r ps)\<lparr>pmem := m\<rparr>)" "same_view ps (upd_conn c (\<lambda>b. b\<lparr>bc_input := i\<rparr>) ps)"
  "same_view ps (upd_conn c (\<lambda>b. b\<lparr>bc_seqNum2Request := t\<rparr>) ps)" "same_view ps (BackendConn_register c rid ps)"
  by (simp_all add: same_view_def BackendConn_register_def bc_store_def BackendConn_IncreaseCurrentSeqId_def Let_def)

lemma same_view_proc:
  assumes "same_view ps ps'" and "proc_inv ps" and "owns s ps c"
  shows "proc_inv ps' \<and> owns s ps' c"
proof
  show "proc_inv ps'" by (rule proc_inv_view [OF assms(2)]) (use assms(1) in \<open>simp_all add: same_view_def\<close>)
  show "owns s ps' c" using assms(1,3) by (simp add: owns_def same_view_def)
qed

lemma finish_in_view: "finish_in T rid d e ps = Ret (x, ps') \<Longrightarrow> same_view ps ps'"
  by (auto simp: finish_in_def case_prod_beta)

lemma setResponse_view:
  assumes "BackendConn_setResponse T now c r d e ps = Ret (x, ps')"
  shows "same_view ps ps'"
proof (cases "\<exists>rid qs. finish_in T rid d e qs = Ret (x, ps') \<and> same_view ps qs")
  case True
  then show ?thesis using finish_in_view same_view_trans by blast
next
  case False
  then have nf: "finish_in T rid d e qs \<noteq> Ret (x, ps')" if "same_view ps qs" for rid qs using that by blast
  have "same_view ps (set_req rid q (upd_conn c (\<lambda>_. snd (bc_take (conns ps c) k)) ps))"
    "same_view ps (upd_conn c (\<lambda>_. snd (bc_take (conns ps c) k)) ps)"
    "same_view ps (upd_conn c (\<lambda>b. b\<lparr>bc_hbLastTime := now\<rparr>) (upd_conn c (\<lambda>_. snd (bc_take (conns ps c) k)) ps))" for rid q k
    by (auto simp: same_view_def bc_take_def)
  then show ?thesis
    using assms nf same_view_basic(1)
    by (auto simp: BackendConn_setResponse_def Let_def case_prod_beta split: option.splits if_splits)
qed

lemma drain_view: "BackendConn_drain T now c e n ps = Ret ps' \<Longrightarrow> same_view ps ps'"
proof (induction n arbitrary: ps)
  case 0
  then show ?case by simp
next
  case (Suc n)
  then obtain rid rest x ps1 where s: "BackendConn_setResponse T now c (Some rid) None (Some e)
      (upd_conn c (\<lambda>b. b\<lparr>bc_input := rest\<rparr>) ps) = Ret (x, ps1)" and d: "BackendConn_drain T now c e n ps1 = Ret ps'"
    by (auto split: list.splits if_splits)
  have "same_view ps ps1" by (rule same_view_trans [OF same_view_basic(6) setResponse_view [OF s]])
  then show ?case using Suc.IH [OF d] same_view_trans by blast
qed

lemma send_view: "BackendConn_send T net nano c rid p ps = Ret (e, p', ps') \<Longrightarrow> same_view ps ps'"
  by (auto simp: BackendConn_send_def write_request_def Let_def case_prod_beta)

lemma push_view: "BackendConn_PushBack c rid ps = Ret ps' \<Longrightarrow> same_view ps ps'"
  by (auto simp: BackendConn_PushBack_def Let_def same_view_def split: if_splits)

lemma tick_view: "BackendConn_hb_tick T now c ps = Ret (a, ps') \<Longrightarrow> same_view ps ps'"
proof -
  assume t: "BackendConn_hb_tick T now c ps = Ret (a, ps')"
  let ?r = "NewPingRequest T (pmem ps) now"
  have "same_view ps (snd (new_req (fst ?r) (ps\<lparr>pmem := snd ?r\<rparr>)))" by (simp add: new_req_def same_view_def)
  then show ?thesis using t push_view same_view_trans
    by (auto simp: BackendConn_hb_tick_def Let_def case_prod_beta split: if_splits)
qed

lemma turn_view:
  assumes t: "BackendConn_loopWriter_turn T net now nano c p ps = Ret (x, p', ps')"
  shows "same_view ps ps'"
proof (cases "bc_input (conns ps c)")
  case Nil
  then show ?thesis using t by (auto simp: BackendConn_loopWriter_turn_def split: if_splits)
next
  case (Cons rid rest)
  let ?qs = "upd_conn c (\<lambda>b. b\<lparr>bc_input := rest\<rparr>) ps"
  have "same_view ?qs ps'"
    using t Cons same_view_trans [OF send_view setResponse_view] same_view_trans [OF send_view same_view_basic(8)]
    by (auto simp: BackendConn_loopWriter_turn_def Let_def case_prod_beta split: if_splits option.splits)
  then show ?thesis using same_view_trans same_view_basic(6) by blast
qed

lemma proc_inv_flush:
  assumes "proc_inv ps" and "owns s ps c" and "BackendConn_flushRequests c err ks ps = Ret ps'"
  shows "proc_inv ps' \<and> owns s ps' c"
proof -
  obtain ps1 where m: "BackendConn_MarkConnActiveFalse c ps = Ret ps1" and "proc_inv ps1"
    using MarkConnActiveFalse_proc [OF assms(1,2)] by blast
  moreover have "owns s ps1 c" using MarkConnActiveFalse_owns [OF assms(1,2) m] .
  moreover have "same_view ps1 ps'"
    using assms(3) m by (auto simp: BackendConn_flushRequests_def Let_def same_view_def split: if_splits)
  ultimately show ?thesis using same_view_proc by blast
qed

lemma life_proc_step:
  assumes step: "life_step T net c L L'" and inv: "proc_inv (l_ps L)" and own: "owns s (l_ps L) c"
  shows "proc_inv (l_ps L') \<and> owns s (l_ps L') c"
proof -
  note view = same_view_proc [OF _ inv own]
  from step show ?thesis
  proof (cases rule: life_step.cases)
    case (send rid rest now nano p' ps')
    then show ?thesis using same_view_trans [OF same_view_basic(6) send_view [OF send(5)]] view by auto
  next
    case (after e now ps')
    then obtain ps1 where m: "BackendConn_MarkConnActiveFalse c (l_ps L) = Ret ps1" and "proc_inv ps1"
      using MarkConnActiveFalse_proc [OF inv own] by blast
    moreover have "owns s ps1 c" using MarkConnActiveFalse_owns [OF inv own m] .
    moreover have "same_view ps1 ps'"
      using after(3) m drain_view by (auto simp: BackendConn_after_writer_def split: option.splits)
    ultimately show ?thesis using same_view_proc after(1) by auto
  next
    case (reply now d m e ps')
    then show ?thesis using same_view_trans [OF same_view_basic(2) setResponse_view [OF reply(2)]] view by auto
  next
    case (lost err ks m ps')
    have "proc_inv ((l_ps L)\<lparr>pmem := m\<rparr>) \<and> owns s ((l_ps L)\<lparr>pmem := m\<rparr>) c" by (rule view) simp
    then show ?thesis using proc_inv_flush [OF _ _ lost(2), of s] lost(1) by simp
  next
    case (expired rid rest now)
    then show ?thesis using view [OF same_view_basic(6)] by simp
  next
    case (register rid)
    then show ?thesis using view [OF same_view_basic(8)] by simp
  next
    case (leave now nano e p' ps')
    then show ?thesis using view [OF turn_view [OF leave(3)]] by simp
  next
    case (push rid ps')
    then show ?thesis using view [OF push_view [OF push(2)]] by simp
  next
    case (tick_ping now ps')
    then show ?thesis using view [OF tick_view [OF tick_ping(3)]] by simp
  next
    case (tick_timeout now ps')
    then show ?thesis using view [OF tick_view [OF tick_timeout(3)]] by simp
  next
    case (tick_offline now ps')
    then show ?thesis using view [OF tick_view [OF tick_offline(3)]] by simp
  qed (use inv own in simp_all)
qed

lemma life_proc_reach:
  assumes "life_reach T net c L L'" and "proc_inv (l_ps L)" and "owns s (l_ps L) c"
  shows "proc_inv (l_ps L') \<and> owns s (l_ps L') c"
  using assms by (induction rule: rtranclp_induct) (auto dest: life_proc_step)

lemma ReadFrame_total: "\<exists>res m' p'. ReadFrame T m p = Ret (res, m', p')"
proof (cases "FrameSize p = 0")
  case True
  obtain res p1 where h: "readFrameHeader T p = (res, p1)" by (cases "readFrameHeader T p")
  show ?thesis
  proof (cases res)
    case (Inl e)
    then show ?thesis using True h by (simp add: ReadFrame_def)
  next
    case (Inr n)
    obtain s m1 where "getSlice m n n = Ret (s, m1)" using getSlice_total [of n n m] by auto
    then show ?thesis using True h Inr by (simp add: ReadFrame_def Let_def case_prod_beta split: option.splits)
  qed
qed (simp add: ReadFrame_def)

text \<open>For every byte stream the backend may send, the next round of the reader returns.\<close>

lemma reader_turn_returns:
  assumes inv: "life_inv c L" and own: "proc_inv (l_ps L)" "owns s (l_ps L) c"
    and ks: "map_order (bc_seqNum2Request (conns (l_ps L) c)) ks"
  shows "\<exists>x p' ps'. BackendConn_loopReader_turn T now c ks p (l_ps L) = Ret (x, p', ps')
    \<and> life_step T net c L (L\<lparr>l_ps := ps'\<rparr>) \<and> conn_inv c ps' \<and> bc_pending c ps' \<subseteq> bc_pending c (l_ps L)"
proof -
  let ?ps = "l_ps L"
  have ci: "conn_inv c ?ps" using inv by (simp add: life_inv_def)
  obtain res m p1 where rf: "ReadFrame T (pmem ?ps) p = Ret (res, m, p1)" using ReadFrame_total by blast
  show ?thesis
  proof (cases res)
    case (Inl e)
    have "proc_inv (?ps\<lparr>pmem := m\<rparr>)" by (rule proc_inv_view [OF own(1)]) simp_all
    moreover have "owns s (?ps\<lparr>pmem := m\<rparr>) c" using own(2) by (simp add: owns_def)
    ultimately obtain q where "BackendConn_MarkConnActiveFalse c (?ps\<lparr>pmem := m\<rparr>) = Ret q"
      using MarkConnActiveFalse_proc by blast
    then obtain ps' where f: "BackendConn_flushRequests c e ks (?ps\<lparr>pmem := m\<rparr>) = Ret ps'"
      using flushRequests_spec [of c "?ps\<lparr>pmem := m\<rparr>" q ks e] ci ks by auto
    then have "shrinks c ?ps ps'" using shrinks_lost [of c "?ps\<lparr>pmem := m\<rparr>" e ks ps'] ci ks by simp
    then show ?thesis using rf Inl f life_step.lost [OF f ks, of T net]
      by (simp add: BackendConn_loopReader_turn_def shrinks_def)
  next
    case (Inr d)
    obtain e ps' where f: "BackendConn_setResponse T now c None (Some d) None (?ps\<lparr>pmem := m\<rparr>) = Ret (e, ps')"
      and "conn_inv c ps'" "bc_pending c ps' \<subseteq> bc_pending c ?ps"
      using setResponse_robust [of c "?ps\<lparr>pmem := m\<rparr>" T now None d] ci by auto
    then show ?thesis using rf Inr life_step.reply [OF f, of net]
      by (simp add: BackendConn_loopReader_turn_def)
  qed
qed

end
