(* ===== verification/Proxy_Machine.thy ===== *)
theory Proxy_Machine
  imports Router "HOL-Library.Transitive_Closure_Table"
begin

text \<open>
  The proxy as a whole, as a step relation on the router and the process state: zookeeper
  notifications, connections that come up, fail or are marked offline, and requests that
  clients dispatch, in any order. An operation is one step.
\<close>

inductive proxy_step :: "thrift_lib \<Rightarrow> router \<times> pstate \<Rightarrow> router \<times> pstate \<Rightarrow> bool" for T :: thrift_lib where
  services: "WatchServices_round names order r ps = Ret (r', ps') \<Longrightarrow> distinct order \<Longrightarrow>
     set order = dom (rt_services r) - set names \<Longrightarrow>
     (\<And>n s. rt_services r n = Some s \<Longrightarrow> n \<notin> set names \<Longrightarrow> evtbus (svcs ps s) < EVTBUS_CAP) \<Longrightarrow>
     proxy_step T (r, ps) (r', ps')"
| nodes: "WatchBackServiceNodes_round s am adds olds ps = Ret ps' \<Longrightarrow> s < next_svc ps \<Longrightarrow>
     distinct adds \<Longrightarrow> set adds = am \<Longrightarrow> set olds = dom (addr2Conn (svcs ps s)) \<union> am \<Longrightarrow>
     proxy_step T (r, ps) (r, ps')"
| conn_up: "owns s ps c \<Longrightarrow> BackendConn_MarkConnActiveOK c ps = Ret ps' \<Longrightarrow> proxy_step T (r, ps) (r, ps')"
| conn_down: "owns s ps c \<Longrightarrow> BackendConn_MarkConnActiveFalse c ps = Ret ps' \<Longrightarrow> proxy_step T (r, ps) (r, ps')"
| conn_offline: "owns s ps c \<Longrightarrow> BackendConn_MarkOffline c ps = Ret ps' \<Longrightarrow> proxy_step T (r, ps) (r, ps')"
| dispatch: "Router_Dispatch T now r rid ps = Ret (e, ps') \<Longrightarrow> proxy_step T (r, ps) (r, ps')"

inductive_cases proxy_stepE: "proxy_step T s s'"

definition proxy_init :: "string \<Rightarrow> bool \<Rightarrow> pstate \<Rightarrow> router \<times> pstate \<Rightarrow> bool" where
  "proxy_init product verbose ps0 st \<longleftrightarrow> next_conn ps0 = 0 \<and> next_svc ps0 = 0 \<and> st = (NewRouter product verbose, ps0)"

subsection \<open>Invariant\<close>

definition proxy_inv :: "router \<times> pstate \<Rightarrow> bool" where
  "proxy_inv st \<longleftrightarrow> proc_inv (snd st) \<and> router_inv (fst st) (snd st)"

lemma Dispatch_view:
  assumes "Router_Dispatch T now r rid ps = Ret (e, ps')"
  shows "next_conn ps' = next_conn ps \<and> next_svc ps' = next_svc ps
    \<and> (\<forall>s. activeConns (svcs ps' s) = activeConns (svcs ps s) \<and> addr2Conn (svcs ps' s) = addr2Conn (svcs ps s)
        \<and> serviceName (svcs ps' s) = serviceName (svcs ps s))
    \<and> (\<forall>c. \<exists>i. conns ps' c = (conns ps c)\<lparr>bc_input := i\<rparr>)"
proof -
  have same: "\<exists>i. conns ps c = (conns ps c)\<lparr>bc_input := i\<rparr>" for c
    by (rule exI [of _ "bc_input (conns ps c)"]) simp
  show ?thesis
  proof (cases "rt_services r (Service (reqs ps rid))")
    case None
    then show ?thesis
      using assms same by (auto simp: Router_Dispatch_def GetBackService_def GetServiceNotFoundData_def case_prod_beta)
  next
    case (Some s)
    then have h: "BackService_HandleRequest T now s rid ps = Ret (e, ps')" using assms by (simp add: Dispatch_known)
    show ?thesis
    proof (cases "activeConns (svcs ps s) = []")
      case True
      then show ?thesis
        using h same by (auto simp: BackService_HandleRequest_def BackService_NextBackendConn_def
            GetWorkerNotFoundData_def Let_def case_prod_beta)
    next
      case False
      then have "conns ps' = (conns ps)(next_conn_of s ps :=
          (conns ps (next_conn_of s ps))\<lparr>bc_input := bc_input (conns ps (next_conn_of s ps)) @ [rid]\<rparr>)"
        "next_conn ps' = next_conn ps" "next_svc ps' = next_svc ps"
        "activeConns (svcs ps' x) = activeConns (svcs ps x)" "addr2Conn (svcs ps' x) = addr2Conn (svcs ps x)"
        "serviceName (svcs ps' x) = serviceName (svcs ps x)" for x
        using h by (auto simp: HandleRequest_worker PushBack_cases split: if_splits)
      then show ?thesis using same by auto
    qed
  qed
qed

lemma StateChanged_names:
  assumes "BackService_StateChanged s c ps = Ret ps'"
  shows "serviceName (svcs ps' x) = serviceName (svcs ps x)" "next_svc ps' = next_svc ps"
    "next_conn ps' = next_conn ps"
  using assms by (auto simp: BackService_StateChanged_def Let_def split: if_splits)

lemma Mark_names:
  assumes "BackendConn_MarkConnActiveFalse c ps = Ret ps' \<or> BackendConn_MarkConnActiveOK c ps = Ret ps'
    \<or> BackendConn_MarkOffline c ps = Ret ps'"
  shows "serviceName (svcs ps' x) = serviceName (svcs ps x)" "next_svc ps' = next_svc ps"
    "next_conn ps' = next_conn ps"
proof -
  have f: "serviceName (svcs ps' x) = serviceName (svcs ps x) \<and> next_svc ps' = next_svc ps
      \<and> next_conn ps' = next_conn ps"
    if "BackendConn_MarkConnActiveFalse c ps = Ret ps'" for ps ps'
    using that StateChanged_names [of _ c "upd_conn c (\<lambda>b. b\<lparr>bc_IsConnActive := False\<rparr>) ps" ps']
    by (auto simp: BackendConn_MarkConnActiveFalse_def Let_def split: if_splits option.splits)
  have "serviceName (svcs ps' x) = serviceName (svcs ps x) \<and> next_svc ps' = next_svc ps
      \<and> next_conn ps' = next_conn ps"
    if "BackendConn_MarkConnActiveOK c ps = Ret ps'"
    using that StateChanged_names [of _ c "upd_conn c (\<lambda>b. b\<lparr>bc_IsConnActive := True\<rparr>) ps" ps']
    by (auto simp: BackendConn_MarkConnActiveOK_def Let_def split: option.splits)
  moreover have "serviceName (svcs ps' x) = serviceName (svcs ps x) \<and> next_svc ps' = next_svc ps
      \<and> next_conn ps' = next_conn ps"
    if "BackendConn_MarkOffline c ps = Ret ps'"
    using that f [of "upd_conn c (\<lambda>b. b\<lparr>bc_IsMarkOffline := True\<rparr>) ps"]
    by (auto simp: BackendConn_MarkOffline_def close_input_def split: if_splits)
  ultimately show "serviceName (svcs ps' x) = serviceName (svcs ps x)" "next_svc ps' = next_svc ps"
    "next_conn ps' = next_conn ps"
    using assms f by blast+
qed

lemma connect_new_names:
  "serviceName (svcs (connect_new s addrs ps) x) = serviceName (svcs ps x)
    \<and> next_svc (connect_new s addrs ps) = next_svc ps"
proof (induction addrs arbitrary: ps)
  case Nil
  then show ?case by simp
next
  case (Cons a addrs)
  obtain n ps1 where new: "NewBackendConn a (Some s) (serviceName (svcs ps s)) (svc_verbose (svcs ps s)) ps = (n, ps1)"
    by (cases "NewBackendConn a (Some s) (serviceName (svcs ps s)) (svc_verbose (svcs ps s)) ps")
  then show ?case
    using NewBackendConn_sel(3,4) [OF new] Cons.IH by (auto split: option.splits)
qed

lemma drop_old_names:
  "drop_old s am olds ps = Ret ps' \<Longrightarrow>
     serviceName (svcs ps' x) = serviceName (svcs ps x) \<and> next_svc ps' = next_svc ps"
proof (induction olds arbitrary: ps)
  case Nil
  then show ?case by simp
next
  case (Cons a olds)
  show ?case
  proof (cases "a \<in> am \<or> addr2Conn (svcs ps s) a = None")
    case True
    then show ?thesis using Cons by (auto split: option.splits)
  next
    case False
    then obtain c ps1 where m: "BackendConn_MarkOffline c ps = Ret ps1"
      and d: "drop_old s am olds (upd_svc s (\<lambda>v. v\<lparr>addr2Conn := (addr2Conn v)(a := None)\<rparr>) ps1) = Ret ps'"
      using Cons.prems by auto
    have "serviceName (svcs ps1 x) = serviceName (svcs ps x)" "next_svc ps1 = next_svc ps"
      using Mark_names [of c ps ps1] m by simp_all
    then show ?thesis using Cons.IH [OF d] by auto
  qed
qed

lemma round_names:
  "WatchBackServiceNodes_round s am adds olds ps = Ret ps' \<Longrightarrow>
     serviceName (svcs ps' x) = serviceName (svcs ps x) \<and> next_svc ps' = next_svc ps"
  using drop_old_names [of s am olds "connect_new s adds ps" ps' x] connect_new_names [of s adds ps x]
  by (simp add: WatchBackServiceNodes_round_def)

lemma proxy_inv_step:
  assumes step: "proxy_step T st st'" and inv: "proxy_inv st"
  shows "proxy_inv st'"
  using step
proof (cases rule: proxy_step.cases)
  case (services names order r ps r' ps')
  then show ?thesis
    using WatchServices_round_spec [of ps r order names] inv by (auto simp: proxy_inv_def)
next
  case (nodes s am adds olds ps ps' r)
  then have i: "proc_inv ps" "router_inv r ps" using inv by (auto simp: proxy_inv_def)
  show ?thesis
    using WatchBackServiceNodes_round_spec [OF i(1) nodes(4-7)] nodes(3) i(2) round_names [OF nodes(3)] nodes(2)
    by (auto simp: proxy_inv_def router_inv_def)
next
  case (conn_up s ps c ps' r)
  then show ?thesis
    using MarkConnActiveOK_proc [of ps s c] Mark_names [of c ps ps'] inv by (auto simp: proxy_inv_def router_inv_def)
next
  case (conn_down s ps c ps' r)
  then show ?thesis
    using MarkConnActiveFalse_proc [of ps s c] Mark_names [of c ps ps'] inv by (auto simp: proxy_inv_def router_inv_def)
next
  case (conn_offline s ps c ps' r)
  then show ?thesis
    using MarkOffline_proc [of ps s c] Mark_names [of c ps ps'] inv by (auto simp: proxy_inv_def router_inv_def)
next
  case (dispatch now r rid ps e ps')
  note v = Dispatch_view [OF dispatch(3)]
  have "bc_addr (conns ps' c) = bc_addr (conns ps c) \<and> bc_delegate (conns ps' c) = bc_delegate (conns ps c)
      \<and> bc_Index (conns ps' c) = bc_Index (conns ps c) \<and> bc_IsConnActive (conns ps' c) = bc_IsConnActive (conns ps c)
      \<and> bc_input_closed (conns ps' c) = bc_input_closed (conns ps c)
      \<and> bc_IsMarkOffline (conns ps' c) = bc_IsMarkOffline (conns ps c)" for c
  proof -
    obtain i where "conns ps' c = (conns ps c)\<lparr>bc_input := i\<rparr>" using v by blast
    then show ?thesis by simp
  qed
  moreover have "proc_inv ps" using inv dispatch(1) by (simp add: proxy_inv_def)
  ultimately have "proc_inv ps'" using v by (intro proc_inv_view [of ps ps']) simp_all
  then show ?thesis using inv dispatch(1,2) v by (auto simp: proxy_inv_def router_inv_def)
qed

lemma proxy_inv_init: "proxy_init product verbose ps0 st \<Longrightarrow> proxy_inv st"
  by (auto simp: proxy_init_def proxy_inv_def proc_inv_def chan_inv_def router_inv_def NewRouter_def)

lemma proxy_inv_reach:
  assumes "(proxy_step T)\<^sup>*\<^sup>* st st'" and "proxy_inv st"
  shows "proxy_inv st'"
  using assms by (induction rule: rtranclp_induct) (auto intro: proxy_inv_step)

lemmas proxy_reachable = proxy_inv_reach [OF _ proxy_inv_init]

subsection \<open>A run\<close>

text \<open>The process of \<open>demo_ps\<close> is reached: a service appears, its two endpoints, and both connections come up.\<close>

definition demo_router :: router where
  "demo_router = (NewRouter ''prod'' False)\<lparr>rt_services := [''math'' \<mapsto> 0]\<rparr>"

lemma demo_reach: "(proxy_step T)\<^sup>*\<^sup>* (NewRouter ''prod'' False, empty_pstate) (demo_router, demo_ps)"
proof -
  let ?r0 = "NewRouter ''prod'' False"
  define ps0 where "ps0 = snd (NewBackService ''prod'' ''math'' False empty_pstate)"
  define ps1 where "ps1 = connect_new 0 [''a:1'', ''b:2''] ps0"
  have "WatchServices_round [''math''] [] ?r0 empty_pstate = Ret (demo_router, ps0)"
    by (simp add: WatchServices_round_def addBackService_def NewRouter_def NewBackService_def demo_router_def ps0_def
        empty_pstate_def List.map_filter_def)
  then have s1: "proxy_step T (?r0, empty_pstate) (demo_router, ps0)"
    by (rule proxy_step.services) (simp_all add: NewRouter_def)
  have "WatchBackServiceNodes_round 0 {''a:1'', ''b:2''} [''a:1'', ''b:2''] [''a:1'', ''b:2''] ps0 = Ret ps1"
    by (simp add: WatchBackServiceNodes_round_def ps1_def del: connect_new.simps)
  then have s2: "proxy_step T (demo_router, ps0) (demo_router, ps1)"
    by (rule proxy_step.nodes) (simp_all add: ps0_def NewBackService_def empty_pstate_def)
  obtain ps2 where ps2: "BackendConn_MarkConnActiveOK 0 ps1 = Ret ps2" "BackendConn_MarkConnActiveOK 1 ps2 = Ret demo_ps"
    by (simp add: demo_ps_def ps1_def ps0_def demo_defs)
  have "owns 0 ps1 0" "owns 0 ps2 1"
    using ps2(1) by (auto simp: ps1_def ps0_def owns_def demo_defs)
  then have "proxy_step T (demo_router, ps1) (demo_router, ps2)" "proxy_step T (demo_router, ps2) (demo_router, demo_ps)"
    using ps2 proxy_step.conn_up by blast+
  with s1 s2 show ?thesis by (meson converse_rtranclp_into_rtranclp rtranclp.rtrancl_refl)
qed

lemma demo_init: "proxy_init ''prod'' False empty_pstate (NewRouter ''prod'' False, empty_pstate)"
  by (simp add: proxy_init_def empty_pstate_def)

subsection \<open>Properties of the proxy\<close>



text \<open>
  C13: One round of \<open>WatchBackServiceNodes\<close>, from any reachable state and in any order in which
  Go traverses the maps, makes the connections of the service agree with the endpoints found in
  zookeeper: \<open>addr2Conn\<close> has exactly these addresses, each with a connection that is not marked
  offline, an existing one where there was one; the connections of vanished addresses are marked
  offline and no longer active. An endpoint without a port counts for the test product only.
\<close>

theorem endpoints_reconciled:
  assumes "proxy_init product verbose ps0 st0" and "(proxy_step T)\<^sup>*\<^sup>* st0 (r, ps)" and "s < next_svc ps"
    and am: "am = addressMap_of (productName (svcs ps s)) lookup ids"
    and adds: "distinct adds" "set adds = am" and olds: "set olds = dom (addr2Conn (svcs ps s)) \<union> am"
  shows "\<exists>ps'. WatchBackServiceNodes_round s am adds olds ps = Ret ps' \<and> proxy_step T (r, ps) (r, ps')
    \<and> dom (addr2Conn (svcs ps' s)) = {a. \<exists>i \<in> set ids. lookup i = Inr a \<and>
        (strings_Contains a '':'' \<or> productName (svcs ps s) = TEST_PRODUCT_NAME)}
    \<and> (\<forall>a \<in> am. \<exists>c. online s ps' a c \<and> (\<forall>c0. online s ps a c0 \<longrightarrow> c = c0))
    \<and> (\<forall>a c. addr2Conn (svcs ps s) a = Some c \<and> a \<notin> am \<longrightarrow> bc_IsMarkOffline (conns ps' c))
    \<and> set (activeConns (svcs ps' s)) = set (activeConns (svcs ps s)) - {c. \<exists>a. a \<notin> am \<and> online s ps a c}"
proof -
  have inv: "proc_inv ps" using proxy_reachable [OF assms(2,1)] by (simp add: proxy_inv_def)
  have "addressMap_of p lookup is = {a. \<exists>i \<in> set is. lookup i = Inr a \<and> (strings_Contains a '':'' \<or> p = TEST_PRODUCT_NAME)}"
    for p "is" by (induction "is") (auto split: sum.splits)
  then show ?thesis
    using WatchBackServiceNodes_round_spec [OF inv assms(3) adds olds] proxy_step.nodes [OF _ assms(3) adds olds] am
    by auto
qed

theorem endpoints_reconciled_witness:
  "\<exists>ps'. WatchBackServiceNodes_round 0 {''b:2''} [''b:2''] [''b:2'', ''a:1''] demo_ps = Ret ps'
    \<and> set (activeConns (svcs ps' 0)) = {Suc 0}"
proof -
  have am: "{''b:2''} = addressMap_of (productName (svcs demo_ps 0)) (\<lambda>i. if i = ''x'' then Inr ''b:2'' else Inl IoEOF) [''x'', ''y'']"
    by (simp add: Contains_char)
  have gone: "{c. \<exists>a. a \<noteq> ''b:2'' \<and> online 0 demo_ps a c} = {0}" by (auto simp: online_def split: if_splits)
  have olds: "set [''b:2'', ''a:1''] = dom (addr2Conn (svcs demo_ps 0)) \<union> {''b:2''}" by auto
  have ex: "distinct [''b:2'']" "set [''b:2''] = {''b:2''}" "0 < next_svc demo_ps" by simp_all
  obtain ps' where "WatchBackServiceNodes_round 0 {''b:2''} [''b:2''] [''b:2'', ''a:1''] demo_ps = Ret ps'"
    "set (activeConns (svcs ps' 0)) = set (activeConns (svcs demo_ps 0)) - {c. \<exists>a. a \<notin> {''b:2''} \<and> online 0 demo_ps a c}"
    by (rule exE [OF endpoints_reconciled [OF demo_init demo_reach ex(3) am ex(1,2) olds]]) (elim conjE, rule that)
  then show ?thesis using gone by auto
qed

text \<open>
  C23: One round of \<open>WatchServices\<close>, from any reachable state in which the event channels of the
  vanished services have room, replaces the routing table by one for exactly the services found
  in zookeeper; a service that stays keeps its object with all its connections, and exactly the
  vanished services are told to stop.
\<close>

theorem services_reconciled:
  assumes "proxy_init product verbose ps0 st0" and "(proxy_step T)\<^sup>*\<^sup>* st0 (r, ps)"
    and order: "distinct order" "set order = dom (rt_services r) - set names"
    and room: "\<forall>n s. rt_services r n = Some s \<and> n \<notin> set names \<longrightarrow> evtbus (svcs ps s) < EVTBUS_CAP"
  shows "\<exists>r' ps'. WatchServices_round names order r ps = Ret (r', ps') \<and> dom (rt_services r') = set names
    \<and> (\<forall>n \<in> set names. \<forall>s. rt_services r n = Some s \<longrightarrow> rt_services r' n = Some s)
    \<and> (\<forall>n s. rt_services r n = Some s \<longrightarrow> svc_stop (svcs ps' s) = (svc_stop (svcs ps s) \<or> n \<notin> set names))
    \<and> (\<forall>n s. rt_services r' n = Some s \<longrightarrow> serviceName (svcs ps' s) = n) \<and> conns ps' = conns ps"
proof -
  have inv: "proc_inv ps" "router_inv r ps" using proxy_reachable [OF assms(2,1)] by (simp_all add: proxy_inv_def)
  have "\<exists>r' ps'. WatchServices_round names order r ps = Ret (r', ps') \<and> proc_inv ps' \<and> router_inv r' ps'
    \<and> dom (rt_services r') = set names
    \<and> (\<forall>n \<in> set names. \<forall>s. rt_services r n = Some s \<longrightarrow> rt_services r' n = Some s)
    \<and> (\<forall>n s. rt_services r n = Some s \<longrightarrow> svc_stop (svcs ps' s) = (svc_stop (svcs ps s) \<or> n \<notin> set names))
    \<and> conns ps' = conns ps"
    by (rule WatchServices_round_spec [OF inv order]) (use room in blast)
  then show ?thesis unfolding router_inv_def by blast
qed

theorem services_reconciled_witness:
  "\<exists>r' ps'. WatchServices_round [''geo''] [''math''] demo_router demo_ps = Ret (r', ps')
    \<and> dom (rt_services r') = {''geo''}"
proof -
  have "evtbus (svcs demo_ps 0) = 0" by (simp add: demo_ps_def demo_defs)
  then have room: "\<forall>n s. rt_services demo_router n = Some s \<and> n \<notin> set [''geo''] \<longrightarrow> evtbus (svcs demo_ps s) < EVTBUS_CAP"
    by (simp add: demo_router_def EVTBUS_CAP_def)
  have "set [''math''] = dom (rt_services demo_router) - set [''geo'']" by (simp add: demo_router_def)
  from services_reconciled [OF demo_init demo_reach _ this room] show ?thesis by auto
qed

text \<open>
  A connection that is marked offline while it is still connecting has its input closed; when
  the connection is then established, \<open>loopWriter\<close> marks it active all the same, and the next
  request dispatched to the service panics with a send on a closed channel.
\<close>

lemma offline_then_up_panics:
  assumes "proxy_init product verbose ps0 st0" and "(proxy_step T)\<^sup>*\<^sup>* st0 (r, ps)" and own: "owns s ps c"
    and off: "\<not> bc_IsMarkOffline (conns ps c)" and none: "activeConns (svcs ps s) = []"
    and svc: "rt_services r (Service (reqs ps rid)) = Some s"
  shows "\<exists>ps1 ps2. BackendConn_MarkOffline c ps = Ret ps1 \<and> BackendConn_loopWriter_start t c ps1 = Ret ps2
    \<and> Router_Dispatch T now r rid ps2 = Panic SendOnClosedChannel"
proof -
  have inv: "proc_inv ps" using proxy_reachable [OF assms(2,1)] by (simp add: proxy_inv_def)
  have pool: "pool_inv s ps" using proc_invD(1,4) inv own by blast
  have na: "\<not> bc_IsConnActive (conns ps c)" using pool_invD(4) [OF pool own] none by auto
  have opened: "\<not> bc_input_closed (conns ps c)"
    using proc_invD(2) [OF inv] off own by (auto simp: chan_inv_def owns_def)
  define ps1 where "ps1 = upd_conn c (\<lambda>b. b\<lparr>bc_input_closed := True\<rparr>) (upd_conn c (\<lambda>b. b\<lparr>bc_IsMarkOffline := True\<rparr>) ps)"
  have m: "BackendConn_MarkOffline c ps = Ret ps1"
    using off na opened by (simp add: BackendConn_MarkOffline_def BackendConn_MarkConnActiveFalse_def close_input_def ps1_def)
  have idx: "bc_Index (conns ps1 c) = INVALID_ARRAY_INDEX" "bc_delegate (conns ps1 c) = Some s"
    using pool_invD(5) [OF pool own na] own by (simp_all add: ps1_def owns_def)
  obtain ps2 where ps2: "BackendConn_loopWriter_start t c ps1 = Ret ps2" "activeConns (svcs ps2 s) = [c]"
    "bc_input_closed (conns ps2 c)" "reqs ps2 = reqs ps" "currentConnIndex (svcs ps2 s) = currentConnIndex (svcs ps s)"
    using MarkConnActiveOK_adds [OF idx(2,1)] none by (auto simp: BackendConn_loopWriter_start_def ps1_def)
  have "next_conn_of s ps2 = c" using ps2(2) by (simp add: next_conn_of_def rr_start_def Suc_le_eq)
  then have "Router_Dispatch T now r rid ps2 = Panic SendOnClosedChannel"
    using ps2 svc HandleRequest_worker [of ps2 s T now rid] by (simp add: Dispatch_known PushBack_cases)
  with m ps2(1) show ?thesis by blast
qed

lemma offline_then_up_panics_witness:
  "\<exists>r ps ps1 ps2. BackendConn_MarkOffline 0 ps = Ret ps1 \<and> BackendConn_loopWriter_start 0 0 ps1 = Ret ps2
    \<and> Router_Dispatch strict_binary 0 r 0 ps2 = Panic SendOnClosedChannel"
proof -
  let ?init = "empty_pstate\<lparr>reqs := (\<lambda>_. zero_request\<lparr>Service := ''math''\<rparr>)\<rparr>"
  let ?st0 = "(NewRouter ''prod'' False, ?init)"
  define ps0 where "ps0 = snd (NewBackService ''prod'' ''math'' False ?init)"
  define ps1 where "ps1 = connect_new 0 [''a:1''] ps0"
  have i: "proxy_init ''prod'' False ?init ?st0" by (simp add: proxy_init_def empty_pstate_def)
  have "WatchServices_round [''math''] [] (NewRouter ''prod'' False) ?init = Ret (demo_router, ps0)"
    by (simp add: WatchServices_round_def addBackService_def NewRouter_def NewBackService_def demo_router_def ps0_def
        empty_pstate_def List.map_filter_def)
  then have s1: "proxy_step strict_binary ?st0 (demo_router, ps0)"
    by (rule proxy_step.services) (simp_all add: NewRouter_def)
  have "WatchBackServiceNodes_round 0 {''a:1''} [''a:1''] [''a:1''] ps0 = Ret ps1"
    by (simp add: WatchBackServiceNodes_round_def ps1_def del: connect_new.simps)
  then have "proxy_step strict_binary (demo_router, ps0) (demo_router, ps1)"
    by (rule proxy_step.nodes) (simp_all add: ps0_def NewBackService_def empty_pstate_def)
  with s1 have reach: "(proxy_step strict_binary)\<^sup>*\<^sup>* ?st0 (demo_router, ps1)"
    by (meson converse_rtranclp_into_rtranclp rtranclp.rtrancl_refl)
  have "owns 0 ps1 0" "\<not> bc_IsMarkOffline (conns ps1 0)" "activeConns (svcs ps1 0) = []"
    "rt_services demo_router (Service (reqs ps1 0)) = Some 0"
    by (simp_all add: ps1_def ps0_def owns_def demo_defs demo_router_def)
  from offline_then_up_panics [OF i reach this, of 0 0] show ?thesis by blast
qed

end
