(* ===== verification/End_To_End.thy ===== *)
theory End_To_End
  imports Rpc_Server Conn_Machine Proxy_Machine
begin

text \<open>
  One request on its way through the whole proxy: the bytes of the client through the reader of
  the session, the router, the service and the writer of a connection to the backend, and the
  bytes of the backend through the reader of the connection and the writer of the session back to
  the client. Each leg is a lemma about the composed operations of the components.
\<close>

subsection \<open>Client to connection\<close>

lemma NewRequest_sendable:
  assumes T: "thrift_ok T" and ok: "slice_ok m d" and bytes: "slice_bytes m d = msg_header T (svc @ '':'' @ name) ty seq @ payload"
    and msg: "msg_ok (svc @ '':'' @ name) ty" and svc: "CHR '':'' \<notin> set svc" "svc \<noteq> []"
  shows "sendable m (NewRequest T m d True) payload"
proof -
  note f = NewRequest_service [OF T msg svc(1) bytes, of True]
  have "msg_ok name ty" using msg by (rule msg_ok_shorter) simp
  then show ?thesis
    using f ok bytes msg T svc(2) by (auto simp: sendable_def header_start_def)
qed

lemma wait_add_sel [simp]:
  "sendable m (wait_add r) payload = sendable m r payload" "ReqName (wait_add r) = ReqName r"
  "ReqTypeId (wait_add r) = ReqTypeId r" "ReqSeqId (wait_add r) = ReqSeqId r"
  "Wait (wait_add r) = map_option (\<lambda>w. w + 1) (Wait r)"
  by (simp_all add: sendable_def header_start_def wait_add_def)

lemma frame_read:
  fixes ps :: pstate
  assumes m: "pool_ok (pmem ps)" and q: "\<not> quit ses" "length tasks < maxPipeline"
    and rd: "FrameSize cp = 0" "reader_bytes (Reader cp) = frame_bytes f @ behind" "length f \<le> maxLength cp" "length f < 2 ^ 32"
  obtains d m1 r1 ps1 where "slice_ok m1 d" "slice_bytes m1 d = f" "reader_bytes r1 = behind"
    "ps1 = (set_req (next_req ps) (NewRequest T m1 d True) (ps\<lparr>pmem := m1\<rparr>))\<lparr>next_req := Suc (next_req ps)\<rparr>"
    "\<And>ps2. disp (next_req ps) ps1 = Ret (None, ps2) \<Longrightarrow>
      Session_loopReader_turn T t maxPipeline (Some disp) ses cp tasks ps =
      Ret (Continue, ses\<lparr>LastOpUnix := t, Ops := Ops ses + 1\<rparr>, cp\<lparr>Reader := r1\<rparr>, tasks @ [next_req ps], ps2)"
proof -
  obtain d m1 r1 where rf: "ReadFrame T (pmem ps) cp = Ret (Inr d, m1, cp\<lparr>Reader := r1\<rparr>)"
    and d: "slice_bytes m1 d = f" "slice_ok m1 d" and r1: "reader_bytes r1 = behind"
    using ReadFrame_ok [OF m rd] by blast
  show thesis
    by (rule that [OF d(2,1) r1 refl])
      (use q rf in \<open>simp add: Session_loopReader_turn_def Session_handleRequest_def new_req_def\<close>)
qed

lemma request_enters:
  fixes ps :: pstate
  assumes T: "thrift_ok T" and m: "pool_ok (pmem ps)" and q: "\<not> quit ses" "length tasks < maxPipeline"
    and rd: "FrameSize cp = 0" "reader_bytes (Reader cp) = frame_bytes f @ behind" "length f \<le> maxLength cp" "length f < 2 ^ 32"
    and f: "f = msg_header T (svc @ '':'' @ name) ty seq @ payload" "msg_ok (svc @ '':'' @ name) ty"
      "CHR '':'' \<notin> set svc" "svc \<noteq> []"
    and rt: "rt_services r svc = Some s" "activeConns (svcs ps s) \<noteq> []"
    and c: "c = next_conn_of s ps" "conn_inv c ps" "\<not> bc_input_closed (conns ps c)" "length (bc_input (conns ps c)) < CHAN_CAP"
      "next_req ps \<notin> bc_pending c ps"
  shows "\<exists>ses1 cp1 ps1. Session_loopReader_turn T t maxPipeline (Some (Router_Dispatch T t r)) ses cp tasks ps =
      Ret (Continue, ses1, cp1, tasks @ [next_req ps], ps1)
    \<and> reader_bytes (Reader cp1) = behind \<and> conn_inv c ps1 \<and> bc_input (conns ps1 c) = bc_input (conns ps c) @ [next_req ps]
    \<and> bc_currentSeqId (conns ps1 c) = bc_currentSeqId (conns ps c)
    \<and> sendable (pmem ps1) (reqs ps1 (next_req ps)) payload
    \<and> ReqName (reqs ps1 (next_req ps)) = name \<and> ReqTypeId (reqs ps1 (next_req ps)) = ty
    \<and> ReqSeqId (reqs ps1 (next_req ps)) = seq \<and> Wait (reqs ps1 (next_req ps)) = Some 1"
proof -
  let ?rid = "next_req ps"
  obtain d m1 r1 ps1 where d: "slice_ok m1 d" "slice_bytes m1 d = f" and r1: "reader_bytes r1 = behind"
    and ps1: "ps1 = (set_req ?rid (NewRequest T m1 d True) (ps\<lparr>pmem := m1\<rparr>))\<lparr>next_req := Suc ?rid\<rparr>"
    and turn: "\<And>ps2. Router_Dispatch T t r ?rid ps1 = Ret (None, ps2) \<Longrightarrow>
      Session_loopReader_turn T t maxPipeline (Some (Router_Dispatch T t r)) ses cp tasks ps =
      Ret (Continue, ses\<lparr>LastOpUnix := t, Ops := Ops ses + 1\<rparr>, cp\<lparr>Reader := r1\<rparr>, tasks @ [?rid], ps2)"
    by (rule frame_read [OF m q rd, where T = T and t = t and disp = "Router_Dispatch T t r"]) (rule that)
  let ?r = "NewRequest T m1 d True"
  note fs = NewRequest_service [OF T f(2,3) d(2) [unfolded f(1)], of True]
  define ps2 where "ps2 = upd_svc s (\<lambda>v. v\<lparr>currentConnIndex :=
      rr_start (currentConnIndex (svcs ps1 s)) (length (activeConns (svcs ps1 s))) + 1, lastRequestTime := t\<rparr>) ps1"
  define ps3 where "ps3 = upd_conn c (\<lambda>b. b\<lparr>bc_input := bc_input b @ [?rid]\<rparr>) (set_req ?rid (wait_add (reqs ps2 ?rid)) ps2)"
  have sel: "svcs ps1 = svcs ps" "conns ps1 = conns ps" "reqs ps1 ?rid = ?r" "conns ps2 = conns ps"
    "reqs ps2 = (reqs ps)(?rid := ?r)" "pmem ps2 = m1" by (simp_all add: ps1 ps2_def)
  have pb: "BackendConn_PushBack c ?rid ps2 = Ret ps3" using c(3,4) sel by (simp add: PushBack_cases ps3_def)
  have nc: "next_conn_of s ps1 = c" using sel(1) c(1) by (simp add: next_conn_of_def)
  have "Router_Dispatch T t r ?rid ps1 = Ret (None, ps3)"
    using HandleRequest_worker [of ps1 s T t ?rid] rt sel fs pb nc by (simp add: Dispatch_known ps2_def)
  note turned = turn [OF this]
  have "reqs ps2 q = reqs ps q" if "q \<in> pending (bc_seqNum2Request (conns ps c)) (bc_input (conns ps c))" for q
    using that c(5) sel(5) by (auto simp: bc_pending_def)
  from pend_cong [OF this] have "conn_inv c ps2" using c(2) sel(4) by (simp add: conn_inv_def)
  moreover have "?rid \<notin> bc_pending c ps2" using c(5) sel by (simp add: bc_pending_def)
  ultimately have inv: "conn_inv c ps3" using PushBack_spec [OF _ _ _ pb] sel by simp
  have send: "sendable m1 ?r payload" using NewRequest_sendable [OF T d(1) d(2) [unfolded f(1)] f(2,3,4)] .
  have sel3: "reqs ps3 ?rid = wait_add ?r" "pmem ps3 = m1" "conns ps3 = (conns ps)(c := (conns ps c)\<lparr>bc_input := bc_input (conns ps c) @ [?rid]\<rparr>)"
    using sel by (simp_all add: ps3_def)
  show ?thesis
    by (intro exI conjI, rule turned) (use r1 inv send sel3 fs in simp_all)
qed

subsection \<open>Connection to backend\<close>

lemma request_leaves:
  fixes ps :: pstate
  assumes T: "thrift_ok T" and inv: "conn_inv c ps" and inp: "bc_input (conns ps c) = [rid]"
    and s: "sendable (pmem ps) (reqs ps rid) payload"
    and fresh: "\<not> (ReqTypeId (reqs ps rid) = MESSAGE_TYPE_HEART_BEAT \<and> now - Start (reqs ps rid) > 4)"
    and net: "net_accepts net sent" "werr (Writer p) = None" "fbuf p = []"
  shows "\<exists>p' ps'. BackendConn_loopWriter_turn T net now nano c p ps = Ret (Continue, p', ps')
    \<and> sent (under (Writer p')) = framed_out sent p @ frame_bytes (msg_header T (ReqName (reqs ps rid))
        (ReqTypeId (reqs ps rid)) (bc_currentSeqId (conns ps c)) @ payload)
    \<and> conn_inv c ps' \<and> bc_seqNum2Request (conns ps' c) (bc_currentSeqId (conns ps c)) = Some rid
    \<and> ReqName (reqs ps' rid) = ReqName (reqs ps rid) \<and> ReqSeqId (reqs ps' rid) = ReqSeqId (reqs ps rid)
    \<and> Wait (reqs ps' rid) = Wait (reqs ps rid) \<and> bc_hbLastTime (conns ps' c) = bc_hbLastTime (conns ps c)"
proof -
  let ?k = "bc_currentSeqId (conns ps c)"
  let ?f = "msg_header T (ReqName (reqs ps rid)) (ReqTypeId (reqs ps rid)) ?k @ payload"
  obtain e p' where fl: "send_frame T net nano True ?f p = (e, p')" by (cases "send_frame T net nano True ?f p")
  note a = send_frame_accepts [OF net fl]
  obtain ps' d orig where t: "BackendConn_loopWriter_turn T net now nano c p ps = Ret (Continue, p', ps')"
    and cn: "conns ps' = (conns ps)(c := bc_store ?k rid ((conns ps c)\<lparr>bc_input := []\<rparr>))"
    and rs: "reqs ps' = (reqs ps)(rid := (reqs ps rid)\<lparr>RespSeqId := ?k, ReqDataOrig := orig, ReqData := Some d\<rparr>)"
    using turn_sent [OF T inp fresh s, of net nano p p'] fl a by auto
  have "conn_inv c ps'" using conn_inv_sent [OF inv inp refl cn rs] by simp
  then show ?thesis using t a cn rs by (auto simp: bc_store_def BackendConn_IncreaseCurrentSeqId_def Let_def)
qed

subsection \<open>Backend to client\<close>

lemma reply_returns:
  fixes ps :: pstate
  assumes T: "thrift_ok T" and inv: "conn_inv c ps" and m: "pool_ok (pmem ps)"
    and tab: "bc_seqNum2Request (conns ps c) k = Some rid" and w: "Wait (reqs ps rid) = Some 1"
    and rd: "FrameSize p = 0" "reader_bytes (Reader p) = frame_bytes f @ behind" "length f \<le> maxLength p" "length f < 2 ^ 32"
    and f: "f = msg_header T n ty k @ payload" "msg_ok n ty" "ty \<noteq> MESSAGE_TYPE_HEART_BEAT" "length n = length (ReqName (reqs ps rid))"
    and net: "net_accepts net sent" "werr (Writer q) = None" "fbuf q = []"
  shows "\<exists>r1 ps1 q' st' ps2. BackendConn_loopReader_turn T now c ks p ps = Ret (Continue, p\<lparr>Reader := r1\<rparr>, ps1)
    \<and> bc_pending c ps1 = bc_pending c ps - {rid}
    \<and> Session_loopWriter T net clock [rid] q st ps1 = Ret (None, q', st', ps2)
    \<and> sent (under (Writer q')) = framed_out sent q @
        frame_bytes (msg_header T (ReqName (reqs ps rid)) ty (ReqSeqId (reqs ps rid)) @ payload)"
proof -
  obtain d m1 r1 where rf: "ReadFrame T (pmem ps) p = Ret (Inr d, m1, p\<lparr>Reader := r1\<rparr>)"
    and d: "slice_bytes m1 d = f" "slice_ok m1 d"
    using ReadFrame_ok [OF m rd] by blast
  let ?qs = "ps\<lparr>pmem := m1\<rparr>"
  obtain ps1 where sr: "BackendConn_setResponse T now c None (Some d) None ?qs = Ret (None, ps1)"
    and rs: "reqs ps1 = (reqs ps)(rid := completed ((reqs ps rid)\<lparr>RespTypeId := ty\<rparr>) (Some d) None)"
    and b: "slice_bytes (pmem ps1) d = msg_header T (ReqName (reqs ps rid)) ty (ReqSeqId (reqs ps rid)) @ payload"
    and ok: "slice_ok (pmem ps1) d" and cn: "conns ps1 = (conns ps)(c := snd (bc_take (conns ps c) k))"
    using setResponse_reply [OF T, of c ?qs d n ty k payload rid now] inv d f tab by auto
  have fin: "\<forall>x \<in> set [rid]. finished (pmem ps1) (reqs ps1 x)"
    using ok w by (simp add: finished_def rs completed_def)
  have "response_bytes T ''proxy_session'' (pmem ps1) (reqs ps1 rid) =
      msg_header T (ReqName (reqs ps rid)) ty (ReqSeqId (reqs ps rid)) @ payload"
    using b by (simp add: response_bytes_def rs completed_def opt_bytes_def)
  then have "\<exists>q' st' ps2. Session_loopWriter T net clock [rid] q st ps1 = Ret (None, q', st', ps2)
    \<and> sent (under (Writer q')) = framed_out sent q @
        frame_bytes (msg_header T (ReqName (reqs ps rid)) ty (ReqSeqId (reqs ps rid)) @ payload)"
    using Session_loopWriter_order [OF net _ fin, of T clock st] by (auto simp del: Session_loopWriter.simps)
  moreover have "bc_pending c ps1 = bc_pending c ps - {rid}" using conn_inv_taken [OF inv tab rs cn] by simp
  moreover have "BackendConn_loopReader_turn T now c ks p ps = Ret (Continue, p\<lparr>Reader := r1\<rparr>, ps1)"
    using rf sr by (simp add: BackendConn_loopReader_turn_def)
  ultimately show ?thesis by blast
qed

subsection \<open>Answers of the proxy itself\<close>

lemma exception_sent:
  fixes ps :: pstate
  assumes rs: "reqs ps rid = req\<lparr>RespTypeId := ty, RespData := Some d\<rparr>" and w: "Wait req = Some 0" "RespErr req = None"
    and d: "slice_ok (pmem ps) d" "slice_bytes (pmem ps) d = bs"
    and net: "net_accepts net sent" "werr (Writer q) = None" "fbuf q = []"
  shows "\<exists>q' st' ps'. Session_loopWriter T net clock [rid] q st ps = Ret (None, q', st', ps')
    \<and> sent (under (Writer q')) = framed_out sent q @ frame_bytes bs"
proof -
  have fin: "\<forall>x \<in> set [rid]. finished (pmem ps) (reqs ps x)" using rs w d by (simp add: finished_def)
  have "response_bytes T ''proxy_session'' (pmem ps) (reqs ps rid) = bs"
    using rs w d by (simp add: response_bytes_def opt_bytes_def)
  then show ?thesis
    using Session_loopWriter_order [OF net _ fin, of T clock st] by (auto simp del: Session_loopWriter.simps)
qed

lemma dispatch_exception_answered:
  fixes ps :: pstate
  assumes T: "thrift_ok T" and m: "pool_ok (pmem ps)" and q: "\<not> quit ses" "length tasks < maxPipeline"
    and rd: "FrameSize cp = 0" "reader_bytes (Reader cp) = frame_bytes f @ behind" "length f \<le> maxLength cp" "length f < 2 ^ 32"
    and f: "f = msg_header T (svc @ '':'' @ name) ty seq @ payload" "msg_ok (svc @ '':'' @ name) ty" "CHR '':'' \<notin> set svc"
    and disp: "\<And>ps1 :: pstate. svcs ps1 = svcs ps \<Longrightarrow> Service (reqs ps1 (next_req ps)) = svc \<Longrightarrow>
        ReqName (reqs ps1 (next_req ps)) = name \<Longrightarrow> ReqSeqId (reqs ps1 (next_req ps)) = seq \<Longrightarrow>
        \<exists>ps2 d. Router_Dispatch T t r (next_req ps) ps1 = Ret (None, ps2)
          \<and> reqs ps2 (next_req ps) = (reqs ps1 (next_req ps))\<lparr>RespTypeId := EXCEPTION T, RespData := Some d\<rparr>
          \<and> slice_ok (pmem ps2) d \<and> slice_bytes (pmem ps2) d = bs \<and> conns ps2 = conns ps1"
    and net: "net_accepts net sent" "werr (Writer w) = None" "fbuf w = []"
  shows "\<exists>ses1 cp1 ps1 w' st' ps2. Session_loopReader_turn T t maxPipeline (Some (Router_Dispatch T t r)) ses cp tasks ps =
      Ret (Continue, ses1, cp1, tasks @ [next_req ps], ps1) \<and> conns ps1 = conns ps
    \<and> Session_loopWriter T net clock [next_req ps] w st ps1 = Ret (None, w', st', ps2)
    \<and> sent (under (Writer w')) = framed_out sent w @ frame_bytes bs"
proof -
  let ?rid = "next_req ps"
  obtain d m1 r1 ps1 where d: "slice_ok m1 d" "slice_bytes m1 d = f" and r1: "reader_bytes r1 = behind"
    and ps1: "ps1 = (set_req ?rid (NewRequest T m1 d True) (ps\<lparr>pmem := m1\<rparr>))\<lparr>next_req := Suc ?rid\<rparr>"
    and turn: "\<And>ps2. Router_Dispatch T t r ?rid ps1 = Ret (None, ps2) \<Longrightarrow>
      Session_loopReader_turn T t maxPipeline (Some (Router_Dispatch T t r)) ses cp tasks ps =
      Ret (Continue, ses\<lparr>LastOpUnix := t, Ops := Ops ses + 1\<rparr>, cp\<lparr>Reader := r1\<rparr>, tasks @ [?rid], ps2)"
    by (rule frame_read [OF m q rd, where T = T and t = t and disp = "Router_Dispatch T t r"]) (rule that)
  note fs = NewRequest_service [OF T f(2,3) d(2) [unfolded f(1)], of True]
  have sel: "svcs ps1 = svcs ps" "conns ps1 = conns ps" "reqs ps1 ?rid = NewRequest T m1 d True" by (simp_all add: ps1)
  obtain ps2 e where disp2: "Router_Dispatch T t r ?rid ps1 = Ret (None, ps2)" "conns ps2 = conns ps1"
    and rs: "reqs ps2 ?rid = (NewRequest T m1 d True)\<lparr>RespTypeId := EXCEPTION T, RespData := Some e\<rparr>"
    and e: "slice_ok (pmem ps2) e" "slice_bytes (pmem ps2) e = bs"
    using disp [OF sel(1)] fs sel(3) by auto
  show ?thesis
    using turn [OF disp2(1)] exception_sent [OF rs _ _ e net, of T clock st] disp2(2) sel(2) by auto
qed

end
