(* ===== verification/Conn_Run.thy ===== *)
theory Conn_Run
  imports Conn_Machine
begin

text \<open>
  The whole life of a \<open>BackendConn\<close>: the loop of \<open>Run\<close> connects, runs a writer with its heartbeat and
  its reader, and connects again after an error, until the connection is marked offline. A
  reader of an earlier round may still be running, and so may a dispatcher that chose the
  connection when it was up; other connections of the service come and go meanwhile.
\<close>

subsection \<open>Machine\<close>

text \<open>
  \<open>RunCheck\<close>: at the condition of the loop; \<open>RunDial\<close>: in \<open>ensureConn\<close>; \<open>RunWrite\<close>: in \<open>loopWriter\<close> and what
  follows it; \<open>RunDone\<close>: \<open>Run\<close> has returned.
\<close>

datatype run_pc = RunCheck | RunDial | RunWrite | RunDone

inductive run_step :: "thrift_lib \<Rightarrow> 'n net \<Rightarrow> nat \<Rightarrow> nat \<Rightarrow> run_pc \<times> 'n life \<Rightarrow> run_pc \<times> 'n life \<Rightarrow> bool"
  for T :: thrift_lib and net :: "'n net" and s :: nat and c :: nat where
  check: "\<not> bc_IsMarkOffline (conns (l_ps L) c) \<Longrightarrow> run_step T net s c (RunCheck, L) (RunDial, L)"
| check_offline: "bc_IsMarkOffline (conns (l_ps L) c) \<Longrightarrow> run_step T net s c (RunCheck, L) (RunDone, L)"
| dial_failed: "BackendConn_ensureConn newTSocket newTUnixDomain (bc_addr (conns (l_ps L) c)) opens offline = Some (Some e, sleeps) \<Longrightarrow>
     run_step T net s c (RunDial, L) (RunDone, L)"
| connected: "BackendConn_ensureConn newTSocket newTUnixDomain (bc_addr (conns (l_ps L) c)) opens offline = Some (None, sleeps) \<Longrightarrow>
     BackendConn_loopWriter_start now c (l_ps L) = Ret ps' \<Longrightarrow>
     run_step T net s c (RunDial, L)
       (RunWrite, \<lparr>l_ps = ps', l_tr = NewTBufferedFramedTransport rd nt 100000 20, l_wr = WrSelect, l_hb = HbSelect\<rparr>)"
| round_ends: "l_wr L = WrReturned e \<Longrightarrow> BackendConn_after_writer T now c e (l_ps L) = Ret ps' \<Longrightarrow>
     run_step T net s c (RunWrite, L) (if e = None then RunDone else RunCheck, L\<lparr>l_ps := ps', l_wr := WrEnded\<rparr>)"
| inner: "life_step T net c L L' \<Longrightarrow> l_wr L' = WrEnded \<Longrightarrow> l_wr L = WrEnded \<Longrightarrow> run_step T net s c (pc, L) (pc, L')"
| writing: "life_step T net c L L' \<Longrightarrow> l_wr L' \<noteq> WrEnded \<Longrightarrow> run_step T net s c (pc, L) (pc, L')"
| offline: "BackendConn_MarkOffline c (l_ps L) = Ret ps' \<Longrightarrow> run_step T net s c (pc, L) (pc, L\<lparr>l_ps := ps'\<rparr>)"
| other_up: "d \<noteq> c \<Longrightarrow> owns s (l_ps L) d \<Longrightarrow> BackendConn_MarkConnActiveOK d (l_ps L) = Ret ps' \<Longrightarrow>
     run_step T net s c (pc, L) (pc, L\<lparr>l_ps := ps'\<rparr>)"
| other_down: "d \<noteq> c \<Longrightarrow> owns s (l_ps L) d \<Longrightarrow> BackendConn_MarkConnActiveFalse d (l_ps L) = Ret ps' \<Longrightarrow>
     run_step T net s c (pc, L) (pc, L\<lparr>l_ps := ps'\<rparr>)"

abbreviation run_reach :: "thrift_lib \<Rightarrow> 'n net \<Rightarrow> nat \<Rightarrow> nat \<Rightarrow> run_pc \<times> 'n life \<Rightarrow> run_pc \<times> 'n life \<Rightarrow> bool" where
  "run_reach T net s c \<equiv> (run_step T net s c)\<^sup>*\<^sup>*"

text \<open>A connection that the service has just made: \<open>go bc.Run()\<close>.\<close>

definition run_start :: "pstate \<Rightarrow> 'n framed \<Rightarrow> run_pc \<times> 'n life" where
  "run_start ps p = (RunCheck, \<lparr>l_ps = ps, l_tr = p, l_wr = WrEnded, l_hb = HbDone\<rparr>)"

subsection \<open>What marking a connection leaves alone\<close>

text \<open>The queue, the table and the requests of a connection.\<close>

definition same_queue :: "nat \<Rightarrow> pstate \<Rightarrow> pstate \<Rightarrow> bool" where
  "same_queue c ps ps' \<longleftrightarrow> reqs ps' = reqs ps \<and> next_req ps' = next_req ps \<and>
     bc_input (conns ps' c) = bc_input (conns ps c) \<and>
     bc_seqNum2Request (conns ps' c) = bc_seqNum2Request (conns ps c) \<and>
     bc_currentSeqId (conns ps' c) = bc_currentSeqId (conns ps c)"

lemma MarkConnActiveOK_queue: "BackendConn_MarkConnActiveOK d ps = Ret ps' \<Longrightarrow> same_queue c ps ps'"
proof -
  assume m: "BackendConn_MarkConnActiveOK d ps = Ret ps'"
  let ?ps = "upd_conn d (\<lambda>b. b\<lparr>bc_IsConnActive := True\<rparr>) ps"
  have "same_but_index ?ps ps'"
    using m by (auto simp: BackendConn_MarkConnActiveOK_def Let_def split: option.splits dest: StateChanged_frame)
  from same_but_index_conn(1,3-5,9) [OF this] show ?thesis by (simp add: same_queue_def)
qed

lemma MarkConnActiveFalse_queue: "BackendConn_MarkConnActiveFalse d ps = Ret ps' \<Longrightarrow> same_queue c ps ps'"
  using MarkConnActiveFalse_frame_all [of d ps ps' c] by (simp add: same_queue_def)

lemma MarkOffline_queue:
  assumes "BackendConn_MarkOffline d ps = Ret ps'"
  shows "same_queue c ps ps'"
proof (cases "bc_IsMarkOffline (conns ps d)")
  case True
  then show ?thesis using assms by (simp add: BackendConn_MarkOffline_def same_queue_def)
next
  case False
  let ?ps = "upd_conn d (\<lambda>b. b\<lparr>bc_IsMarkOffline := True\<rparr>) ps"
  obtain ps1 where m: "BackendConn_MarkConnActiveFalse d ?ps = Ret ps1" and "close_input d ps1 = Ret ps'"
    using assms False by (auto simp: BackendConn_MarkOffline_def)
  then have "ps' = upd_conn d (\<lambda>b. b\<lparr>bc_input_closed := True\<rparr>) ps1" by (auto simp: close_input_def split: if_splits)
  then show ?thesis using MarkConnActiveFalse_queue [OF m, of c] by (cases "c = d") (simp_all add: same_queue_def)
qed

lemma start_queue:
  assumes "BackendConn_loopWriter_start now c ps = Ret ps'"
  obtains ps1 where "BackendConn_MarkConnActiveOK c ps = Ret ps1" "same_view ps1 ps'" "same_queue c ps ps'"
proof -
  obtain ps1 where m: "BackendConn_MarkConnActiveOK c ps = Ret ps1"
    and ps': "ps' = upd_conn c (\<lambda>b. b\<lparr>bc_hbLastTime := now\<rparr>) ps1"
    using assms by (auto simp: BackendConn_loopWriter_start_def)
  have "same_view ps1 ps'" by (simp add: ps' same_view_def)
  moreover have "same_queue c ps ps'" using MarkConnActiveOK_queue [OF m, of c] by (simp add: ps' same_queue_def)
  ultimately show thesis using m that by blast
qed

lemma life_inv_queue:
  assumes "life_inv c L" and "same_queue c (l_ps L) (l_ps L')" and "\<And>rid. l_wr L' = WrSent rid \<Longrightarrow> l_wr L = WrSent rid"
  shows "life_inv c L'"
proof -
  have "conn_inv c (l_ps L') = conn_inv c (l_ps L)" by (rule conn_inv_cong) (use assms(2) in \<open>simp_all add: same_queue_def\<close>)
  moreover have "bc_pending c (l_ps L') = bc_pending c (l_ps L)" using assms(2) by (simp add: bc_pending_def same_queue_def)
  ultimately show ?thesis using assms by (simp add: life_inv_def same_queue_def)
qed

subsection \<open>Invariant\<close>

definition run_inv :: "nat \<Rightarrow> nat \<Rightarrow> run_pc \<times> 'n life \<Rightarrow> bool" where
  "run_inv s c S \<longleftrightarrow> (case S of (pc, L) \<Rightarrow> life_inv c L \<and> proc_inv (l_ps L) \<and> owns s (l_ps L) c \<and>
     (pc \<noteq> RunWrite \<longrightarrow> l_wr L = WrEnded) \<and> ((l_wr L = WrEnded \<or> (\<exists>e. l_wr L = WrReturned e)) \<longrightarrow> l_hb L = HbDone))"

lemma owns_other:
  assumes "owns s ps c" and "pool_inv s ps" and "owns s ps d"
  shows "BackendConn_MarkConnActiveOK d ps = Ret ps' \<Longrightarrow> owns s ps' c"
    and "BackendConn_MarkConnActiveFalse d ps = Ret ps' \<Longrightarrow> owns s ps' c"
proof -
  show "owns s ps' c" if "BackendConn_MarkConnActiveOK d ps = Ret ps'"
    using MarkConnActiveOK_pool [OF assms(2,3)] that assms(1) by (cases "c = d") (auto simp: owns_def)
  show "owns s ps' c" if "BackendConn_MarkConnActiveFalse d ps = Ret ps'"
    using MarkConnActiveFalse_pool [OF assms(2,3)] that assms(1) by (auto simp: owns_def)
qed

lemma marked_proc:
  assumes inv: "proc_inv ps" "owns s ps c" and d: "owns s ps d"
    and m: "BackendConn_MarkConnActiveOK d ps = Ret ps' \<or> BackendConn_MarkConnActiveFalse d ps = Ret ps'"
  shows "proc_inv ps' \<and> owns s ps' c"
proof -
  have "pool_inv s ps" using proc_invD(1,4) inv by blast
  then show ?thesis using MarkConnActiveOK_proc [OF inv(1) d] MarkConnActiveFalse_proc [OF inv(1) d] owns_other [OF inv(2) _ d] m by auto
qed

lemma MarkOffline_owns:
  assumes inv: "proc_inv ps" "owns s ps c" and m: "BackendConn_MarkOffline c ps = Ret ps'"
  shows "proc_inv ps' \<and> owns s ps' c"
  using MarkOffline_proc [OF inv] m inv(2) by (auto simp: owns_def)

lemma life_step_ended:
  assumes "life_step T net c L L'"
  shows "l_wr L = WrEnded \<Longrightarrow> l_wr L' = WrEnded"
    and "l_hb L = HbDone \<Longrightarrow> l_hb L' = HbDone"
    and "l_wr L' = WrReturned e \<Longrightarrow> l_wr L = WrReturned e \<or> l_hb L' = HbDone"
    and "l_wr L' = WrEnded \<Longrightarrow> l_wr L = WrEnded \<or> (\<exists>e. l_wr L = WrReturned e)"
  using assms by (auto elim: life_stepE)

lemma run_inv_step:
  assumes step: "run_step T net s c S S'" and inv: "run_inv s c S"
  shows "run_inv s c S'"
  using step
proof (cases rule: run_step.cases)
  case (connected newTSocket newTUnixDomain L opens offline sleeps now ps' rd nt)
  have L: "life_inv c L" "proc_inv (l_ps L)" "owns s (l_ps L) c" "l_wr L = WrEnded" using inv connected(1) by (auto simp: run_inv_def)
  obtain ps1 where m: "BackendConn_MarkConnActiveOK c (l_ps L) = Ret ps1" and v: "same_view ps1 ps'" and q: "same_queue c (l_ps L) ps'"
    using start_queue [OF connected(4)] by blast
  have "proc_inv ps1 \<and> owns s ps1 c" using marked_proc [OF L(2,3,3)] m by blast
  then have "proc_inv ps' \<and> owns s ps' c" using same_view_proc [OF v] by blast
  moreover have "life_inv c (snd S')" by (rule life_inv_queue [OF L(1)]) (use q connected(2) in simp_all)
  ultimately show ?thesis using connected(2) by (simp add: run_inv_def)
next
  case (round_ends L e now ps')
  then have st: "life_step T net c L (L\<lparr>l_ps := ps', l_wr := WrEnded\<rparr>)" by (auto intro: life_step.after)
  show ?thesis using life_inv_step [OF st] life_proc_step [OF st, of s] inv round_ends by (auto simp: run_inv_def)
next
  case (inner L L' pc)
  then show ?thesis using life_inv_step [OF inner(3)] life_proc_step [OF inner(3), of s] life_step_ended [OF inner(3)] inv
    by (auto simp: run_inv_def)
next
  case (writing L L' pc)
  then show ?thesis using life_inv_step [OF writing(3)] life_proc_step [OF writing(3), of s] life_step_ended [OF writing(3)] inv
    by (auto simp: run_inv_def)
next
  case (offline L ps' pc)
  have "life_inv c (L\<lparr>l_ps := ps'\<rparr>)"
    by (rule life_inv_queue [of c L]) (use inv offline MarkOffline_queue in \<open>auto simp: run_inv_def\<close>)
  then show ?thesis using MarkOffline_owns [OF _ _ offline(3), of s] inv offline by (auto simp: run_inv_def)
next
  case (other_up d L ps' pc)
  have "life_inv c (L\<lparr>l_ps := ps'\<rparr>)"
    by (rule life_inv_queue [of c L]) (use inv other_up MarkConnActiveOK_queue in \<open>auto simp: run_inv_def\<close>)
  then show ?thesis using marked_proc [of "l_ps L" s c d ps'] inv other_up by (auto simp: run_inv_def)
next
  case (other_down d L ps' pc)
  have "life_inv c (L\<lparr>l_ps := ps'\<rparr>)"
    by (rule life_inv_queue [of c L]) (use inv other_down MarkConnActiveFalse_queue in \<open>auto simp: run_inv_def\<close>)
  then show ?thesis using marked_proc [of "l_ps L" s c d ps'] inv other_down by (auto simp: run_inv_def)
qed (use inv in \<open>auto simp: run_inv_def\<close>)

lemma run_inv_reach: "run_reach T net s c S S' \<Longrightarrow> run_inv s c S \<Longrightarrow> run_inv s c S'"
  by (induction rule: rtranclp_induct) (auto intro: run_inv_step)

lemma run_start_inv:
  assumes ps0: "proc_inv ps0" "s < next_svc ps0" and new: "NewBackendConn addr (Some s) svc verbose ps0 = (c, q)"
    and ps1: "ps1 = upd_svc s (\<lambda>v. v\<lparr>addr2Conn := (addr2Conn v)(addr \<mapsto> c)\<rparr>) q"
  shows "run_inv s c (run_start ps1 p0)"
proof -
  have "conn_inv c ps1 \<and> bc_pending c ps1 = {}"
    using NewBackendConn_conn_inv [OF new] by (simp add: ps1 conn_inv_def bc_pending_def)
  moreover have "proc_inv ps1" using NewBackendConn_proc [OF ps0 new] by (simp add: ps1)
  moreover have "owns s ps1 c" using NewBackendConn_sel(1,2,7) [OF new] by (simp add: ps1 owns_def)
  ultimately show ?thesis by (simp add: run_inv_def run_start_def life_inv_def)
qed

lemma after_writer_returns:
  assumes "conn_inv c ps" and "proc_inv ps" and "owns s ps c"
  shows "\<exists>ps'. BackendConn_after_writer T now c e ps = Ret ps'"
proof -
  obtain ps1 where m: "BackendConn_MarkConnActiveFalse c ps = Ret ps1" using MarkConnActiveFalse_proc [OF assms(2,3)] by blast
  then have c1: "conn_inv c ps1" using conn_inv_MarkConnActiveFalse assms(1) by simp
  have "\<exists>ps'. BackendConn_drain T now c x (length (bc_input (conns ps1 c))) ps1 = Ret ps'" for x
    using drain_spec [OF c1 refl, of T now x] by blast
  then show ?thesis using m by (cases e) (auto simp: BackendConn_after_writer_def)
qed

text \<open>
  C4: From the creation of a connection on, through any number of reconnections and whatever the
  writers, heartbeats, readers, dispatchers and the other connections do, in whatever order:
  the requests queued and in the table stay pairwise different and awaited, stored under their
  own sequence numbers; for every byte stream the backend may send, the next round of a reader
  returns, so that no reply, however malformed or duplicated, makes the proxy panic; and the
  start of a writer, the end of a round of \<open>Run\<close> and \<open>MarkOffline\<close> return as well.
\<close>

theorem connection_never_panics:
  assumes ps0: "proc_inv ps0" "s < next_svc ps0" and new: "NewBackendConn addr (Some s) svc verbose ps0 = (c, q)"
    and ps1: "ps1 = upd_svc s (\<lambda>v. v\<lparr>addr2Conn := (addr2Conn v)(addr \<mapsto> c)\<rparr>) q"
    and reach: "run_reach T net s c (run_start ps1 p0) (pc, L)"
    and ks: "map_order (bc_seqNum2Request (conns (l_ps L) c)) ks"
  shows "life_inv c L
    \<and> (\<exists>x p' ps'. BackendConn_loopReader_turn T now c ks p (l_ps L) = Ret (x, p', ps')
        \<and> run_step T net s c (pc, L) (pc, L\<lparr>l_ps := ps'\<rparr>) \<and> conn_inv c ps' \<and> bc_pending c ps' \<subseteq> bc_pending c (l_ps L))
    \<and> (\<exists>ps'. BackendConn_loopWriter_start now c (l_ps L) = Ret ps')
    \<and> (\<exists>ps'. BackendConn_after_writer T now c e (l_ps L) = Ret ps')
    \<and> (\<exists>ps'. BackendConn_MarkOffline c (l_ps L) = Ret ps')"
proof -
  have inv: "life_inv c L" "proc_inv (l_ps L)" "owns s (l_ps L) c"
    using run_inv_reach [OF reach run_start_inv [OF ps0 new ps1]] by (simp_all add: run_inv_def)
  then have ci: "conn_inv c (l_ps L)" by (simp add: life_inv_def)
  have "run_step T net s c (pc, L) (pc, L\<lparr>l_ps := ps'\<rparr>)" if "life_step T net c L (L\<lparr>l_ps := ps'\<rparr>)" for ps'
    using that run_step.inner [OF that] run_step.writing [OF that] by (cases "l_wr L = WrEnded") simp_all
  then have "\<exists>x p' ps'. BackendConn_loopReader_turn T now c ks p (l_ps L) = Ret (x, p', ps')
      \<and> run_step T net s c (pc, L) (pc, L\<lparr>l_ps := ps'\<rparr>) \<and> conn_inv c ps' \<and> bc_pending c ps' \<subseteq> bc_pending c (l_ps L)"
    using reader_turn_returns [OF inv ks, of T now p net] by blast
  moreover have "\<exists>ps'. BackendConn_loopWriter_start now c (l_ps L) = Ret ps'"
    using MarkConnActiveOK_proc [OF inv(2,3)] by (auto simp: BackendConn_loopWriter_start_def)
  moreover have "\<exists>ps'. BackendConn_MarkOffline c (l_ps L) = Ret ps'" using MarkOffline_proc [OF inv(2,3)] by blast
  ultimately show ?thesis using inv(1) after_writer_returns [OF ci inv(2,3)] by blast
qed

theorem connection_never_panics_witness:
  "\<exists>x p' ps'. BackendConn_loopReader_turn strict_binary 0 2 [] (demo_reader [1, 2, 3])
      (upd_svc 0 (\<lambda>v. v\<lparr>addr2Conn := (addr2Conn v)(''c:3'' \<mapsto> 2)\<rparr>)
        (snd (NewBackendConn ''c:3'' (Some 0) ''math'' False demo_ps))) = Ret (x, p', ps')"
proof -
  let ?q = "snd (NewBackendConn ''c:3'' (Some 0) ''math'' False demo_ps)"
  let ?ps = "upd_svc 0 (\<lambda>v. v\<lparr>addr2Conn := (addr2Conn v)(''c:3'' \<mapsto> 2)\<rparr>) ?q"
  have new: "NewBackendConn ''c:3'' (Some 0) ''math'' False demo_ps = (2, ?q)" by (simp add: NewBackendConn_def)
  then have "map_order (bc_seqNum2Request (conns ?ps 2)) []"
    using NewBackendConn_sel(15) [OF new] by (simp add: map_order_def)
  then show ?thesis
    using connection_never_panics [OF demo_ps_inv(1) _ new refl, of strict_binary net_all demo_writer RunCheck
        "\<lparr>l_ps = ?ps, l_tr = demo_writer, l_wr = WrEnded, l_hb = HbDone\<rparr>" "[]" 0 "demo_reader [1, 2, 3]" None]
    by (auto simp: run_start_def)
qed

subsection \<open>A request pushed too late\<close>

text \<open>\<open>Run\<close> has returned and the request \<open>rid\<close> is in the queue, as it was when it was pushed.\<close>

definition run_stranded :: "nat \<Rightarrow> nat \<Rightarrow> request \<Rightarrow> run_pc \<times> 'n life \<Rightarrow> bool" where
  "run_stranded c rid r S \<longleftrightarrow> fst S = RunDone \<and> rid \<in> set (bc_input (conns (l_ps (snd S)) c)) \<and> reqs (l_ps (snd S)) rid = r"

lemma run_stranded_queue:
  "run_stranded c rid r (pc, L) \<Longrightarrow> same_queue c (l_ps L) ps' \<Longrightarrow> run_stranded c rid r (pc, L\<lparr>l_ps := ps'\<rparr>)"
  by (simp add: run_stranded_def same_queue_def)

lemma run_stranded_inner:
  assumes step: "life_step T net c L L'" and inv: "life_inv c L" and wr: "l_wr L = WrEnded" "l_hb L = HbDone"
    and rid: "rid \<in> set (bc_input (conns (l_ps L) c))"
  shows "rid \<in> set (bc_input (conns (l_ps L') c)) \<and> reqs (l_ps L') rid = reqs (l_ps L) rid"
proof -
  have ci: "conn_inv c (l_ps L)" using inv by (simp add: life_inv_def)
  have pend: "rid \<in> bc_pending c ps" if "rid \<in> set (bc_input (conns ps c))" for ps using that by (simp add: bc_pending_def pending_def)
  from step show ?thesis
  proof (cases rule: life_step.cases)
    case (reply now d m e ps')
    have "conn_inv c ((l_ps L)\<lparr>pmem := m\<rparr>)" using ci by simp
    from setResponse_robust [OF this, of T now None d] reply(2) have "bc_input (conns ps' c) = bc_input (conns (l_ps L) c)"
      and "q \<notin> bc_pending c (l_ps L) \<or> q \<in> bc_pending c ps' \<longrightarrow> reqs ps' q = reqs (l_ps L) q" for q by auto
    then show ?thesis using reply(1) rid pend [of ps'] by auto
  next
    case (lost err ks m ps')
    let ?ps = "(l_ps L)\<lparr>pmem := m\<rparr>"
    have c0: "conn_inv c ?ps" and ks: "map_order (bc_seqNum2Request (conns ?ps c)) ks" using ci lost(3) by simp_all
    obtain ps1 where m: "BackendConn_MarkConnActiveFalse c ?ps = Ret ps1"
      using lost(2) by (auto simp: BackendConn_flushRequests_def)
    have "bc_input (conns ps' c) = bc_input (conns (l_ps L) c)"
      using flushRequests_spec [OF c0 m ks, of err] lost(2) by auto
    moreover have "shrinks c ?ps ps'" by (rule shrinks_lost [OF c0 lost(2) ks])
    ultimately show ?thesis using lost(1) rid pend [of ps'] by (auto simp: shrinks_def)
  next
    case (push rid' ps')
    have "rid \<noteq> rid'" using push(3) pend [OF rid] by auto
    then show ?thesis using PushBack_spec [OF ci push(3,7,2)] push(1) rid by simp
  qed (use wr in simp_all)
qed

lemma run_stranded_step:
  assumes step: "run_step T net s c S S'" and inv: "run_inv s c S" and st: "run_stranded c rid r S"
  shows "run_stranded c rid r S'"
  using step
proof (cases rule: run_step.cases)
  case (inner L L' pc)
  then show ?thesis using run_stranded_inner [OF inner(3), of rid] inv st by (auto simp: run_stranded_def run_inv_def)
next
  case (writing L L' pc)
  then show ?thesis using life_step_ended(1) [OF writing(3)] inv st by (auto simp: run_stranded_def run_inv_def)
next
  case (offline L ps' pc)
  then show ?thesis using run_stranded_queue [OF _ MarkOffline_queue] st by blast
next
  case (other_up d L ps' pc)
  then show ?thesis using run_stranded_queue [OF _ MarkConnActiveOK_queue] st by blast
next
  case (other_down d L ps' pc)
  then show ?thesis using run_stranded_queue [OF _ MarkConnActiveFalse_queue] st by blast
qed (use st in \<open>auto simp: run_stranded_def\<close>)

lemma run_stranded_reach:
  assumes "run_reach T net s c S S'" and "run_inv s c S" and "run_stranded c rid r S"
  shows "run_stranded c rid r S'"
proof -
  have "run_inv s c S' \<and> run_stranded c rid r S'"
    using assms by (induction rule: rtranclp_induct) (auto intro: run_inv_step run_stranded_step)
  then show ?thesis by blast
qed

text \<open>
  C38: After an error \<open>Run\<close> answers what is queued and goes back to the condition of its loop. A
  dispatcher that chose the connection before may still push a request then; when the
  connection is now marked offline, \<open>Run\<close> returns, and in every later state the request is in the
  queue and its client waits.
\<close>

theorem late_push_stranded:
  assumes ps0: "proc_inv ps0" "s < next_svc ps0" and new: "NewBackendConn addr (Some s) svc verbose ps0 = (c, q)"
    and ps1: "ps1 = upd_svc s (\<lambda>v. v\<lparr>addr2Conn := (addr2Conn v)(addr \<mapsto> c)\<rparr>) q"
    and reach: "run_reach T net s c (run_start ps1 p0) (RunCheck, L)"
    and up: "\<not> bc_IsMarkOffline (conns (l_ps L) c)" "length (bc_input (conns (l_ps L) c)) < CHAN_CAP"
    and rid: "rid \<notin> bc_pending c (l_ps L)" "rid < next_req (l_ps L)" "ReqData (reqs (l_ps L) rid) \<noteq> None"
      "Wait (reqs (l_ps L) rid) = Some w" "0 \<le> w"
  shows "\<exists>L1. run_reach T net s c (RunCheck, L) (RunDone, L1) \<and> (\<forall>pc L2. run_reach T net s c (RunDone, L1) (pc, L2) \<longrightarrow>
    pc = RunDone \<and> rid \<in> set (bc_input (conns (l_ps L2) c)) \<and> wait_wait (reqs (l_ps L2) rid) = Block)"
proof -
  let ?S = "(RunCheck, L)" and ?r = "wait_add (reqs (l_ps L) rid)"
  have ri: "run_inv s c ?S" by (rule run_inv_reach [OF reach run_start_inv [OF ps0 new ps1]])
  then have inv: "conn_inv c (l_ps L)" "proc_inv (l_ps L)" "owns s (l_ps L) c" "l_wr L = WrEnded"
    by (simp_all add: run_inv_def life_inv_def)
  have "\<not> bc_input_closed (conns (l_ps L) c)" using inv(2,3) up(1) by (auto simp: proc_inv_def chan_inv_def owns_def)
  then obtain ps2 where p: "BackendConn_PushBack c rid (l_ps L) = Ret ps2" using up(2) by (simp add: BackendConn_PushBack_def)
  have w: "case Wait (reqs (l_ps L) rid) of None \<Rightarrow> True | Some w \<Rightarrow> w \<ge> 0" using rid(4,5) by simp
  let ?L2 = "L\<lparr>l_ps := ps2\<rparr>"
  have "life_step T net c L ?L2" using p rid(1) _ rid(2,3) w by (rule life_step.push) (simp add: inv(4))
  then have s1: "run_step T net s c ?S (RunCheck, ?L2)" by (rule run_step.inner) (simp_all add: inv(4))
  have own2: "proc_inv ps2" "owns s ps2 c" using run_inv_step [OF s1 ri] by (simp_all add: run_inv_def)
  obtain ps3 where o: "BackendConn_MarkOffline c ps2 = Ret ps3" "bc_IsMarkOffline (conns ps3 c)" using MarkOffline_proc [OF own2] by blast
  let ?L3 = "L\<lparr>l_ps := ps3\<rparr>"
  have s2: "run_step T net s c (RunCheck, ?L2) (RunCheck, ?L3)" using run_step.offline [of c ?L2 ps3] o(1) by simp
  have s3: "run_step T net s c (RunCheck, ?L3) (RunDone, ?L3)" by (rule run_step.check_offline) (simp add: o(2))
  have r: "run_reach T net s c ?S (RunDone, ?L3)" 
    by (rule converse_rtranclp_into_rtranclp [where r = "run_step T net s c", OF s1 converse_rtranclp_into_rtranclp
      [where r = "run_step T net s c", OF s2 r_into_rtranclp [where r = "run_step T net s c", OF s3]]])
  have "rid \<in> set (bc_input (conns ps2 c)) \<and> reqs ps2 rid = ?r" using PushBack_spec [OF inv(1) rid(1) w p] by simp
  then have st: "run_stranded c rid ?r (RunDone, ?L3)" using MarkOffline_queue [OF o(1), of c] by (simp add: run_stranded_def same_queue_def)
  have "wait_wait ?r = Block" using rid(4,5) by (simp add: wait_add_def wait_wait_def)
  then have "pc = RunDone \<and> rid \<in> set (bc_input (conns (l_ps L2) c)) \<and> wait_wait (reqs (l_ps L2) rid) = Block"
    if "run_reach T net s c (RunDone, ?L3) (pc, L2)" for pc L2
    using run_stranded_reach [OF that run_inv_reach [OF r ri] st] by (simp add: run_stranded_def)
  with r show ?thesis by blast
qed

definition demo_late :: "nat \<times> pstate" where
  "demo_late = NewBackendConn ''c:3'' (Some 0) ''math'' False (demo_ps\<lparr>next_req := 1, reqs :=
     (\<lambda>_. zero_request\<lparr>Wait := Some 0, ReqData := Some (demo_frame [])\<rparr>)\<rparr>)"

theorem late_push_stranded_witness:
  "\<exists>L1. (run_step strict_binary net_all 0 (fst demo_late))\<^sup>*\<^sup>*
      (run_start (upd_svc 0 (\<lambda>v. v\<lparr>addr2Conn := (addr2Conn v)(''c:3'' \<mapsto> fst demo_late)\<rparr>) (snd demo_late)) demo_writer) (RunDone, L1)
    \<and> 0 \<in> set (bc_input (conns (l_ps L1) (fst demo_late))) \<and> wait_wait (reqs (l_ps L1) 0) = Block"
proof -
  let ?before = "demo_ps\<lparr>next_req := 1, reqs := (\<lambda>_. zero_request\<lparr>Wait := Some 0, ReqData := Some (demo_frame [])\<rparr>)\<rparr>"
  define c q where "c = fst demo_late" and "q = snd demo_late"
  let ?ps = "upd_svc 0 (\<lambda>v. v\<lparr>addr2Conn := (addr2Conn v)(''c:3'' \<mapsto> c)\<rparr>) q"
  let ?L = "\<lparr>l_ps = ?ps, l_tr = demo_writer, l_wr = WrEnded, l_hb = HbDone\<rparr>"
  have new: "NewBackendConn ''c:3'' (Some 0) ''math'' False ?before = (c, q)" by (simp add: demo_late_def c_def q_def)
  have inv: "proc_inv ?before" by (rule proc_inv_view [OF demo_ps_inv(1)]) simp_all
  note sel = NewBackendConn_sel [OF new]
  have n: "next_req q = 1" using new by (auto simp: NewBackendConn_def)
  have st: "run_start ?ps demo_writer = (RunCheck, ?L)" by (simp add: run_start_def)
  have L: "\<not> bc_IsMarkOffline (conns (l_ps ?L) c)" "length (bc_input (conns (l_ps ?L) c)) < CHAN_CAP" "0 \<notin> bc_pending c (l_ps ?L)"
    "0 < next_req (l_ps ?L)" "ReqData (reqs (l_ps ?L) 0) \<noteq> None" "Wait (reqs (l_ps ?L) 0) = Some 0" "(0::int) \<le> 0"
    using sel n by (simp_all add: CHAN_CAP_def bc_pending_def pending_def)
  have svc: "0 < next_svc ?before" by simp
  have start: "run_reach strict_binary net_all 0 c (run_start ?ps demo_writer) (RunCheck, ?L)" unfolding st by (rule rtranclp.rtrancl_refl)
  obtain L1 where "run_reach strict_binary net_all 0 c (RunCheck, ?L) (RunDone, L1)"
    "0 \<in> set (bc_input (conns (l_ps L1) c))" "wait_wait (reqs (l_ps L1) 0) = Block"
    using late_push_stranded [OF inv svc new refl start L] by blast
  then show ?thesis unfolding c_def q_def run_start_def by blast
qed

end
