(* ===== verification/Zk_Conn.thy ===== *)
theory Zk_Conn
  imports Go_Prelude
begin

text \<open>
  \<open>utils/zk.go\<close>: zookeeper connections that are rebuilt when they break. The interface
  \<open>zkhelper.Conn\<close> is a record of operations on an abstract world \<open>'w\<close> (the ensemble, the
  sessions and the clock); a value of this record is a connection. \<open>connBuilder\<close> owns the
  current connection, \<open>safeConn\<close> repeats a call that fails with a connection error,
  \<open>unsafeConn\<close> returns the error and has the connection rebuilt behind it.

  The zookeeper client and \<open>zkhelper\<close> are not part of the repository: they are the records
  \<open>zk_conn\<close> and \<open>zk_helper\<close>. The locks of \<open>connBuilder\<close> make each call and each reset one
  step; \<open>log.Fatal\<close> ends the process.
\<close>

subsection \<open>The client library's types\<close>

datatype zk_error = ErrNoNode | ErrNodeExists | ErrNotEmpty | ZkError string

record zk_acl =
  Perms :: int32
  Scheme :: string
  AclID :: string

datatype zk_event_type = EventNodeChildrenChanged | EventNotWatching | EventOther int32
datatype zk_session_state = StateExpired | StateOther int32

record zk_event =
  EvType :: zk_event_type
  EvState :: zk_session_state
  EvPath :: string

text \<open>A call returns its values, its error and the world after it. A watch is the number of
  the channel on which its event will come.\<close>

type_synonym ('r, 'w) zk_answer = "'r \<times> zk_error option \<times> 'w"

record ('s, 'w) zk_conn =
  zk_Get :: "string \<Rightarrow> 'w \<Rightarrow> (byte list \<times> 's, 'w) zk_answer"
  zk_GetW :: "string \<Rightarrow> 'w \<Rightarrow> (byte list \<times> 's \<times> nat, 'w) zk_answer"
  zk_Children :: "string \<Rightarrow> 'w \<Rightarrow> (string list \<times> 's, 'w) zk_answer"
  zk_ChildrenW :: "string \<Rightarrow> 'w \<Rightarrow> (string list \<times> 's \<times> nat, 'w) zk_answer"
  zk_Exists :: "string \<Rightarrow> 'w \<Rightarrow> (bool \<times> 's, 'w) zk_answer"
  zk_ExistsW :: "string \<Rightarrow> 'w \<Rightarrow> (bool \<times> 's \<times> nat, 'w) zk_answer"
  zk_Create :: "string \<Rightarrow> byte list \<Rightarrow> int32 \<Rightarrow> zk_acl list \<Rightarrow> 'w \<Rightarrow> (string, 'w) zk_answer"
  zk_Set :: "string \<Rightarrow> byte list \<Rightarrow> int32 \<Rightarrow> 'w \<Rightarrow> ('s, 'w) zk_answer"
  zk_Delete :: "string \<Rightarrow> int32 \<Rightarrow> 'w \<Rightarrow> (unit, 'w) zk_answer"
  zk_GetACL :: "string \<Rightarrow> 'w \<Rightarrow> (zk_acl list \<times> 's, 'w) zk_answer"
  zk_SetACL :: "string \<Rightarrow> zk_acl list \<Rightarrow> int32 \<Rightarrow> 'w \<Rightarrow> ('s, 'w) zk_answer"
  zk_Close :: "'w \<Rightarrow> 'w"
  zk_Seq2Str :: "int64 \<Rightarrow> string"

record ('s, 'w) zk_helper =
  ZkErrorEqual :: "zk_error option \<Rightarrow> zk_error option \<Rightarrow> bool"
  NodeExists :: "('s, 'w) zk_conn \<Rightarrow> string \<Rightarrow> 'w \<Rightarrow> (bool, 'w) zk_answer"
  DeleteRecursive :: "('s, 'w) zk_conn \<Rightarrow> string \<Rightarrow> int32 \<Rightarrow> 'w \<Rightarrow> (unit, 'w) zk_answer"
  helper_CreateRecursive :: "('s, 'w) zk_conn \<Rightarrow> string \<Rightarrow> string \<Rightarrow> int32 \<Rightarrow> zk_acl list \<Rightarrow> 'w \<Rightarrow>
    (string, 'w) zk_answer"
  ConnectToZk :: "string \<Rightarrow> int \<Rightarrow> 'w \<Rightarrow> (('s, 'w) zk_conn, 'w) zk_answer"
  DefaultDirACLs :: "zk_acl list"
  DefaultFileACLs :: "zk_acl list"
  PERM_DIRECTORY :: int32
  MagicPrefix :: string
  FlagEphemeral :: int32

text \<open>\<open>ZkErrorEqual\<close> is documented to compare two errors.\<close>

definition zk_errors_ok :: "('s, 'w) zk_helper \<Rightarrow> bool" where
  "zk_errors_ok Z \<longleftrightarrow> (\<forall>e e'. ZkErrorEqual Z e e' \<longleftrightarrow> e = e')"

lemma ZkErrorEqual_iff [simp]: "zk_errors_ok Z \<Longrightarrow> ZkErrorEqual Z e e' \<longleftrightarrow> e = e'"
  by (simp add: zk_errors_ok_def)

subsection \<open>The builder\<close>

text \<open>How a call can fail to return: the process ends, or a nil connection is used.\<close>

datatype zk_exit = Fatal string | NilConn

record ('s, 'w) connBuilder =
  connection :: "('s, 'w) zk_conn option"
  builder :: "('w \<Rightarrow> (('s, 'w) zk_conn, 'w) zk_answer) option"
  createdOn :: int
  safeConnInstance :: "('s, 'w) zk_conn option"
  unsafeConnInstance :: "('s, 'w) zk_conn option"

definition retryMaxOnOps :: nat where
  "retryMaxOnOps = 10"

definition time_Second :: int where
  "time_Second = 1000000000"

text \<open>\<open>clock w\<close> is \<open>time.Now()\<close> in the world \<open>w\<close>, in nanoseconds after the zero \<open>time.Time\<close>.\<close>

definition resetConnection :: "('w \<Rightarrow> int) \<Rightarrow> ('s, 'w) connBuilder \<Rightarrow> 'w \<Rightarrow>
    zk_exit + ('s, 'w) connBuilder \<times> 'w" where
  "resetConnection clock b w =
     (case builder b of
        None \<Rightarrow> Inl (Fatal ''no connection builder'')
      | Some build \<Rightarrow>
          if clock w < createdOn b + time_Second then Inr (b, w)
          else
            let w1 = (case connection b of Some c \<Rightarrow> zk_Close c w | None \<Rightarrow> w);
                (c, err, w2) = build w1 in
            if err = None
            then Inr (b\<lparr>connection := Some c, safeConnInstance := Some c, unsafeConnInstance := Some c,
                        createdOn := clock w2\<rparr>, w2)
            else Inl (Fatal ''can not build new zk session, exit''))"

definition NewConnBuilder :: "('w \<Rightarrow> int) \<Rightarrow> ('w \<Rightarrow> (('s, 'w) zk_conn, 'w) zk_answer) option \<Rightarrow> 'w \<Rightarrow>
    zk_exit + ('s, 'w) connBuilder \<times> 'w" where
  "NewConnBuilder clock buildFunc w =
     resetConnection clock
       \<lparr>connection = None, builder = buildFunc, createdOn = 0,
        safeConnInstance = None, unsafeConnInstance = None\<rparr> w"

definition GetSafeConn :: "('s, 'w) connBuilder \<Rightarrow> ('s, 'w) zk_conn option" where
  "GetSafeConn b = safeConnInstance b"

definition GetUnsafeConn :: "('s, 'w) connBuilder \<Rightarrow> ('s, 'w) zk_conn option" where
  "GetUnsafeConn b = unsafeConnInstance b"

definition isConnectionError :: "('s, 'w) zk_helper \<Rightarrow> zk_error option \<Rightarrow> bool" where
  "isConnectionError Z e \<longleftrightarrow>
     \<not> ZkErrorEqual Z (Some ErrNoNode) e \<and> \<not> ZkErrorEqual Z (Some ErrNodeExists) e \<and>
     \<not> ZkErrorEqual Z (Some ErrNodeExists) e \<and> \<not> ZkErrorEqual Z (Some ErrNotEmpty) e"

subsection \<open>Safe connections\<close>

text \<open>The loop all operations of \<open>safeConn\<close> share; \<open>n\<close> attempts are left.\<close>

fun safeConn_loop :: "('s, 'w) zk_helper \<Rightarrow> ('w \<Rightarrow> int) \<Rightarrow> nat \<Rightarrow>
    (('s, 'w) zk_conn \<Rightarrow> 'w \<Rightarrow> ('r, 'w) zk_answer) \<Rightarrow> ('s, 'w) connBuilder \<Rightarrow> 'w \<Rightarrow>
    zk_exit + ('r \<times> zk_error option) \<times> ('s, 'w) connBuilder \<times> 'w" where
  "safeConn_loop Z clock 0 call b w = Inl (Fatal ''zk error after retries'')"
| "safeConn_loop Z clock (Suc n) call b w =
     (case safeConnInstance b of
        None \<Rightarrow> Inl NilConn
      | Some c \<Rightarrow>
          let (r, err, w1) = call c w in
          if err = None \<or> \<not> isConnectionError Z err then Inr ((r, err), b, w1)
          else (case resetConnection clock b w1 of
                  Inl x \<Rightarrow> Inl x
                | Inr (b', w2) \<Rightarrow> safeConn_loop Z clock n call b' w2))"

definition safeConn_call :: "('s, 'w) zk_helper \<Rightarrow> ('w \<Rightarrow> int) \<Rightarrow>
    (('s, 'w) zk_conn \<Rightarrow> 'w \<Rightarrow> ('r, 'w) zk_answer) \<Rightarrow> ('s, 'w) connBuilder \<Rightarrow> 'w \<Rightarrow>
    zk_exit + ('r \<times> zk_error option) \<times> ('s, 'w) connBuilder \<times> 'w" where
  "safeConn_call Z clock = safeConn_loop Z clock (Suc retryMaxOnOps)"

definition safeConn_Get :: "('s, 'w) zk_helper \<Rightarrow> ('w \<Rightarrow> int) \<Rightarrow> string \<Rightarrow>
    ('s, 'w) connBuilder \<Rightarrow> 'w \<Rightarrow> zk_exit + ((byte list \<times> 's) \<times> zk_error option) \<times> ('s, 'w) connBuilder \<times> 'w" where
  "safeConn_Get Z clock path = safeConn_call Z clock (\<lambda>c. zk_Get c path)"

definition safeConn_GetW :: "('s, 'w) zk_helper \<Rightarrow> ('w \<Rightarrow> int) \<Rightarrow> string \<Rightarrow>
    ('s, 'w) connBuilder \<Rightarrow> 'w \<Rightarrow> zk_exit + ((byte list \<times> 's \<times> nat) \<times> zk_error option) \<times> ('s, 'w) connBuilder \<times> 'w" where
  "safeConn_GetW Z clock path = safeConn_call Z clock (\<lambda>c. zk_GetW c path)"

definition safeConn_Children :: "('s, 'w) zk_helper \<Rightarrow> ('w \<Rightarrow> int) \<Rightarrow> string \<Rightarrow>
    ('s, 'w) connBuilder \<Rightarrow> 'w \<Rightarrow> zk_exit + ((string list \<times> 's) \<times> zk_error option) \<times> ('s, 'w) connBuilder \<times> 'w" where
  "safeConn_Children Z clock path = safeConn_call Z clock (\<lambda>c. zk_Children c path)"

definition safeConn_ChildrenW :: "('s, 'w) zk_helper \<Rightarrow> ('w \<Rightarrow> int) \<Rightarrow> string \<Rightarrow>
    ('s, 'w) connBuilder \<Rightarrow> 'w \<Rightarrow> zk_exit + ((string list \<times> 's \<times> nat) \<times> zk_error option) \<times> ('s, 'w) connBuilder \<times> 'w" where
  "safeConn_ChildrenW Z clock path = safeConn_call Z clock (\<lambda>c. zk_ChildrenW c path)"

definition safeConn_Exists :: "('s, 'w) zk_helper \<Rightarrow> ('w \<Rightarrow> int) \<Rightarrow> string \<Rightarrow>
    ('s, 'w) connBuilder \<Rightarrow> 'w \<Rightarrow> zk_exit + ((bool \<times> 's) \<times> zk_error option) \<times> ('s, 'w) connBuilder \<times> 'w" where
  "safeConn_Exists Z clock path = safeConn_call Z clock (\<lambda>c. zk_Exists c path)"

definition safeConn_ExistsW :: "('s, 'w) zk_helper \<Rightarrow> ('w \<Rightarrow> int) \<Rightarrow> string \<Rightarrow>
    ('s, 'w) connBuilder \<Rightarrow> 'w \<Rightarrow> zk_exit + ((bool \<times> 's \<times> nat) \<times> zk_error option) \<times> ('s, 'w) connBuilder \<times> 'w" where
  "safeConn_ExistsW Z clock path = safeConn_call Z clock (\<lambda>c. zk_ExistsW c path)"

definition safeConn_Create :: "('s, 'w) zk_helper \<Rightarrow> ('w \<Rightarrow> int) \<Rightarrow> string \<Rightarrow> byte list \<Rightarrow> int32 \<Rightarrow> zk_acl list \<Rightarrow>
    ('s, 'w) connBuilder \<Rightarrow> 'w \<Rightarrow> zk_exit + ((string) \<times> zk_error option) \<times> ('s, 'w) connBuilder \<times> 'w" where
  "safeConn_Create Z clock path value flags aclv = safeConn_call Z clock (\<lambda>c. zk_Create c path value flags aclv)"

definition safeConn_Set :: "('s, 'w) zk_helper \<Rightarrow> ('w \<Rightarrow> int) \<Rightarrow> string \<Rightarrow> byte list \<Rightarrow> int32 \<Rightarrow>
    ('s, 'w) connBuilder \<Rightarrow> 'w \<Rightarrow> zk_exit + (('s) \<times> zk_error option) \<times> ('s, 'w) connBuilder \<times> 'w" where
  "safeConn_Set Z clock path value version = safeConn_call Z clock (\<lambda>c. zk_Set c path value version)"

definition safeConn_Delete :: "('s, 'w) zk_helper \<Rightarrow> ('w \<Rightarrow> int) \<Rightarrow> string \<Rightarrow> int32 \<Rightarrow>
    ('s, 'w) connBuilder \<Rightarrow> 'w \<Rightarrow> zk_exit + ((unit) \<times> zk_error option) \<times> ('s, 'w) connBuilder \<times> 'w" where
  "safeConn_Delete Z clock path version = safeConn_call Z clock (\<lambda>c. zk_Delete c path version)"

definition safeConn_GetACL :: "('s, 'w) zk_helper \<Rightarrow> ('w \<Rightarrow> int) \<Rightarrow> string \<Rightarrow>
    ('s, 'w) connBuilder \<Rightarrow> 'w \<Rightarrow> zk_exit + ((zk_acl list \<times> 's) \<times> zk_error option) \<times> ('s, 'w) connBuilder \<times> 'w" where
  "safeConn_GetACL Z clock path = safeConn_call Z clock (\<lambda>c. zk_GetACL c path)"

definition safeConn_SetACL :: "('s, 'w) zk_helper \<Rightarrow> ('w \<Rightarrow> int) \<Rightarrow> string \<Rightarrow> zk_acl list \<Rightarrow> int32 \<Rightarrow>
    ('s, 'w) connBuilder \<Rightarrow> 'w \<Rightarrow> zk_exit + (('s) \<times> zk_error option) \<times> ('s, 'w) connBuilder \<times> 'w" where
  "safeConn_SetACL Z clock path aclv version = safeConn_call Z clock (\<lambda>c. zk_SetACL c path aclv version)"

definition safeConn_Close :: "zk_exit + unit" where
  "safeConn_Close = Inl (Fatal ''do not close zk connection by yourself'')"

definition safeConn_Seq2Str :: "int64 \<Rightarrow> ('s, 'w) connBuilder \<Rightarrow> zk_exit + string" where
  "safeConn_Seq2Str seq b =
     (case safeConnInstance b of None \<Rightarrow> Inl NilConn | Some c \<Rightarrow> Inr (zk_Seq2Str c seq))"

subsection \<open>Unsafe connections\<close>

text \<open>The last component says whether a goroutine that runs \<open>resetConnection\<close> was started.\<close>

definition unsafeConn_call :: "('s, 'w) zk_helper \<Rightarrow>
    (('s, 'w) zk_conn \<Rightarrow> 'w \<Rightarrow> ('r, 'w) zk_answer) \<Rightarrow> ('s, 'w) connBuilder \<Rightarrow> 'w \<Rightarrow>
    zk_exit + ('r \<times> zk_error option) \<times> 'w \<times> bool" where
  "unsafeConn_call Z call b w =
     (case unsafeConnInstance b of
        None \<Rightarrow> Inl NilConn
      | Some c \<Rightarrow>
          let (r, err, w1) = call c w in
          Inr ((r, err), w1, err \<noteq> None \<and> isConnectionError Z err))"

definition unsafeConn_Get :: "('s, 'w) zk_helper \<Rightarrow> string \<Rightarrow>
    ('s, 'w) connBuilder \<Rightarrow> 'w \<Rightarrow> zk_exit + ((byte list \<times> 's) \<times> zk_error option) \<times> 'w \<times> bool" where
  "unsafeConn_Get Z path = unsafeConn_call Z (\<lambda>c. zk_Get c path)"

definition unsafeConn_GetW :: "('s, 'w) zk_helper \<Rightarrow> string \<Rightarrow>
    ('s, 'w) connBuilder \<Rightarrow> 'w \<Rightarrow> zk_exit + ((byte list \<times> 's \<times> nat) \<times> zk_error option) \<times> 'w \<times> bool" where
  "unsafeConn_GetW Z path = unsafeConn_call Z (\<lambda>c. zk_GetW c path)"

definition unsafeConn_Children :: "('s, 'w) zk_helper \<Rightarrow> string \<Rightarrow>
    ('s, 'w) connBuilder \<Rightarrow> 'w \<Rightarrow> zk_exit + ((string list \<times> 's) \<times> zk_error option) \<times> 'w \<times> bool" where
  "unsafeConn_Children Z path = unsafeConn_call Z (\<lambda>c. zk_Children c path)"

definition unsafeConn_ChildrenW :: "('s, 'w) zk_helper \<Rightarrow> string \<Rightarrow>
    ('s, 'w) connBuilder \<Rightarrow> 'w \<Rightarrow> zk_exit + ((string list \<times> 's \<times> nat) \<times> zk_error option) \<times> 'w \<times> bool" where
  "unsafeConn_ChildrenW Z path = unsafeConn_call Z (\<lambda>c. zk_ChildrenW c path)"

definition unsafeConn_Exists :: "('s, 'w) zk_helper \<Rightarrow> string \<Rightarrow>
    ('s, 'w) connBuilder \<Rightarrow> 'w \<Rightarrow> zk_exit + ((bool \<times> 's) \<times> zk_error option) \<times> 'w \<times> bool" where
  "unsafeConn_Exists Z path = unsafeConn_call Z (\<lambda>c. zk_Exists c path)"

definition unsafeConn_ExistsW :: "('s, 'w) zk_helper \<Rightarrow> string \<Rightarrow>
    ('s, 'w) connBuilder \<Rightarrow> 'w \<Rightarrow> zk_exit + ((bool \<times> 's \<times> nat) \<times> zk_error option) \<times> 'w \<times> bool" where
  "unsafeConn_ExistsW Z path = unsafeConn_call Z (\<lambda>c. zk_ExistsW c path)"

definition unsafeConn_Create :: "('s, 'w) zk_helper \<Rightarrow> string \<Rightarrow> byte list \<Rightarrow> int32 \<Rightarrow> zk_acl list \<Rightarrow>
    ('s, 'w) connBuilder \<Rightarrow> 'w \<Rightarrow> zk_exit + ((string) \<times> zk_error option) \<times> 'w \<times> bool" where
  "unsafeConn_Create Z path value flags aclv = unsafeConn_call Z (\<lambda>c. zk_Create c path value flags aclv)"

definition unsafeConn_Set :: "('s, 'w) zk_helper \<Rightarrow> string \<Rightarrow> byte list \<Rightarrow> int32 \<Rightarrow>
    ('s, 'w) connBuilder \<Rightarrow> 'w \<Rightarrow> zk_exit + (('s) \<times> zk_error option) \<times> 'w \<times> bool" where
  "unsafeConn_Set Z path value version = unsafeConn_call Z (\<lambda>c. zk_Set c path value version)"

definition unsafeConn_Delete :: "('s, 'w) zk_helper \<Rightarrow> string \<Rightarrow> int32 \<Rightarrow>
    ('s, 'w) connBuilder \<Rightarrow> 'w \<Rightarrow> zk_exit + ((unit) \<times> zk_error option) \<times> 'w \<times> bool" where
  "unsafeConn_Delete Z path version = unsafeConn_call Z (\<lambda>c. zk_Delete c path version)"

definition unsafeConn_GetACL :: "('s, 'w) zk_helper \<Rightarrow> string \<Rightarrow>
    ('s, 'w) connBuilder \<Rightarrow> 'w \<Rightarrow> zk_exit + ((zk_acl list \<times> 's) \<times> zk_error option) \<times> 'w \<times> bool" where
  "unsafeConn_GetACL Z path = unsafeConn_call Z (\<lambda>c. zk_GetACL c path)"

definition unsafeConn_SetACL :: "('s, 'w) zk_helper \<Rightarrow> string \<Rightarrow> zk_acl list \<Rightarrow> int32 \<Rightarrow>
    ('s, 'w) connBuilder \<Rightarrow> 'w \<Rightarrow> zk_exit + (('s) \<times> zk_error option) \<times> 'w \<times> bool" where
  "unsafeConn_SetACL Z path aclv version = unsafeConn_call Z (\<lambda>c. zk_SetACL c path aclv version)"

definition unsafeConn_Close :: "zk_exit + unit" where
  "unsafeConn_Close = Inl (Fatal ''do not close zk connection by yourself'')"

definition unsafeConn_Seq2Str :: "int64 \<Rightarrow> ('s, 'w) connBuilder \<Rightarrow> zk_exit + string" where
  "unsafeConn_Seq2Str seq b =
     (case unsafeConnInstance b of None \<Rightarrow> Inl NilConn | Some c \<Rightarrow> Inr (zk_Seq2Str c seq))"

subsection \<open>Both instances use the builder's connection\<close>

definition builder_inv :: "('s, 'w) connBuilder \<Rightarrow> bool" where
  "builder_inv b \<longleftrightarrow> builder b \<noteq> None \<and> connection b \<noteq> None
     \<and> safeConnInstance b = connection b \<and> unsafeConnInstance b = connection b"

lemma resetConnection_inv:
  assumes "builder_inv b" and "resetConnection clock b w = Inr (b', w')"
  shows "builder_inv b'"
  using assms by (auto simp: resetConnection_def builder_inv_def Let_def split: option.splits if_splits prod.splits)

lemma NewConnBuilder_inv:
  assumes "NewConnBuilder clock f w = Inr (b, w')" and "time_Second \<le> clock w"
  shows "builder_inv b"
  using assms
  by (auto simp: NewConnBuilder_def resetConnection_def builder_inv_def Let_def
      split: option.splits if_splits prod.splits)

lemma safeConn_loop_inv:
  "builder_inv b \<Longrightarrow> safeConn_loop Z clock n call b w = Inr (r, b', w') \<Longrightarrow> builder_inv b'"
proof (induction n arbitrary: b w)
  case (Suc n)
  then show ?case
    by (auto simp: Let_def split: option.splits prod.splits if_splits sum.splits dest: resetConnection_inv)
qed simp

text \<open>Within a second of the last rebuilding a reset does nothing.\<close>

lemma resetConnection_recent:
  "builder b \<noteq> None \<Longrightarrow> clock w < createdOn b + time_Second \<Longrightarrow> resetConnection clock b w = Inr (b, w)"
  by (auto simp: resetConnection_def)

subsection \<open>What the attempts do\<close>

text \<open>One failed attempt: the call ends with a connection error and the reset returns.\<close>

definition failed_attempt :: "('s, 'w) zk_helper \<Rightarrow> ('w \<Rightarrow> int) \<Rightarrow>
    (('s, 'w) zk_conn \<Rightarrow> 'w \<Rightarrow> ('r, 'w) zk_answer) \<Rightarrow>
    (('s, 'w) connBuilder \<times> 'w) \<Rightarrow> (('s, 'w) connBuilder \<times> 'w) \<Rightarrow> bool" where
  "failed_attempt Z clock call = (\<lambda>(b, w) (b', w').
     \<exists>c r e w1. safeConnInstance b = Some c \<and> call c w = (r, Some e, w1) \<and> isConnectionError Z (Some e)
       \<and> resetConnection clock b w1 = Inr (b', w'))"

text \<open>The last attempt: the call succeeds, or ends with an error that is not the connection's.\<close>

definition answered :: "('s, 'w) zk_helper \<Rightarrow> (('s, 'w) zk_conn \<Rightarrow> 'w \<Rightarrow> ('r, 'w) zk_answer) \<Rightarrow>
    ('s, 'w) connBuilder \<Rightarrow> 'w \<Rightarrow> 'r \<times> zk_error option \<Rightarrow> 'w \<Rightarrow> bool" where
  "answered Z call b w res w' \<longleftrightarrow>
     (\<exists>c. safeConnInstance b = Some c \<and> call c w = (fst res, snd res, w')
       \<and> (snd res = None \<or> \<not> isConnectionError Z (snd res)))"

lemma safeConn_loop_Suc_iff:
  "safeConn_loop Z clock (Suc n) call b w = Inr (res, b', w') \<longleftrightarrow>
     b' = b \<and> answered Z call b w res w'
     \<or> (\<exists>b1 w1. failed_attempt Z clock call (b, w) (b1, w1)
          \<and> safeConn_loop Z clock n call b1 w1 = Inr (res, b', w'))"
proof (cases "safeConnInstance b")
  case None
  then show ?thesis by (simp add: answered_def failed_attempt_def)
next
  case (Some c)
  obtain r err w1 where call: "call c w = (r, err, w1)" by (metis prod_cases3)
  show ?thesis
  proof (cases "err = None \<or> \<not> isConnectionError Z err")
    case True
    then show ?thesis using Some call by (cases res) (auto simp: answered_def failed_attempt_def)
  next
    case False
    then obtain e where "err = Some e" by auto
    then have "answered Z call b w res w' = False"
      using False Some call by (cases res) (auto simp: answered_def)
    moreover have "failed_attempt Z clock call (b, w) (b1, w2) \<longleftrightarrow> resetConnection clock b w1 = Inr (b1, w2)"
      for b1 w2 using False Some call by (auto simp: failed_attempt_def)
    ultimately show ?thesis using False Some call
      by (cases "resetConnection clock b w1") (auto split: prod.splits)
  qed
qed

lemma safeConn_loop_answer:
  "safeConn_loop Z clock n call b w = Inr (res, b', w') \<longleftrightarrow>
     (\<exists>k < n. \<exists>w0. (failed_attempt Z clock call ^^ k) (b, w) (b', w0) \<and> answered Z call b' w0 res w')"
proof (induction n arbitrary: b w)
  case (Suc n)
  let ?F = "failed_attempt Z clock call"
  have "(\<exists>k < Suc n. \<exists>w0. (?F ^^ k) (b, w) (b', w0) \<and> answered Z call b' w0 res w') \<longleftrightarrow>
      b' = b \<and> answered Z call b w res w'
      \<or> (\<exists>k < n. \<exists>w0. (?F ^^ Suc k) (b, w) (b', w0) \<and> answered Z call b' w0 res w')"
    by (auto simp only: Ex_less_Suc2 relpowp.simps(1) prod.inject)
  moreover have "(?F ^^ Suc k) (b, w) x \<longleftrightarrow> (\<exists>b1 w1. ?F (b, w) (b1, w1) \<and> (?F ^^ k) (b1, w1) x)" for k x
    using relpowp_Suc_D2 [of k ?F "(b, w)" x] relpowp_Suc_I2 [of ?F "(b, w)" _ k x]
    by (metis surj_pair)
  ultimately show ?case unfolding safeConn_loop_Suc_iff Suc.IH by (simp only:) blast
qed simp

text \<open>
  Exits are the other outcome: after \<open>n\<close> failed attempts in a row the process ends.
\<close>

lemma safeConn_loop_exhausted:
  "(failed_attempt Z clock call ^^ n) (b, w) (b', w') \<Longrightarrow>
     safeConn_loop Z clock n call b w = Inl (Fatal ''zk error after retries'')"
proof (induction n arbitrary: b w)
  case (Suc n)
  obtain b1 w1 where f: "failed_attempt Z clock call (b, w) (b1, w1)"
    and r: "(failed_attempt Z clock call ^^ n) (b1, w1) (b', w')"
    using relpowp_Suc_D2 [OF Suc.prems] by auto
  show ?case using f Suc.IH [OF r] by (auto simp: failed_attempt_def Let_def)
qed simp

subsection \<open>Calls of a safe connection\<close>

text \<open>
  C22: A call on a safe connection (\<open>Get\<close>, \<open>Create\<close>, \<open>Set\<close> and the others are this loop around
  the call of the library) returns exactly when, after at most ten failed attempts, each
  followed by a reset of the connection, an attempt on the current connection succeeds or ends
  with an error that is not the connection's; what it returns is the answer of that attempt.
\<close>

theorem safe_call_retries:
  "safeConn_call Z clock call b w = Inr (res, b', w') \<longleftrightarrow>
     (\<exists>k \<le> 10. \<exists>w0. (failed_attempt Z clock call ^^ k) (b, w) (b', w0) \<and> answered Z call b' w0 res w')"
  by (simp only: safeConn_call_def safeConn_loop_answer retryMaxOnOps_def less_Suc_eq_le)

text \<open>The errors that a safe connection returns: no other error reaches its user.\<close>

lemma safe_call_error:
  assumes "zk_errors_ok Z" and "safeConn_call Z clock call b w = Inr ((r, Some e), b', w')"
  shows "e \<in> {ErrNoNode, ErrNodeExists, ErrNotEmpty}"
  using assms unfolding safeConn_call_def safeConn_loop_answer
  by (auto simp: answered_def isConnectionError_def)

subsection \<open>Errors that are taken for connection errors\<close>

text \<open>A connection refuses a \<open>Set\<close>, with an error other than the three that are recognised.\<close>

definition refuses_Set :: "string \<Rightarrow> byte list \<Rightarrow> int32 \<Rightarrow> string \<Rightarrow> ('s, 'w) zk_conn \<Rightarrow> bool" where
  "refuses_Set path value version msg c \<longleftrightarrow>
     (\<forall>w. \<exists>st w'. zk_Set c path value version w = (st, Some (ZkError msg), w'))"

text \<open>Sessions can be built, and on each of them the \<open>Set\<close> is refused.\<close>

definition all_refuse_Set :: "string \<Rightarrow> byte list \<Rightarrow> int32 \<Rightarrow> string \<Rightarrow> ('s, 'w) connBuilder \<Rightarrow> bool" where
  "all_refuse_Set path value version msg b \<longleftrightarrow> builder_inv b
     \<and> (\<forall>c. connection b = Some c \<longrightarrow> refuses_Set path value version msg c)
     \<and> (\<forall>build w. builder b = Some build \<longrightarrow>
          (\<exists>c w'. build w = (c, None, w') \<and> refuses_Set path value version msg c))"

lemma resetConnection_builds:
  assumes "all_refuse_Set path value version msg b"
  shows "\<exists>b' w'. resetConnection clock b w = Inr (b', w') \<and> all_refuse_Set path value version msg b'"
proof -
  obtain build where b: "builder b = Some build"
    using assms by (auto simp: all_refuse_Set_def builder_inv_def)
  let ?w = "case connection b of Some c \<Rightarrow> zk_Close c w | None \<Rightarrow> w"
  obtain c w2 where "build ?w = (c, None, w2)" "refuses_Set path value version msg c"
    using assms b unfolding all_refuse_Set_def by blast
  then show ?thesis using assms b
    by (cases "clock w < createdOn b + time_Second")
      (auto simp: resetConnection_def all_refuse_Set_def builder_inv_def Let_def)
qed

lemma refused_attempts:
  assumes "zk_errors_ok Z" and "all_refuse_Set path value version msg b"
  shows "\<exists>b' w'. (failed_attempt Z clock (\<lambda>c. zk_Set c path value version) ^^ n) (b, w) (b', w')
    \<and> all_refuse_Set path value version msg b'"
proof (induction n)
  case 0
  then show ?case using assms by auto
next
  case (Suc n)
  let ?F = "failed_attempt Z clock (\<lambda>c. zk_Set c path value version)"
  obtain b1 w1 where n: "(?F ^^ n) (b, w) (b1, w1)" and r: "all_refuse_Set path value version msg b1"
    using Suc by auto
  obtain c where c: "safeConnInstance b1 = Some c" "refuses_Set path value version msg c"
    using r by (auto simp: all_refuse_Set_def builder_inv_def)
  obtain st w2 where st: "zk_Set c path value version w1 = (st, Some (ZkError msg), w2)"
    using c(2) unfolding refuses_Set_def by blast
  obtain b' w' where r': "resetConnection clock b1 w2 = Inr (b', w')" "all_refuse_Set path value version msg b'"
    using resetConnection_builds [OF r] by blast
  have "?F (b1, w1) (b', w')"
    using c st r' assms(1) by (auto simp: failed_attempt_def isConnectionError_def)
  then show ?case using n r' by (auto intro: relpowp_Suc_I)
qed

text \<open>
  \<open>isConnectionError\<close> takes every error but three for a broken connection. A \<open>Set\<close> that
  zookeeper refuses on every session, for a stale version or a missing permission, therefore
  ends the process after eleven attempts, although every connection works.
\<close>

lemma refused_set_exits:
  assumes "zk_errors_ok Z" and "all_refuse_Set path value version msg b"
  shows "safeConn_Set Z clock path value version b w = Inl (Fatal ''zk error after retries'')"
proof -
  obtain b' w' where "(failed_attempt Z clock (\<lambda>c. zk_Set c path value version) ^^ Suc retryMaxOnOps)
      (b, w) (b', w')"
    using refused_attempts [OF assms] by blast
  then show ?thesis
    unfolding safeConn_Set_def safeConn_call_def by (rule safeConn_loop_exhausted)
qed

text \<open>A library and a connection on which the statements are evaluated: nodes cannot be read, a
  \<open>Set\<close> meets a newer version; the world is the clock.\<close>

definition demo_zk_conn :: "(unit, int) zk_conn" where
  "demo_zk_conn = \<lparr>zk_Get = (\<lambda>p w. (([], ()), Some ErrNoNode, w + 1)),
     zk_GetW = (\<lambda>p w. (([], (), 0), Some ErrNoNode, w + 1)),
     zk_Children = (\<lambda>p w. (([], ()), Some ErrNoNode, w + 1)),
     zk_ChildrenW = (\<lambda>p w. (([], (), 0), Some ErrNoNode, w + 1)),
     zk_Exists = (\<lambda>p w. ((False, ()), None, w + 1)),
     zk_ExistsW = (\<lambda>p w. ((False, (), 0), None, w + 1)),
     zk_Create = (\<lambda>p v f a w. (p, None, w + 1)),
     zk_Set = (\<lambda>p v n w. ((), Some (ZkError ''version conflict''), w + 1)),
     zk_Delete = (\<lambda>p n w. ((), None, w + 1)),
     zk_GetACL = (\<lambda>p w. (([], ()), None, w + 1)),
     zk_SetACL = (\<lambda>p a n w. ((), None, w + 1)),
     zk_Close = (\<lambda>w. w), zk_Seq2Str = (\<lambda>n. [])\<rparr>"

definition demo_helper :: "(unit, int) zk_helper" where
  "demo_helper = \<lparr>ZkErrorEqual = (=), NodeExists = (\<lambda>c p w. (False, None, w)),
     DeleteRecursive = (\<lambda>c p v w. ((), None, w)),
     helper_CreateRecursive = (\<lambda>c p v f a w. (p, None, w)),
     ConnectToZk = (\<lambda>a t w. (demo_zk_conn, Some (ZkError ''no server''), w)),
     DefaultDirACLs = [], DefaultFileACLs = [], PERM_DIRECTORY = 31, MagicPrefix = ''zk'', FlagEphemeral = 1\<rparr>"

definition demo_builder :: "(unit, int) connBuilder" where
  "demo_builder = \<lparr>connection = Some demo_zk_conn, builder = Some (\<lambda>w. (demo_zk_conn, None, w)),
     createdOn = 0, safeConnInstance = Some demo_zk_conn, unsafeConnInstance = Some demo_zk_conn\<rparr>"

lemma demo_helper_ok [simp]: "zk_errors_ok demo_helper"
  by (simp add: zk_errors_ok_def demo_helper_def)

lemma demo_refuses: "all_refuse_Set ''/zk/a'' [1] 3 ''version conflict'' demo_builder"
  by (simp add: all_refuse_Set_def builder_inv_def demo_builder_def refuses_Set_def demo_zk_conn_def)

lemma refused_set_exits_witness:
  "safeConn_Set demo_helper (\<lambda>w. w) ''/zk/a'' [1] 3 demo_builder 5 = Inl (Fatal ''zk error after retries'')
   \<and> safeConn_Get demo_helper (\<lambda>w. w) ''/zk/a'' demo_builder 5 =
       Inr ((([], ()), Some ErrNoNode), demo_builder, 6)"
  using refused_set_exits [OF demo_helper_ok demo_refuses, of "\<lambda>w. w" 5]
  by (simp add: safeConn_Get_def safeConn_call_def demo_builder_def demo_zk_conn_def
      isConnectionError_def Let_def)

end
