(* ===== verification/Go_Path.thy ===== *)
theory Go_Path
  imports Go_Prelude
begin

text \<open>
  What the program uses of Go's \<open>strings\<close> and \<open>path\<close> packages on slash-separated paths:
  \<open>strings.Split\<close> and \<open>strings.Join\<close> with a one-character separator, \<open>path.Split\<close>,
  \<open>path.Clean\<close>, \<open>path.Dir\<close> and \<open>path.Join\<close>. \<open>zpath\<close> is the path of a list of names, as
  zookeeper writes it; the lemmas give \<open>Split\<close> and \<open>Dir\<close> on such paths, and the fact that
  \<open>Dir\<close> loses a slash, on which the recursion over parent directories rests.
\<close>

fun split_on :: "char \<Rightarrow> string \<Rightarrow> string list" where
  "split_on c [] = [[]]"
| "split_on c (x # xs) = (if x = c then [] # split_on c xs
     else (x # hd (split_on c xs)) # tl (split_on c xs))"

fun join_with :: "string \<Rightarrow> string list \<Rightarrow> string" where
  "join_with sep [] = []"
| "join_with sep [s] = s"
| "join_with sep (s # t # ss) = s @ sep @ join_with sep (t # ss)"

text \<open>\<open>path.Split\<close>: the part up to the last slash, inclusive, and the rest.\<close>

definition path_Split :: "string \<Rightarrow> string \<times> string" where
  "path_Split s = (let f = rev (takeWhile (\<lambda>c. c \<noteq> CHR ''/'') (rev s))
     in (take (length s - length f) s, f))"

text \<open>\<open>path.Clean\<close> by elements: \<open>st\<close> is the stack of elements kept so far, last one first.\<close>

fun clean_elems :: "bool \<Rightarrow> string list \<Rightarrow> string list \<Rightarrow> string list" where
  "clean_elems rooted st [] = rev st"
| "clean_elems rooted st (e # es) =
     (if e = [] \<or> e = ''.'' then clean_elems rooted st es
      else if e = ''..'' then
        (case st of
           [] \<Rightarrow> clean_elems rooted (if rooted then [] else [''..'']) es
         | t # ts \<Rightarrow> if t = ''..'' then clean_elems rooted (''..'' # st) es
             else clean_elems rooted ts es)
      else clean_elems rooted (e # st) es)"

definition path_Clean :: "string \<Rightarrow> string" where
  "path_Clean s = (let rooted = (take 1 s = ''/'');
     body = join_with ''/'' (clean_elems rooted [] (split_on (CHR ''/'') s)) in
     if rooted then ''/'' @ body else if body = [] then ''.'' else body)"

definition path_Dir :: "string \<Rightarrow> string" where
  "path_Dir s = path_Clean (fst (path_Split s))"

definition path_Join :: "string list \<Rightarrow> string" where
  "path_Join es = (case filter (\<lambda>e. e \<noteq> []) es of
     [] \<Rightarrow> [] | fs \<Rightarrow> path_Clean (join_with ''/'' fs))"

subsection \<open>Splitting\<close>

lemma split_on_not_Nil [simp]: "split_on c s \<noteq> []"
  by (cases s) auto

lemma length_split_on: "length (split_on c s) = Suc (count_list s c)"
  by (induction s) auto

lemma split_on_same: "c \<notin> set s \<Longrightarrow> split_on c s = [s]"
  by (induction s) auto

lemma split_on_append: "split_on c (s @ c # t) = split_on c s @ split_on c t"
  by (induction s) auto

lemma split_on_hd_tl: "hd (split_on c s) # tl (split_on c s) = split_on c s"
  by simp

lemma split_on_elem: "e \<in> set (split_on c s) \<Longrightarrow> c \<notin> set e"
proof (induction s arbitrary: e)
  case (Cons x xs)
  have "hd (split_on c xs) \<in> set (split_on c xs)" by simp
  then have "c \<notin> set (hd (split_on c xs))" by (rule Cons.IH)
  moreover have "e \<in> set (tl (split_on c xs)) \<Longrightarrow> c \<notin> set e"
    using Cons.IH list.set_sel(2) [of "split_on c xs"] by auto
  ultimately show ?case using Cons.prems Cons.IH by (auto split: if_splits)
qed simp

subsection \<open>Paths of names\<close>

definition good_name :: "string \<Rightarrow> bool" where
  "good_name s \<longleftrightarrow> s \<noteq> [] \<and> CHR ''/'' \<notin> set s \<and> s \<noteq> ''.'' \<and> s \<noteq> ''..''"

definition zpath :: "string list \<Rightarrow> string" where
  "zpath ns = concat (map (\<lambda>n. CHR ''/'' # n) ns)"

lemma zpath_simps [simp]:
  "zpath [] = []" "zpath (n # ns) = CHR ''/'' # n @ zpath ns" "zpath (ns @ ms) = zpath ns @ zpath ms"
  by (simp_all add: zpath_def)

lemma split_on_zpath_tail:
  "CHR ''/'' \<notin> set n \<Longrightarrow> \<forall>m \<in> set ns. CHR ''/'' \<notin> set m \<Longrightarrow>
     split_on (CHR ''/'') (n @ zpath ns) = n # ns"
proof (induction ns arbitrary: n)
  case Nil
  then show ?case by (simp add: split_on_same)
next
  case (Cons m ns)
  then show ?case using split_on_append [of "CHR ''/''" n "m @ zpath ns"] by (simp add: split_on_same)
qed

lemma split_on_zpath:
  "\<forall>m \<in> set ns. CHR ''/'' \<notin> set m \<Longrightarrow> split_on (CHR ''/'') (zpath ns) = [] # ns"
  using split_on_zpath_tail [of "[]" ns] by simp

lemma join_zpath: "ns \<noteq> [] \<Longrightarrow> ''/'' @ join_with ''/'' ns = zpath ns"
  by (induction ns rule: induct_list012) auto

lemma clean_elems_good:
  "\<forall>n \<in> set ns. good_name n \<Longrightarrow> clean_elems rooted st (ns @ es) = clean_elems rooted (rev ns @ st) es"
  by (induction ns arbitrary: st) (auto simp: good_name_def)

lemma path_Split_slash:
  "CHR ''/'' \<notin> set n \<Longrightarrow> path_Split (d @ CHR ''/'' # n) = (d @ ''/'', n)"
proof -
  assume n: "CHR ''/'' \<notin> set n"
  then have "takeWhile (\<lambda>c. c \<noteq> CHR ''/'') (rev n @ CHR ''/'' # rev d) = rev n"
    by (subst takeWhile_append2) auto
  then show ?thesis by (simp add: path_Split_def Let_def)
qed

text \<open>The parent directory of a path of names is the path without the last name.\<close>

lemma path_Dir_zpath:
  assumes "\<forall>n \<in> set (ns @ [x]). good_name n" and "ns \<noteq> []"
  shows "path_Dir (zpath (ns @ [x])) = zpath ns"
proof -
  have s: "path_Split (zpath (ns @ [x])) = (zpath ns @ ''/'', x)"
    using path_Split_slash [of x "zpath ns"] assms by (simp add: good_name_def)
  have "split_on (CHR ''/'') (zpath ns @ CHR ''/'' # []) = ([] # ns) @ [[]]"
    using assms split_on_zpath [of ns] by (simp only: split_on_append) (auto simp: good_name_def)
  moreover have "take 1 (zpath ns @ ''/'') = ''/''" using assms by (cases ns) auto
  moreover have "clean_elems True [] (([] # ns) @ [[]]) = ns"
    using clean_elems_good [of ns True "[]" "[[]]"] assms by simp
  ultimately have "path_Clean (zpath ns @ ''/'') = ''/'' @ join_with ''/'' ns"
    by (simp add: path_Clean_def Let_def)
  then show ?thesis using s join_zpath [OF assms(2)] by (simp add: path_Dir_def)
qed

subsection \<open>The parent has fewer slashes\<close>

lemma count_join: "\<forall>e \<in> set es. c \<notin> set e \<Longrightarrow> count_list (join_with [c] es) c = length es - 1"
  by (induction es rule: induct_list012) auto

lemma clean_elems_set: "set (clean_elems rooted st es) \<subseteq> set st \<union> set es \<union> {''..''}"
  by (induction rooted st es rule: clean_elems.induct) (auto split: list.splits if_splits)

lemma clean_elems_length:
  "length (clean_elems rooted st es) \<le> length st + length (filter (\<lambda>e. e \<noteq> []) es)"
  by (induction rooted st es rule: clean_elems.induct) (auto split: list.splits if_splits)

lemma path_Clean_slashes:
  assumes "path_Clean s \<noteq> ''/''"
  shows "count_list (path_Clean s) (CHR ''/'') \<le> length (filter (\<lambda>e. e \<noteq> []) (split_on (CHR ''/'') s))
     - (if take 1 s = ''/'' then 0 else 1)"
proof -
  let ?r = "take 1 s = ''/''" and ?es = "split_on (CHR ''/'') s"
  let ?cs = "clean_elems ?r [] ?es"
  have "\<forall>e \<in> set ?cs. CHR ''/'' \<notin> set e"
    using clean_elems_set [of ?r "[]" ?es] split_on_elem by fastforce
  then have c: "count_list (join_with ''/'' ?cs) (CHR ''/'') = length ?cs - 1" by (rule count_join)
  have l: "length ?cs \<le> length (filter (\<lambda>e. e \<noteq> []) ?es)"
    using clean_elems_length [of ?r "[]" ?es] by simp
  show ?thesis
  proof (cases ?r)
    case True
    then have "?cs \<noteq> []" using assms by (auto simp: path_Clean_def)
    then show ?thesis using True c l by (auto simp: path_Clean_def Let_def count_list_append Suc_le_eq)
  next
    case False
    then show ?thesis using c l by (auto simp: path_Clean_def Let_def)
  qed
qed

lemma path_Dir_slashes:
  assumes "CHR ''/'' \<in> set s"
  shows "path_Dir s = ''/'' \<or> count_list (path_Dir s) (CHR ''/'') < count_list s (CHR ''/'')"
proof (cases "path_Dir s = ''/''")
  case False
  obtain d n where s: "s = d @ CHR ''/'' # n" and n: "CHR ''/'' \<notin> set n"
    using split_list_last [OF assms] by blast
  then have dir: "path_Dir s = path_Clean (d @ ''/'')"
    by (simp add: path_Dir_def path_Split_slash)
  let ?es = "split_on (CHR ''/'') (d @ ''/'')"
  have es: "?es = split_on (CHR ''/'') d @ [[]]" using split_on_append [of "CHR ''/''" d "[]"] by simp
  have "length (filter (\<lambda>e. e \<noteq> []) (split_on (CHR ''/'') d))
      < Suc (count_list d (CHR ''/'')) + (if take 1 (d @ ''/'') = ''/'' then 0 else 1)"
  proof (cases "take 1 (d @ ''/'') = ''/''")
    case True
    then have "hd (split_on (CHR ''/'') d) = []" by (cases d) auto
    then have "filter (\<lambda>e. e \<noteq> []) (split_on (CHR ''/'') d) = filter (\<lambda>e. e \<noteq> []) (tl (split_on (CHR ''/'') d))"
      by (cases "split_on (CHR ''/'') d") auto
    then have "length (filter (\<lambda>e. e \<noteq> []) (split_on (CHR ''/'') d)) \<le> length (tl (split_on (CHR ''/'') d))"
      by (simp del: length_tl)
    then show ?thesis by (simp add: length_split_on)
  next
    case False
    then show ?thesis using length_filter_le [of "\<lambda>e. e \<noteq> []" "split_on (CHR ''/'') d"]
      by (simp add: length_split_on)
  qed
  moreover have "count_list (path_Dir s) (CHR ''/'') \<le> length (filter (\<lambda>e. e \<noteq> []) ?es)
      - (if take 1 (d @ ''/'') = ''/'' then 0 else 1)"
    using path_Clean_slashes [of "d @ ''/''"] False dir by simp
  ultimately show ?thesis using es s by (auto simp: count_list_append split: if_splits)
qed simp

end
