(* ===== verification/Go_Json.thy ===== *)
theory Go_Json
  imports Go_Prelude
begin

text \<open>
  What the program uses of Go's \<open>encoding/json\<close>: \<open>json.Marshal\<close> of a struct of strings and
  \<open>json.Unmarshal\<close> into one. Strings are byte sequences; \<open>Marshal\<close> escapes the bytes that
  JSON or HTML reserve and replaces bytes that are not UTF-8 by U+FFFD, \<open>Unmarshal\<close> checks
  the whole document and then assigns the fields it knows. The theory shows that valid UTF-8
  strings survive the way through both.
\<close>

definition ord :: "char \<Rightarrow> nat" where
  "ord c = of_char c"

lemma ord_less [simp]: "ord c < 256"
  by (simp add: ord_def)

lemma ord_char_of [simp]: "n < 256 \<Longrightarrow> ord (char_of n) = n"
  by (simp add: ord_def)

lemma char_of_ord [simp]: "char_of (ord c) = c"
  by (simp add: ord_def)

lemma ord_eq_iff: "ord c = ord d \<longleftrightarrow> c = d"
  by (metis char_of_ord)

subsection \<open>UTF-8\<close>

definition byte_in :: "nat \<Rightarrow> nat \<Rightarrow> string \<Rightarrow> nat \<Rightarrow> bool" where
  "byte_in lo hi s i \<longleftrightarrow> i < length s \<and> lo \<le> ord (s ! i) \<and> ord (s ! i) \<le> hi"

text \<open>The number of bytes of the rune at the head of a string, 0 when they are not UTF-8.\<close>

fun utf8_len :: "string \<Rightarrow> nat" where
  "utf8_len [] = 0"
| "utf8_len (a # s) = (let x = ord a in
     if x < 0x80 then 1
     else if 0xC2 \<le> x \<and> x \<le> 0xDF then (if byte_in 0x80 0xBF s 0 then 2 else 0)
     else if 0xE0 \<le> x \<and> x \<le> 0xEF then
       (if byte_in (if x = 0xE0 then 0xA0 else 0x80) (if x = 0xED then 0x9F else 0xBF) s 0
           \<and> byte_in 0x80 0xBF s 1 then 3 else 0)
     else if 0xF0 \<le> x \<and> x \<le> 0xF4 then
       (if byte_in (if x = 0xF0 then 0x90 else 0x80) (if x = 0xF4 then 0x8F else 0xBF) s 0
           \<and> byte_in 0x80 0xBF s 1 \<and> byte_in 0x80 0xBF s 2 then 4 else 0)
     else 0)"

fun utf8_valid :: "string \<Rightarrow> bool" where
  "utf8_valid [] \<longleftrightarrow> True"
| "utf8_valid (c # s) \<longleftrightarrow> utf8_len (c # s) \<noteq> 0 \<and> utf8_valid (drop (utf8_len (c # s) - 1) s)"

text \<open>\<open>utf8.EncodeRune\<close>; surrogates and numbers beyond Unicode become U+FFFD.\<close>

definition utf8_encode :: "nat \<Rightarrow> string" where
  "utf8_encode r =
     (if r < 0x80 then [char_of r]
      else if r < 0x800 then [char_of (0xC0 + r div 64), char_of (0x80 + r mod 64)]
      else if r > 0x10FFFF \<or> 0xD800 \<le> r \<and> r \<le> 0xDFFF then [char_of (0xEF::nat), char_of (0xBF::nat), char_of (0xBD::nat)]
      else if r < 0x10000 then
        [char_of (0xE0 + r div 4096), char_of (0x80 + r div 64 mod 64), char_of (0x80 + r mod 64)]
      else
        [char_of (0xF0 + r div 262144), char_of (0x80 + r div 4096 mod 64),
         char_of (0x80 + r div 64 mod 64), char_of (0x80 + r mod 64)])"

subsection \<open>Writing strings\<close>

definition hex_digit :: "nat \<Rightarrow> char" where
  "hex_digit n = char_of (if n < 10 then 48 + n else 87 + n)"

definition html_safe :: "char \<Rightarrow> bool" where
  "html_safe c \<longleftrightarrow> 0x20 \<le> ord c \<and> ord c < 0x80 \<and> c \<notin> {CHR 0x22, CHR 0x5C, CHR ''<'', CHR ''>'', CHR ''&''}"

definition quote_byte :: "char \<Rightarrow> string" where
  "quote_byte c =
     (if html_safe c then [c]
      else if c = CHR 0x22 \<or> c = CHR 0x5C then [CHR 0x5C, c]
      else if c = CHR 0x0A then [CHR 0x5C, CHR ''n'']
      else if c = CHR 0x0D then [CHR 0x5C, CHR ''r'']
      else if c = CHR 0x09 then [CHR 0x5C, CHR ''t'']
      else [CHR 0x5C, CHR ''u'', CHR ''0'', CHR ''0'', hex_digit (ord c div 16), hex_digit (ord c mod 16)])"

text \<open>U+2028 and U+2029, which JavaScript takes for line ends.\<close>

definition line_sep :: "string \<Rightarrow> bool" where
  "line_sep s \<longleftrightarrow> take 2 s = [char_of (0xE2::nat), char_of (0x80::nat)] \<and> byte_in 0xA8 0xA9 s 2"

fun quote_body :: "string \<Rightarrow> string" where
  "quote_body [] = []"
| "quote_body (c # s) =
     (if ord c < 0x80 then quote_byte c @ quote_body s
      else if utf8_len (c # s) = 0 then [CHR 0x5C] @ ''ufffd'' @ quote_body s
      else if line_sep (c # s) then
        [CHR 0x5C] @ ''u202'' @ [hex_digit (ord (s ! 1) mod 16)] @ quote_body (drop (utf8_len (c # s) - 1) s)
      else take (utf8_len (c # s)) (c # s) @ quote_body (drop (utf8_len (c # s) - 1) s))"

definition quote :: "string \<Rightarrow> string" where
  "quote s = [CHR 0x22] @ quote_body s @ [CHR 0x22]"

text \<open>\<open>json.Marshal\<close> of a struct whose fields are strings: tags and values in the declared order.\<close>

fun marshal_fields :: "(string \<times> string) list \<Rightarrow> string" where
  "marshal_fields [] = []"
| "marshal_fields [(k, v)] = quote k @ '':'' @ quote v"
| "marshal_fields ((k, v) # f # fs) = quote k @ '':'' @ quote v @ '','' @ marshal_fields (f # fs)"

definition json_Marshal :: "(string \<times> string) list \<Rightarrow> string" where
  "json_Marshal fs = ''{'' @ marshal_fields fs @ ''}''"

subsection \<open>Reading strings\<close>

definition hex_value :: "char \<Rightarrow> nat option" where
  "hex_value c = (let x = ord c in
     if 48 \<le> x \<and> x \<le> 57 then Some (x - 48)
     else if 97 \<le> x \<and> x \<le> 102 then Some (x - 87)
     else if 65 \<le> x \<and> x \<le> 70 then Some (x - 55) else None)"

fun hex4 :: "string \<Rightarrow> nat option" where
  "hex4 (a # b # c # d # s) =
     (case (hex_value a, hex_value b, hex_value c, hex_value d) of
        (Some w, Some x, Some y, Some z) \<Rightarrow> Some (w * 4096 + x * 256 + y * 16 + z)
      | _ \<Rightarrow> None)"
| "hex4 _ = None"

definition simple_escape :: "char \<Rightarrow> string option" where
  "simple_escape e =
     (if e = CHR 0x22 \<or> e = CHR 0x5C \<or> e = CHR ''/'' then Some [e]
      else if e = CHR ''b'' then Some [CHR 0x08]
      else if e = CHR ''f'' then Some [CHR 0x0C]
      else if e = CHR ''n'' then Some [CHR 0x0A]
      else if e = CHR ''r'' then Some [CHR 0x0D]
      else if e = CHR ''t'' then Some [CHR 0x09] else None)"

definition prepend :: "string \<Rightarrow> (string \<times> 'a) option \<Rightarrow> (string \<times> 'a) option" where
  "prepend p = map_option (apfst ((@) p))"

lemma prepend_simps [simp]: "prepend p (Some (s, r)) = Some (p @ s, r)" "prepend p None = None"
  by (simp_all add: prepend_def)

text \<open>A second \<open>\u\<close> escape after a surrogate, as the low half of a pair.\<close>

definition low_half :: "string \<Rightarrow> nat option" where
  "low_half s = (if take 2 s = [CHR 0x5C, CHR ''u''] then hex4 (drop 2 s) else None)"

text \<open>The string literal whose opening quote has been read, and what follows its closing quote.\<close>

fun unquote :: "string \<Rightarrow> (string \<times> string) option" where
  "unquote [] = None"
| "unquote (c # s) =
     (if c = CHR 0x22 then Some ([], s)
      else if c = CHR 0x5C then
        (case s of
           [] \<Rightarrow> None
         | e # t \<Rightarrow>
             (case simple_escape e of
                Some x \<Rightarrow> prepend x (unquote t)
              | None \<Rightarrow>
                  if e \<noteq> CHR ''u'' then None
                  else (case hex4 t of
                          None \<Rightarrow> None
                        | Some r \<Rightarrow>
                            if 0xD800 \<le> r \<and> r < 0xE000 then
                              (case low_half (drop 4 t) of
                                 Some r2 \<Rightarrow>
                                   if r < 0xDC00 \<and> 0xDC00 \<le> r2 \<and> r2 < 0xE000
                                   then prepend (utf8_encode (0x10000 + (r - 0xD800) * 0x400 + (r2 - 0xDC00)))
                                          (unquote (drop 10 t))
                                   else prepend (utf8_encode 0xFFFD) (unquote (drop 4 t))
                               | None \<Rightarrow> prepend (utf8_encode 0xFFFD) (unquote (drop 4 t)))
                            else prepend (utf8_encode r) (unquote (drop 4 t)))))
      else if ord c < 0x20 then None
      else if ord c < 0x80 then prepend [c] (unquote s)
      else if utf8_len (c # s) = 0 then prepend (utf8_encode 0xFFFD) (unquote s)
      else prepend (take (utf8_len (c # s)) (c # s)) (unquote (drop (utf8_len (c # s) - 1) s)))"

declare unquote.simps [simp del] utf8_len.simps [simp del]

subsection \<open>Strings survive\<close>

lemma hex_value_digit [simp]: "n < 16 \<Longrightarrow> hex_value (hex_digit n) = Some n"
  by (auto simp: hex_value_def hex_digit_def Let_def)

lemma ord_quotes [simp]: "ord (CHR 0x22) = 0x22" "ord (CHR 0x5C) = 0x5C"
  by (simp_all add: ord_def)

lemma unquote_safe: "html_safe c \<Longrightarrow> unquote (c # t) = prepend [c] (unquote t)"
  by (subst unquote.simps) (auto simp: html_safe_def)

lemma unquote_escape:
  "simple_escape e = Some x \<Longrightarrow> unquote (CHR 0x5C # e # t) = prepend x (unquote t)"
  by (subst unquote.simps) simp

lemma unquote_u:
  assumes "hex4 (a # b # d # e # t) = Some r" and "\<not> (0xD800 \<le> r \<and> r < 0xE000)"
  shows "unquote (CHR 0x5C # CHR ''u'' # a # b # d # e # t) = prepend (utf8_encode r) (unquote t)"
proof -
  have "simple_escape (CHR ''u'') = None" by (simp add: simple_escape_def)
  then show ?thesis using assms by (subst unquote.simps) auto
qed

lemma hex_value_0 [simp]: "hex_value (CHR ''0'') = Some 0" "hex_value (CHR ''2'') = Some 2"
  by (simp_all add: hex_value_def ord_def)

lemma unquote_quote_byte:
  assumes "ord c < 0x80"
  shows "unquote (quote_byte c @ t) = prepend [c] (unquote t)"
proof -
  consider "html_safe c" | "c = CHR 0x22 \<or> c = CHR 0x5C" | "c = CHR 0x0A" | "c = CHR 0x0D" | "c = CHR 0x09"
    | "\<not> html_safe c" "c \<notin> {CHR 0x22, CHR 0x5C, CHR 0x0A, CHR 0x0D, CHR 0x09}" by auto
  then show ?thesis
  proof cases
    case 6
    have "hex4 (CHR ''0'' # CHR ''0'' # hex_digit (ord c div 16) # hex_digit (ord c mod 16) # t) = Some (ord c)"
      using assms by simp
    moreover have "utf8_encode (ord c) = [c]" using assms by (simp add: utf8_encode_def)
    ultimately show ?thesis using 6 assms by (simp add: quote_byte_def unquote_u)
  qed (auto simp: quote_byte_def unquote_safe unquote_escape simple_escape_def html_safe_def ord_def)
qed

text \<open>The length of a rune depends on its own bytes.\<close>

lemma byte_in_append: "byte_in lo hi s i \<Longrightarrow> i < n \<Longrightarrow> byte_in lo hi (take n s @ t) i"
  by (auto simp: byte_in_def nth_append)

lemma utf8_len_cases:
  assumes "utf8_len (c # s) = n" and "n \<noteq> 0"
  shows "n \<le> Suc (length s)" and "utf8_len (take n (c # s) @ t) = n"
  using assms
  by (auto simp: utf8_len.simps Let_def byte_in_append take_Cons' split: if_splits)
     (auto simp: byte_in_def Suc_le_eq)

lemma unquote_rune:
  assumes "0x80 \<le> ord c" and "utf8_len (c # s) \<noteq> 0"
  shows "unquote (take (utf8_len (c # s)) (c # s) @ t) = prepend (take (utf8_len (c # s)) (c # s)) (unquote t)"
proof -
  let ?n = "utf8_len (c # s)"
  have n: "?n \<le> Suc (length s)" "utf8_len (take ?n (c # s) @ t) = ?n"
    using utf8_len_cases [OF refl assms(2)] by auto
  obtain m where m: "?n = Suc m" using assms(2) by (cases ?n) auto
  then have split: "take ?n (c # s) @ t = c # (take m s @ t)" by simp
  then have "utf8_len (c # (take m s @ t)) = Suc m" using n m by metis
  moreover have "c \<noteq> CHR 0x22" "c \<noteq> CHR 0x5C" using assms(1) by auto
  ultimately have "unquote (c # (take m s @ t)) = prepend (c # take m s) (unquote t)"
    using assms(1) n(1) m by (subst unquote.simps) (auto simp: min_def)
  then show ?thesis using split m by simp
qed

lemma line_sep_bytes:
  assumes "line_sep (c # s)"
  shows "utf8_len (c # s) = 3"
    and "utf8_encode (0x2020 + ord (s ! 1) mod 16) = take 3 (c # s)"
proof -
  obtain d e r where s: "s = d # e # r" using assms
    by (cases s rule: remdups_adj.cases) (auto simp: line_sep_def byte_in_def)
  then have v: "c = char_of (0xE2::nat)" "d = char_of (0x80::nat)" and e: "ord e = 0xA8 \<or> ord e = 0xA9"
    using assms by (auto simp: line_sep_def byte_in_def)
  then show "utf8_len (c # s) = 3" using s by (auto simp: utf8_len.simps byte_in_def)
  have "e = char_of (168::nat) \<or> e = char_of (169::nat)" using e by (metis char_of_ord)
  then show "utf8_encode (0x2020 + ord (s ! 1) mod 16) = take 3 (c # s)"
    using e s v by (auto simp: utf8_encode_def)
qed

lemma unquote_quote_body:
  "utf8_valid s \<Longrightarrow> unquote (quote_body s @ CHR 0x22 # rest) = Some (s, rest)"
proof (induction s rule: quote_body.induct)
  case 1
  then show ?case by (simp add: unquote.simps)
next
  case (2 c s)
  let ?n = "utf8_len (c # s)"
  let ?t = "quote_body (drop (?n - 1) s) @ CHR 0x22 # rest"
  have n: "?n \<noteq> 0" and v: "utf8_valid (drop (?n - 1) s)" using 2(5) by auto
  have whole: "take ?n (c # s) @ drop (?n - 1) s = c # s"
    using n by (cases ?n) auto
  consider "ord c < 0x80" | "0x80 \<le> ord c" "line_sep (c # s)" | "0x80 \<le> ord c" "\<not> line_sep (c # s)"
    by fastforce
  then show ?case
  proof cases
    case 1
    then have one: "?n = 1" by (simp add: utf8_len.simps)
    then have "unquote (quote_body s @ CHR 0x22 # rest) = Some (s, rest)"
      using 2(1) [OF 1] v by simp
    then show ?thesis using 1 by (simp add: unquote_quote_byte)
  next
    case a: 2
    have "unquote ?t = Some (drop (?n - 1) s, rest)" using 2(3) [OF _ n] a v by simp
    moreover have "hex4 (CHR ''2'' # CHR ''0'' # CHR ''2'' # hex_digit (ord (s ! 1) mod 16) # ?t)
        = Some (0x2020 + ord (s ! 1) mod 16)" by simp
    ultimately show ?thesis using a n line_sep_bytes [OF a(2)] whole by (simp add: unquote_u)
  next
    case a: 3
    have "unquote ?t = Some (drop (?n - 1) s, rest)" using 2(4) [OF _ n] a v by simp
    then show ?thesis using a n unquote_rune [of c s ?t] whole by simp
  qed
qed

lemma unquote_quote:
  "utf8_valid s \<Longrightarrow> quote s @ rest = CHR 0x22 # q \<Longrightarrow> unquote q = Some (s, rest)"
  using unquote_quote_body [of s rest] by (auto simp: quote_def)

subsection \<open>Documents\<close>

datatype json = JNull | JBool bool | JNum string | JStr string | JArr "json list" | JObj "(string \<times> json) list"

fun skip_ws :: "string \<Rightarrow> string" where
  "skip_ws [] = []"
| "skip_ws (c # s) = (if c \<in> {CHR '' '', CHR 0x09, CHR 0x0A, CHR 0x0D} then skip_ws s else c # s)"

lemma length_skip_ws [simp]: "length (skip_ws s) \<le> length s"
  by (induction s) auto

lemma skip_ws_Cons: "skip_ws s = c # t \<Longrightarrow> length t < length s"
  using length_skip_ws [of s] by simp

definition is_digit :: "char \<Rightarrow> bool" where
  "is_digit c \<longleftrightarrow> 48 \<le> ord c \<and> ord c \<le> 57"

text \<open>Digits that must be there; an optional fraction; an optional exponent.\<close>

definition digits1 :: "string \<Rightarrow> (string \<times> string) option" where
  "digits1 s = (case takeWhile is_digit s of [] \<Rightarrow> None | ds \<Rightarrow> Some (ds, dropWhile is_digit s))"

definition int_part :: "string \<Rightarrow> (string \<times> string) option" where
  "int_part s = (case s of CHR ''0'' # t \<Rightarrow> Some (''0'', t) | _ \<Rightarrow> digits1 s)"

definition frac_part :: "string \<Rightarrow> (string \<times> string) option" where
  "frac_part s = (case s of CHR ''.'' # t \<Rightarrow> prepend ''.'' (digits1 t) | _ \<Rightarrow> Some ([], s))"

definition exp_part :: "string \<Rightarrow> (string \<times> string) option" where
  "exp_part s = (case s of
     [] \<Rightarrow> Some ([], s)
   | c # t \<Rightarrow>
       if c = CHR ''e'' \<or> c = CHR ''E'' then
         (case t of
            [] \<Rightarrow> None
          | d # u \<Rightarrow> if d = CHR ''+'' \<or> d = CHR ''-'' then prepend [c, d] (digits1 u) else prepend [c] (digits1 t))
       else Some ([], s))"

definition parse_number :: "string \<Rightarrow> (string \<times> string) option" where
  "parse_number s =
     (let (sign, s0) = (case s of CHR ''-'' # t \<Rightarrow> (''-'', t) | _ \<Rightarrow> ([], s)) in
      case int_part s0 of
        None \<Rightarrow> None
      | Some (i, s1) \<Rightarrow>
          (case frac_part s1 of
             None \<Rightarrow> None
           | Some (f, s2) \<Rightarrow> prepend (sign @ i @ f) (exp_part s2)))"

definition parse_literal :: "string \<Rightarrow> (json \<times> string) option" where
  "parse_literal s =
     (if take 4 s = ''null'' then Some (JNull, drop 4 s)
      else if take 4 s = ''true'' then Some (JBool True, drop 4 s)
      else if take 5 s = ''false'' then Some (JBool False, drop 5 s)
      else map_option (apfst JNum) (parse_number s))"

text \<open>The rest of the text after the next character, if that is \<open>c\<close>.\<close>

definition next_is :: "char \<Rightarrow> string \<Rightarrow> string option" where
  "next_is c s = (case skip_ws s of [] \<Rightarrow> None | d # t \<Rightarrow> if d = c then Some t else None)"

lemma next_is_shorter: "next_is c s = Some t \<Longrightarrow> length t < length s"
  by (auto simp: next_is_def split: list.splits if_splits dest: skip_ws_Cons)

text \<open>
  A value, the elements of an array after its bracket, the members of an object after its
  brace. The test that the rest is shorter always succeeds; it makes the recursion visibly end.
\<close>

function parse_value :: "string \<Rightarrow> (json \<times> string) option"
  and parse_elems :: "string \<Rightarrow> (json list \<times> string) option"
  and parse_members :: "string \<Rightarrow> ((string \<times> json) list \<times> string) option" where
  "parse_value s =
     (case skip_ws s of
        [] \<Rightarrow> None
      | c # t \<Rightarrow>
          if c = CHR 0x22 then map_option (apfst JStr) (unquote t)
          else if c = CHR ''['' then
            (case next_is (CHR '']'') t of
               Some r \<Rightarrow> Some (JArr [], r)
             | None \<Rightarrow> map_option (apfst JArr) (parse_elems t))
          else if c = CHR ''{'' then
            (case next_is (CHR ''}'') t of
               Some r \<Rightarrow> Some (JObj [], r)
             | None \<Rightarrow> map_option (apfst JObj) (parse_members t))
          else parse_literal (c # t))"
| "parse_elems s =
     (case parse_value s of
        None \<Rightarrow> None
      | Some (v, r) \<Rightarrow>
          (case next_is (CHR '','') r of
             Some t \<Rightarrow> if length t < length s then map_option (apfst ((#) v)) (parse_elems t) else None
           | None \<Rightarrow> map_option (Pair [v]) (next_is (CHR '']'') r)))"
| "parse_members s =
     (case next_is (CHR 0x22) s of
        None \<Rightarrow> None
      | Some k \<Rightarrow>
          (case unquote k of
             None \<Rightarrow> None
           | Some (key, r) \<Rightarrow>
               (case next_is (CHR '':'') r of
                  None \<Rightarrow> None
                | Some t \<Rightarrow>
                    if length t < length s then
                      (case parse_value t of
                         None \<Rightarrow> None
                       | Some (v, u) \<Rightarrow>
                           (case next_is (CHR '','') u of
                              Some t' \<Rightarrow>
                                if length t' < length s
                                then map_option (apfst ((#) (key, v))) (parse_members t') else None
                            | None \<Rightarrow> map_option (Pair [(key, v)]) (next_is (CHR ''}'') u)))
                    else None)))"
  by pat_completeness auto
termination
  by (relation "measure (\<lambda>x. case x of Inl s \<Rightarrow> 2 * length s
       | Inr (Inl s) \<Rightarrow> 2 * length s + 1 | Inr (Inr s) \<Rightarrow> 2 * length s + 1)")
     (auto dest!: skip_ws_Cons)

declare parse_value.simps [simp del] parse_elems.simps [simp del] parse_members.simps [simp del]

definition parse_document :: "string \<Rightarrow> json option" where
  "parse_document s =
     (case parse_value s of Some (v, r) \<Rightarrow> if skip_ws r = [] then Some v else None | None \<Rightarrow> None)"

text \<open>
  Names of fields are compared exactly, and failing that up to case; U+017F folds to s and
  U+212A to k.
\<close>

fun fold_key :: "string \<Rightarrow> string" where
  "fold_key [] = []"
| "fold_key (c # s) =
     (if ord c = 0xC5 \<and> s \<noteq> [] \<and> ord (hd s) = 0xBF then CHR ''s'' # fold_key (tl s)
      else if ord c = 0xE2 \<and> 2 \<le> length s \<and> ord (s ! 0) = 0x84 \<and> ord (s ! 1) = 0xAA then CHR ''k'' # fold_key (drop 2 s)
      else (if 65 \<le> ord c \<and> ord c \<le> 90 then char_of (ord c + 32) else c) # fold_key s)"

definition find_field :: "string \<Rightarrow> (string \<times> string) list \<Rightarrow> string option" where
  "find_field k fs =
     (if k \<in> set (map fst fs) then Some k
      else map_option fst (find (\<lambda>(t, _). fold_key t = fold_key k) fs))"

text \<open>Assigning the members in order; a value of another type than string is an error.\<close>

fun assign_members :: "(string \<times> json) list \<Rightarrow> (string \<times> string) list \<Rightarrow> bool \<times> (string \<times> string) list" where
  "assign_members [] fs = (True, fs)"
| "assign_members ((k, v) # ms) fs =
     (case find_field k fs of
        None \<Rightarrow> assign_members ms fs
      | Some t \<Rightarrow>
          (case v of
             JStr x \<Rightarrow> assign_members ms (map (\<lambda>(t', y). (t', if t' = t then x else y)) fs)
           | JNull \<Rightarrow> assign_members ms fs
           | _ \<Rightarrow> (False, snd (assign_members ms fs))))"

definition json_Unmarshal :: "string \<Rightarrow> (string \<times> string) list \<Rightarrow> go_error option \<times> (string \<times> string) list" where
  "json_Unmarshal data fs =
     (case parse_document data of
        None \<Rightarrow> (Some (ErrorString ''invalid JSON''), fs)
      | Some JNull \<Rightarrow> (None, fs)
      | Some (JObj ms) \<Rightarrow>
          let (ok, fs') = assign_members ms fs in
          (if ok then None else Some (ErrorString ''json: cannot unmarshal into Go value of type string''), fs')
      | Some _ \<Rightarrow> (Some (ErrorString ''json: cannot unmarshal into Go value''), fs))"

subsection \<open>A parsed value is shorter than its text\<close>

lemma prepend_Some: "prepend p x = Some (s, r) \<Longrightarrow> \<exists>t. x = Some (t, r) \<and> s = p @ t"
  by (cases x) (auto simp: prepend_def)

lemma unquote_shorter: "unquote s = Some (x, r) \<Longrightarrow> length r < length s"
proof (induction s arbitrary: x r rule: length_induct)
  case (1 s)
  show ?case
  proof (cases s)
    case Nil
    then show ?thesis using 1(2) by (simp add: unquote.simps)
  next
    case (Cons c t)
    have ih: "length r < Suc (length t)" if "unquote u = Some (y, r)" "length u \<le> length t" for u y
    proof -
      have "length u < length s" using that(2) Cons by simp
      then have "length r < length u" using 1(1) that(1) by blast
      then show ?thesis using that(2) by simp
    qed
    show ?thesis using 1(2) unfolding Cons unquote.simps(2)
      by (auto split: if_splits list.splits option.splits dest!: prepend_Some dest: ih)
  qed
qed

lemma digits1_shorter: "digits1 s = Some (d, r) \<Longrightarrow> length r < length s"
proof -
  assume d: "digits1 s = Some (d, r)"
  then have "takeWhile is_digit s \<noteq> []" by (auto simp: digits1_def split: list.splits)
  moreover have "length s = length (takeWhile is_digit s) + length (dropWhile is_digit s)"
    by (metis length_append takeWhile_dropWhile_id)
  ultimately show ?thesis using d by (auto simp: digits1_def split: list.splits)
qed

lemma frac_part_shorter: "frac_part s = Some (d, r) \<Longrightarrow> length r \<le> length s"
  by (auto simp: frac_part_def split: list.splits if_splits char.splits bool.splits dest!: prepend_Some digits1_shorter)

lemma exp_part_shorter: "exp_part s = Some (d, r) \<Longrightarrow> length r \<le> length s"
  by (auto simp: exp_part_def split: list.splits if_splits dest!: prepend_Some digits1_shorter)

lemma int_part_shorter: "int_part s = Some (d, r) \<Longrightarrow> length r < length s"
proof (cases "\<exists>t. s = CHR ''0'' # t")
  case False
  then have "int_part s = digits1 s"
    by (auto simp: int_part_def split: list.splits char.splits bool.splits)
  then show "int_part s = Some (d, r) \<Longrightarrow> length r < length s" by (simp add: digits1_shorter)
qed (auto simp: int_part_def)

lemma parse_number_shorter: "parse_number s = Some (d, r) \<Longrightarrow> length r < length s"
proof -
  assume p: "parse_number s = Some (d, r)"
  obtain sign s0 where s0: "(case s of CHR ''-'' # t \<Rightarrow> (''-'', t) | _ \<Rightarrow> ([], s)) = (sign, s0)"
    by (metis prod.exhaust)
  have "length s0 \<le> length s"
    using s0 by (cases "\<exists>t. s = CHR ''-'' # t") (auto split: list.splits char.splits bool.splits)
  moreover have "length r < length s0"
    using p unfolding parse_number_def s0
    by (auto split: option.splits dest!: prepend_Some int_part_shorter frac_part_shorter exp_part_shorter)
  ultimately show ?thesis by simp
qed

lemma parse_literal_shorter: "parse_literal s = Some (v, r) \<Longrightarrow> length r < length s"
  by (cases s) (auto simp: parse_literal_def split: if_splits dest!: parse_number_shorter)

lemma parse_shorter:
  "parse_value s = Some (v, r) \<Longrightarrow> length r < length s"
  "parse_elems s = Some (vs, r) \<Longrightarrow> length r < length s"
  "parse_members s = Some (ms, r) \<Longrightarrow> length r < length s"
proof (induction s and s and s arbitrary: v r and vs r and ms r
    rule: parse_value_parse_elems_parse_members.induct)
  case (1 s)
  show ?case
  proof (cases "skip_ws s")
    case Nil
    then show ?thesis using 1(3) by (simp add: parse_value.simps)
  next
    case (Cons c t)
    have ct: "length (c # t) \<le> length s" using skip_ws_Cons [OF Cons] by simp
    have e: "parse_elems t = Some (a, r) \<Longrightarrow> length r < length t"
      if "c = CHR ''[''" "next_is (CHR '']'') t = None" for a using 1(1) [OF Cons] that by simp
    have m: "parse_members t = Some (a, r) \<Longrightarrow> length r < length t"
      if "c = CHR ''{''" "next_is (CHR ''}'') t = None" for a using 1(2) [OF Cons] that by simp
    have "length r < length (c # t)"
      using 1(3) Cons unfolding parse_value.simps [of s]
      by (auto split: if_splits option.splits dest: unquote_shorter next_is_shorter parse_literal_shorter
          e [rotated 2] m [rotated 2])
    then show ?thesis using ct by linarith
  qed
next
  case (2 s)
  obtain v r0 where v: "parse_value s = Some (v, r0)"
    using 2(3) by (subst (asm) parse_elems.simps) (auto split: option.splits)
  have r0: "length r0 < length s" by (rule 2(1) [OF v])
  show ?case
  proof (cases "next_is (CHR '','') r0")
    case None
    then show ?thesis using 2(3) v r0 unfolding parse_elems.simps [of s]
      by (auto dest: next_is_shorter)
  next
    case (Some t)
    then show ?thesis using 2(3) v r0 2(2) [OF v refl Some] unfolding parse_elems.simps [of s]
      by (auto split: if_splits)
  qed
next
  case (3 s)
  obtain k key r0 t v u where k: "next_is (CHR 0x22) s = Some k" and key: "unquote k = Some (key, r0)"
    and t: "next_is (CHR '':'') r0 = Some t" and lt: "length t < length s" and v: "parse_value t = Some (v, u)"
    using 3(3) by (subst (asm) parse_members.simps) (auto split: option.splits if_splits)
  have u: "length u < length t" by (rule 3(1) [OF k key refl t lt v])
  show ?case
  proof (cases "next_is (CHR '','') u")
    case None
    then show ?thesis using 3(3) k key t lt v u unfolding parse_members.simps [of s]
      by (auto dest: next_is_shorter)
  next
    case (Some t')
    then show ?thesis using 3(3) k key t lt v u 3(2) [OF k key refl t lt v refl Some]
      unfolding parse_members.simps [of s] by (auto split: if_splits)
  qed
qed

subsection \<open>Documents survive\<close>

lemma quote_head: "quote s @ rest = CHR 0x22 # quote_body s @ CHR 0x22 # rest"
  by (simp add: quote_def)

lemma skip_ws_quote [simp]: "skip_ws (CHR 0x22 # s) = CHR 0x22 # s"
  by simp

lemma parse_value_quote:
  "utf8_valid v \<Longrightarrow> parse_value (quote v @ rest) = Some (JStr v, rest)"
  by (simp add: quote_head parse_value.simps unquote_quote_body)

lemma parse_members_one:
  assumes "utf8_valid k" and "utf8_valid v"
  shows "parse_members (quote k @ '':'' @ quote v @ ''}'' @ rest) = Some ([(k, JStr v)], rest)"
  using assms parse_value_quote [of v "''}'' @ rest"]
  by (simp add: quote_head [of k] parse_members.simps next_is_def unquote_quote_body)

lemma parse_members_more:
  assumes "utf8_valid k" and "utf8_valid v" and "parse_members s = Some (ms, rest)"
  shows "parse_members (quote k @ '':'' @ quote v @ '','' @ s) = Some ((k, JStr v) # ms, rest)"
proof -
  have "length s < length (quote k @ '':'' @ quote v @ '','' @ s)" by (simp add: quote_def)
  then show ?thesis
    using assms parse_value_quote [of v "'','' @ s"]
    by (simp add: quote_head [of k] parse_members.simps [of "CHR 0x22 # _"] next_is_def unquote_quote_body)
qed

lemma parse_marshal_fields:
  assumes "fs \<noteq> []" and "\<forall>(k, v) \<in> set fs. utf8_valid k \<and> utf8_valid v"
  shows "parse_members (marshal_fields fs @ ''}'' @ rest) = Some (map (\<lambda>(k, v). (k, JStr v)) fs, rest)"
  using assms
proof (induction fs rule: marshal_fields.induct)
  case (2 k v)
  then show ?case using parse_members_one [of k v rest] by simp
next
  case (3 k v f fs)
  then have "parse_members (marshal_fields (f # fs) @ ''}'' @ rest) = Some (map (\<lambda>(k, v). (k, JStr v)) (f # fs), rest)"
    by simp
  then show ?case using 3 parse_members_more [of k v "marshal_fields (f # fs) @ ''}'' @ rest"] by simp
qed simp

lemma parse_json_Marshal:
  assumes "fs \<noteq> []" and "\<forall>(k, v) \<in> set fs. utf8_valid k \<and> utf8_valid v"
  shows "parse_document (json_Marshal fs) = Some (JObj (map (\<lambda>(k, v). (k, JStr v)) fs))"
proof -
  obtain q where "marshal_fields fs = CHR 0x22 # q"
    using assms(1) by (cases fs rule: marshal_fields.cases) (auto simp: quote_def)
  then show ?thesis using parse_marshal_fields [OF assms, of "[]"]
    by (simp add: parse_document_def json_Marshal_def parse_value.simps next_is_def)
qed

text \<open>Assigning the written fields to a struct with the same distinct tags.\<close>

lemma assign_members_fields:
  assumes "map fst gs = map fst (ps @ fs)" and "distinct (map fst gs)"
    and "take (length ps) gs = ps"
  shows "assign_members (map (\<lambda>(k, v). (k, JStr v)) fs) gs = (True, ps @ fs)"
  using assms
proof (induction fs arbitrary: ps gs)
  case Nil
  then have "length gs = length ps" using map_eq_imp_length_eq by fastforce
  then show ?case using Nil by simp
next
  case (Cons f fs)
  obtain k v where f: "f = (k, v)" by (cases f)
  let ?n = "length ps"
  have len: "length gs = length ps + Suc (length fs)" using Cons.prems(1) map_eq_imp_length_eq by fastforce
  have keys: "fst (gs ! i) = fst ((ps @ f # fs) ! i)" if "i < length gs" for i
    using Cons.prems(1) that len by (metis length_append length_Cons nth_map)
  have k: "fst (gs ! ?n) = k" using keys [of ?n] len f by simp
  let ?gs = "map (\<lambda>(t', y). (t', if t' = k then v else y)) gs"
  have "?gs = gs[?n := (k, v)]"
  proof (rule nth_equalityI)
    fix i assume i: "i < length ?gs"
    show "?gs ! i = gs[?n := (k, v)] ! i"
    proof (cases "i = ?n")
      case True
      then show ?thesis using k len by (cases "gs ! ?n") auto
    next
      case False
      have "fst (gs ! i) \<noteq> k"
        using False i k len Cons.prems(2) nth_eq_iff_index_eq [of "map fst gs" i ?n] by auto
      then show ?thesis using False i by (cases "gs ! i") auto
    qed
  qed simp
  moreover have "take (Suc ?n) (gs[?n := (k, v)]) = ps @ [(k, v)]"
    using Cons.prems(3) len by (simp add: take_Suc_conv_app_nth)
  moreover have "map fst ?gs = map fst gs" by (auto simp: comp_def)
  ultimately have "assign_members (map (\<lambda>(k, v). (k, JStr v)) fs) ?gs = (True, (ps @ [(k, v)]) @ fs)"
    using Cons.IH [of ?gs "ps @ [(k, v)]"] Cons.prems f by simp
  moreover have "find_field k gs = Some k"
    using Cons.prems(1) f by (simp add: find_field_def)
  ultimately show ?case using f by simp
qed

lemma json_roundtrip:
  assumes "fs \<noteq> []" and "\<forall>(k, v) \<in> set fs. utf8_valid k \<and> utf8_valid v"
    and "distinct (map fst fs)" and "map fst gs = map fst fs"
  shows "json_Unmarshal (json_Marshal fs) gs = (None, fs)"
  using parse_json_Marshal [OF assms(1,2)] assign_members_fields [of gs "[]" fs] assms(3,4)
  by (simp add: json_Unmarshal_def)

end
