(* ===== verification/Topology.thy ===== *)
theory Topology
  imports Zk_Conn Go_Path Go_Json
begin

text \<open>
  \<open>zk/topology.go\<close>: the paths under which a product keeps its services in zookeeper, and the
  operations on them. Operations act on a world \<open>'w\<close> through the connection of the topology.
  The documented behaviour of zookeeper that the theorems rely on is \<open>zk_service\<close>: while the
  session is up, a call succeeds or fails according to the tree of nodes, and changes the tree
  as documented. The theory shows that \<open>CreateRecursive\<close> returns on every path, and what it
  creates.
\<close>

record ('s, 'w) topology =
  tp_ProductName :: string
  tp_zkAddr :: string
  tp_ZkConn :: "('s, 'w) zk_conn"
  tp_basePath :: string

definition productBasePath :: "string \<Rightarrow> string" where
  "productBasePath product = ''/zk/product/'' @ product"

definition ProductServicesPath :: "('s, 'w) topology \<Rightarrow> string" where
  "ProductServicesPath tp = tp_basePath tp @ ''/services''"

definition ProductServicePath :: "('s, 'w) topology \<Rightarrow> string \<Rightarrow> string" where
  "ProductServicePath tp service = tp_basePath tp @ ''/services/'' @ service"

definition ProductServiceEndPointPath :: "('s, 'w) topology \<Rightarrow> string \<Rightarrow> string \<Rightarrow> string" where
  "ProductServiceEndPointPath tp service endpoint =
     tp_basePath tp @ ''/services/'' @ service @ ''/'' @ endpoint"

definition FullPath :: "('s, 'w) topology \<Rightarrow> string \<Rightarrow> string" where
  "FullPath tp path = (if \<not> strings_HasPrefix path (tp_basePath tp) then tp_basePath tp @ path else path)"

definition Exist :: "('s, 'w) zk_helper \<Rightarrow> ('s, 'w) topology \<Rightarrow> string \<Rightarrow> 'w \<Rightarrow> (bool, 'w) zk_answer" where
  "Exist Z tp path w = NodeExists Z (tp_ZkConn tp) (FullPath tp path) w"

text \<open>\<open>InitZkConn\<close> ends the process when no connection can be opened.\<close>

definition InitZkConn :: "('s, 'w) zk_helper \<Rightarrow> string \<Rightarrow> 'w \<Rightarrow> zk_exit + ('s, 'w) zk_conn \<times> 'w" where
  "InitZkConn Z zkAddr w =
     (let (c, err, w1) = ConnectToZk Z zkAddr 30 w in
      if err \<noteq> None then Inl (Fatal ''init failed'') else Inr (c, w1))"

definition NewTopology :: "('s, 'w) zk_helper \<Rightarrow> string \<Rightarrow> string \<Rightarrow> 'w \<Rightarrow>
    zk_exit + ('s, 'w) topology \<times> 'w" where
  "NewTopology Z product zkAddr w =
     (case InitZkConn Z zkAddr w of
        Inl x \<Rightarrow> Inl x
      | Inr (c, w1) \<Rightarrow>
          Inr (\<lparr>tp_ProductName = product, tp_zkAddr = zkAddr, tp_ZkConn = c,
                tp_basePath = productBasePath product\<rparr>, w1))"

definition IsChildrenChangedEvent :: "zk_event \<Rightarrow> bool" where
  "IsChildrenChangedEvent e \<longleftrightarrow> EvType e = EventNodeChildrenChanged"

definition DeleteDir :: "('s, 'w) zk_helper \<Rightarrow> ('s, 'w) topology \<Rightarrow> string \<Rightarrow> 'w \<Rightarrow> 'w" where
  "DeleteDir Z tp path w =
     (let dir = FullPath tp path; (ok, _, w1) = Exist Z tp dir w in
      if ok then let (_, _, w2) = DeleteRecursive Z (tp_ZkConn tp) dir (-1) w1 in w2 else w1)"

definition CreateDir :: "('s, 'w) zk_helper \<Rightarrow> ('s, 'w) topology \<Rightarrow> string \<Rightarrow> 'w \<Rightarrow> (string, 'w) zk_answer" where
  "CreateDir Z tp path w =
     (let dir = FullPath tp path; (ok, _, w1) = Exist Z tp dir w in
      if ok then (dir, None, w1)
      else helper_CreateRecursive Z (tp_ZkConn tp) dir [] 0 (DefaultDirACLs Z) w1)"

definition SetPathData :: "('s, 'w) topology \<Rightarrow> string \<Rightarrow> byte list \<Rightarrow> 'w \<Rightarrow> 'w" where
  "SetPathData tp path data w =
     (let (_, _, w1) = zk_Set (tp_ZkConn tp) (FullPath tp path) data (-1) w in w1)"

subsection \<open>Creating nodes with their parents\<close>

text \<open>
  \<open>CreateRecursive\<close> calls itself on the parent directory; \<open>None\<close> would be a recursion without
  end. \<open>parts[1]\<close> panics on a path without a slash.
\<close>

definition dir_acls :: "('s, 'w) zk_helper \<Rightarrow> zk_acl list \<Rightarrow> zk_acl list" where
  "dir_acls Z aclv = map (\<lambda>a. a\<lparr>Perms := PERM_DIRECTORY Z\<rparr>) aclv"

partial_function (option) CreateRecursive :: "('s, 'w) zk_helper \<Rightarrow> ('s, 'w) zk_conn \<Rightarrow> string \<Rightarrow> string \<Rightarrow>
    int32 \<Rightarrow> zk_acl list \<Rightarrow> 'w \<Rightarrow> (string, 'w) zk_answer outcome option" where
  "CreateRecursive Z c zkPath value flags aclv w =
     (case split_on (CHR ''/'') zkPath of
        part0 # part1 # parts \<Rightarrow>
          if part1 \<noteq> MagicPrefix Z
          then Some (Ret ([], Some (ZkError (''zkutil: non /'' @ MagicPrefix Z @ '' path: '' @ zkPath)), w))
          else
            (case zk_Create c zkPath (string_bytes value) flags aclv w of
               (created, err, w1) \<Rightarrow>
                 if ZkErrorEqual Z err (Some ErrNoNode)
                 then
                   Option.bind (CreateRecursive Z c (path_Dir zkPath) [] 0 (dir_acls Z aclv) w1)
                     (\<lambda>r. Some (obind r (\<lambda>(_, err2, w2).
                        if err2 \<noteq> None \<and> \<not> ZkErrorEqual Z err2 (Some ErrNodeExists)
                        then Ret ([], err2, w2)
                        else Ret (zk_Create c zkPath (string_bytes value) flags aclv w2))))
                 else Some (Ret (created, err, w1)))
      | _ \<Rightarrow> Some (Panic IndexOutOfRange))"

definition CreateOrUpdate :: "('s, 'w) zk_helper \<Rightarrow> ('s, 'w) zk_conn \<Rightarrow> string \<Rightarrow> string \<Rightarrow>
    int32 \<Rightarrow> zk_acl list \<Rightarrow> bool \<Rightarrow> 'w \<Rightarrow> (string, 'w) zk_answer outcome option" where
  "CreateOrUpdate Z c zkPath value flags aclv recursive w =
     map_option (\<lambda>r. obind r (\<lambda>(created, err, w1).
        if err \<noteq> None \<and> ZkErrorEqual Z err (Some ErrNodeExists)
        then let (_, err2, w2) = zk_Set c zkPath (string_bytes value) (-1) w1 in Ret ([], err2, w2)
        else Ret (created, err, w1)))
       (if recursive then CreateRecursive Z c zkPath value flags aclv w
        else Some (Ret (zk_Create c zkPath (string_bytes value) flags aclv w)))"

subsection \<open>The data of the proxy\<close>

text \<open>
  \<open>data\<close> is what \<open>json.Marshal\<close> made of the map: the document or an error. An error of
  zookeeper and one of \<open>json\<close> are the two sides of a sum.
\<close>

definition SetRpcProxyData :: "('s, 'w) zk_helper \<Rightarrow> ('s, 'w) topology \<Rightarrow> go_error + string \<Rightarrow> 'w \<Rightarrow>
    ((go_error + zk_error) option \<times> 'w) outcome option" where
  "SetRpcProxyData Z tp data w =
     (case data of
        Inl e \<Rightarrow> Some (Ret (Some (Inl e), w))
      | Inr doc \<Rightarrow>
          map_option (\<lambda>r. obind r (\<lambda>(path, err, w1). Ret (map_option Inr err, w1)))
            (CreateOrUpdate Z (tp_ZkConn tp) (FullPath tp ''/rpc_proxy'') doc 0 (DefaultDirACLs Z) True w))"

text \<open>The map that \<open>json.Unmarshal\<close> fills is the list of members; numbers stay as written.\<close>

definition GetRpcProxyData :: "('s, 'w) topology \<Rightarrow> 'w \<Rightarrow>
    ((go_error + zk_error) + (string \<times> json) list) \<times> 'w" where
  "GetRpcProxyData tp w =
     (case zk_Get (tp_ZkConn tp) (FullPath tp ''/rpc_proxy'') w of
        ((data, _), Some e, w1) \<Rightarrow> (Inl (Inr e), w1)
      | ((data, _), None, w1) \<Rightarrow>
          (case parse_document (bytes_string data) of
             None \<Rightarrow> (Inl (Inl (ErrorString ''invalid JSON'')), w1)
           | Some JNull \<Rightarrow> (Inr [], w1)
           | Some (JObj ms) \<Rightarrow> (Inr ms, w1)
           | Some _ \<Rightarrow> (Inl (Inl (ErrorString ''json: cannot unmarshal into Go value'')), w1)))"

subsection \<open>Watches\<close>

text \<open>
  \<open>doWatch\<close> passes the event of a watch on to the bus, whatever the event is. \<open>WatchChildren\<close>
  and \<open>WatchNode\<close> read and leave a watch; the number they return is the channel from which a
  goroutine with \<open>doWatch\<close> will read. \<open>errors.Trace\<close> only adds the stack to an error.
\<close>

definition doWatch :: "zk_event \<Rightarrow> zk_event list \<Rightarrow> zk_event list" where
  "doWatch e evtbus =
     (if EvState e = StateExpired \<or> EvType e = EventNotWatching then evtbus @ [e] else evtbus @ [e])"

definition WatchChildren :: "('s, 'w) topology \<Rightarrow> string \<Rightarrow> 'w \<Rightarrow> (zk_error + string list \<times> nat) \<times> 'w" where
  "WatchChildren tp path w =
     (case zk_ChildrenW (tp_ZkConn tp) path w of
        ((content, _, evtch), Some e, w1) \<Rightarrow> (Inl e, w1)
      | ((content, _, evtch), None, w1) \<Rightarrow> (Inr (content, evtch), w1))"

definition WatchNode :: "('s, 'w) topology \<Rightarrow> string \<Rightarrow> bool \<Rightarrow> 'w \<Rightarrow>
    (zk_error + byte list \<times> nat option) \<times> 'w" where
  "WatchNode tp path has_evtbus w =
     (case zk_GetW (tp_ZkConn tp) path w of
        ((content, _, evtch), Some e, w1) \<Rightarrow> (Inl e, w1)
      | ((content, _, evtch), None, w1) \<Rightarrow> (Inr (content, if has_evtbus then Some evtch else None), w1))"

subsection \<open>\<open>CreateRecursive\<close> returns\<close>

definition under_prefix :: "('s, 'w) zk_helper \<Rightarrow> string \<Rightarrow> bool" where
  "under_prefix Z p \<longleftrightarrow> (\<exists>x xs. split_on (CHR ''/'') p = x # MagicPrefix Z # xs)"

lemma under_prefix_slash: "under_prefix Z p \<Longrightarrow> CHR ''/'' \<in> set p"
  using split_on_same [of "CHR ''/''" p] unfolding under_prefix_def
  by (cases "CHR ''/'' \<in> set p") auto

text \<open>On a rooted path it does not panic either.\<close>

abbreviation returns_on :: "string \<Rightarrow> 'a outcome option \<Rightarrow> bool" where
  "returns_on p res \<equiv> \<exists>r. res = Some r \<and> (take 1 p = ''/'' \<longrightarrow> (\<exists>x. r = Ret x))"

lemma CreateRecursive_outside:
  assumes "\<not> under_prefix Z p"
  shows "returns_on p (CreateRecursive Z c p v flags aclv w)"
proof (cases "split_on (CHR ''/'') p" rule: remdups_adj.cases)
  case (2 y)
  then have "take 1 p \<noteq> ''/''" by (cases p) auto
  then show ?thesis using 2 by (subst CreateRecursive.simps) simp
next
  case (3 y z ys)
  then show ?thesis using assms by (subst CreateRecursive.simps) (auto simp: under_prefix_def)
qed simp

lemma CreateRecursive_inside:
  assumes "under_prefix Z p" and "\<And>w'. returns_on (path_Dir p) (CreateRecursive Z c (path_Dir p) [] 0 (dir_acls Z aclv) w')"
    and "take 1 p = ''/'' \<Longrightarrow> take 1 (path_Dir p) = ''/''"
  shows "returns_on p (CreateRecursive Z c p v flags aclv w)"
proof -
  obtain R where R: "CreateRecursive Z c (path_Dir p) [] 0 (dir_acls Z aclv) w' = Some (R w')"
    "take 1 (path_Dir p) = ''/'' \<Longrightarrow> \<exists>x. R w' = Ret x" for w' using assms(2) by metis
  obtain x xs where x: "split_on (CHR ''/'') p = x # MagicPrefix Z # xs"
    using assms(1) by (auto simp: under_prefix_def)
  obtain q e w1 where c1: "zk_Create c p (string_bytes v) flags aclv w = (q, e, w1)" by (metis prod_cases3)
  show ?thesis
  proof (cases "take 1 p = ''/''")
    case True
    then obtain y where "R w1 = Ret y" using R(2) assms(3) by blast
    moreover obtain a1 a2 a3 where "y = (a1, a2, a3)" by (metis prod_cases3)
    moreover obtain b1 b2 b3 where "zk_Create c p (string_bytes v) flags aclv a3 = (b1, b2, b3)"
      by (metis prod_cases3)
    ultimately show ?thesis using R(1) x c1 by (subst CreateRecursive.simps) simp
  next
    case False
    then show ?thesis using R(1) x c1 by (subst CreateRecursive.simps) auto
  qed
qed

lemma path_Dir_rooted: "take 1 p = ''/'' \<Longrightarrow> take 1 (path_Dir p) = ''/''"
proof -
  assume p: "take 1 p = ''/''"
  then have "CHR ''/'' \<in> set p" by (cases p) auto
  then obtain d n where s: "p = d @ CHR ''/'' # n" "CHR ''/'' \<notin> set n" using split_list_last by metis
  then have "path_Dir p = path_Clean (d @ ''/'')" by (simp add: path_Dir_def path_Split_slash)
  moreover have "take 1 (d @ ''/'') = ''/''" using p s by (cases d) auto
  ultimately show ?thesis by (simp add: path_Clean_def Let_def)
qed

lemma CreateRecursive_returns:
  assumes "MagicPrefix Z \<noteq> []"
  shows "returns_on p (CreateRecursive Z c p v flags aclv w)"
proof (induction "count_list p (CHR ''/'') + of_bool (under_prefix Z p)" arbitrary: p v flags aclv w
    rule: less_induct)
  case less
  show ?case
  proof (cases "under_prefix Z p")
    case False
    then show ?thesis by (rule CreateRecursive_outside)
  next
    case True
    have "\<not> under_prefix Z ''/''" using assms by (auto simp: under_prefix_def)
    moreover have "0 < count_list p (CHR ''/'')"
      using under_prefix_slash [OF True] by (simp add: count_list_0_iff zero_less_iff_neq_zero)
    ultimately have "count_list (path_Dir p) (CHR ''/'') + of_bool (under_prefix Z (path_Dir p))
        < count_list p (CHR ''/'') + of_bool (under_prefix Z p)"
      using path_Dir_slashes [OF under_prefix_slash [OF True]] True by auto
    then have "returns_on (path_Dir p) (CreateRecursive Z c (path_Dir p) [] 0 (dir_acls Z aclv) w')" for w'
      by (rule less)
    then show ?thesis by (rule CreateRecursive_inside [OF True _ path_Dir_rooted])
  qed
qed

subsection \<open>The behaviour of zookeeper\<close>

text \<open>
  The tree of nodes: the data of each path and whether the node is ephemeral. \<open>ztree_create\<close>
  is the documented effect of \<open>create\<close>.
\<close>

type_synonym ztree = "string \<Rightarrow> (byte list \<times> bool) option"

definition names_ok :: "string list \<Rightarrow> bool" where
  "names_ok ns \<longleftrightarrow> ns \<noteq> [] \<and> (\<forall>n \<in> set ns. good_name n)"

definition ztree_create :: "string list \<Rightarrow> byte list \<Rightarrow> bool \<Rightarrow> ztree \<Rightarrow> zk_error option \<times> ztree" where
  "ztree_create ns d eph N =
     (if N (zpath ns) \<noteq> None then (Some ErrNodeExists, N)
      else if length ns = 1 then (None, N(zpath ns \<mapsto> (d, eph)))
      else (case N (zpath (butlast ns)) of
              None \<Rightarrow> (Some ErrNoNode, N)
            | Some (_, e) \<Rightarrow>
                if e then (Some (ZkError ''zk: ephemeral nodes may not have children''), N)
                else (None, N(zpath ns \<mapsto> (d, eph)))))"

text \<open>The node at a path and all below it.\<close>

definition ztree_below :: "string \<Rightarrow> string set" where
  "ztree_below p = {q. q = p \<or> (\<exists>r. q = p @ ''/'' @ r)}"

text \<open>
  \<open>up w\<close>: the session has not been lost until the world \<open>w\<close>. Each law speaks of a call after
  which the session is still up: then it was up before, since a lost session does not come back,
  and the call had its documented effect.
  Of a call during which the session is lost nothing is assumed.
\<close>

definition create_law :: "('s, 'w) zk_helper \<Rightarrow> ('s, 'w) zk_conn \<Rightarrow> ('w \<Rightarrow> bool) \<Rightarrow> ('w \<Rightarrow> ztree) \<Rightarrow> bool" where
  "create_law Z c up nodes \<longleftrightarrow>
     (\<forall>ns d f a w q e w'. names_ok ns \<and> f \<in> {0, FlagEphemeral Z} \<and> a \<noteq> [] \<and>
        zk_Create c (zpath ns) d f a w = (q, e, w') \<and> up w' \<longrightarrow>
        up w \<and> (e, nodes w') = ztree_create ns d (f = FlagEphemeral Z) (nodes w) \<and> (e = None \<longrightarrow> q = zpath ns))"

definition delete_law :: "('s, 'w) zk_helper \<Rightarrow> ('s, 'w) zk_conn \<Rightarrow> ('w \<Rightarrow> bool) \<Rightarrow> ('w \<Rightarrow> ztree) \<Rightarrow> bool" where
  "delete_law Z c up nodes \<longleftrightarrow>
     (\<forall>ns w r e w'. names_ok ns \<and> zk_Delete c (zpath ns) (-1) w = (r, e, w') \<and> up w' \<longrightarrow>
        up w \<and> (e, nodes w') =
          (if nodes w (zpath ns) = None then (Some ErrNoNode, nodes w)
           else if \<exists>q. q \<noteq> zpath ns \<and> q \<in> ztree_below (zpath ns) \<and> nodes w q \<noteq> None then (Some ErrNotEmpty, nodes w)
           else (None, (nodes w)(zpath ns := None))))"

definition delete_recursive_law :: "('s, 'w) zk_helper \<Rightarrow> ('s, 'w) zk_conn \<Rightarrow> ('w \<Rightarrow> bool) \<Rightarrow> ('w \<Rightarrow> ztree) \<Rightarrow> bool" where
  "delete_recursive_law Z c up nodes \<longleftrightarrow>
     (\<forall>ns w r e w'. names_ok ns \<and> DeleteRecursive Z c (zpath ns) (-1) w = (r, e, w') \<and> up w' \<longrightarrow>
        up w \<and> nodes w' = (\<lambda>q. if q \<in> ztree_below (zpath ns) then None else nodes w q))"

definition exists_law :: "('s, 'w) zk_helper \<Rightarrow> ('s, 'w) zk_conn \<Rightarrow> ('w \<Rightarrow> bool) \<Rightarrow> ('w \<Rightarrow> ztree) \<Rightarrow> bool" where
  "exists_law Z c up nodes \<longleftrightarrow>
     (\<forall>ns w b e w'. names_ok ns \<and> NodeExists Z c (zpath ns) w = (b, e, w') \<and> up w' \<longrightarrow>
        up w \<and> nodes w' = nodes w \<and> e = None \<and> b = (nodes w (zpath ns) \<noteq> None))"

definition get_law :: "('s, 'w) zk_conn \<Rightarrow> ('w \<Rightarrow> bool) \<Rightarrow> ('w \<Rightarrow> ztree) \<Rightarrow> bool" where
  "get_law c up nodes \<longleftrightarrow>
     (\<forall>p w r e w'. zk_Get c p w = (r, e, w') \<and> up w' \<longrightarrow> up w) \<and>
     (\<forall>ns w d st e w'. names_ok ns \<and> zk_Get c (zpath ns) w = ((d, st), e, w') \<and> up w' \<longrightarrow>
        up w \<and> nodes w' = nodes w \<and>
        (case nodes w (zpath ns) of None \<Rightarrow> e = Some ErrNoNode | Some (x, _) \<Rightarrow> e = None \<and> d = x))"

definition getw_law :: "('s, 'w) zk_conn \<Rightarrow> ('w \<Rightarrow> bool) \<Rightarrow> ('w \<Rightarrow> ztree) \<Rightarrow> bool" where
  "getw_law c up nodes \<longleftrightarrow>
     (\<forall>ns w d st ch e w'. names_ok ns \<and> zk_GetW c (zpath ns) w = ((d, st, ch), e, w') \<and> up w' \<longrightarrow>
        up w \<and> nodes w' = nodes w \<and>
        (case nodes w (zpath ns) of None \<Rightarrow> e = Some ErrNoNode | Some (x, _) \<Rightarrow> e = None \<and> d = x))"

definition children_law :: "('s, 'w) zk_conn \<Rightarrow> ('w \<Rightarrow> bool) \<Rightarrow> ('w \<Rightarrow> ztree) \<Rightarrow> bool" where
  "children_law c up nodes \<longleftrightarrow>
     (\<forall>ns w cs st ch e w'. names_ok ns \<and> zk_ChildrenW c (zpath ns) w = ((cs, st, ch), e, w') \<and> up w' \<longrightarrow>
        up w \<and> nodes w' = nodes w \<and>
        (if nodes w (zpath ns) = None then e = Some ErrNoNode
         else e = None \<and> (\<forall>n. n \<in> set cs \<longleftrightarrow> good_name n \<and> nodes w (zpath (ns @ [n])) \<noteq> None)))"

definition zk_service :: "('s, 'w) zk_helper \<Rightarrow> ('s, 'w) zk_conn \<Rightarrow> ('w \<Rightarrow> bool) \<Rightarrow> ('w \<Rightarrow> ztree) \<Rightarrow> bool" where
  "zk_service Z c up nodes \<longleftrightarrow> zk_errors_ok Z \<and> create_law Z c up nodes \<and> delete_law Z c up nodes
     \<and> delete_recursive_law Z c up nodes \<and> exists_law Z c up nodes
     \<and> get_law c up nodes \<and> getw_law c up nodes \<and> children_law c up nodes
     \<and> DefaultDirACLs Z \<noteq> [] \<and> DefaultFileACLs Z \<noteq> [] \<and> FlagEphemeral Z \<noteq> 0 \<and> MagicPrefix Z = ''zk''"

subsection \<open>What \<open>CreateRecursive\<close> creates\<close>

text \<open>The missing parents, as empty persistent nodes.\<close>

definition with_parents :: "string list \<Rightarrow> ztree \<Rightarrow> ztree" where
  "with_parents ns N = (\<lambda>p. if N p = None \<and> (\<exists>k. 0 < k \<and> k < length ns \<and> p = zpath (take k ns))
     then Some ([], False) else N p)"

text \<open>Along the path every node has its parent, and no parent is ephemeral.\<close>

definition path_ok :: "string list \<Rightarrow> ztree \<Rightarrow> bool" where
  "path_ok ns N \<longleftrightarrow> (\<forall>k. 0 < k \<and> k < length ns \<longrightarrow>
     (N (zpath (take (Suc k) ns)) \<noteq> None \<longrightarrow> N (zpath (take k ns)) \<noteq> None)
     \<and> (\<forall>d. N (zpath (take k ns)) \<noteq> Some (d, True)))"

lemma path_ok_snoc: "path_ok (ns @ [x]) N \<Longrightarrow> path_ok ns N"
  unfolding path_ok_def
proof (intro allI impI)
  fix k assume p: "\<forall>k. 0 < k \<and> k < length (ns @ [x]) \<longrightarrow>
     (N (zpath (take (Suc k) (ns @ [x]))) \<noteq> None \<longrightarrow> N (zpath (take k (ns @ [x]))) \<noteq> None)
     \<and> (\<forall>d. N (zpath (take k (ns @ [x]))) \<noteq> Some (d, True))" and k: "0 < k \<and> k < length ns"
  then show "(N (zpath (take (Suc k) ns)) \<noteq> None \<longrightarrow> N (zpath (take k ns)) \<noteq> None)
     \<and> (\<forall>d. N (zpath (take k ns)) \<noteq> Some (d, True))"
    using p [rule_format, of k] by simp
qed

lemma path_ok_present:
  assumes "path_ok ns N" and "N (zpath (take m ns)) \<noteq> None" and "0 < k" and "k \<le> m" and "m \<le> length ns"
  shows "N (zpath (take k ns)) \<noteq> None"
  using assms(4)
proof (induction rule: inc_induct)
  case (step n)
  then show ?case using assms unfolding path_ok_def by (metis less_le_trans less_trans_Suc not_less_eq order_less_le_trans zero_less_Suc)
qed (use assms in simp)

lemma with_parents_present:
  assumes "path_ok ns N" and "ns \<noteq> []" and "N (zpath (butlast ns)) \<noteq> None \<or> length ns = 1"
  shows "with_parents ns N = N"
proof -
  have "N (zpath (take k ns)) \<noteq> None" if "0 < k" "k < length ns" for k
    using path_ok_present [of ns N "length ns - 1" k] assms that by (auto simp: butlast_conv_take)
  then show ?thesis by (intro ext) (auto simp: with_parents_def)
qed

lemma with_parents_snoc:
  assumes "N (zpath ms) = None" and "ms \<noteq> []"
  shows "with_parents (ms @ [x]) N = (with_parents ms N)(zpath ms \<mapsto> ([], False))"
proof
  fix p
  have "(\<exists>k. 0 < k \<and> k < length (ms @ [x]) \<and> p = zpath (take k (ms @ [x]))) \<longleftrightarrow>
      p = zpath ms \<or> (\<exists>k. 0 < k \<and> k < length ms \<and> p = zpath (take k ms))"
    using assms(2) by (auto simp: less_Suc_eq)
  then show "with_parents (ms @ [x]) N p = ((with_parents ms N)(zpath ms \<mapsto> ([], False))) p"
    using assms(1) by (auto simp: with_parents_def)
qed

lemma zpath_take_neq:
  assumes "k < length ns"
  shows "zpath (take k ns) \<noteq> zpath ns"
proof
  assume "zpath (take k ns) = zpath ns"
  moreover have "zpath ns = zpath (take k ns) @ zpath (drop k ns)"
    using zpath_simps(3) [of "take k ns" "drop k ns"] by simp
  ultimately have "zpath (drop k ns) = []" by simp
  then show False using assms by (cases "drop k ns") auto
qed

lemma with_parents_self: "with_parents ns N (zpath ns) = N (zpath ns)"
proof -
  have "zpath ns \<noteq> zpath (take k ns)" if "k < length ns" for k using zpath_take_neq [OF that] by metis
  then show ?thesis unfolding with_parents_def by auto
qed

lemma create_lawD:
  assumes "zk_service Z c up nodes" and "names_ok ns" and "f \<in> {0, FlagEphemeral Z}" and "a \<noteq> []"
    and "zk_Create c (zpath ns) d f a w = (q, e, w')" and "up w'"
  shows "up w" and "(e, nodes w') = ztree_create ns d (f = FlagEphemeral Z) (nodes w)" and "e = None \<Longrightarrow> q = zpath ns"
  using assms unfolding zk_service_def create_law_def by blast+

lemma names_ok_split: "names_ok ns \<Longrightarrow> split_on (CHR ''/'') (zpath ns) = [] # ns"
  by (rule split_on_zpath) (auto simp: names_ok_def good_name_def)

lemma CreateRecursive_zpath:
  assumes "zk_service Z c up nodes" and "names_ok ns" and "hd ns = ''zk''"
  shows "CreateRecursive Z c (zpath ns) v f a w =
    (case zk_Create c (zpath ns) (string_bytes v) f a w of (q, e, w1) \<Rightarrow>
       if e = Some ErrNoNode
       then Option.bind (CreateRecursive Z c (path_Dir (zpath ns)) [] 0 (dir_acls Z a) w1)
         (\<lambda>r. Some (obind r (\<lambda>(_, e2, w2).
            if e2 \<noteq> None \<and> e2 \<noteq> Some ErrNodeExists then Ret ([], e2, w2)
            else Ret (zk_Create c (zpath ns) (string_bytes v) f a w2))))
       else Some (Ret (q, e, w1)))"
proof -
  obtain ms where "ns = ''zk'' # ms" using assms by (cases ns) (auto simp: names_ok_def)
  then have "split_on (CHR ''/'') (zpath ns) = [] # ''zk'' # ms" using names_ok_split [OF assms(2)] by simp
  moreover have "zk_errors_ok Z" "MagicPrefix Z = ''zk''" using assms(1) by (auto simp: zk_service_def)
  ultimately show ?thesis by (subst CreateRecursive.simps) (simp split: prod.splits)
qed

text \<open>The answer of \<open>CreateRecursive\<close> when the session is still up after it.\<close>

definition created :: "('s, 'w) zk_helper \<Rightarrow> ('w \<Rightarrow> ztree) \<Rightarrow> string list \<Rightarrow> string \<Rightarrow> int32 \<Rightarrow> 'w \<Rightarrow>
    string \<Rightarrow> zk_error option \<Rightarrow> 'w \<Rightarrow> bool" where
  "created Z nodes ns v f w q e w' \<longleftrightarrow>
     (if nodes w (zpath ns) \<noteq> None then e = Some ErrNodeExists \<and> nodes w' = nodes w
      else e = None \<and> q = zpath ns \<and>
        nodes w' = (with_parents ns (nodes w))(zpath ns \<mapsto> (string_bytes v, f = FlagEphemeral Z)))"

lemma ztree_create_NoNode:
  assumes "(Some ErrNoNode, N') = ztree_create ns d f N"
  shows "N' = N" and "N (zpath ns) = None" and "N (zpath (butlast ns)) = None" and "length ns \<noteq> 1"
  using assms
  by (cases "N (zpath ns)"; cases "N (zpath (butlast ns))"; auto simp: ztree_create_def split: if_splits)+

lemma parent_not_ephemeral:
  "path_ok (ms @ [x]) N \<Longrightarrow> ms \<noteq> [] \<Longrightarrow> N (zpath ms) \<noteq> Some (d, True)"
  unfolding path_ok_def by (metis append_eq_conv_conj length_append_singleton length_greater_0_conv lessI)

lemma created_at_once:
  assumes "(e, nodes w') = ztree_create (ms @ [x]) (string_bytes v) (f = FlagEphemeral Z) (nodes w)"
    and "e = None \<Longrightarrow> q = zpath (ms @ [x])" and "e \<noteq> Some ErrNoNode" and ok: "path_ok (ms @ [x]) (nodes w)"
  shows "created Z nodes (ms @ [x]) v f w q e w'"
proof (cases "nodes w (zpath (ms @ [x]))")
  case None
  have par: "nodes w (zpath ms) \<noteq> None \<or> ms = []"
    using assms(1,3) None by (cases "nodes w (zpath ms)") (auto simp: ztree_create_def split: if_splits)
  then have "e = None \<and> nodes w' = (nodes w)(zpath (ms @ [x]) \<mapsto> (string_bytes v, f = FlagEphemeral Z))"
    using assms(1,3) None parent_not_ephemeral [OF ok]
    by (auto simp: ztree_create_def split: if_splits option.splits prod.splits)
  moreover have "with_parents (ms @ [x]) (nodes w) = nodes w"
    using with_parents_present [OF ok] par by simp
  ultimately show ?thesis using assms(2) None by (simp add: created_def)
next
  case (Some y)
  then show ?thesis using assms(1) by (simp add: ztree_create_def created_def)
qed

lemma created_after_parent:
  assumes first: "(Some ErrNoNode, nodes w1) = ztree_create (ms @ [x]) (string_bytes v) (f = FlagEphemeral Z) (nodes w)"
    and parent: "created Z nodes ms [] 0 w1 q2 e2 w2" and ne: "ms \<noteq> []" and fl: "FlagEphemeral Z \<noteq> 0"
    and second: "(e, nodes w') = ztree_create (ms @ [x]) (string_bytes v) (f = FlagEphemeral Z) (nodes w2)"
    and q: "e = None \<Longrightarrow> q = zpath (ms @ [x])"
  shows "created Z nodes (ms @ [x]) v f w q e w'"
proof -
  have n: "nodes w (zpath (ms @ [x])) = None" "nodes w (zpath ms) = None" "nodes w1 = nodes w"
    using ztree_create_NoNode [OF first] by simp_all
  then have "nodes w2 = (with_parents ms (nodes w))(zpath ms \<mapsto> ([], False))"
    using parent fl by (simp add: created_def string_bytes_def)
  then have w2: "nodes w2 = with_parents (ms @ [x]) (nodes w)" using with_parents_snoc [of "nodes w" ms x] n(2) ne by simp
  moreover have "nodes w2 (zpath (ms @ [x])) = None"
    unfolding w2 with_parents_self by (rule n(1))
  moreover have "nodes w2 (zpath ms) = Some ([], False)" unfolding w2 using n ne by (simp add: with_parents_snoc)
  ultimately show ?thesis using second q n ne by (simp add: ztree_create_def created_def)
qed

text \<open>Above the first name there is nothing to create.\<close>

lemma CreateRecursive_top:
  assumes Z: "zk_service Z c up nodes" and r: "CreateRecursive Z c (path_Dir (zpath (ms @ [x]))) [] 0 a w = Some (Ret (q, e, w'))"
    and top: "ms = []" "hd (ms @ [x]) = ''zk''"
  shows "w' = w"
proof -
  have "path_Dir (zpath (ms @ [x])) = ''/''"
    using top by (simp add: path_Dir_def path_Split_def path_Clean_def)
  moreover have "CreateRecursive Z c ''/'' [] 0 a w =
      Some (Ret ([], Some (ZkError (''zkutil: non /'' @ MagicPrefix Z @ '' path: /'')), w))"
    using Z by (subst CreateRecursive.simps) (simp add: zk_service_def)
  ultimately show ?thesis using r by simp
qed

text \<open>When the parent is missing, the recursive call makes the parent, unless the connection is lost.\<close>

lemma CreateRecursive_parent:
  assumes Z: "zk_service Z c up nodes" and ns: "names_ok (ms @ [x])" "hd (ms @ [x]) = ''zk''" "f \<in> {0, FlagEphemeral Z}" "a \<noteq> []"
    and c1: "zk_Create c (zpath (ms @ [x])) (string_bytes v) f a w = (q, Some ErrNoNode, w1)"
    and r2: "CreateRecursive Z c (path_Dir (zpath (ms @ [x]))) [] 0 (dir_acls Z a) w1 = Some (Ret (q2, e2, w2))"
    and IH: "names_ok ms \<Longrightarrow> hd ms = ''zk'' \<Longrightarrow> CreateRecursive Z c (zpath ms) [] 0 (dir_acls Z a) w1 = Some (Ret (q2, e2, w2)) \<Longrightarrow>
      up w2 \<Longrightarrow> up w1 \<and> (path_ok ms (nodes w1) \<longrightarrow> created Z nodes ms [] 0 w1 q2 e2 w2)"
    and u: "up w2"
  shows "up w1 \<and> ms \<noteq> [] \<and> (path_ok (ms @ [x]) (nodes w) \<longrightarrow> created Z nodes ms [] 0 w1 q2 e2 w2)"
proof (cases "ms = []")
  case True
  note l1 = create_lawD [OF Z ns(1,3,4) c1]
  have "ms \<noteq> []" if "up w1" using l1(2) [OF that] by (auto simp: ztree_create_def split: if_splits)
  then show ?thesis using CreateRecursive_top [OF Z r2] ns(2) u True by auto
next
  case False
  note l1 = create_lawD [OF Z ns(1,3,4) c1]
  have "path_Dir (zpath (ms @ [x])) = zpath ms" using ns(1) False by (intro path_Dir_zpath) (auto simp: names_ok_def)
  moreover have "names_ok ms" "hd ms = ''zk''" using ns False by (auto simp: names_ok_def)
  ultimately have "up w1 \<and> (path_ok ms (nodes w1) \<longrightarrow> created Z nodes ms [] 0 w1 q2 e2 w2)" using IH r2 u by simp
  moreover from this have "nodes w1 = nodes w" using l1(2) ztree_create_NoNode(1) by auto
  ultimately show ?thesis using False path_ok_snoc by auto
qed

lemma CreateRecursive_spec:
  assumes Z: "zk_service Z c up nodes"
  shows "names_ok ns \<Longrightarrow> hd ns = ''zk'' \<Longrightarrow> f \<in> {0, FlagEphemeral Z} \<Longrightarrow> a \<noteq> [] \<Longrightarrow>
    \<exists>q e w'. CreateRecursive Z c (zpath ns) v f a w = Some (Ret (q, e, w')) \<and>
      (up w' \<longrightarrow> up w \<and> (path_ok ns (nodes w) \<longrightarrow> created Z nodes ns v f w q e w'))"
proof (induction ns arbitrary: v f a w rule: rev_induct)
  case (snoc x ms)
  let ?ns = "ms @ [x]"
  have fl: "FlagEphemeral Z \<noteq> 0" using Z by (simp add: zk_service_def)
  note step = CreateRecursive_zpath [OF Z snoc.prems(1,2), of v f a w]
  obtain q e w1 where c1: "zk_Create c (zpath ?ns) (string_bytes v) f a w = (q, e, w1)" by (metis prod_cases3)
  note l1 = create_lawD [OF Z snoc.prems(1,3,4) c1]
  show ?case
  proof (cases "e = Some ErrNoNode")
    case False
    have "up w1 \<longrightarrow> up w \<and> (path_ok ?ns (nodes w) \<longrightarrow> created Z nodes ?ns v f w q e w1)"
    proof (intro impI conjI)
      assume u: "up w1"
      then show "up w" by (rule l1(1))
      assume ok: "path_ok ?ns (nodes w)"
      show "created Z nodes ?ns v f w q e w1"
        by (rule created_at_once [OF l1(2) [OF u] _ False ok]) (use l1(3) [OF u] in simp)
    qed
    then show ?thesis using step c1 False by simp
  next
    case True
    have root: "take 1 (zpath ?ns) = ''/''" by (cases ms) auto
    obtain q2 e2 w2 where r2: "CreateRecursive Z c (path_Dir (zpath ?ns)) [] 0 (dir_acls Z a) w1 = Some (Ret (q2, e2, w2))"
      using CreateRecursive_returns [where c = c and p = "path_Dir (zpath ?ns)" and w = w1 and Z = Z and v = "[]" and flags = 0 and aclv = "dir_acls Z a"] Z
        path_Dir_rooted [OF root] by (auto simp: zk_service_def)
    obtain q3 e3 w3 where c3: "zk_Create c (zpath ?ns) (string_bytes v) f a w2 = (q3, e3, w3)" by (metis prod_cases3)
    note l3 = create_lawD [OF Z snoc.prems(1,3,4) c3]
    have IH: "up w1 \<and> (path_ok ms (nodes w1) \<longrightarrow> created Z nodes ms [] 0 w1 q2 e2 w2)"
      if "names_ok ms" "hd ms = ''zk''" "CreateRecursive Z c (zpath ms) [] 0 (dir_acls Z a) w1 = Some (Ret (q2, e2, w2))" "up w2"
      using snoc.IH [of 0 "dir_acls Z a" "[]" w1] snoc.prems(4) that by (auto simp: dir_acls_def)
    have parent: "up w1 \<and> ms \<noteq> [] \<and> (path_ok ?ns (nodes w) \<longrightarrow> created Z nodes ms [] 0 w1 q2 e2 w2)" if "up w2"
      using that by (rule CreateRecursive_parent [OF Z snoc.prems(1-4) c1 [unfolded True] r2, rotated]) (rule IH)
    show ?thesis
    proof (cases "e2 \<noteq> None \<and> e2 \<noteq> Some ErrNodeExists")
      case bad: True
      have "\<not> path_ok ?ns (nodes w)" if u: "up w2"
      proof
        assume "path_ok ?ns (nodes w)"
        then have "created Z nodes ms [] 0 w1 q2 e2 w2" using parent u by blast
        then show False using bad by (auto simp: created_def split: if_splits)
      qed
      then show ?thesis using step c1 True r2 bad parent l1(1) by auto
    next
      case good: False
      have "up w3 \<longrightarrow> up w \<and> (path_ok ?ns (nodes w) \<longrightarrow> created Z nodes ?ns v f w q3 e3 w3)"
      proof (intro impI conjI)
        assume u3: "up w3"
        then have u2: "up w2" by (rule l3(1))
        then have u1: "up w1" and ms: "ms \<noteq> []" using parent by auto
        then show "up w" using l1(1) by blast
        assume "path_ok ?ns (nodes w)"
        then have p: "created Z nodes ms [] 0 w1 q2 e2 w2" using parent u2 by blast
        show "created Z nodes ?ns v f w q3 e3 w3"
          by (rule created_after_parent [OF _ p ms fl l3(2) [OF u3]])
            (use l1(2) [OF u1] True l3(3) [OF u3] in simp_all)
      qed
      then show ?thesis using step c1 True r2 good c3 by auto
    qed
  qed
qed (simp add: names_ok_def)

end
