(* ===== verification/Zk_Tree.thy ===== *)
theory Zk_Tree
  imports Topology
begin

text \<open>
  A zookeeper in memory: the world is the list of nodes, the session is always up. It
  instantiates the records \<open>zk_helper\<close> and \<open>zk_conn\<close> with functions that satisfy \<open>zk_service\<close>,
  so that the hypothesis is seen to hold and the statements about topologies can be evaluated.
\<close>

type_synonym zworld = "(string \<times> byte list \<times> bool) list"

definition tree_create :: "string \<Rightarrow> byte list \<Rightarrow> int32 \<Rightarrow> zk_acl list \<Rightarrow> zworld \<Rightarrow> (string, zworld) zk_answer" where
  "tree_create p d f a w =
     (let ns = tl (split_on (CHR ''/'') p) in
      if map_of w p \<noteq> None then ([], Some ErrNodeExists, w)
      else if length ns = 1 then (p, None, (p, d, f = 1) # w)
      else (case map_of w (zpath (butlast ns)) of
              None \<Rightarrow> ([], Some ErrNoNode, w)
            | Some (_, e) \<Rightarrow>
                if e then ([], Some (ZkError ''zk: ephemeral nodes may not have children''), w)
                else (p, None, (p, d, f = 1) # w)))"

definition is_below :: "string \<Rightarrow> string \<Rightarrow> bool" where
  "is_below p q \<longleftrightarrow> q = p \<or> take (Suc (length p)) q = p @ ''/''"

definition tree_delete :: "string \<Rightarrow> int32 \<Rightarrow> zworld \<Rightarrow> (unit, zworld) zk_answer" where
  "tree_delete p v w =
     (if map_of w p = None then ((), Some ErrNoNode, w)
      else if \<exists>n \<in> set w. fst n \<noteq> p \<and> is_below p (fst n) then ((), Some ErrNotEmpty, w)
      else ((), None, filter (\<lambda>n. fst n \<noteq> p) w))"

definition tree_get :: "string \<Rightarrow> zworld \<Rightarrow> byte list \<times> zk_error option" where
  "tree_get p w = (case map_of w p of None \<Rightarrow> ([], Some ErrNoNode) | Some (d, _) \<Rightarrow> (d, None))"

definition child_name :: "string \<Rightarrow> string \<Rightarrow> string list" where
  "child_name p q = (let n = drop (Suc (length p)) q in
     if q \<noteq> p \<and> is_below p q \<and> good_name n then [n] else [])"

definition tree_children :: "string \<Rightarrow> zworld \<Rightarrow> string list \<times> zk_error option" where
  "tree_children p w =
     (if map_of w p = None then ([], Some ErrNoNode)
      else (remdups (concat (map (child_name p \<circ> fst) w)), None))"

definition tree_conn :: "(unit, zworld) zk_conn" where
  "tree_conn = \<lparr>
     zk_Get = (\<lambda>p w. let (d, e) = tree_get p w in ((d, ()), e, w)),
     zk_GetW = (\<lambda>p w. let (d, e) = tree_get p w in ((d, (), 0), e, w)),
     zk_Children = (\<lambda>p w. let (cs, e) = tree_children p w in ((cs, ()), e, w)),
     zk_ChildrenW = (\<lambda>p w. let (cs, e) = tree_children p w in ((cs, (), 0), e, w)),
     zk_Exists = (\<lambda>p w. ((map_of w p \<noteq> None, ()), None, w)),
     zk_ExistsW = (\<lambda>p w. ((map_of w p \<noteq> None, (), 0), None, w)),
     zk_Create = tree_create,
     zk_Set = (\<lambda>p d v w. ((), snd (tree_get p w), map (\<lambda>(q, x, e). (q, if q = p then d else x, e)) w)),
     zk_Delete = tree_delete,
     zk_GetACL = (\<lambda>p w. (([], ()), None, w)),
     zk_SetACL = (\<lambda>p a v w. ((), None, w)),
     zk_Close = (\<lambda>w. w), zk_Seq2Str = (\<lambda>n. [])\<rparr>"

definition tree_acl :: zk_acl where
  "tree_acl = \<lparr>Perms = 31, Scheme = ''world'', AclID = ''anyone''\<rparr>"

definition tree_helper :: "(unit, zworld) zk_helper" where
  "tree_helper = \<lparr>ZkErrorEqual = (=),
     NodeExists = (\<lambda>c p w. (map_of w p \<noteq> None, None, w)),
     DeleteRecursive = (\<lambda>c p v w. ((), None, filter (\<lambda>n. \<not> is_below p (fst n)) w)),
     helper_CreateRecursive = (\<lambda>c p v f a w. (p, None, (p, string_bytes v, f = 1) # w)),
     ConnectToZk = (\<lambda>a t w. (tree_conn, None, w)),
     DefaultDirACLs = [tree_acl], DefaultFileACLs = [tree_acl], PERM_DIRECTORY = 31,
     MagicPrefix = ''zk'', FlagEphemeral = 1\<rparr>"

definition tree_topology :: "string \<Rightarrow> (unit, zworld) topology" where
  "tree_topology product = \<lparr>tp_ProductName = product, tp_zkAddr = ''zk1:2181'', tp_ZkConn = tree_conn,
     tp_basePath = productBasePath product\<rparr>"

subsection \<open>It is a zookeeper\<close>

lemma is_below_iff: "is_below p q \<longleftrightarrow> q \<in> ztree_below p"
proof
  assume b: "is_below p q"
  show "q \<in> ztree_below p"
  proof (cases "q = p")
    case False
    then have "q = (p @ ''/'') @ drop (Suc (length p)) q"
      using b append_take_drop_id [of "Suc (length p)" q] by (simp add: is_below_def)
    then show ?thesis unfolding ztree_below_def by auto
  qed (simp add: ztree_below_def)
qed (auto simp: is_below_def ztree_below_def)

lemma map_of_filter_keys: "map_of (filter (\<lambda>n. P (fst n)) w) = (\<lambda>q. if P q then map_of w q else None)"
  by (induction w) auto

lemma map_of_ex: "(\<exists>n \<in> set w. P (fst n)) \<longleftrightarrow> (\<exists>q. P q \<and> map_of w q \<noteq> None)"
  by (auto simp: map_of_eq_None_iff intro: rev_bexI)

lemma tree_create_law: "create_law tree_helper tree_conn (\<lambda>_. True) map_of"
  unfolding create_law_def
  by (auto simp: tree_helper_def tree_conn_def tree_create_def ztree_create_def names_ok_split Let_def
      split: option.splits if_splits)

lemma tree_delete_law: "delete_law tree_helper tree_conn (\<lambda>_. True) map_of"
  unfolding delete_law_def
proof (intro allI impI conjI TrueI; elim conjE)
  fix ns r e and w w' :: zworld
  assume d: "zk_Delete tree_conn (zpath ns) (- 1) w = (r, e, w')"
  let ?below = "\<exists>q. q \<noteq> zpath ns \<and> q \<in> ztree_below (zpath ns) \<and> map_of w q \<noteq> None"
  have eq: "(\<exists>n \<in> set w. fst n \<noteq> zpath ns \<and> is_below (zpath ns) (fst n)) \<longleftrightarrow> ?below"
    using map_of_ex [of w "\<lambda>q. q \<noteq> zpath ns \<and> is_below (zpath ns) q"] by (simp add: is_below_iff conj_assoc)
  have "tree_delete (zpath ns) (- 1) w = (r, e, w')" using d by (simp add: tree_conn_def)
  then have "(e, w') = (if map_of w (zpath ns) = None then (Some ErrNoNode, w)
      else if ?below then (Some ErrNotEmpty, w) else (None, filter (\<lambda>n. fst n \<noteq> zpath ns) w))"
    unfolding tree_delete_def eq
    by (cases "map_of w (zpath ns) = None"; cases ?below) (simp_all only: if_True if_False prod.inject simp_thms)
  moreover have "map_of (filter (\<lambda>n. fst n \<noteq> zpath ns) w) = (map_of w)(zpath ns := None)"
    using map_of_filter_keys [of "\<lambda>q. q \<noteq> zpath ns" w] by (auto simp: fun_eq_iff)
  ultimately show "(e, map_of w') =
      (if map_of w (zpath ns) = None then (Some ErrNoNode, map_of w)
       else if ?below then (Some ErrNotEmpty, map_of w)
       else (None, (map_of w)(zpath ns := None)))"
    by (auto split: if_splits)
qed

lemma child_name_iff:
  "n \<in> set (child_name p q) \<longleftrightarrow> good_name n \<and> q = p @ ''/'' @ n"
proof
  assume "n \<in> set (child_name p q)"
  then show "good_name n \<and> q = p @ ''/'' @ n"
    by (auto simp: child_name_def is_below_iff ztree_below_def Let_def split: if_splits)
qed (auto simp: child_name_def is_below_iff ztree_below_def Let_def)

lemma tree_children_law: "children_law tree_conn (\<lambda>_. True) map_of"
  unfolding children_law_def
proof (intro conjI allI impI TrueI; elim conjE)
  fix ns and w w' :: zworld and cs st ch e
  assume c: "zk_ChildrenW tree_conn (zpath ns) w = ((cs, st, ch), e, w')"
  then show "map_of w' = map_of w" by (simp add: tree_conn_def split: prod.splits)
  have "n \<in> set (concat (map (child_name p \<circ> fst) w)) \<longleftrightarrow> good_name n \<and> map_of w (p @ ''/'' @ n) \<noteq> None" for n p
    using map_of_ex [of w "\<lambda>q. q = p @ ''/'' @ n"] by (auto simp: child_name_iff)
  then show "if map_of w (zpath ns) = None then e = Some ErrNoNode
      else e = None \<and> (\<forall>n. (n \<in> set cs) = (good_name n \<and> map_of w (zpath (ns @ [n])) \<noteq> None))"
    using c by (auto simp: tree_conn_def tree_children_def split: if_splits prod.splits)
qed

lemma tree_read_laws:
  "exists_law tree_helper tree_conn (\<lambda>_. True) map_of" "get_law tree_conn (\<lambda>_. True) map_of"
  "getw_law tree_conn (\<lambda>_. True) map_of"
  unfolding exists_law_def get_law_def getw_law_def
  by (auto simp: tree_helper_def tree_conn_def tree_get_def split: option.splits prod.splits)

lemma tree_zk_service [simp]: "zk_service tree_helper tree_conn (\<lambda>_. True) map_of"
proof -
  have "delete_recursive_law tree_helper tree_conn (\<lambda>_. True) map_of"
    unfolding delete_recursive_law_def
  proof (intro allI impI conjI TrueI; elim conjE)
    fix ns r e and w w' :: zworld
    assume "DeleteRecursive tree_helper tree_conn (zpath ns) (- 1) w = (r, e, w')"
    then show "map_of w' = (\<lambda>q. if q \<in> ztree_below (zpath ns) then None else map_of w q)"
      using map_of_filter_keys [of "\<lambda>q. \<not> is_below (zpath ns) q" w]
      by (auto simp: tree_helper_def is_below_iff fun_eq_iff)
  qed
  then show ?thesis unfolding zk_service_def
    using tree_create_law tree_delete_law tree_children_law tree_read_laws by (simp add: tree_helper_def zk_errors_ok_def)
qed

end
