(* ===== verification/Endpoint.thy ===== *)
theory Endpoint
  imports Zk_Tree
begin

text \<open>
  \<open>proxy/endpoint.go\<close> and \<open>RegisterService\<close> of \<open>proxy/server_general_rpc.go\<close>: a server
  announces itself by an ephemeral node with its description as JSON, and puts the node back
  when its session expires; the proxy reads the descriptions. The theory shows that a
  registration leaves exactly the node, and that reading it gives back what was registered.
\<close>

record ServiceEndpoint =
  ep_Service :: string
  ep_ServiceId :: string
  ep_Frontend :: string
  ep_DeployPath :: string
  ep_CodeUrlVerion :: string
  ep_Hostname :: string
  ep_StartTime :: string

text \<open>The civil time of a \<open>time.Time\<close>, and its format \<open>2006-01-02 15:04:05\<close>.\<close>

record civil_time =
  ct_year :: nat
  ct_month :: nat
  ct_day :: nat
  ct_hour :: nat
  ct_minute :: nat
  ct_second :: nat

definition FormatYYYYmmDDHHMMSS :: "civil_time \<Rightarrow> string" where
  "FormatYYYYmmDDHHMMSS t =
     pad 4 (ct_year t) @ ''-'' @ pad 2 (ct_month t) @ ''-'' @ pad 2 (ct_day t) @ '' '' @
     pad 2 (ct_hour t) @ '':'' @ pad 2 (ct_minute t) @ '':'' @ pad 2 (ct_second t)"

text \<open>\<open>host\<close> is what \<open>os.Hostname()\<close> returned, \<open>now\<close> the current time.\<close>

definition NewServiceEndpoint :: "go_error + string \<Rightarrow> civil_time \<Rightarrow> string \<Rightarrow> string \<Rightarrow> string \<Rightarrow> string \<Rightarrow>
    string \<Rightarrow> ServiceEndpoint" where
  "NewServiceEndpoint host now service serviceId frontend deployPath codeUrlVerion =
     \<lparr>ep_Service = service, ep_ServiceId = serviceId, ep_Frontend = frontend, ep_DeployPath = deployPath,
      ep_CodeUrlVerion = codeUrlVerion,
      ep_Hostname = (case host of Inl _ \<Rightarrow> ''Unknown'' | Inr h \<Rightarrow> h),
      ep_StartTime = FormatYYYYmmDDHHMMSS now\<rparr>"

text \<open>The fields under the tags of the struct, and back.\<close>

definition endpoint_fields :: "ServiceEndpoint \<Rightarrow> (string \<times> string) list" where
  "endpoint_fields e =
     [(''service'', ep_Service e), (''service_id'', ep_ServiceId e), (''frontend'', ep_Frontend e),
      (''deploy_path'', ep_DeployPath e), (''code_url_version'', ep_CodeUrlVerion e),
      (''hostname'', ep_Hostname e), (''start_time'', ep_StartTime e)]"

definition endpoint_of :: "(string \<times> string) list \<Rightarrow> ServiceEndpoint" where
  "endpoint_of fs = (let get = (\<lambda>t. case map_of fs t of Some v \<Rightarrow> v | None \<Rightarrow> []) in
     \<lparr>ep_Service = get ''service'', ep_ServiceId = get ''service_id'', ep_Frontend = get ''frontend'',
      ep_DeployPath = get ''deploy_path'', ep_CodeUrlVerion = get ''code_url_version'',
      ep_Hostname = get ''hostname'', ep_StartTime = get ''start_time''\<rparr>)"

definition empty_endpoint :: ServiceEndpoint where
  "empty_endpoint = \<lparr>ep_Service = [], ep_ServiceId = [], ep_Frontend = [], ep_DeployPath = [],
     ep_CodeUrlVerion = [], ep_Hostname = [], ep_StartTime = []\<rparr>"

definition endpoint_path :: "('s, 'w) topology \<Rightarrow> ServiceEndpoint \<Rightarrow> string" where
  "endpoint_path tp e = ProductServiceEndPointPath tp (ep_Service e) (ep_ServiceId e)"

definition DeleteServiceEndpoint :: "('s, 'w) zk_helper \<Rightarrow> ('s, 'w) topology \<Rightarrow> ServiceEndpoint \<Rightarrow> 'w \<Rightarrow> 'w" where
  "DeleteServiceEndpoint Z tp e w =
     (let (ok, _, w1) = Exist Z tp (endpoint_path tp e) w in
      if ok then let (_, _, w2) = DeleteRecursive Z (tp_ZkConn tp) (endpoint_path tp e) (-1) w1 in w2 else w1)"

definition AddServiceEndpoint :: "('s, 'w) zk_helper \<Rightarrow> ('s, 'w) topology \<Rightarrow> ServiceEndpoint \<Rightarrow> 'w \<Rightarrow>
    (zk_error option \<times> 'w) outcome option" where
  "AddServiceEndpoint Z tp e w =
     (let path = endpoint_path tp e; data = json_Marshal (endpoint_fields e) in
      map_option (\<lambda>r. obind r (\<lambda>(_, _, w1).
          let (_, _, w2) = zk_Delete (tp_ZkConn tp) path (-1) w1;
              (_, err, w3) = zk_Create (tp_ZkConn tp) path (string_bytes data) (FlagEphemeral Z) (DefaultFileACLs Z) w2 in
          Ret (err, w3)))
        (CreateRecursive Z (tp_ZkConn tp) (path_Dir path) [] 0 (DefaultDirACLs Z) w))"

definition GetServiceEndpoint :: "('s, 'w) topology \<Rightarrow> string \<Rightarrow> string \<Rightarrow> 'w \<Rightarrow>
    ((go_error + zk_error) + ServiceEndpoint) \<times> 'w" where
  "GetServiceEndpoint tp service serviceId w =
     (case zk_Get (tp_ZkConn tp) (ProductServiceEndPointPath tp service serviceId) w of
        ((data, _), Some e, w1) \<Rightarrow> (Inl (Inr e), w1)
      | ((data, _), None, w1) \<Rightarrow>
          (case json_Unmarshal (bytes_string data) (endpoint_fields empty_endpoint) of
             (Some e, _) \<Rightarrow> (Inl (Inl e), w1)
           | (None, fs) \<Rightarrow> (Inr (endpoint_of fs), w1)))"

subsection \<open>Registration\<close>

definition register :: "('s, 'w) zk_helper \<Rightarrow> ('s, 'w) topology \<Rightarrow> ServiceEndpoint \<Rightarrow> 'w \<Rightarrow>
    (zk_error option \<times> 'w) outcome option" where
  "register Z tp e w = AddServiceEndpoint Z tp e (DeleteServiceEndpoint Z tp e w)"

text \<open>What a \<open>select\<close> of the goroutine of \<open>RegisterService\<close> receives.\<close>

datatype reg_wait = RegExit | RegEvent zk_event | RegTimer

definition session_lost :: "zk_event \<Rightarrow> bool" where
  "session_lost ev \<longleftrightarrow> EvState ev = StateExpired \<or> EvType ev = EventNotWatching"

text \<open>
  One turn of its loop; the first component says whether the loop goes on. \<open>later\<close> is what
  happens to the world while the \<open>select\<close> waits. Without a watch there is no event, with a
  watch no timer: the \<open>select\<close> waits for ever.
\<close>

definition RegisterService_turn :: "('s, 'w) zk_helper \<Rightarrow> ('s, 'w) topology \<Rightarrow> ServiceEndpoint \<Rightarrow> reg_wait \<Rightarrow>
    ('w \<Rightarrow> 'w) \<Rightarrow> 'w \<Rightarrow> (bool \<times> 'w) outcome option" where
  "RegisterService_turn Z tp e wait later w =
     (case WatchNode tp (ProductServicePath tp (ep_Service e)) True w of
        (Inr _, w1) \<Rightarrow>
          (case wait of
             RegExit \<Rightarrow> Some (Ret (False, later w1))
           | RegEvent ev \<Rightarrow>
               if session_lost ev
               then map_option (\<lambda>r. obind r (\<lambda>(_, w2). Ret (True, w2))) (register Z tp e (later w1))
               else Some (Ret (True, later w1))
           | RegTimer \<Rightarrow> Some Block)
      | (Inl _, w1) \<Rightarrow>
          (case wait of
             RegExit \<Rightarrow> Some (Ret (False, later w1))
           | RegTimer \<Rightarrow> Some (Ret (True, later w1))
           | RegEvent _ \<Rightarrow> Some Block))"

definition RegisterService :: "('s, 'w) zk_helper \<Rightarrow> ('s, 'w) topology \<Rightarrow> go_error + string \<Rightarrow> civil_time \<Rightarrow>
    string \<Rightarrow> string \<Rightarrow> string \<Rightarrow> string \<Rightarrow> string \<Rightarrow> 'w \<Rightarrow> (ServiceEndpoint \<times> 'w) outcome option" where
  "RegisterService Z tp host now serviceName frontendAddr serviceId workDir codeUrlVerion w =
     (let e = NewServiceEndpoint host now serviceName serviceId frontendAddr workDir codeUrlVerion in
      map_option (\<lambda>r. obind r (\<lambda>(_, w1). Ret (e, w1))) (register Z tp e w))"

subsection \<open>Paths\<close>

definition endpoint_names :: "('s, 'w) topology \<Rightarrow> string \<Rightarrow> string \<Rightarrow> string list" where
  "endpoint_names tp service serviceId =
     [''zk'', ''product'', tp_ProductName tp, ''services'', service, serviceId]"

definition topology_ok :: "('s, 'w) topology \<Rightarrow> bool" where
  "topology_ok tp \<longleftrightarrow> good_name (tp_ProductName tp) \<and> tp_basePath tp = productBasePath (tp_ProductName tp)"

lemma good_names [simp]: "good_name ''zk''" "good_name ''product''" "good_name ''services''"
  by (simp_all add: good_name_def)

lemma endpoint_zpath:
  "topology_ok tp \<Longrightarrow> ProductServiceEndPointPath tp service serviceId = zpath (endpoint_names tp service serviceId)"
  by (simp add: topology_ok_def productBasePath_def ProductServiceEndPointPath_def endpoint_names_def)

lemma service_zpath:
  "topology_ok tp \<Longrightarrow> ProductServicePath tp service = zpath (butlast (endpoint_names tp service serviceId))"
  by (simp add: topology_ok_def productBasePath_def ProductServicePath_def endpoint_names_def)

lemma endpoint_names_ok:
  "topology_ok tp \<Longrightarrow> good_name service \<Longrightarrow> good_name serviceId \<Longrightarrow> names_ok (endpoint_names tp service serviceId)"
  by (simp add: names_ok_def endpoint_names_def topology_ok_def)

lemma FullPath_endpoint:
  "topology_ok tp \<Longrightarrow> FullPath tp (ProductServiceEndPointPath tp service serviceId) =
     ProductServiceEndPointPath tp service serviceId"
  by (simp add: FullPath_def strings_HasPrefix_def ProductServiceEndPointPath_def)

subsection \<open>What a registration leaves\<close>

text \<open>The endpoint's names, split into the directory of the service and the server's id.\<close>

lemma endpoint_names_split:
  "endpoint_names tp s i = butlast (endpoint_names tp s i) @ [i]" "butlast (endpoint_names tp s i) \<noteq> []"
  "hd (butlast (endpoint_names tp s i)) = ''zk''"
  by (simp_all add: endpoint_names_def)

lemma created_parents:
  assumes "created Z nodes ms [] 0 w q e w1" and "path_ok (ms @ [x]) (nodes w)" and "ms \<noteq> []"
    and "FlagEphemeral Z \<noteq> 0"
  shows "nodes w1 = with_parents (ms @ [x]) (nodes w)"
proof (cases "nodes w (zpath ms)")
  case None
  then show ?thesis using assms with_parents_snoc [of "nodes w" ms x]
    by (simp add: created_def string_bytes_def)
next
  case (Some y)
  then show ?thesis using assms with_parents_present [of "ms @ [x]" "nodes w"] by (simp add: created_def)
qed

lemma with_parents_parent:
  assumes "path_ok (ms @ [x]) N" and "ms \<noteq> []"
  shows "\<exists>d. with_parents (ms @ [x]) N (zpath ms) = Some (d, False)"
proof (cases "N (zpath ms)")
  case None
  then show ?thesis using assms with_parents_snoc [of N ms x] by simp
next
  case (Some y)
  then show ?thesis using assms(2) parent_not_ephemeral [OF assms] by (cases y) (auto simp: with_parents_def)
qed

text \<open>Nothing is below the node of a server but the node itself.\<close>

definition leaf :: "string \<Rightarrow> ztree \<Rightarrow> bool" where
  "leaf p N \<longleftrightarrow> (\<forall>q \<in> ztree_below p. q \<noteq> p \<longrightarrow> N q = None)"

lemma with_parents_below:
  assumes "q \<in> ztree_below (zpath ns)"
  shows "with_parents ns N q = N q"
proof -
  have "q \<noteq> zpath (take k ns)" if "k < length ns" for k
  proof
    assume q: "q = zpath (take k ns)"
    have "zpath ns = zpath (take k ns) @ zpath (drop k ns)"
      using zpath_simps(3) [of "take k ns" "drop k ns"] by simp
    moreover have "drop k ns \<noteq> []" using that by simp
    ultimately show False using assms q by (cases "drop k ns") (auto simp: ztree_below_def)
  qed
  then show ?thesis by (auto simp: with_parents_def)
qed

lemma zk_serviceD:
  assumes "zk_service Z c up nodes"
  shows "DefaultDirACLs Z \<noteq> []" "DefaultFileACLs Z \<noteq> []" "FlagEphemeral Z \<noteq> 0"
  using assms by (simp_all add: zk_service_def)

lemma delete_lawD:
  assumes "zk_service Z c up nodes" and "names_ok ns" and "zk_Delete c (zpath ns) (-1) w = (r, e, w')"
    and "up w'" and "leaf (zpath ns) (nodes w)"
  shows "nodes w' = (nodes w)(zpath ns := None)"
proof -
  have no: "\<not> (\<exists>q. q \<noteq> zpath ns \<and> q \<in> ztree_below (zpath ns) \<and> nodes w q \<noteq> None)"
    using assms(5) by (auto simp: leaf_def)
  have "(e, nodes w') = (if nodes w (zpath ns) = None then (Some ErrNoNode, nodes w)
           else if \<exists>q. q \<noteq> zpath ns \<and> q \<in> ztree_below (zpath ns) \<and> nodes w q \<noteq> None then (Some ErrNotEmpty, nodes w)
           else (None, (nodes w)(zpath ns := None)))"
    using assms(1-4) unfolding zk_service_def delete_law_def by blast
  then show ?thesis unfolding if_not_P [OF no] by (auto split: if_splits)
qed

lemma delete_up:
  "zk_service Z c up nodes \<Longrightarrow> names_ok ns \<Longrightarrow> zk_Delete c (zpath ns) (-1) w = (r, e, w') \<Longrightarrow> up w' \<Longrightarrow> up w"
  unfolding zk_service_def delete_law_def by blast

lemma AddServiceEndpoint_spec:
  fixes tp :: "('s, 'w) topology"
  assumes Z: "zk_service Z (tp_ZkConn tp) up nodes" and tp: "topology_ok tp"
    and good: "good_name (ep_Service e)" "good_name (ep_ServiceId e)"
  defines "ns \<equiv> endpoint_names tp (ep_Service e) (ep_ServiceId e)"
  shows "\<exists>err w'. AddServiceEndpoint Z tp e w = Some (Ret (err, w')) \<and>
    (up w' \<longrightarrow> up w \<and> (path_ok ns (nodes w) \<and> leaf (zpath ns) (nodes w) \<longrightarrow>
      err = None \<and> nodes w' = (with_parents ns (nodes w))
        (zpath ns \<mapsto> (string_bytes (json_Marshal (endpoint_fields e)), True))))"
proof -
  let ?c = "tp_ZkConn tp" and ?d = "string_bytes (json_Marshal (endpoint_fields e))"
  define ms where "ms = butlast ns"
  have ns: "ns = ms @ [ep_ServiceId e]" "ms \<noteq> []" "hd ms = ''zk''"
    unfolding ms_def ns_def by (rule endpoint_names_split)+
  have ok: "names_ok ns" unfolding ns_def by (rule endpoint_names_ok [OF tp good])
  then have okm: "names_ok ms" using ns by (auto simp: names_ok_def)
  have path: "endpoint_path tp e = zpath ns" using endpoint_zpath [OF tp] by (simp add: endpoint_path_def ns_def)
  have dir: "path_Dir (zpath ns) = zpath ms"
    unfolding ns(1) using ok ns by (intro path_Dir_zpath) (auto simp: names_ok_def)
  obtain q1 e1 w1 where c1: "CreateRecursive Z ?c (zpath ms) [] 0 (DefaultDirACLs Z) w = Some (Ret (q1, e1, w1))"
    and l1: "up w1 \<longrightarrow> up w \<and> (path_ok ms (nodes w) \<longrightarrow> created Z nodes ms [] 0 w q1 e1 w1)"
    using CreateRecursive_spec [OF Z okm ns(3), of 0 "DefaultDirACLs Z" "[]" w] zk_serviceD [OF Z] by auto
  obtain r2 e2 w2 where c2: "zk_Delete ?c (zpath ns) (-1) w1 = (r2, e2, w2)" by (metis prod_cases3)
  obtain q3 e3 w3 where c3: "zk_Create ?c (zpath ns) ?d (FlagEphemeral Z) (DefaultFileACLs Z) w2 = (q3, e3, w3)"
    by (metis prod_cases3)
  have l3: "up w3 \<Longrightarrow> up w2" "up w3 \<Longrightarrow> (e3, nodes w3) = ztree_create ns ?d True (nodes w2)"
    using create_lawD [OF Z ok _ _ c3] zk_serviceD [OF Z] by auto
  have "up w3 \<longrightarrow> up w \<and> (path_ok ns (nodes w) \<and> leaf (zpath ns) (nodes w) \<longrightarrow>
      e3 = None \<and> nodes w3 = (with_parents ns (nodes w))(zpath ns \<mapsto> (?d, True)))"
  proof (intro impI conjI)
    assume u3: "up w3"
    have u2: "up w2" by (rule l3(1) [OF u3])
    have u1: "up w1" by (rule delete_up [OF Z ok c2 u2])
    show "up w" using l1 u1 by blast
    assume "path_ok ns (nodes w) \<and> leaf (zpath ns) (nodes w)"
    then have p: "path_ok (ms @ [ep_ServiceId e]) (nodes w)" and lf: "leaf (zpath ns) (nodes w)" by (simp_all add: ns(1))
    have cr: "created Z nodes ms [] 0 w q1 e1 w1" using l1 u1 path_ok_snoc [OF p] by blast
    have w1: "nodes w1 = with_parents ns (nodes w)"
      using created_parents [OF cr p ns(2) zk_serviceD(3) [OF Z]] ns(1) by simp
    then have "leaf (zpath ns) (nodes w1)" using lf by (simp add: leaf_def with_parents_below)
    then have w2: "nodes w2 = (with_parents ns (nodes w))(zpath ns := None)"
      using delete_lawD [OF Z ok c2 u2] w1 by simp
    obtain d where "with_parents ns (nodes w) (zpath ms) = Some (d, False)"
      using with_parents_parent [OF p ns(2)] ns(1) by auto
    moreover have "zpath ms \<noteq> zpath ns" using zpath_take_neq [of "length ms" ns] ns(1) by simp
    ultimately have "nodes w2 (zpath (butlast ns)) = Some (d, False)" "nodes w2 (zpath ns) = None"
      using w2 ms_def by simp_all
    moreover have "length ns \<noteq> 1" using ns by simp
    ultimately have "ztree_create ns ?d True (nodes w2) = (None, (nodes w2)(zpath ns \<mapsto> (?d, True)))"
      by (simp add: ztree_create_def)
    then show "e3 = None" "nodes w3 = (with_parents ns (nodes w))(zpath ns \<mapsto> (?d, True))"
      using l3(2) [OF u3] w2 by simp_all
  qed
  then show ?thesis using c1 c2 c3 by (simp add: AddServiceEndpoint_def path dir)
qed

lemma DeleteServiceEndpoint_spec:
  fixes tp :: "('s, 'w) topology"
  assumes Z: "zk_service Z (tp_ZkConn tp) up nodes" and tp: "topology_ok tp"
    and good: "good_name (ep_Service e)" "good_name (ep_ServiceId e)"
  defines "p \<equiv> zpath (endpoint_names tp (ep_Service e) (ep_ServiceId e))"
  assumes up: "up (DeleteServiceEndpoint Z tp e w)"
  shows "up w" and "nodes w p \<noteq> None \<or> leaf p (nodes w) \<Longrightarrow>
    nodes (DeleteServiceEndpoint Z tp e w) = (\<lambda>q. if q \<in> ztree_below p then None else nodes w q)"
proof -
  have ok: "names_ok (endpoint_names tp (ep_Service e) (ep_ServiceId e))" by (rule endpoint_names_ok [OF tp good])
  have path: "endpoint_path tp e = p" using endpoint_zpath [OF tp] by (simp add: endpoint_path_def p_def)
  have full: "FullPath tp p = p"
    using FullPath_endpoint [OF tp, of "ep_Service e" "ep_ServiceId e"] path by (simp add: endpoint_path_def)
  obtain b e1 w1 where x: "NodeExists Z (tp_ZkConn tp) p w = (b, e1, w1)" by (metis prod_cases3)
  obtain r e2 w2 where d: "DeleteRecursive Z (tp_ZkConn tp) p (-1) w1 = (r, e2, w2)" by (metis prod_cases3)
  have del: "DeleteServiceEndpoint Z tp e w = (if b then w2 else w1)"
    using x d path full by (simp add: DeleteServiceEndpoint_def Exist_def)
  have l1: "up w1 \<Longrightarrow> up w \<and> nodes w1 = nodes w \<and> b = (nodes w p \<noteq> None)"
    using Z ok x unfolding zk_service_def exists_law_def p_def by blast
  have l2: "up w2 \<Longrightarrow> up w1 \<and> nodes w2 = (\<lambda>q. if q \<in> ztree_below p then None else nodes w1 q)"
    using Z ok d unfolding zk_service_def delete_recursive_law_def p_def by blast
  show "up w" using l1 l2 up del by (cases b) auto
  assume a: "nodes w p \<noteq> None \<or> leaf p (nodes w)"
  show "nodes (DeleteServiceEndpoint Z tp e w) = (\<lambda>q. if q \<in> ztree_below p then None else nodes w q)"
  proof (cases b)
    case True
    then show ?thesis using l1 l2 up del by (auto simp: fun_eq_iff)
  next
    case False
    then have "nodes w1 = nodes w" "nodes w p = None" using l1 up del by (cases "nodes w p"; simp)+
    then show ?thesis using False del a by (auto simp: leaf_def fun_eq_iff)
  qed
qed

text \<open>Whatever lies below the node, it is gone afterwards.\<close>

lemma DeleteServiceEndpoint_gone:
  assumes Z: "zk_service Z (tp_ZkConn tp) up nodes" and tp: "topology_ok tp"
    and good: "good_name (ep_Service e)" "good_name (ep_ServiceId e)" and up: "up (DeleteServiceEndpoint Z tp e w)"
  shows "nodes (DeleteServiceEndpoint Z tp e w) (zpath (endpoint_names tp (ep_Service e) (ep_ServiceId e))) = None"
proof -
  let ?p = "zpath (endpoint_names tp (ep_Service e) (ep_ServiceId e))"
  have ok: "names_ok (endpoint_names tp (ep_Service e) (ep_ServiceId e))" by (rule endpoint_names_ok [OF tp good])
  show ?thesis
  proof (cases "nodes w ?p")
    case (Some y)
    then show ?thesis using DeleteServiceEndpoint_spec(2) [OF Z tp good up] by (simp add: ztree_below_def)
  next
    case None
    obtain b e1 w1 where x: "NodeExists Z (tp_ZkConn tp) ?p w = (b, e1, w1)" by (metis prod_cases3)
    obtain r e2 w2 where d: "DeleteRecursive Z (tp_ZkConn tp) ?p (-1) w1 = (r, e2, w2)" by (metis prod_cases3)
    have del: "DeleteServiceEndpoint Z tp e w = (if b then w2 else w1)"
      using x d endpoint_zpath [OF tp] FullPath_endpoint [OF tp, of "ep_Service e" "ep_ServiceId e"]
      by (simp add: DeleteServiceEndpoint_def Exist_def endpoint_path_def)
    have "up w2 \<Longrightarrow> nodes w2 ?p = None"
      using Z ok d unfolding zk_service_def delete_recursive_law_def by (simp add: ztree_below_def)
    moreover have "up w1 \<Longrightarrow> nodes w1 = nodes w" using Z ok x unfolding zk_service_def exists_law_def by blast
    ultimately show ?thesis using up del None by (cases b) auto
  qed
qed

subsection \<open>Reading it back\<close>

definition endpoint_utf8 :: "ServiceEndpoint \<Rightarrow> bool" where
  "endpoint_utf8 e \<longleftrightarrow> (\<forall>v \<in> set (map snd (endpoint_fields e)). utf8_valid v)"

lemma tags_utf8: "\<forall>k \<in> set (map fst (endpoint_fields e)). utf8_valid k"
  by (simp add: endpoint_fields_def utf8_len.simps ord_def)

lemma endpoint_of_fields: "endpoint_of (endpoint_fields e) = e"
  by (simp add: endpoint_of_def endpoint_fields_def)

lemma endpoint_json:
  assumes "endpoint_utf8 e"
  shows "json_Unmarshal (json_Marshal (endpoint_fields e)) (endpoint_fields empty_endpoint) = (None, endpoint_fields e)"
proof (rule json_roundtrip)
  show "\<forall>(k, v) \<in> set (endpoint_fields e). utf8_valid k \<and> utf8_valid v"
    using assms tags_utf8 [of e] by (auto simp: endpoint_utf8_def)
  show "distinct (map fst (endpoint_fields e))" by (simp add: endpoint_fields_def)
qed (simp_all add: endpoint_fields_def)

lemma GetServiceEndpoint_spec:
  fixes tp :: "('s, 'w) topology"
  assumes Z: "zk_service Z (tp_ZkConn tp) up nodes" and tp: "topology_ok tp"
    and good: "good_name service" "good_name serviceId"
    and g: "GetServiceEndpoint tp service serviceId w = (res, w')" and up: "up w'"
  shows "up w" and "nodes w' = nodes w"
    and "nodes w (zpath (endpoint_names tp service serviceId)) = None \<Longrightarrow> res = Inl (Inr ErrNoNode)"
    and "nodes w (zpath (endpoint_names tp service serviceId)) = Some (string_bytes (json_Marshal (endpoint_fields e)), eph)
      \<Longrightarrow> endpoint_utf8 e \<Longrightarrow> res = Inr e"
proof -
  let ?p = "zpath (endpoint_names tp service serviceId)"
  have ok: "names_ok (endpoint_names tp service serviceId)" by (rule endpoint_names_ok [OF tp good])
  obtain d st err w1 where z: "zk_Get (tp_ZkConn tp) ?p w = ((d, st), err, w1)" by (metis prod_cases3 surj_pair)
  have w1: "w1 = w'" using g z endpoint_zpath [OF tp, of service serviceId]
    by (auto simp: GetServiceEndpoint_def split: option.splits prod.splits)
  have l: "up w \<and> nodes w1 = nodes w \<and>
      (case nodes w ?p of None \<Rightarrow> err = Some ErrNoNode | Some (x, _) \<Rightarrow> err = None \<and> d = x)"
    using Z ok z up w1 unfolding zk_service_def get_law_def by blast
  then show "up w" "nodes w' = nodes w" using w1 by auto
  show "nodes w ?p = None \<Longrightarrow> res = Inl (Inr ErrNoNode)"
    using l g z endpoint_zpath [OF tp, of service serviceId] by (simp add: GetServiceEndpoint_def)
  show "nodes w ?p = Some (string_bytes (json_Marshal (endpoint_fields e)), eph) \<Longrightarrow> endpoint_utf8 e \<Longrightarrow> res = Inr e"
    using l g z endpoint_zpath [OF tp, of service serviceId] endpoint_json [of e]
    by (simp add: GetServiceEndpoint_def endpoint_of_fields)
qed

subsection \<open>Registering\<close>

text \<open>The tree after a server has registered: its node is new, missing parents are there.\<close>

definition registered_tree :: "('s, 'w) topology \<Rightarrow> ServiceEndpoint \<Rightarrow> ztree \<Rightarrow> ztree" where
  "registered_tree tp e N =
     (let ns = endpoint_names tp (ep_Service e) (ep_ServiceId e) in
      (with_parents ns (\<lambda>q. if q \<in> ztree_below (zpath ns) then None else N q))
        (zpath ns \<mapsto> (string_bytes (json_Marshal (endpoint_fields e)), True)))"

text \<open>No parent of the node is ephemeral, and nodes have parents.\<close>

definition can_register :: "('s, 'w) topology \<Rightarrow> ServiceEndpoint \<Rightarrow> ztree \<Rightarrow> bool" where
  "can_register tp e N \<longleftrightarrow>
     (let ns = endpoint_names tp (ep_Service e) (ep_ServiceId e) in
      path_ok ns N \<and> (N (zpath ns) \<noteq> None \<or> leaf (zpath ns) N))"

definition endpoint_ok :: "ServiceEndpoint \<Rightarrow> bool" where
  "endpoint_ok e \<longleftrightarrow> good_name (ep_Service e) \<and> good_name (ep_ServiceId e) \<and> endpoint_utf8 e"

lemma path_ok_delete:
  assumes "path_ok ns N"
  shows "path_ok ns (\<lambda>q. if q \<in> ztree_below (zpath ns) then None else N q)"
proof -
  have below: "zpath (take k ns) \<notin> ztree_below (zpath ns)" if "k < length ns" for k
  proof
    assume "zpath (take k ns) \<in> ztree_below (zpath ns)"
    then have "length (zpath ns) \<le> length (zpath (take k ns))" by (auto simp: ztree_below_def)
    moreover have "zpath ns = zpath (take k ns) @ zpath (drop k ns)"
      using zpath_simps(3) [of "take k ns" "drop k ns"] by simp
    ultimately have "zpath (drop k ns) = []" by (metis append.right_neutral append_eq_append_conv length_append le_add1 le_antisym)
    then show False using that by (cases "drop k ns") auto
  qed
  show ?thesis unfolding path_ok_def
  proof (intro allI impI)
    fix k assume k: "0 < k \<and> k < length ns"
    then show "((if zpath (take (Suc k) ns) \<in> ztree_below (zpath ns) then None else N (zpath (take (Suc k) ns))) \<noteq> None \<longrightarrow>
        (if zpath (take k ns) \<in> ztree_below (zpath ns) then None else N (zpath (take k ns))) \<noteq> None) \<and>
        (\<forall>d. (if zpath (take k ns) \<in> ztree_below (zpath ns) then None else N (zpath (take k ns))) \<noteq> Some (d, True))"
      using assms below [of k] unfolding path_ok_def by auto
  qed
qed

lemma register_spec:
  assumes Z: "zk_service Z (tp_ZkConn tp) up nodes" and tp: "topology_ok tp" and e: "endpoint_ok e"
  shows "\<exists>err w'. register Z tp e w = Some (Ret (err, w')) \<and>
    (up w' \<longrightarrow> up w \<and> (can_register tp e (nodes w) \<longrightarrow> err = None \<and> nodes w' = registered_tree tp e (nodes w)))"
proof -
  let ?ns = "endpoint_names tp (ep_Service e) (ep_ServiceId e)"
  let ?w1 = "DeleteServiceEndpoint Z tp e w"
  have good: "good_name (ep_Service e)" "good_name (ep_ServiceId e)" using e by (auto simp: endpoint_ok_def)
  obtain err w' where a: "AddServiceEndpoint Z tp e ?w1 = Some (Ret (err, w'))"
    and l: "up w' \<longrightarrow> up ?w1 \<and> (path_ok ?ns (nodes ?w1) \<and> leaf (zpath ?ns) (nodes ?w1) \<longrightarrow>
      err = None \<and> nodes w' = (with_parents ?ns (nodes ?w1))
        (zpath ?ns \<mapsto> (string_bytes (json_Marshal (endpoint_fields e)), True)))"
    using AddServiceEndpoint_spec [OF Z tp good, of ?w1] by blast
  have "up w \<and> (can_register tp e (nodes w) \<longrightarrow> err = None \<and> nodes w' = registered_tree tp e (nodes w))"
    if u: "up w'"
  proof (intro conjI impI)
    have u1: "up ?w1" using l u by blast
    note d = DeleteServiceEndpoint_spec [OF Z tp good u1]
    show "up w" by (rule d(1))
    assume c: "can_register tp e (nodes w)"
    then have n1: "nodes ?w1 = (\<lambda>q. if q \<in> ztree_below (zpath ?ns) then None else nodes w q)"
      using d(2) unfolding can_register_def Let_def by blast
    have "path_ok ?ns (nodes ?w1)" using c path_ok_delete unfolding n1 can_register_def Let_def by blast
    moreover have "leaf (zpath ?ns) (nodes ?w1)" unfolding n1 by (simp add: leaf_def)
    ultimately show "err = None" "nodes w' = registered_tree tp e (nodes w)"
      using l u n1 by (simp_all add: registered_tree_def Let_def)
  qed
  then show ?thesis using a by (simp add: register_def)
qed

lemma registered_tree_self:
  "registered_tree tp e N (zpath (endpoint_names tp (ep_Service e) (ep_ServiceId e))) =
     Some (string_bytes (json_Marshal (endpoint_fields e)), True)"
  by (simp add: registered_tree_def Let_def)

lemma registered_tree_other:
  "q \<notin> ztree_below (zpath (endpoint_names tp (ep_Service e) (ep_ServiceId e))) \<Longrightarrow> N q = Some y \<Longrightarrow>
     registered_tree tp e N q = Some y"
  by (auto simp: registered_tree_def Let_def with_parents_def ztree_below_def)

text \<open>
  C15: A server that registers while its session stays up is announced: the call returns without
  error, the tree differs exactly by the server's ephemeral node, which replaces an older one
  and all below it, and by the missing parent directories, and whoever then reads the node with
  \<open>GetServiceEndpoint\<close> gets back the endpoint that was registered.
\<close>

theorem registration_readable:
  assumes Z: "zk_service Z (tp_ZkConn tp) up nodes" and tp: "topology_ok tp" and e: "endpoint_ok e"
    and tree: "can_register tp e (nodes w)"
  shows "\<exists>err w'. register Z tp e w = Some (Ret (err, w')) \<and> (up w' \<longrightarrow>
    err = None \<and> nodes w' = registered_tree tp e (nodes w) \<and>
    (\<forall>res w''. GetServiceEndpoint tp (ep_Service e) (ep_ServiceId e) w' = (res, w'') \<and> up w'' \<longrightarrow>
       res = Inr e \<and> nodes w'' = nodes w'))"
proof -
  obtain err w' where r: "register Z tp e w = Some (Ret (err, w'))"
    and l: "up w' \<longrightarrow> up w \<and> (can_register tp e (nodes w) \<longrightarrow> err = None \<and> nodes w' = registered_tree tp e (nodes w))"
    using register_spec [OF Z tp e] by blast
  have good: "good_name (ep_Service e)" "good_name (ep_ServiceId e)" and u8: "endpoint_utf8 e"
    using e by (auto simp: endpoint_ok_def)
  have "res = Inr e \<and> nodes w'' = nodes w'"
    if "up w'" "GetServiceEndpoint tp (ep_Service e) (ep_ServiceId e) w' = (res, w'')" "up w''" for res w''
  proof -
    have "nodes w' (zpath (endpoint_names tp (ep_Service e) (ep_ServiceId e))) =
        Some (string_bytes (json_Marshal (endpoint_fields e)), True)"
      using l tree that(1) registered_tree_self by simp
    then show ?thesis
      using GetServiceEndpoint_spec(2) [OF Z tp good that(2,3)] GetServiceEndpoint_spec(4) [OF Z tp good that(2,3) _ u8]
      by blast
  qed
  then show ?thesis using r l tree by blast
qed

text \<open>
  C16: When a server that watches its service is told that its session is lost, the next turn of
  its loop registers it again: the loop goes on, and with the new session up the tree has the
  server's node, whether the old one had already vanished or not.
\<close>

theorem expired_session_registers_again:
  assumes Z: "zk_service Z (tp_ZkConn tp) up nodes" and tp: "topology_ok tp" and e: "endpoint_ok e"
    and watch: "WatchNode tp (ProductServicePath tp (ep_Service e)) True w = (Inr x, w1)"
    and lost: "session_lost ev" and tree: "can_register tp e (nodes (later w1))"
  shows "\<exists>w'. RegisterService_turn Z tp e (RegEvent ev) later w = Some (Ret (True, w')) \<and>
    (up w' \<longrightarrow> nodes w' = registered_tree tp e (nodes (later w1)))"
proof -
  obtain err w' where "register Z tp e (later w1) = Some (Ret (err, w'))"
    "up w' \<longrightarrow> nodes w' = registered_tree tp e (nodes (later w1))"
    using register_spec [OF Z tp e, of "later w1"] tree by blast
  then show ?thesis using watch lost by (simp add: RegisterService_turn_def)
qed

subsection \<open>A registration\<close>

definition demo_endpoint :: ServiceEndpoint where
  "demo_endpoint = \<lparr>ep_Service = ''typo'', ep_ServiceId = ''10_1_1_7_5555'', ep_Frontend = ''10.1.1.7:5555'',
     ep_DeployPath = ''/srv/typo'', ep_CodeUrlVerion = ''git@a\<newline>'', ep_Hostname = ''h1'', ep_StartTime = ''2015-09-01 12:00:00''\<rparr>"

definition demo_world :: zworld where
  "demo_world = [(''/zk'', [], False), (''/zk/product'', [], False), (''/zk/product/online'', [1], False)]"

lemma demo_topology_ok: "topology_ok (tree_topology ''online'')"
  by (simp add: topology_ok_def tree_topology_def good_name_def)

lemma tree_topology_service: "zk_service tree_helper (tp_ZkConn (tree_topology p)) (\<lambda>_. True) map_of"
  by (simp add: tree_topology_def)

lemma demo_endpoint_ok: "endpoint_ok demo_endpoint"
  by (simp add: endpoint_ok_def endpoint_utf8_def endpoint_fields_def demo_endpoint_def good_name_def
      utf8_len.simps ord_def)

text \<open>Both conditions on the tree are checks of finitely many nodes.\<close>

lemma path_ok_check:
  "path_ok ns (N :: ztree) \<longleftrightarrow> list_all (\<lambda>k. (N (zpath (take (Suc k) ns)) \<noteq> None \<longrightarrow> N (zpath (take k ns)) \<noteq> None)
     \<and> (case N (zpath (take k ns)) of Some (_, True) \<Rightarrow> False | _ \<Rightarrow> True)) [1 ..< length ns]"
proof -
  have "(\<forall>d. x \<noteq> Some (d, True)) \<longleftrightarrow> (case x of Some (_, True) \<Rightarrow> False | _ \<Rightarrow> True)" for x :: "(byte list \<times> bool) option"
    by (auto split: option.splits prod.splits bool.splits)
  then show ?thesis unfolding path_ok_def list_all_iff by (auto simp: Suc_le_eq simp del: not_None_eq)
qed

lemma leaf_check: "list_all (\<lambda>n. is_below p (fst n) \<longrightarrow> fst n = p) w \<Longrightarrow> leaf p (map_of w)"
  by (auto simp: list_all_iff leaf_def is_below_iff map_of_eq_None_iff)

lemma demo_names: "endpoint_names (tree_topology ''online'') (ep_Service demo_endpoint) (ep_ServiceId demo_endpoint) =
    [''zk'', ''product'', ''online'', ''services'', ''typo'', ''10_1_1_7_5555'']"
  by (simp add: endpoint_names_def tree_topology_def demo_endpoint_def)

lemma demo_can_register: "can_register (tree_topology ''online'') demo_endpoint (map_of demo_world)"
  unfolding can_register_def demo_names Let_def
proof
  show "path_ok [''zk'', ''product'', ''online'', ''services'', ''typo'', ''10_1_1_7_5555''] (map_of demo_world)"
    by (simp add: path_ok_check demo_world_def upt_rec)
  show "map_of demo_world (zpath [''zk'', ''product'', ''online'', ''services'', ''typo'', ''10_1_1_7_5555'']) \<noteq> None
      \<or> leaf (zpath [''zk'', ''product'', ''online'', ''services'', ''typo'', ''10_1_1_7_5555'']) (map_of demo_world)"
    by (rule disjI2, rule leaf_check) (simp add: demo_world_def is_below_def)
qed

theorem registration_readable_witness:
  "\<exists>err w'. register tree_helper (tree_topology ''online'') demo_endpoint demo_world = Some (Ret (err, w'))
     \<and> err = None \<and> map_of w' ''/zk/product/online'' = Some ([1], False)
     \<and> fst (GetServiceEndpoint (tree_topology ''online'') ''typo'' ''10_1_1_7_5555'' w') = Inr demo_endpoint"
proof -
  obtain err w' where r: "register tree_helper (tree_topology ''online'') demo_endpoint demo_world = Some (Ret (err, w'))"
    and l: "err = None" "map_of w' = registered_tree (tree_topology ''online'') demo_endpoint (map_of demo_world)"
    "\<And>res w''. GetServiceEndpoint (tree_topology ''online'') (ep_Service demo_endpoint) (ep_ServiceId demo_endpoint) w' = (res, w'')
       \<Longrightarrow> res = Inr demo_endpoint"
    using registration_readable [OF tree_topology_service demo_topology_ok demo_endpoint_ok demo_can_register] by blast
  have "map_of w' ''/zk/product/online'' = Some ([1], False)"
    unfolding l(2) by (rule registered_tree_other)
      (simp_all add: ztree_below_def endpoint_names_def tree_topology_def demo_endpoint_def demo_world_def)
  moreover have "fst (GetServiceEndpoint (tree_topology ''online'') ''typo'' ''10_1_1_7_5555'' w') = Inr demo_endpoint"
    using l(3) by (cases "GetServiceEndpoint (tree_topology ''online'') ''typo'' ''10_1_1_7_5555'' w'")
      (simp add: demo_endpoint_def)
  ultimately show ?thesis using r l(1) by blast
qed

text \<open>The server's service exists, its session is lost, and its node vanishes with it.\<close>

definition demo_watched :: zworld where
  "demo_watched = (''/zk/product/online/services/typo'', [], False) # (''/zk/product/online/services'', [], False) # demo_world"

lemma demo_can_register_again: "can_register (tree_topology ''online'') demo_endpoint (map_of demo_watched)"
  unfolding can_register_def demo_names Let_def
proof
  show "path_ok [''zk'', ''product'', ''online'', ''services'', ''typo'', ''10_1_1_7_5555''] (map_of demo_watched)"
    by (simp add: path_ok_check demo_world_def demo_watched_def upt_rec)
  show "map_of demo_watched (zpath [''zk'', ''product'', ''online'', ''services'', ''typo'', ''10_1_1_7_5555'']) \<noteq> None
      \<or> leaf (zpath [''zk'', ''product'', ''online'', ''services'', ''typo'', ''10_1_1_7_5555'']) (map_of demo_watched)"
    by (rule disjI2, rule leaf_check) (simp add: demo_world_def demo_watched_def is_below_def)
qed

theorem expired_session_registers_again_witness:
  "\<exists>w'. RegisterService_turn tree_helper (tree_topology ''online'') demo_endpoint
      (RegEvent \<lparr>EvType = EventOther 0, EvState = StateExpired, EvPath = []\<rparr>) (\<lambda>w. w) demo_watched = Some (Ret (True, w'))
     \<and> map_of w' ''/zk/product/online/services/typo/10_1_1_7_5555'' =
         Some (string_bytes (json_Marshal (endpoint_fields demo_endpoint)), True)"
proof -
  have w: "WatchNode (tree_topology ''online'') (ProductServicePath (tree_topology ''online'') (ep_Service demo_endpoint)) True
      demo_watched = (Inr ([], Some 0), demo_watched)"
    by (simp add: WatchNode_def tree_topology_def tree_conn_def tree_get_def ProductServicePath_def productBasePath_def
        demo_endpoint_def demo_watched_def)
  have lost: "session_lost \<lparr>EvType = EventOther 0, EvState = StateExpired, EvPath = []\<rparr>" by (simp add: session_lost_def)
  have path: "''/zk/product/online/services/typo/10_1_1_7_5555'' =
      zpath (endpoint_names (tree_topology ''online'') (ep_Service demo_endpoint) (ep_ServiceId demo_endpoint))"
    by (simp add: endpoint_names_def tree_topology_def demo_endpoint_def)
  show ?thesis unfolding path
    using expired_session_registers_again [OF tree_topology_service demo_topology_ok demo_endpoint_ok w lost,
        where later = "\<lambda>w. w", OF demo_can_register_again]
    by (auto simp: registered_tree_self)
qed

end
