(* ===== verification/Discovery.thy ===== *)
theory Discovery
  imports Endpoint Proxy_Machine "HOL-Library.List_Lexorder" "HOL-Library.Char_ord"
begin

text \<open>
  How the proxy learns of servers: the loops of \<open>WatchServices\<close> (\<open>proxy/router_proxy.go\<close>) and
  \<open>WatchBackServiceNodes\<close> (\<open>proxy/backend_service_proxy.go\<close>) with their reads from zookeeper.
  The rounds that follow a successful read are those of \<open>Router\<close> and \<open>Back_Service\<close>; here the
  reads are put before them. The theory shows that a server that has registered is connected to
  by the next turn of its service's loop.
\<close>

subsection \<open>Reading the endpoints of a service\<close>

fun read_endpoints :: "('s, 'w) topology \<Rightarrow> string \<Rightarrow> string list \<Rightarrow> 'w \<Rightarrow>
    (string \<times> ((go_error + zk_error) + ServiceEndpoint)) list \<times> 'w" where
  "read_endpoints tp service [] w = ([], w)"
| "read_endpoints tp service (serviceId # ids) w =
     (let (res, w1) = GetServiceEndpoint tp service serviceId w;
          (rs, w2) = read_endpoints tp service ids w1 in
      ((serviceId, res) # rs, w2))"

definition frontend_of :: "(string \<times> ((go_error + zk_error) + ServiceEndpoint)) list \<Rightarrow> string \<Rightarrow> go_error + string" where
  "frontend_of rs i =
     (case map_of rs i of Some (Inr e) \<Rightarrow> Inr (ep_Frontend e) | _ \<Rightarrow> Inl (ErrorString ''Service Endpoint Read Error''))"

text \<open>
  A turn of the loop of \<open>WatchBackServiceNodes\<close>, up to its wait for an event; the first component
  says whether the loop goes on. \<open>order1\<close> and \<open>order2\<close> are the orders in which Go visits the two
  maps.
\<close>

definition WatchBackServiceNodes_turn :: "(string set \<Rightarrow> string list) \<Rightarrow> (string set \<Rightarrow> string list) \<Rightarrow>
    ('s, 'w) topology \<Rightarrow> nat \<Rightarrow> 'w \<Rightarrow> pstate \<Rightarrow> (bool \<times> 'w \<times> pstate) outcome" where
  "WatchBackServiceNodes_turn order1 order2 tp s w ps =
     (if svc_stop (svcs ps s) then Ret (False, w, ps)
      else
        (case WatchChildren tp (ProductServicePath tp (serviceName (svcs ps s))) w of
           (Inl err, w1) \<Rightarrow> Ret (True, w1, ps)
         | (Inr (serviceIds, evtch), w1) \<Rightarrow>
             let (rs, w2) = read_endpoints tp (serviceName (svcs ps s)) serviceIds w1;
                 addressMap = addressMap_of (productName (svcs ps s)) (frontend_of rs) serviceIds in
             obind (WatchBackServiceNodes_round s addressMap (order1 addressMap)
                      (order2 (dom (addr2Conn (svcs ps s)) \<union> addressMap)) ps)
               (\<lambda>ps'. Ret (True, w2, ps'))))"

subsection \<open>Reading the services\<close>

text \<open>What \<open>WatchServices\<close> does before its loop: without the directory the process ends.\<close>

definition WatchServices_start :: "('s, 'w) zk_helper \<Rightarrow> ('s, 'w) topology \<Rightarrow> 'w \<Rightarrow> zk_exit + 'w" where
  "WatchServices_start Z tp w =
     (let (_, e1, w1) = CreateDir Z tp (ProductServicesPath tp) w in
      if e1 \<noteq> None then Inl (Fatal (''Zk Path Create Failed: '' @ ProductServicesPath tp)) else Inr w1)"

definition WatchServices_turn :: "(string set \<Rightarrow> string list) \<Rightarrow> ('s, 'w) topology \<Rightarrow> 'w \<Rightarrow> router \<Rightarrow> pstate \<Rightarrow>
    ('w \<times> router \<times> pstate) outcome" where
  "WatchServices_turn order tp w r ps =
     (case WatchChildren tp (ProductServicesPath tp) w of
        (Inl err, w1) \<Rightarrow> Ret (w1, r, ps)
      | (Inr (services, evtch), w1) \<Rightarrow>
          obind (WatchServices_round services (order (dom (rt_services r) - set services)) r ps)
            (\<lambda>(r', ps'). Ret (w1, r', ps')))"

subsection \<open>What is read\<close>

lemma read_endpoints_spec:
  assumes Z: "zk_service Z (tp_ZkConn tp) up nodes" and tp: "topology_ok tp" and s: "good_name service"
  shows "\<forall>i \<in> set ids. good_name i \<Longrightarrow> read_endpoints tp service ids w = (rs, w') \<Longrightarrow> up w' \<Longrightarrow>
    up w \<and> nodes w' = nodes w \<and> (\<forall>i \<in> set ids. \<forall>e eph. endpoint_utf8 e \<and>
      nodes w (zpath (endpoint_names tp service i)) = Some (string_bytes (json_Marshal (endpoint_fields e)), eph) \<longrightarrow>
        frontend_of rs i = Inr (ep_Frontend e))"
proof (induction ids arbitrary: w rs)
  case Nil
  then show ?case by simp
next
  case (Cons i ids)
  obtain res w1 where g: "GetServiceEndpoint tp service i w = (res, w1)" by fastforce
  obtain rs1 w2 where r: "read_endpoints tp service ids w1 = (rs1, w2)" by fastforce
  have rs: "rs = (i, res) # rs1" "w2 = w'" using Cons.prems(2) g r by simp_all
  have IH: "up w1 \<and> nodes w' = nodes w1 \<and> (\<forall>i \<in> set ids. \<forall>e eph. endpoint_utf8 e \<and>
      nodes w1 (zpath (endpoint_names tp service i)) = Some (string_bytes (json_Marshal (endpoint_fields e)), eph) \<longrightarrow>
        frontend_of rs1 i = Inr (ep_Frontend e))"
    using Cons.IH [of w1 rs1] Cons.prems r rs by simp
  have gi: "good_name i" using Cons.prems(1) by simp
  note G = GetServiceEndpoint_spec [OF Z tp s gi g conjunct1 [OF IH]]
  have "frontend_of rs j = Inr (ep_Frontend e)"
    if "j \<in> set (i # ids)" "endpoint_utf8 e"
      "nodes w (zpath (endpoint_names tp service j)) = Some (string_bytes (json_Marshal (endpoint_fields e)), eph)"
    for j e eph
  proof (cases "j = i")
    case True
    then have "res = Inr e" using G(4) that by blast
    then show ?thesis using rs True by (simp add: frontend_of_def)
  next
    case False
    then have "frontend_of rs1 j = Inr (ep_Frontend e)" using IH G(2) that by auto
    then show ?thesis using rs False by (simp add: frontend_of_def)
  qed
  then show ?case using G(1,2) IH by auto
qed

lemma read_endpoints_up:
  assumes Z: "zk_service Z (tp_ZkConn tp) up nodes"
  shows "read_endpoints tp service ids w = (rs, w') \<Longrightarrow> up w' \<Longrightarrow> up w"
proof (induction ids arbitrary: w rs)
  case (Cons i ids)
  obtain res w1 where g: "GetServiceEndpoint tp service i w = (res, w1)" by fastforce
  then obtain r e where z: "zk_Get (tp_ZkConn tp) (ProductServiceEndPointPath tp service i) w = (r, e, w1)"
    by (auto simp: GetServiceEndpoint_def split: prod.splits option.splits)
  have "up w1" using Cons g by (auto split: prod.splits)
  then show ?case using Z z unfolding zk_service_def get_law_def by blast
qed simp

lemma WatchChildren_spec:
  assumes Z: "zk_service Z (tp_ZkConn tp) up nodes" and ok: "names_ok ns"
    and w: "WatchChildren tp (zpath ns) w = (res, w')" and up: "up w'"
  shows "up w" "nodes w' = nodes w"
    and "nodes w (zpath ns) = None \<Longrightarrow> res = Inl ErrNoNode"
    and "nodes w (zpath ns) \<noteq> None \<Longrightarrow> \<exists>cs ch. res = Inr (cs, ch)
      \<and> (\<forall>n. n \<in> set cs \<longleftrightarrow> good_name n \<and> nodes w (zpath (ns @ [n])) \<noteq> None)"
proof -
  obtain cs st ch e w1 where z: "zk_ChildrenW (tp_ZkConn tp) (zpath ns) w = ((cs, st, ch), e, w1)"
    by (metis prod_cases3)
  have w1: "w1 = w'" using w z by (auto simp: WatchChildren_def split: option.splits)
  have l: "up w \<and> nodes w1 = nodes w \<and> (if nodes w (zpath ns) = None then e = Some ErrNoNode
         else e = None \<and> (\<forall>n. n \<in> set cs \<longleftrightarrow> good_name n \<and> nodes w (zpath (ns @ [n])) \<noteq> None))"
    using Z ok z up w1 unfolding zk_service_def children_law_def by blast
  then show "up w" "nodes w' = nodes w" using w1 by auto
  show "nodes w (zpath ns) = None \<Longrightarrow> res = Inl ErrNoNode" using l w z by (auto simp: WatchChildren_def)
  assume "nodes w (zpath ns) \<noteq> None"
  then have "e = None \<and> (\<forall>n. n \<in> set cs \<longleftrightarrow> good_name n \<and> nodes w (zpath (ns @ [n])) \<noteq> None)" using l by simp
  then show "\<exists>cs ch. res = Inr (cs, ch) \<and> (\<forall>n. n \<in> set cs \<longleftrightarrow> good_name n \<and> nodes w (zpath (ns @ [n])) \<noteq> None)"
    using w z by (auto simp: WatchChildren_def)
qed

subsection \<open>A registered server is connected to\<close>

definition enumerates :: "('a set \<Rightarrow> 'a list) \<Rightarrow> bool" where
  "enumerates order \<longleftrightarrow> (\<forall>A. finite A \<longrightarrow> distinct (order A) \<and> set (order A) = A)"

lemma addressMap_of_iff:
  "a \<in> addressMap_of p look ids \<longleftrightarrow> (\<exists>i \<in> set ids. look i = Inr a \<and> (strings_Contains a '':'' \<or> p = TEST_PRODUCT_NAME))"
  by (induction ids) (auto split: sum.splits)

lemma finite_addressMap: "finite (addressMap_of p look ids)"
  by (induction ids) (auto split: sum.splits)

text \<open>The address of a registered server is among those read, unless the session was lost.\<close>

lemma frontend_listed:
  assumes Z: "zk_service Z (tp_ZkConn tp) up nodes" and tp: "topology_ok tp"
    and e: "endpoint_ok e" "strings_Contains (ep_Frontend e) '':''"
    and service: "nodes w (ProductServicePath tp (ep_Service e)) \<noteq> None"
    and registered: "nodes w (endpoint_path tp e) = Some (string_bytes (json_Marshal (endpoint_fields e)), True)"
    and wc: "WatchChildren tp (ProductServicePath tp (ep_Service e)) w = (Inr (ids, ch), w1)"
    and rd: "read_endpoints tp (ep_Service e) ids w1 = (rs, w2)" and u2: "up w2"
  shows "ep_Frontend e \<in> addressMap_of product (frontend_of rs) ids"
proof -
  have good: "good_name (ep_Service e)" "good_name (ep_ServiceId e)" "endpoint_utf8 e"
    using e(1) by (auto simp: endpoint_ok_def)
  let ?ns = "endpoint_names tp (ep_Service e) (ep_ServiceId e)"
  have path: "endpoint_path tp e = zpath ?ns" "ProductServicePath tp (ep_Service e) = zpath (butlast ?ns)"
    using endpoint_zpath [OF tp] service_zpath [OF tp] by (auto simp: endpoint_path_def)
  have okb: "names_ok (butlast ?ns)" using endpoint_names_ok [OF tp good(1,2)] by (simp add: names_ok_def endpoint_names_def)
  note wc = wc [unfolded path(2)] and present = service [unfolded path(2)]
  have u1: "up w1" by (rule read_endpoints_up [OF Z rd u2])
  have n1: "nodes w1 = nodes w" by (rule WatchChildren_spec(2) [OF Z okb wc u1])
  have ids: "n \<in> set ids \<longleftrightarrow> good_name n \<and> nodes w (zpath (butlast ?ns @ [n])) \<noteq> None" for n
    using WatchChildren_spec(4) [OF Z okb wc u1 present] by auto
  have "nodes w (zpath ?ns) \<noteq> None" using registered path(1) by simp
  then have mem: "ep_ServiceId e \<in> set ids"
    using ids [of "ep_ServiceId e"] good(2) endpoint_names_split(1) [of tp "ep_Service e" "ep_ServiceId e"] by simp
  have "\<forall>i \<in> set ids. good_name i" using ids by blast
  then have "frontend_of rs (ep_ServiceId e) = Inr (ep_Frontend e)"
    using read_endpoints_spec [OF Z tp good(1) _ rd u2] mem good(3) registered
    unfolding path(1) n1 by blast
  then show ?thesis using mem e(2) addressMap_of_iff by blast
qed

text \<open>
  C14: A server that has registered under a service with an address of a host and a port is
  connected to. In every reachable state of the proxy the next turn of the service's loop
  returns, and if the proxy's session is up after it, the service has a connection to the
  server's address that is not offline; the connection it had is kept.
\<close>

theorem server_discovered:
  assumes reach: "proxy_init product verbose ps0 st0" "(proxy_step T)\<^sup>*\<^sup>* st0 (r, ps)" and s: "s < next_svc ps"
    and run: "\<not> svc_stop (svcs ps s)" and fin: "finite (dom (addr2Conn (svcs ps s)))"
    and orders: "enumerates order1" "enumerates order2"
    and Z: "zk_service Z (tp_ZkConn tp) up nodes" and tp: "topology_ok tp"
    and e: "endpoint_ok e" "ep_Service e = serviceName (svcs ps s)" "strings_Contains (ep_Frontend e) '':''"
    and service: "nodes w (ProductServicePath tp (ep_Service e)) \<noteq> None"
    and registered: "nodes w (endpoint_path tp e) = Some (string_bytes (json_Marshal (endpoint_fields e)), True)"
  shows "\<exists>w' ps'. WatchBackServiceNodes_turn order1 order2 tp s w ps = Ret (True, w', ps') \<and> (up w' \<longrightarrow>
    (\<exists>c. online s ps' (ep_Frontend e) c \<and> (\<forall>c0. online s ps (ep_Frontend e) c0 \<longrightarrow> c = c0)))"
proof -
  have inv: "proc_inv ps" using proxy_reachable [OF reach(2,1)] by (simp add: proxy_inv_def)
  have good: "good_name (ep_Service e)" "good_name (ep_ServiceId e)" "endpoint_utf8 e"
    using e(1) by (auto simp: endpoint_ok_def)
  let ?ns = "endpoint_names tp (ep_Service e) (ep_ServiceId e)"
  have path: "endpoint_path tp e = zpath ?ns" "ProductServicePath tp (ep_Service e) = zpath (butlast ?ns)"
    using endpoint_zpath [OF tp] service_zpath [OF tp] by (auto simp: endpoint_path_def)
  have okb: "names_ok (butlast ?ns)" using endpoint_names_ok [OF tp good(1,2)] by (simp add: names_ok_def endpoint_names_def)
  obtain res w1 where wc: "WatchChildren tp (zpath (butlast ?ns)) w = (res, w1)" by fastforce
  have wc': "WatchChildren tp (ProductServicePath tp (serviceName (svcs ps s))) w = (res, w1)"
    using wc path(2) e(2) by simp
  have present: "nodes w (zpath (butlast ?ns)) \<noteq> None" using service path(2) by simp
  show ?thesis
  proof (cases res)
    case (Inl err)
    have "\<not> up w1"
    proof
      assume "up w1"
      then show False using WatchChildren_spec(4) [OF Z okb wc _ present] Inl by blast
    qed
    then show ?thesis using wc' Inl run by (simp add: WatchBackServiceNodes_turn_def)
  next
    case (Inr x)
    obtain ids ch where x: "x = (ids, ch)" by fastforce
    obtain rs w2 where rd: "read_endpoints tp (ep_Service e) ids w1 = (rs, w2)" by fastforce
    let ?am = "addressMap_of (productName (svcs ps s)) (frontend_of rs) ids"
    let ?olds = "order2 (dom (addr2Conn (svcs ps s)) \<union> ?am)"
    have adds: "distinct (order1 ?am)" "set (order1 ?am) = ?am"
      using orders(1) finite_addressMap unfolding enumerates_def by blast+
    have olds: "set ?olds = dom (addr2Conn (svcs ps s)) \<union> ?am"
      using orders(2) fin finite_addressMap [of "productName (svcs ps s)" "frontend_of rs" ids]
      by (simp add: enumerates_def)
    obtain ps' where round: "WatchBackServiceNodes_round s ?am (order1 ?am) ?olds ps = Ret ps'"
      and conn: "\<forall>a \<in> ?am. \<exists>c. online s ps' a c \<and> (\<forall>c0. online s ps a c0 \<longrightarrow> c = c0)"
      using WatchBackServiceNodes_round_spec [OF inv s adds olds] by blast
    have turn: "WatchBackServiceNodes_turn order1 order2 tp s w ps = Ret (True, w2, ps')"
      using wc' Inr x rd round run e(2) by (simp add: WatchBackServiceNodes_turn_def)
    have "ep_Frontend e \<in> ?am" if "up w2"
      by (rule frontend_listed [OF Z tp e(1,3) service registered _ rd that]) (use wc path(2) Inr x in simp)
    then show ?thesis using turn conn by blast
  qed
qed

subsection \<open>A discovery\<close>

definition demo_server :: ServiceEndpoint where
  "demo_server = demo_endpoint\<lparr>ep_Service := ''math'', ep_Frontend := ''c:3'', ep_ServiceId := ''c_3''\<rparr>"

definition demo_registry :: zworld where
  "demo_registry =
     [(''/zk/product/prod/services/math/c_3'', string_bytes (json_Marshal (endpoint_fields demo_server)), True),
      (''/zk/product/prod/services/math'', [], False), (''/zk/product/prod/services'', [], False)]"

lemma enumerates_sorted: "enumerates (sorted_list_of_set :: string set \<Rightarrow> string list)"
  by (simp add: enumerates_def)

theorem server_discovered_witness:
  "\<exists>w' ps'. WatchBackServiceNodes_turn sorted_list_of_set sorted_list_of_set (tree_topology ''prod'') 0 demo_registry demo_ps
      = Ret (True, w', ps') \<and> (\<exists>c. online 0 ps' ''c:3'' c)"
proof -
  have tp: "topology_ok (tree_topology ''prod'')" by (simp add: topology_ok_def tree_topology_def good_name_def)
  have e: "endpoint_ok demo_server" "ep_Service demo_server = serviceName (svcs demo_ps 0)"
    "strings_Contains (ep_Frontend demo_server) '':''"
    by (simp_all add: endpoint_ok_def endpoint_utf8_def endpoint_fields_def demo_server_def demo_endpoint_def good_name_def
        utf8_len.simps ord_def Contains_char)
  have s: "map_of demo_registry (ProductServicePath (tree_topology ''prod'') (ep_Service demo_server)) \<noteq> None"
    by (simp add: demo_registry_def ProductServicePath_def tree_topology_def productBasePath_def demo_server_def)
  have r: "map_of demo_registry (endpoint_path (tree_topology ''prod'') demo_server) =
      Some (string_bytes (json_Marshal (endpoint_fields demo_server)), True)"
    by (simp add: demo_registry_def endpoint_path_def ProductServiceEndPointPath_def tree_topology_def productBasePath_def
        demo_server_def)
  have ps: "0 < next_svc demo_ps" "\<not> svc_stop (svcs demo_ps 0)" "finite (dom (addr2Conn (svcs demo_ps 0)))"
    by (simp_all add: demo_ps_def demo_defs)
  obtain w' ps' where "WatchBackServiceNodes_turn sorted_list_of_set sorted_list_of_set (tree_topology ''prod'') 0
      demo_registry demo_ps = Ret (True, w', ps')" "\<exists>c. online 0 ps' (ep_Frontend demo_server) c"
    using server_discovered [OF demo_init demo_reach ps enumerates_sorted enumerates_sorted tree_topology_service tp e s r]
    by blast
  moreover have "ep_Frontend demo_server = ''c:3''" by (simp add: demo_server_def)
  ultimately show ?thesis by auto
qed

end
