(* ===== verification/Go_Errors.thy ===== *)
theory Go_Errors
  imports Go_Prelude
begin

text \<open>
  \<open>utils/errors\<close> and \<open>utils/trace\<close>: errors that carry the stack of the place where they were
  first seen, lists of errors, and the printing of stacks. The runtime's view of the stack,
  \<open>runtime.Caller\<close> with \<open>runtime.FuncForPC\<close>, is a parameter: the frame at each depth, if any.
\<close>

subsection \<open>Stacks\<close>

record trace_record =
  tr_Name :: string
  tr_File :: string
  tr_Line :: int

type_synonym trace_stack = "trace_record list"

text \<open>\<open>frames i\<close> is what the runtime knows of the caller \<open>i\<close> levels up: file, line, and the
  name of the function unless it is unknown.\<close>

type_synonym runtime_frames = "nat \<Rightarrow> (string \<times> int \<times> string option) option"

definition trace_Caller :: "runtime_frames \<Rightarrow> nat \<Rightarrow> trace_record option" where
  "trace_Caller frames skip =
     (case frames (skip + 1) of
        None \<Rightarrow> None
      | Some (file, line, fn) \<Rightarrow>
          (case fn of
             None \<Rightarrow> None
           | Some name \<Rightarrow>
               if strings_HasPrefix name ''runtime.'' then None
               else Some \<lparr>tr_Name = name, tr_File = file, tr_Line = line\<rparr>))"

fun TraceN_from :: "runtime_frames \<Rightarrow> nat \<Rightarrow> nat \<Rightarrow> trace_stack" where
  "TraceN_from frames skip 0 = []"
| "TraceN_from frames skip (Suc n) =
     (case trace_Caller frames (skip + 1) of
        None \<Rightarrow> []
      | Some r \<Rightarrow> r # TraceN_from frames (skip + 1) n)"

definition TraceN :: "runtime_frames \<Rightarrow> nat \<Rightarrow> nat \<Rightarrow> trace_stack" where
  "TraceN frames skip depth = TraceN_from frames skip depth"

definition trace_Trace :: "runtime_frames \<Rightarrow> trace_stack" where
  "trace_Trace frames = TraceN frames 1 32"

text \<open>\<open>Record.String\<close> on a possibly nil record.\<close>

definition Record_String :: "trace_record option \<Rightarrow> string" where
  "Record_String r =
     (case r of
        None \<Rightarrow> ''[nil-record]''
      | Some x \<Rightarrow> tr_File x @ '':'' @ fmt_d (tr_Line x) @ '' '' @ tr_Name x)"

definition trace_tab :: string where
  "trace_tab = ''    ''"

definition left_3 :: "string \<Rightarrow> string" where
  "left_3 s = s @ replicate (3 - length s) (CHR '' '')"

definition indent_by :: "nat \<Rightarrow> string" where
  "indent_by n = concat (replicate n trace_tab)"

fun stack_lines :: "nat \<Rightarrow> trace_stack \<Rightarrow> string" where
  "stack_lines n [] = []"
| "stack_lines n (r # rs) =
     indent_by n @ left_3 (fmt_d (int (length rs))) @ '' '' @ tr_File r @ '':'' @ fmt_d (tr_Line r) @ [CHR 0x0A]
     @ indent_by n @ trace_tab @ trace_tab @ tr_Name r @ [CHR 0x0A] @ stack_lines n rs"

definition StringWithIndent :: "trace_stack \<Rightarrow> nat \<Rightarrow> string" where
  "StringWithIndent s n =
     stack_lines n s @ (if length s \<noteq> 0 then indent_by n @ trace_tab @ ''... ...'' @ [CHR 0x0A] else [])"

definition Stack_String :: "trace_stack \<Rightarrow> string" where
  "Stack_String s = StringWithIndent s 0"

subsection \<open>Errors with stacks\<close>

datatype traced_error = Plain go_error | TracedError trace_stack traced_error

primrec Error_text :: "traced_error \<Rightarrow> string" where
  "Error_text (Plain e) = error_text e"
| "Error_text (TracedError s e) = Error_text e"

definition errors_New :: "string \<Rightarrow> traced_error" where
  "errors_New s = Plain (ErrorString s)"

fun errors_Trace :: "bool \<Rightarrow> runtime_frames \<Rightarrow> traced_error option \<Rightarrow> traced_error option" where
  "errors_Trace enabled frames None = None"
| "errors_Trace enabled frames (Some e) =
     (if \<not> enabled then Some e
      else (case e of TracedError _ _ \<Rightarrow> Some e | Plain _ \<Rightarrow> Some (TracedError (TraceN frames 1 32) e)))"

text \<open>\<open>msg\<close> is the text that \<open>fmt.Errorf\<close> made.\<close>

definition errors_Errorf :: "bool \<Rightarrow> runtime_frames \<Rightarrow> string \<Rightarrow> traced_error" where
  "errors_Errorf enabled frames msg =
     (if \<not> enabled then Plain (ErrorString msg) else TracedError (TraceN frames 1 32) (Plain (ErrorString msg)))"

fun errors_Stack :: "traced_error option \<Rightarrow> trace_stack option" where
  "errors_Stack None = None"
| "errors_Stack (Some (TracedError s e)) = Some s"
| "errors_Stack (Some (Plain e)) = None"

fun errors_Cause :: "traced_error option \<Rightarrow> traced_error option" where
  "errors_Cause None = None"
| "errors_Cause (Some (TracedError s e)) = errors_Cause (Some e)"
| "errors_Cause (Some (Plain e)) = Some (Plain e)"

text \<open>
  Two errors that are the same object have the same text, so the comparison by identity that
  \<open>Equal\<close> makes first is subsumed by the one by text, unless one of them is nil.
\<close>

definition errors_Equal :: "traced_error option \<Rightarrow> traced_error option \<Rightarrow> bool" where
  "errors_Equal err1 err2 =
     (case (errors_Cause err1, errors_Cause err2) of
        (None, None) \<Rightarrow> True
      | (Some e1, Some e2) \<Rightarrow> Error_text e1 = Error_text e2
      | _ \<Rightarrow> False)"

definition errors_NotEqual :: "traced_error option \<Rightarrow> traced_error option \<Rightarrow> bool" where
  "errors_NotEqual err1 err2 \<longleftrightarrow> \<not> errors_Equal err1 err2"

subsection \<open>Lists of errors\<close>

definition ErrAnonError :: traced_error where
  "ErrAnonError = errors_New ''anonymous error''"

type_synonym ErrorList = "traced_error list"

definition ErrorList_First :: "ErrorList \<Rightarrow> traced_error option" where
  "ErrorList_First q = (case q of [] \<Rightarrow> None | e # _ \<Rightarrow> Some e)"

definition ErrorList_Errors :: "ErrorList \<Rightarrow> traced_error list option" where
  "ErrorList_Errors q = (if length q \<noteq> 0 then Some q else None)"

definition ErrorList_Len :: "ErrorList \<Rightarrow> nat" where
  "ErrorList_Len q = length q"

definition ErrorList_PushBack :: "bool \<Rightarrow> runtime_frames \<Rightarrow> traced_error option \<Rightarrow> ErrorList \<Rightarrow> ErrorList" where
  "ErrorList_PushBack enabled frames err q =
     q @ [case err of Some e \<Rightarrow> e | None \<Rightarrow> the (errors_Trace enabled frames (Some ErrAnonError))]"

definition ErrorList_Reset :: "ErrorList \<Rightarrow> ErrorList" where
  "ErrorList_Reset q = []"

subsection \<open>Traces do not change errors\<close>

lemma TraceN_length: "length (TraceN frames skip depth) \<le> depth"
proof -
  have "length (TraceN_from frames skip n) \<le> n" for n
    by (induction n arbitrary: skip) (auto split: option.splits)
  then show ?thesis by (simp add: TraceN_def)
qed

text \<open>The stack has the frames above the caller, in order, up to the first that is not shown.\<close>

lemma TraceN_from_nth:
  "i < length (TraceN_from frames skip n) \<Longrightarrow>
     trace_Caller frames (skip + i + 1) = Some (TraceN_from frames skip n ! i)"
proof (induction n arbitrary: skip i)
  case (Suc n)
  then show ?case using Suc.IH [of "i - 1" "skip + 1"]
    by (cases i) (auto split: option.splits)
qed simp

lemma Cause_Trace [simp]: "errors_Cause (errors_Trace enabled frames e) = errors_Cause e"
  by (cases e; cases "the e") auto

lemma Cause_Plain: "errors_Cause (Some e) = Some c \<Longrightarrow> \<exists>g. c = Plain g"
  by (induction e) auto

lemma Cause_idem [simp]: "errors_Cause (errors_Cause e) = errors_Cause e"
proof (cases "errors_Cause e")
  case (Some c)
  then obtain x where "e = Some x" by (cases e) auto
  then obtain g where "c = Plain g" using Some Cause_Plain by blast
  then show ?thesis using Some by simp
qed simp

lemma Error_text_Cause: "errors_Cause (Some e) = Some c \<Longrightarrow> Error_text c = Error_text e"
  by (induction e) auto

lemma Equal_iff:
  "errors_Equal a b \<longleftrightarrow> map_option Error_text a = map_option Error_text b"
proof -
  have c: "map_option Error_text (errors_Cause e) = map_option Error_text e" for e
  proof (cases e)
    case (Some x)
    have "\<exists>y. errors_Cause (Some x) = Some y" by (induction x) auto
    then show ?thesis using Some Error_text_Cause by fastforce
  qed simp
  have "errors_Equal a b \<longleftrightarrow> map_option Error_text (errors_Cause a) = map_option Error_text (errors_Cause b)"
    by (cases "errors_Cause a"; cases "errors_Cause b") (auto simp: errors_Equal_def)
  then show ?thesis by (simp only: c)
qed

lemma Equal_Trace [simp]:
  "errors_Equal (errors_Trace t f a) b = errors_Equal a b" "errors_Equal a (errors_Trace t f b) = errors_Equal a b"
  by (simp_all add: errors_Equal_def)

lemma Stack_Trace: "errors_Stack (errors_Trace True frames (Some e)) \<noteq> None"
  by (cases e) auto

lemma First_PushBack:
  "ErrorList_First (ErrorList_PushBack t f e q) =
     (if q = [] then Some (case e of Some x \<Rightarrow> x | None \<Rightarrow> the (errors_Trace t f (Some ErrAnonError)))
      else ErrorList_First q)"
  by (cases q) (auto simp: ErrorList_First_def ErrorList_PushBack_def)

end
