(* ===== verification/Configuration.thy ===== *)
theory Configuration
  imports Go_Path Go_Errors
begin

text \<open>
  \<open>utils/config.go\<close>, \<open>proxy/utils_config_checker.go\<close> and the helpers of \<open>utils/utils.go\<close>: how a
  configuration file becomes a \<open>Config\<close> and which ones the programs accept. The library
  \<open>c4pt0r/cfg\<close> that reads the file is the record \<open>cfg\<close>; the working directory and the network
  interfaces are arguments. \<open>log.Panicf\<close> writes its message and ends the process: the result is
  \<open>Inl\<close> of the message.
\<close>

subsection \<open>strings.TrimSpace\<close>

text \<open>The UTF-8 encodings of the white-space runes of \<open>unicode.IsSpace\<close>.\<close>

definition space_codes :: "string list" where
  "space_codes =
     map (\<lambda>n. [char_of (n :: nat)]) [9, 10, 11, 12, 13, 32]
     @ map (\<lambda>n. map char_of [0xC2, n :: nat]) [0x85, 0xA0]
     @ [map char_of [0xE1, 0x9A, 0x80 :: nat]]
     @ map (\<lambda>n. map char_of [0xE2, 0x80, n :: nat]) ([0x80 ..< 0x8B] @ [0xA8, 0xA9, 0xAF])
     @ [map char_of [0xE2, 0x81, 0x9F :: nat], map char_of [0xE3, 0x80, 0x80 :: nat]]"

definition leading_space :: "string \<Rightarrow> string option" where
  "leading_space s = find (strings_HasPrefix s) space_codes"

lemma leading_space_Some:
  "leading_space s = Some c \<Longrightarrow> c \<in> set space_codes \<and> take (length c) s = c"
  by (auto simp: leading_space_def find_Some_iff strings_HasPrefix_def)

lemma space_code_nonempty: "c \<in> set space_codes \<Longrightarrow> c \<noteq> []"
  by (auto simp: space_codes_def)

function TrimLeftSpace :: "string \<Rightarrow> string" where
  "TrimLeftSpace s = (case leading_space s of None \<Rightarrow> s | Some c \<Rightarrow> TrimLeftSpace (drop (length c) s))"
  by auto

termination
proof (relation "measure length")
  fix s c assume a: "leading_space s = Some c"
  then have "c \<noteq> []" "take (length c) s = c" using leading_space_Some space_code_nonempty by blast+
  then show "(drop (length c) s, s) \<in> measure length" by (cases s) auto
qed simp

declare TrimLeftSpace.simps [simp del]

text \<open>From the right, the encodings are matched backwards; no byte is part of two of them.\<close>

definition trailing_space :: "string \<Rightarrow> string option" where
  "trailing_space s = find (\<lambda>c. strings_HasPrefix (rev s) (rev c)) space_codes"

lemma trailing_space_Some:
  "trailing_space s = Some c \<Longrightarrow> c \<in> set space_codes \<and> take (length c) (rev s) = rev c"
  by (auto simp: trailing_space_def find_Some_iff strings_HasPrefix_def)

function TrimRightSpace :: "string \<Rightarrow> string" where
  "TrimRightSpace s = (case trailing_space s of None \<Rightarrow> s | Some c \<Rightarrow> TrimRightSpace (take (length s - length c) s))"
  by auto

termination
proof (relation "measure length")
  fix s c assume a: "trailing_space s = Some c"
  then have "c \<noteq> []" "take (length c) (rev s) = rev c" using trailing_space_Some space_code_nonempty by blast+
  then show "(take (length s - length c) s, s) \<in> measure length" by (cases c; cases s) auto
qed simp

declare TrimRightSpace.simps [simp del]

definition TrimSpace :: "string \<Rightarrow> string" where
  "TrimSpace s = TrimRightSpace (TrimLeftSpace s)"

text \<open>What is left neither begins nor ends with white space; trimming again changes nothing.\<close>

lemma TrimLeftSpace_done: "leading_space (TrimLeftSpace s) = None"
proof (induction s rule: TrimLeftSpace.induct)
  case (1 s)
  then show ?case by (cases "leading_space s") (simp_all add: TrimLeftSpace.simps [of s])
qed

lemma TrimRightSpace_done: "trailing_space (TrimRightSpace s) = None"
proof (induction s rule: TrimRightSpace.induct)
  case (1 s)
  then show ?case by (cases "trailing_space s") (simp_all add: TrimRightSpace.simps [of s])
qed

lemma TrimLeftSpace_id: "leading_space s = None \<Longrightarrow> TrimLeftSpace s = s"
  by (simp add: TrimLeftSpace.simps)

lemma TrimRightSpace_id: "trailing_space s = None \<Longrightarrow> TrimRightSpace s = s"
  by (simp add: TrimRightSpace.simps)

lemma TrimRightSpace_prefix: "\<exists>n. TrimRightSpace s = take n s"
proof (induction s rule: TrimRightSpace.induct)
  case (1 s)
  show ?case
  proof (cases "trailing_space s")
    case None
    then show ?thesis using TrimRightSpace_id by (metis order_refl take_all)
  next
    case (Some c)
    then obtain n where "TrimRightSpace (take (length s - length c) s) = take n (take (length s - length c) s)" using 1 by blast
    then show ?thesis using Some by (auto simp: TrimRightSpace.simps [of s] take_take)
  qed
qed

lemma leading_space_take:
  assumes "leading_space s = None" shows "leading_space (take n s) = None"
proof (rule ccontr)
  assume "leading_space (take n s) \<noteq> None"
  then obtain c where c: "c \<in> set space_codes" "take (length c) (take n s) = c" using leading_space_Some by blast
  have "length c \<le> n" using arg_cong [OF c(2), of length] by simp
  then have "take (length c) s = c" using c(2) by (simp add: min_absorb1)
  then show False using assms c(1) by (auto simp: leading_space_def find_None_iff strings_HasPrefix_def)
qed

lemma TrimSpace_trimmed [simp]: "leading_space (TrimSpace s) = None" "trailing_space (TrimSpace s) = None"
proof -
  obtain n where "TrimSpace s = take n (TrimLeftSpace s)"
    using TrimRightSpace_prefix unfolding TrimSpace_def by blast
  then show "leading_space (TrimSpace s) = None" using leading_space_take TrimLeftSpace_done by simp
  show "trailing_space (TrimSpace s) = None" by (simp add: TrimSpace_def TrimRightSpace_done)
qed

lemma TrimSpace_idem [simp]: "TrimSpace (TrimSpace s) = TrimSpace s"
  using TrimLeftSpace_id TrimRightSpace_id TrimSpace_trimmed by (simp add: TrimSpace_def [of "TrimSpace s"])

lemma leading_space_plain: "c \<notin> hd ` set space_codes \<Longrightarrow> leading_space (c # s) = None"
proof (rule ccontr)
  assume c: "c \<notin> hd ` set space_codes" "leading_space (c # s) \<noteq> None"
  then obtain d where d: "d \<in> set space_codes" "take (length d) (c # s) = d"
    using leading_space_Some by (cases "leading_space (c # s)") blast+
  obtain x xs where "d = x # xs" using space_code_nonempty [OF d(1)] by (cases d) simp_all
  then have "hd d = c" using d(2) by simp
  then show False using c(1) imageI [OF d(1), of hd] by simp
qed

lemma trailing_space_plain: "c \<notin> last ` set space_codes \<Longrightarrow> trailing_space (s @ [c]) = None"
proof (rule ccontr)
  assume c: "c \<notin> last ` set space_codes" "trailing_space (s @ [c]) \<noteq> None"
  then obtain d where d: "d \<in> set space_codes" "take (length d) (rev (s @ [c])) = rev d"
    using trailing_space_Some by (cases "trailing_space (s @ [c])") blast+
  obtain x xs where "d = xs @ [x]" using space_code_nonempty [OF d(1)] by (cases d rule: rev_cases) simp_all
  then have "last d = c" using d(2) by simp
  then show False using c(1) imageI [OF d(1), of last] by simp
qed

text \<open>Text that begins and ends with printable ASCII stays as it is.\<close>

definition printable :: "char \<Rightarrow> bool" where
  "printable c \<longleftrightarrow> (of_char c :: nat) \<in> {33 ..< 127}"

lemma space_codes_not_printable: "d \<in> set space_codes \<Longrightarrow> \<not> printable (hd d) \<and> \<not> printable (last d)"
  by (auto simp: space_codes_def printable_def)

lemma TrimSpace_printable:
  assumes "s = [] \<or> printable (hd s) \<and> printable (last s)"
  shows "TrimSpace s = s"
proof (cases s)
  case Nil
  have "leading_space [] = None" "trailing_space [] = None"
    using space_code_nonempty by (auto simp: leading_space_def trailing_space_def find_None_iff strings_HasPrefix_def)
  then show ?thesis using Nil by (simp add: TrimSpace_def TrimLeftSpace_id TrimRightSpace_id)
next
  case (Cons c t)
  then have p: "printable (hd s)" "printable (last s)" "s = hd s # tl s" "s = butlast s @ [last s]" using assms by auto
  have "leading_space s = None" using leading_space_plain [of "hd s" "tl s"] space_codes_not_printable p(1,3) by (metis imageE)
  moreover have "trailing_space s = None"
    using trailing_space_plain [of "last s" "butlast s"] space_codes_not_printable p(2,4) by (metis imageE)
  ultimately show ?thesis by (simp add: TrimSpace_def TrimLeftSpace_id TrimRightSpace_id)
qed

subsection \<open>Helpers of \<open>utils/utils.go\<close>\<close>

text \<open>An address of an interface; for other types \<open>ip\<close> stays \<open>nil\<close> and prints as such.\<close>

datatype net_ifaddr = IPNet string | IPAddr string | OtherAddr

fun ifaddr_String :: "net_ifaddr \<Rightarrow> string" where
  "ifaddr_String (IPNet ip) = ip"
| "ifaddr_String (IPAddr ip) = ip"
| "ifaddr_String OtherAddr = ''<nil>''"

fun ip_of_addrs :: "string \<Rightarrow> net_ifaddr list \<Rightarrow> string option" where
  "ip_of_addrs prefix [] = None"
| "ip_of_addrs prefix (a # as) =
     (if strings_HasPrefix (ifaddr_String a) prefix then Some (ifaddr_String a) else ip_of_addrs prefix as)"

fun GetIpWithPrefix :: "net_ifaddr list list \<Rightarrow> string \<Rightarrow> string" where
  "GetIpWithPrefix [] prefix = []"
| "GetIpWithPrefix (addrs # ifaces) prefix =
     (case ip_of_addrs prefix addrs of Some ip \<Rightarrow> ip | None \<Rightarrow> GetIpWithPrefix ifaces prefix)"

lemma ip_of_addrs_find: "ip_of_addrs prefix as = find (\<lambda>ip. strings_HasPrefix ip prefix) (map ifaddr_String as)"
  by (induction as) auto

lemma find_append: "find P (xs @ ys) = (case find P xs of None \<Rightarrow> find P ys | Some x \<Rightarrow> Some x)"
  by (induction xs) auto

text \<open>The nested loops return the first matching address over all interfaces, or the empty string.\<close>

lemma GetIpWithPrefix_find:
  "GetIpWithPrefix ifaces prefix =
     (case find (\<lambda>ip. strings_HasPrefix ip prefix) (map ifaddr_String (concat ifaces)) of None \<Rightarrow> [] | Some ip \<Rightarrow> ip)"
  by (induction ifaces) (auto simp: ip_of_addrs_find find_append split: option.splits)

lemma GetIpWithPrefix_prefix:
  "GetIpWithPrefix ifaces prefix \<noteq> [] \<Longrightarrow> strings_HasPrefix (GetIpWithPrefix ifaces prefix) prefix"
proof (cases "find (\<lambda>ip. strings_HasPrefix ip prefix) (map ifaddr_String (concat ifaces))")
  case (Some ip)
  then have "strings_HasPrefix ip prefix" by (auto simp: find_Some_iff)
  then show ?thesis using Some by (simp add: GetIpWithPrefix_find)
qed (simp add: GetIpWithPrefix_find)

function strings_eq_from :: "nat \<Rightarrow> string list \<Rightarrow> string list \<Rightarrow> bool" where
  "strings_eq_from i s1 s2 =
     (if i < length s1 then (if s1 ! i \<noteq> s2 ! i then False else strings_eq_from (Suc i) s1 s2) else True)"
  by auto

termination by (relation "measure (\<lambda>(i, s1, _). length s1 - i)") auto

declare strings_eq_from.simps [simp del]

definition Strings_Eq :: "string list \<Rightarrow> string list \<Rightarrow> bool" where
  "Strings_Eq s1 s2 = (if length s1 \<noteq> length s2 then False else strings_eq_from 0 s1 s2)"

lemma strings_eq_from_iff: "strings_eq_from i s1 s2 \<longleftrightarrow> (\<forall>k. i \<le> k \<and> k < length s1 \<longrightarrow> s1 ! k = s2 ! k)"
proof (induction i s1 s2 rule: strings_eq_from.induct)
  case (1 i s1 s2)
  have split: "i \<le> k \<longleftrightarrow> k = i \<or> Suc i \<le> k" for k by auto
  show ?case
  proof (cases "i < length s1 \<and> s1 ! i = s2 ! i")
    case True
    then have "strings_eq_from i s1 s2 = strings_eq_from (Suc i) s1 s2" by (simp add: strings_eq_from.simps [of i])
    then show ?thesis using 1 True split by metis
  next
    case False
    then show ?thesis by (auto simp: strings_eq_from.simps [of i])
  qed
qed

lemma Strings_Eq_iff: "Strings_Eq s1 s2 \<longleftrightarrow> s1 = s2"
  by (auto simp: Strings_Eq_def strings_eq_from_iff list_eq_iff_nth_eq)

definition EMPTY_MSG :: string where
  "EMPTY_MSG = []"

definition Unwrap :: "string list \<Rightarrow> (string \<times> string list) outcome" where
  "Unwrap msgs =
     (case msgs of
        [] \<Rightarrow> Panic IndexOutOfRange
      | head # rest \<Rightarrow> Ret (head, if length msgs > 1 \<and> msgs ! 1 = EMPTY_MSG then drop 2 msgs else drop 1 msgs))"

fun trim_left_from :: "string list \<Rightarrow> string list option" where
  "trim_left_from [] = None"
| "trim_left_from (msg # msgs) = (if msg \<noteq> EMPTY_MSG then Some (msg # msgs) else trim_left_from msgs)"

definition TrimLeftEmptyMsg :: "string list \<Rightarrow> string list" where
  "TrimLeftEmptyMsg msgs = (case trim_left_from msgs of Some ms \<Rightarrow> ms | None \<Rightarrow> msgs)"

text \<open>
  Leading empty messages go; a list of empty messages alone is returned as it is, although the
  comment promises that they are removed.
\<close>

lemma TrimLeftEmptyMsg_eq:
  "TrimLeftEmptyMsg msgs = (if \<forall>msg \<in> set msgs. msg = [] then msgs else dropWhile (\<lambda>msg. msg = []) msgs)"
proof -
  have "trim_left_from msgs = (if \<forall>msg \<in> set msgs. msg = [] then None else Some (dropWhile (\<lambda>msg. msg = []) msgs))"
    by (induction msgs) (auto simp: EMPTY_MSG_def)
  then show ?thesis by (simp add: TrimLeftEmptyMsg_def)
qed

lemma Unwrap_head: "Unwrap (head # [] # tails) = Ret (head, tails)" "Unwrap [head] = Ret (head, [])"
  by (simp_all add: Unwrap_def EMPTY_MSG_def)

subsection \<open>The configuration\<close>

record Config =
  ProductName :: string
  cf_Service :: string
  ZkAddr :: string
  ZkSessionTimeout :: int
  FrontHost :: string
  FrontPort :: string
  FrontSock :: string
  FrontendAddr :: string
  IpPrefix :: string
  BackAddr :: string
  ProxyAddr :: string
  Profile :: bool
  Verbose :: bool
  WorkDir :: string
  CodeUrlVersion :: string

definition empty_Config :: Config where
  "empty_Config = \<lparr>ProductName = [], cf_Service = [], ZkAddr = [], ZkSessionTimeout = 0, FrontHost = [], FrontPort = [],
     FrontSock = [], FrontendAddr = [], IpPrefix = [], BackAddr = [], ProxyAddr = [], Profile = False, Verbose = False,
     WorkDir = [], CodeUrlVersion = []\<rparr>"

text \<open>A file read by the library: the outcome of \<open>Load\<close> and the values with their defaults.\<close>

record cfg =
  cfg_Load :: "go_error option"
  ReadString :: "string \<Rightarrow> string \<Rightarrow> string"
  ReadInt :: "string \<Rightarrow> int \<Rightarrow> int"

definition getFrontendAddr :: "net_ifaddr list list \<Rightarrow> Config \<Rightarrow> string \<Rightarrow> string \<Rightarrow> string \<Rightarrow> string" where
  "getFrontendAddr ifaces conf frontHost ipPrefix frontPort =
     (if FrontSock conf \<noteq> [] then FrontSock conf
      else let host = (if frontHost = [] then (if ipPrefix \<noteq> [] then GetIpWithPrefix ifaces ipPrefix else frontHost)
                       else frontHost) in
           if frontPort \<noteq> [] \<and> host \<noteq> [] then host @ '':'' @ frontPort else [])"

definition loadConfInt :: "cfg \<Rightarrow> string \<Rightarrow> int \<Rightarrow> string + int" where
  "loadConfInt c entry defInt =
     (let v = ReadInt c entry defInt in
      if v < 0 then Inl (''invalid config: read '' @ entry @ '' = '' @ fmt_d v) else Inr v)"

definition LoadConf :: "cfg \<Rightarrow> string \<Rightarrow> net_ifaddr list list \<Rightarrow> string \<Rightarrow> string + Config" where
  "LoadConf c dir ifaces configFile =
     (if cfg_Load c \<noteq> None then Inl (''load config '' @ [CHR 0x27] @ configFile @ [CHR 0x27] @ '' failed'') else
      let product = ReadString c ''product'' ''test'' in
      if length product = 0 then Inl (''invalid config: product entry is missing in '' @ configFile) else
      let zk = ReadString c ''zk'' [] in
      if length zk = 0 then Inl (''invalid config: need zk entry is missing in '' @ configFile) else
      case loadConfInt c ''zk_session_timeout'' 30 of Inl x \<Rightarrow> Inl x | Inr timeout \<Rightarrow>
      case loadConfInt c ''verbose'' 0 of Inl x \<Rightarrow> Inl x | Inr verb \<Rightarrow>
      let sock = TrimSpace (ReadString c ''front_sock'' []);
          conf = empty_Config\<lparr>ProductName := product, ZkAddr := TrimSpace zk, ZkSessionTimeout := timeout,
                   Verbose := (verb = 1), cf_Service := TrimSpace (ReadString c ''service'' []),
                   FrontHost := TrimSpace (ReadString c ''front_host'' []),
                   FrontPort := TrimSpace (ReadString c ''front_port'' []),
                   FrontSock := (if length sock > 0 then path_Clean (path_Join [dir, sock]) else sock),
                   IpPrefix := TrimSpace (ReadString c ''ip_prefix'' [])\<rparr> in
      Inr (conf\<lparr>FrontendAddr := getFrontendAddr ifaces conf (FrontHost conf) (IpPrefix conf) (FrontPort conf),
                BackAddr := TrimSpace (ReadString c ''back_address'' []),
                ProxyAddr := TrimSpace (ReadString c ''proxy_address'' []),
                Profile := (ReadInt c ''profile'' 0 = 1)\<rparr>))"

subsection \<open>Checks of the programs\<close>

definition ConfigCheckThriftService :: "Config \<Rightarrow> string + unit" where
  "ConfigCheckThriftService conf =
     (if ProductName conf = [] then Inl ''Invalid ProductName''
      else if FrontendAddr conf = [] then Inl ''Invalid FrontendAddress''
      else if cf_Service conf = [] then Inl ''Invalid ServiceName''
      else if ZkAddr conf = [] then Inl ''Invalid zookeeper address''
      else Inr ())"

definition ConfigCheckRpcProxy :: "Config \<Rightarrow> string + unit" where
  "ConfigCheckRpcProxy conf =
     (if ProductName conf = [] then Inl ''Invalid ProductName''
      else if ZkAddr conf = [] then Inl ''Invalid zookeeper address''
      else if ProxyAddr conf = [] then Inl ''Invalid Proxy address''
      else Inr ())"

definition ConfigCheckRpcLB :: "Config \<Rightarrow> string + unit" where
  "ConfigCheckRpcLB conf =
     (if ProductName conf = [] then Inl ''Invalid ProductName''
      else if ZkAddr conf = [] then Inl ''Invalid zookeeper address''
      else if cf_Service conf = [] then Inl ''Invalid ServiceName''
      else if BackAddr conf = [] then Inl ''Invalid backend address''
      else if FrontendAddr conf = [] then Inl ''Invalid frontend address''
      else Inr ())"

subsection \<open>Starting a configuration from the environment\<close>

definition InitConfigFromFile :: "bool \<Rightarrow> runtime_frames \<Rightarrow> (string \<Rightarrow> cfg) \<Rightarrow> string \<Rightarrow> traced_error option + cfg" where
  "InitConfigFromFile traced frames NewCfg filename =
     (let ret = NewCfg filename in
      case cfg_Load ret of Some err \<Rightarrow> Inl (errors_Trace traced frames (Some (Plain err))) | None \<Rightarrow> Inr ret)"

definition InitConfig :: "bool \<Rightarrow> runtime_frames \<Rightarrow> (string \<Rightarrow> cfg) \<Rightarrow> string \<Rightarrow> traced_error option + cfg" where
  "InitConfig traced frames NewCfg env =
     (let configFile = (if length env = 0 then ''config.ini'' else env); ret = NewCfg configFile in
      case cfg_Load ret of Some err \<Rightarrow> Inl (errors_Trace traced frames (Some (Plain err))) | None \<Rightarrow> Inr ret)"

lemma InitConfig_error: "InitConfig traced frames NewCfg env = Inl e \<Longrightarrow> e \<noteq> None"
  by (auto simp: InitConfig_def Let_def split: option.splits elim: errors_Trace.elims)

subsection \<open>Accepted configurations\<close>

lemma getFrontendAddr_sock:
  "FrontSock conf = FrontSock conf' \<Longrightarrow> getFrontendAddr ifaces conf = getFrontendAddr ifaces conf'"
  by (simp add: getFrontendAddr_def fun_eq_iff)

lemma LoadConf_fields:
  assumes "LoadConf c dir ifaces file = Inr conf"
  shows "cfg_Load c = None \<and> ProductName conf \<noteq> [] \<and> ZkSessionTimeout conf \<ge> 0
    \<and> TrimSpace (ZkAddr conf) = ZkAddr conf \<and> TrimSpace (cf_Service conf) = cf_Service conf
    \<and> TrimSpace (BackAddr conf) = BackAddr conf \<and> TrimSpace (ProxyAddr conf) = ProxyAddr conf
    \<and> FrontendAddr conf = getFrontendAddr ifaces conf (FrontHost conf) (IpPrefix conf) (FrontPort conf)
    \<and> (FrontSock conf = [] \<or> (\<exists>sock. sock \<noteq> [] \<and> FrontSock conf = path_Clean (path_Join [dir, sock])))"
proof -
  define sock where "sock = TrimSpace (ReadString c ''front_sock'' [])"
  define product where "product = ReadString c ''product'' ''test''"
  define zk where "zk = ReadString c ''zk'' []"
  obtain timeout where t: "loadConfInt c ''zk_session_timeout'' 30 = Inr timeout" "cfg_Load c = None" "product \<noteq> []" "zk \<noteq> []"
    using assms by (simp add: LoadConf_def Let_def product_def zk_def split: if_splits sum.splits)
  obtain verb where v: "loadConfInt c ''verbose'' 0 = Inr verb"
    using assms t by (simp add: LoadConf_def Let_def product_def zk_def split: sum.splits)
  have t0: "timeout \<ge> 0" using t(1) by (simp add: loadConfInt_def Let_def split: if_splits)
  define conf0 where "conf0 = empty_Config\<lparr>ProductName := product, ZkAddr := TrimSpace zk, ZkSessionTimeout := timeout,
      Verbose := (verb = 1), cf_Service := TrimSpace (ReadString c ''service'' []),
      FrontHost := TrimSpace (ReadString c ''front_host'' []), FrontPort := TrimSpace (ReadString c ''front_port'' []),
      FrontSock := (if length sock > 0 then path_Clean (path_Join [dir, sock]) else sock),
      IpPrefix := TrimSpace (ReadString c ''ip_prefix'' [])\<rparr>"
  have conf: "conf = conf0\<lparr>FrontendAddr := getFrontendAddr ifaces conf0 (FrontHost conf0) (IpPrefix conf0) (FrontPort conf0),
      BackAddr := TrimSpace (ReadString c ''back_address'' []), ProxyAddr := TrimSpace (ReadString c ''proxy_address'' []),
      Profile := (ReadInt c ''profile'' 0 = 1)\<rparr>"
    using assms [unfolded LoadConf_def Let_def, folded sock_def product_def zk_def] t v by (simp add: conf0_def)
  have "getFrontendAddr ifaces conf = getFrontendAddr ifaces conf0" by (rule getFrontendAddr_sock) (simp add: conf)
  moreover have "FrontHost conf = FrontHost conf0" "FrontPort conf = FrontPort conf0" "IpPrefix conf = IpPrefix conf0"
    "FrontSock conf = FrontSock conf0" by (simp_all add: conf)
  moreover have "FrontSock conf0 = [] \<or> (\<exists>sock. sock \<noteq> [] \<and> FrontSock conf0 = path_Clean (path_Join [dir, sock]))"
    by (auto simp: conf0_def)
  moreover have "FrontendAddr conf = getFrontendAddr ifaces conf0 (FrontHost conf0) (IpPrefix conf0) (FrontPort conf0)"
    "ProductName conf = product" "ZkSessionTimeout conf = timeout" "ZkAddr conf = TrimSpace zk"
    "cf_Service conf = TrimSpace (ReadString c ''service'' [])" "BackAddr conf = TrimSpace (ReadString c ''back_address'' [])"
    "ProxyAddr conf = TrimSpace (ReadString c ''proxy_address'' [])" by (simp_all add: conf conf0_def)
  ultimately show ?thesis using t(2,3) t0 by (simp only: TrimSpace_idem simp_thms)
qed

text \<open>The front address is the socket file, or a host and a port.\<close>

lemma getFrontendAddr_cases:
  assumes "getFrontendAddr ifaces conf host prefix port \<noteq> []"
  shows "FrontSock conf \<noteq> [] \<and> getFrontendAddr ifaces conf host prefix port = FrontSock conf
    \<or> FrontSock conf = [] \<and> port \<noteq> [] \<and> (\<exists>h. h \<noteq> [] \<and> getFrontendAddr ifaces conf host prefix port = h @ '':'' @ port
        \<and> (h = host \<or> host = [] \<and> prefix \<noteq> [] \<and> strings_HasPrefix h prefix))"
  using assms GetIpWithPrefix_prefix by (simp add: getFrontendAddr_def Let_def split: if_splits)

end
