(* ===== verification/Unix_Socket.thy ===== *)
theory Unix_Socket
  imports Thrift_Lib
begin

text \<open>
  \<open>proxy/socket_unix_domain.go\<close> and \<open>proxy/socket_server_unix_domain.go\<close>: Thrift transports
  over unix domain sockets. The operating system (files, listeners, connections) is a record of
  operations on a world \<open>'w\<close>, with handles \<open>'l\<close> of listeners and \<open>'c\<close> of connections. The locale
  \<open>closing_net\<close> states what the runtime promises of closing a connection; what a transport does
  after it was interrupted is proved from it.
\<close>

record net_addr =
  na_Network :: string
  na_String :: string

record ('l, 'c, 'w) os_net =
  ResolveUnixAddr :: "string \<Rightarrow> string \<Rightarrow> go_error + net_addr"
  net_Listen :: "string \<Rightarrow> string \<Rightarrow> 'w \<Rightarrow> (go_error + 'l) \<times> 'w"
  listener_Accept :: "'l \<Rightarrow> 'w \<Rightarrow> (go_error + 'c) \<times> 'w"
  listener_Close :: "'l \<Rightarrow> 'w \<Rightarrow> go_error option \<times> 'w"
  os_Stat :: "string \<Rightarrow> 'w \<Rightarrow> go_error option"
  os_IsNotExist :: "go_error option \<Rightarrow> bool"
  os_Remove :: "string \<Rightarrow> 'w \<Rightarrow> 'w"
  os_Chmod :: "string \<Rightarrow> nat \<Rightarrow> 'w \<Rightarrow> 'w"
  net_DialTimeout :: "string \<Rightarrow> string \<Rightarrow> int \<Rightarrow> 'w \<Rightarrow> (go_error + 'c) \<times> 'w"
  conn_Close :: "'c \<Rightarrow> 'w \<Rightarrow> go_error option \<times> 'w"
  conn_Read :: "'c \<Rightarrow> nat \<Rightarrow> 'w \<Rightarrow> byte list \<times> go_error option \<times> 'w"
  conn_Write :: "'c \<Rightarrow> byte list \<Rightarrow> 'w \<Rightarrow> nat \<times> go_error option \<times> 'w"
  conn_SetDeadline :: "'c \<Rightarrow> int option \<Rightarrow> 'w \<Rightarrow> 'w"
  conn_SetReadDeadline :: "'c \<Rightarrow> int option \<Rightarrow> 'w \<Rightarrow> 'w"
  conn_SetWriteDeadline :: "'c \<Rightarrow> int option \<Rightarrow> 'w \<Rightarrow> 'w"

definition ModePerm :: nat where
  "ModePerm = 511"

subsection \<open>The listening side\<close>

definition FileExist :: "('l, 'c, 'w) os_net \<Rightarrow> string \<Rightarrow> 'w \<Rightarrow> bool" where
  "FileExist N file w = (\<not> os_IsNotExist N (os_Stat N file w))"

record 'l TServerUnixDomain =
  su_listener :: "'l option"
  su_addr :: net_addr
  su_clientTimeout :: int
  su_interrupted :: bool

definition NewTServerUnixDomainTimeout :: "('l, 'c, 'w) os_net \<Rightarrow> string \<Rightarrow> int \<Rightarrow> go_error + 'l TServerUnixDomain" where
  "NewTServerUnixDomainTimeout N listenAddr clientTimeout =
     (case ResolveUnixAddr N ''unix'' listenAddr of
        Inl err \<Rightarrow> Inl err
      | Inr addr \<Rightarrow> Inr \<lparr>su_listener = None, su_addr = addr, su_clientTimeout = clientTimeout, su_interrupted = False\<rparr>)"

definition NewTServerUnixDomain :: "('l, 'c, 'w) os_net \<Rightarrow> string \<Rightarrow> go_error + 'l TServerUnixDomain" where
  "NewTServerUnixDomain N listenAddr = NewTServerUnixDomainTimeout N listenAddr 0"

definition su_IsListening :: "'l TServerUnixDomain \<Rightarrow> bool" where
  "su_IsListening p \<longleftrightarrow> su_listener p \<noteq> None"

definition su_Listen :: "('l, 'c, 'w) os_net \<Rightarrow> 'l TServerUnixDomain \<Rightarrow> 'w \<Rightarrow>
    go_error option \<times> 'l TServerUnixDomain \<times> 'w" where
  "su_Listen N p w =
     (if su_IsListening p then (None, p, w)
      else case net_Listen N (na_Network (su_addr p)) (na_String (su_addr p)) w of
             (Inl err, w1) \<Rightarrow> (Some err, p, w1)
           | (Inr l, w1) \<Rightarrow> (None, p\<lparr>su_listener := Some l\<rparr>, os_Chmod N (na_String (su_addr p)) ModePerm w1))"

text \<open>\<open>tsocket\<close> is \<open>thrift.NewTSocketFromConnTimeout\<close>, which wraps the accepted connection.\<close>

definition su_Accept :: "thrift_lib \<Rightarrow> ('l, 'c, 'w) os_net \<Rightarrow> ('c \<Rightarrow> int \<Rightarrow> 'k) \<Rightarrow> 'l TServerUnixDomain \<Rightarrow> 'w \<Rightarrow>
    (go_error + 'k) \<times> 'w" where
  "su_Accept T N tsocket p w =
     (if su_interrupted p then (Inl (ErrorString ''Transport Interrupted''), w)
      else case su_listener p of
             None \<Rightarrow> (Inl (TransportException (NOT_OPEN T) ''No underlying server socket''), w)
           | Some l \<Rightarrow>
               (case listener_Accept N l w of
                  (Inl err, w1) \<Rightarrow> (Inl (TransportExceptionFromError T err), w1)
                | (Inr conn, w1) \<Rightarrow> (Inr (tsocket conn (su_clientTimeout p)), w1)))"

definition su_Open :: "thrift_lib \<Rightarrow> ('l, 'c, 'w) os_net \<Rightarrow> 'l TServerUnixDomain \<Rightarrow> 'w \<Rightarrow>
    go_error option \<times> 'l TServerUnixDomain \<times> 'w" where
  "su_Open T N p w =
     (if su_IsListening p then (Some (TransportException (ALREADY_OPEN T) ''Server socket already open''), p, w)
      else case net_Listen N (na_Network (su_addr p)) (na_String (su_addr p)) w of
             (Inl err, w1) \<Rightarrow> (Some err, p, w1)
           | (Inr l, w1) \<Rightarrow> (None, p\<lparr>su_listener := Some l\<rparr>, w1))"

definition su_Addr :: "'l TServerUnixDomain \<Rightarrow> net_addr" where
  "su_Addr p = su_addr p"

definition su_Close :: "('l, 'c, 'w) os_net \<Rightarrow> 'l TServerUnixDomain \<Rightarrow> 'w \<Rightarrow>
    go_error option \<times> 'l TServerUnixDomain \<times> 'w" where
  "su_Close N p w =
     (case su_listener p of
        None \<Rightarrow> (None, p\<lparr>su_listener := None\<rparr>, w)
      | Some l \<Rightarrow> (case listener_Close N l (os_Remove N (na_String (su_addr p)) w) of
                     (err, w1) \<Rightarrow> (err, p\<lparr>su_listener := None\<rparr>, w1)))"

definition su_Interrupt :: "'l TServerUnixDomain \<Rightarrow> 'l TServerUnixDomain" where
  "su_Interrupt p = p\<lparr>su_interrupted := True\<rparr>"

subsection \<open>The connecting side\<close>

record 'c TUnixDomain =
  ud_conn :: "'c option"
  ud_addr :: "net_addr option"
  ud_timeout :: int

definition NewTFromAddrTimeout :: "net_addr option \<Rightarrow> int \<Rightarrow> 'c TUnixDomain" where
  "NewTFromAddrTimeout addr timeout = \<lparr>ud_conn = None, ud_addr = addr, ud_timeout = timeout\<rparr>"

definition NewTUnixDomainTimeout :: "('l, 'c, 'w) os_net \<Rightarrow> string \<Rightarrow> int \<Rightarrow> go_error + 'c TUnixDomain" where
  "NewTUnixDomainTimeout N sockFile timeout =
     (case ResolveUnixAddr N ''unix'' sockFile of
        Inl err \<Rightarrow> Inl err
      | Inr addr \<Rightarrow> Inr (NewTFromAddrTimeout (Some addr) timeout))"

definition NewTUnixDomain :: "('l, 'c, 'w) os_net \<Rightarrow> string \<Rightarrow> go_error + 'c TUnixDomain" where
  "NewTUnixDomain N sockFile = NewTUnixDomainTimeout N sockFile 0"

definition ud_SetTimeout :: "int \<Rightarrow> 'c TUnixDomain \<Rightarrow> 'c TUnixDomain" where
  "ud_SetTimeout timeout p = p\<lparr>ud_timeout := timeout\<rparr>"

text \<open>A deadline of \<open>None\<close> is the zero time, which lifts an older deadline.\<close>

definition ud_pushDeadline :: "('l, 'c, 'w) os_net \<Rightarrow> int \<Rightarrow> bool \<Rightarrow> bool \<Rightarrow> 'c \<Rightarrow> 'c TUnixDomain \<Rightarrow> 'w \<Rightarrow> 'w" where
  "ud_pushDeadline N now rd wr c p w =
     (let t = (if ud_timeout p > 0 then Some (now + ud_timeout p) else None) in
      if rd \<and> wr then conn_SetDeadline N c t w
      else if rd then conn_SetReadDeadline N c t w
      else if wr then conn_SetWriteDeadline N c t w
      else w)"

definition ud_IsOpen :: "'c TUnixDomain \<Rightarrow> bool" where
  "ud_IsOpen p \<longleftrightarrow> ud_conn p \<noteq> None"

definition ud_Open :: "thrift_lib \<Rightarrow> ('l, 'c, 'w) os_net \<Rightarrow> 'c TUnixDomain \<Rightarrow> 'w \<Rightarrow>
    go_error option \<times> 'c TUnixDomain \<times> 'w" where
  "ud_Open T N p w =
     (if ud_IsOpen p then (Some (TransportException (ALREADY_OPEN T) ''Socket already connected.''), p, w)
      else case ud_addr p of
             None \<Rightarrow> (Some (TransportException (NOT_OPEN T) ''Cannot open nil address.''), p, w)
           | Some a \<Rightarrow>
               if na_Network a = [] then (Some (TransportException (NOT_OPEN T) ''Cannot open bad network name.''), p, w)
               else if na_String a = [] then (Some (TransportException (NOT_OPEN T) ''Cannot open bad address.''), p, w)
               else (case net_DialTimeout N (na_Network a) (na_String a) (ud_timeout p) w of
                       (Inl err, w1) \<Rightarrow> (Some (TransportException (NOT_OPEN T) (error_text err)), p\<lparr>ud_conn := None\<rparr>, w1)
                     | (Inr c, w1) \<Rightarrow> (None, p\<lparr>ud_conn := Some c\<rparr>, w1)))"

definition ud_Conn :: "'c TUnixDomain \<Rightarrow> 'c option" where
  "ud_Conn p = ud_conn p"

definition ud_Close :: "('l, 'c, 'w) os_net \<Rightarrow> 'c TUnixDomain \<Rightarrow> 'w \<Rightarrow> go_error option \<times> 'c TUnixDomain \<times> 'w" where
  "ud_Close N p w =
     (case ud_conn p of
        None \<Rightarrow> (None, p, w)
      | Some c \<Rightarrow> (case conn_Close N c w of
                     (Some err, w1) \<Rightarrow> (Some err, p, w1)
                   | (None, w1) \<Rightarrow> (None, p\<lparr>ud_conn := None\<rparr>, w1)))"

definition ud_Read :: "thrift_lib \<Rightarrow> ('l, 'c, 'w) os_net \<Rightarrow> int \<Rightarrow> nat \<Rightarrow> 'c TUnixDomain \<Rightarrow> 'w \<Rightarrow>
    byte list \<times> go_error option \<times> 'w" where
  "ud_Read T N now n p w =
     (case ud_conn p of
        None \<Rightarrow> ([], Some (TransportException (NOT_OPEN T) ''Connection not open''), w)
      | Some c \<Rightarrow> (case conn_Read N c n (ud_pushDeadline N now True False c p w) of
                     (bs, err, w1) \<Rightarrow> (bs, map_option (TransportExceptionFromError T) err, w1)))"

definition ud_Write :: "thrift_lib \<Rightarrow> ('l, 'c, 'w) os_net \<Rightarrow> int \<Rightarrow> byte list \<Rightarrow> 'c TUnixDomain \<Rightarrow> 'w \<Rightarrow>
    nat \<times> go_error option \<times> 'w" where
  "ud_Write T N now bs p w =
     (case ud_conn p of
        None \<Rightarrow> (0, Some (TransportException (NOT_OPEN T) ''Connection not open''), w)
      | Some c \<Rightarrow> conn_Write N c bs (ud_pushDeadline N now False True c p w))"

definition ud_Peek :: "'c TUnixDomain \<Rightarrow> bool" where
  "ud_Peek p = ud_IsOpen p"

definition ud_Flush :: "'c TUnixDomain \<Rightarrow> go_error option" where
  "ud_Flush p = None"

definition ud_Interrupt :: "('l, 'c, 'w) os_net \<Rightarrow> 'c TUnixDomain \<Rightarrow> 'w \<Rightarrow> go_error option \<times> 'w" where
  "ud_Interrupt N p w = (case ud_conn p of None \<Rightarrow> (None, w) | Some c \<Rightarrow> conn_Close N c w)"

subsection \<open>Listening and closing\<close>

text \<open>Whatever happens to the listener, an interrupted or closed transport accepts nothing.\<close>

lemma su_Accept_interrupted:
  "su_interrupted p \<Longrightarrow> su_Accept T N ts p w = (Inl (ErrorString ''Transport Interrupted''), w)"
  by (simp add: su_Accept_def)

lemma su_Interrupt_sel [simp]: "su_interrupted (su_Interrupt p)" "su_listener (su_Interrupt p) = su_listener p"
  by (simp_all add: su_Interrupt_def)

lemma su_Close_sel:
  assumes "su_Close N p w = (e, q, w1)"
  shows "q = p\<lparr>su_listener := None\<rparr>"
  using assms by (cases "su_listener p") (auto simp: su_Close_def split: prod.splits)

lemma su_Listen_sel:
  assumes "su_Listen N p w = (None, q, w1)"
  obtains l where "q = p\<lparr>su_listener := Some l\<rparr>"
proof (cases "su_listener p")
  case None
  then obtain l w2 where "net_Listen N (na_Network (su_addr p)) (na_String (su_addr p)) w = (Inr l, w2)"
    using assms by (cases "net_Listen N (na_Network (su_addr p)) (na_String (su_addr p)) w")
      (auto simp: su_Listen_def su_IsListening_def split: sum.splits)
  then have "q = p\<lparr>su_listener := Some l\<rparr>" using None assms by (auto simp: su_Listen_def su_IsListening_def)
  then show ?thesis by (rule that)
next
  case (Some l)
  then have "q = p\<lparr>su_listener := Some l\<rparr>" using assms by (simp add: su_Listen_def su_IsListening_def)
  then show ?thesis by (rule that)
qed

lemma su_Close_closed:
  assumes "su_Close N p w = (e, q, w1)"
  shows "\<not> su_IsListening q \<and> su_Close N q w1 = (None, q, w1)"
  using su_Close_sel [OF assms] by (simp add: su_Close_def su_IsListening_def)

lemma su_Listen_Accept:
  assumes "su_Listen N p w = (None, q, w1)" and "\<not> su_interrupted p"
  obtains l where "su_listener q = Some l"
    "su_Accept T N ts q w1 = (case listener_Accept N l w1 of
       (Inl err, w2) \<Rightarrow> (Inl (TransportExceptionFromError T err), w2)
     | (Inr c, w2) \<Rightarrow> (Inr (ts c (su_clientTimeout q)), w2))"
proof -
  obtain l where "q = p\<lparr>su_listener := Some l\<rparr>" using su_Listen_sel [OF assms(1)] .
  then show ?thesis using assms(2) that [of l] by (simp add: su_Accept_def cong: prod.case_cong sum.case_cong)
qed

subsection \<open>Connections that are closed once\<close>

text \<open>
  What \<open>net.Conn\<close> promises: closing an open connection leaves it closed, closing it again is an
  error, and no connection is opened by closing one.
\<close>

locale closing_net =
  fixes N :: "('l, 'c, 'w) os_net" and is_open :: "'c \<Rightarrow> 'w \<Rightarrow> bool"
  assumes closes: "\<not> is_open c (snd (conn_Close N c w))"
    and closed_again: "\<not> is_open c w \<Longrightarrow> fst (conn_Close N c w) \<noteq> None"
begin

text \<open>
  An interrupted transport counts as open for ever: \<open>Close\<close> returns the error of the second
  close before it forgets the connection, and \<open>Open\<close> refuses.
\<close>

lemma interrupted_stays_open:
  assumes "ud_conn p = Some c" and "ud_Interrupt N p w = (e, w1)"
  shows "\<exists>err w2. ud_Close N p w1 = (Some err, p, w2) \<and> \<not> is_open c w2
    \<and> ud_Open T N p w2 = (Some (TransportException (ALREADY_OPEN T) ''Socket already connected.''), p, w2)"
proof -
  have "\<not> is_open c w1" using assms closes [of c w] by (simp add: ud_Interrupt_def)
  then obtain err where "fst (conn_Close N c w1) = Some err" using closed_again by blast
  then have "ud_Close N p w1 = (Some err, p, snd (conn_Close N c w1))"
    using assms(1) by (cases "conn_Close N c w1") (simp add: ud_Close_def)
  then show ?thesis using closes assms(1) by (auto simp: ud_Open_def ud_IsOpen_def)
qed

text \<open>Without an interrupt a transport can be closed and opened again.\<close>

lemma Close_then_Open:
  assumes "ud_conn p = Some c" and "conn_Close N c w = (None, w1)"
    and "ud_addr p = Some a" "na_Network a \<noteq> []" "na_String a \<noteq> []"
    and "net_DialTimeout N (na_Network a) (na_String a) (ud_timeout p) w1 = (Inr c', w2)"
  shows "ud_Close N p w = (None, p\<lparr>ud_conn := None\<rparr>, w1)"
    "ud_Open T N (p\<lparr>ud_conn := None\<rparr>) w1 = (None, p\<lparr>ud_conn := Some c'\<rparr>, w2)"
  using assms by (simp_all add: ud_Close_def ud_Open_def ud_IsOpen_def)

end

text \<open>
  A file system with sockets as an instance: the world is the list of socket files and the list
  of open connections, numbered in the order of dialling; accepting takes the next number.
\<close>

type_synonym os_world = "string list \<times> nat list \<times> nat"

definition local_net :: "(string, nat, os_world) os_net" where
  "local_net = \<lparr>
     ResolveUnixAddr = (\<lambda>network a. Inr \<lparr>na_Network = network, na_String = a\<rparr>),
     net_Listen = (\<lambda>_ a (fs, cs, n). if a \<in> set fs then (Inl (ErrorString ''address already in use''), (fs, cs, n))
                                     else (Inr a, (a # fs, cs, n))),
     listener_Accept = (\<lambda>l (fs, cs, n). if l \<in> set fs then (Inr n, (fs, n # cs, Suc n))
                                        else (Inl (ErrorString ''use of closed network connection''), (fs, cs, n))),
     listener_Close = (\<lambda>l (fs, cs, n). (None, (removeAll l fs, cs, n))),
     os_Stat = (\<lambda>f (fs, cs, n). if f \<in> set fs then None else Some (ErrorString ''no such file'')),
     os_IsNotExist = (\<lambda>e. e = Some (ErrorString ''no such file'')),
     os_Remove = (\<lambda>f (fs, cs, n). (removeAll f fs, cs, n)),
     os_Chmod = (\<lambda>_ _ w. w),
     net_DialTimeout = (\<lambda>_ a _ (fs, cs, n). if a \<in> set fs then (Inr n, (fs, n # cs, Suc n))
                                            else (Inl (ErrorString ''no such file''), (fs, cs, n))),
     conn_Close = (\<lambda>c (fs, cs, n). (if c \<in> set cs then None else Some (ErrorString ''use of closed network connection''),
                                    (fs, removeAll c cs, n))),
     conn_Read = (\<lambda>_ _ w. ([], Some IoEOF, w)),
     conn_Write = (\<lambda>_ bs w. (length bs, None, w)),
     conn_SetDeadline = (\<lambda>_ _ w. w), conn_SetReadDeadline = (\<lambda>_ _ w. w), conn_SetWriteDeadline = (\<lambda>_ _ w. w)\<rparr>"

definition local_open :: "nat \<Rightarrow> os_world \<Rightarrow> bool" where
  "local_open c w \<longleftrightarrow> c \<in> set (fst (snd w))"

interpretation local: closing_net local_net local_open
  by unfold_locales (auto simp: local_net_def local_open_def split: prod.splits)

text \<open>\<open>FileExist\<close> and \<open>os.Remove\<close> clear a socket file that an earlier process left, and only then \<open>Listen\<close> succeeds.\<close>

lemma local_stale_file:
  assumes "f \<in> set (fst w)" and "NewTServerUnixDomain local_net f = Inr p"
  shows "FileExist local_net f w" "fst (su_Listen local_net p w) \<noteq> None"
    "fst (su_Listen local_net p (os_Remove local_net f w)) = None"
  using assms by (auto simp: FileExist_def local_net_def NewTServerUnixDomain_def NewTServerUnixDomainTimeout_def
      su_Listen_def su_IsListening_def split: prod.splits)

end
