(* ===== verification/Serve_Machine.thy ===== *)
theory Serve_Machine
  imports Rpc_Server Go_Errors "HOL-Library.Multiset"
begin

text \<open>
  \<open>Serve\<close> of both kinds of session as step relations: the reader, the goroutines that handle
  requests, the writer and the closing of the channel \<open>tasks\<close> between them interleave freely,
  and the rest of the process may change the heap between any two steps. \<open>answered\<close> and
  \<open>dropped\<close> record the requests that were written back and those that were taken from the
  channel after the writer had failed. The theory shows that the channel is closed once and
  never sent to afterwards, and that no request gets lost between reader and writer.
\<close>

datatype writer_state = Writing | Draining | Finished

text \<open>An error of a loop goes to the list of errors of the session.\<close>

definition push_error :: "go_error option \<Rightarrow> ErrorList \<Rightarrow> ErrorList" where
  "push_error err q = (case err of None \<Rightarrow> q | Some e \<Rightarrow> ErrorList_PushBack True (\<lambda>_. None) (Some (Plain e)) q)"

definition Session_IsClosed :: "'a session_scheme \<Rightarrow> bool" where
  "Session_IsClosed s = ses_closed s"

definition NonBlockSession_IsClosed :: "nonblock_session \<Rightarrow> bool" where
  "NonBlockSession_IsClosed s = ses_closed s"

subsection \<open>Sessions that answer as requests finish\<close>

record 'n nbserve =
  sv_ses :: nonblock_session
  sv_p :: "'n framed"
  sv_st :: cmdstats
  sv_reading :: bool
  sv_flight :: "slice list"
  sv_handled :: "nat list"
  sv_sent :: nat
  sv_wait :: nat
  sv_tasks :: "nat list"
  sv_closed :: bool
  sv_writer :: writer_state
  sv_errs :: ErrorList
  sv_frames :: nat
  sv_answered :: "nat list"
  sv_dropped :: "nat list"

definition nbserve_init :: "nonblock_session \<Rightarrow> 'n framed \<Rightarrow> cmdstats \<Rightarrow> 'n nbserve" where
  "nbserve_init s p st = \<lparr>sv_ses = s, sv_p = p, sv_st = st, sv_reading = True, sv_flight = [], sv_handled = [],
     sv_sent = 0, sv_wait = 0, sv_tasks = [], sv_closed = False, sv_writer = Writing, sv_errs = [],
     sv_frames = 0, sv_answered = [], sv_dropped = []\<rparr>"

text \<open>
  \<open>sv_flight\<close>: frames whose goroutine has not called \<open>handleRequest\<close> yet; \<open>sv_handled\<close>: requests
  that wait to be sent to \<open>tasks\<close>; \<open>sv_sent\<close>: goroutines between the send and \<open>wait.Done()\<close>.
\<close>

inductive nbserve_step :: "thrift_lib \<Rightarrow> 'n net \<Rightarrow> nat \<Rightarrow> 'a dispatch \<Rightarrow>
    'n nbserve \<times> 'a heap_scheme \<Rightarrow> 'n nbserve \<times> 'a heap_scheme \<Rightarrow> bool"
  for T :: thrift_lib and net :: "'n net" and maxPipeline :: nat and d :: "'a dispatch" where
  read: "sv_reading sv \<Longrightarrow> ReadFrame T (pmem ps) (sv_p sv) = Ret (Inr frame, m, p) \<Longrightarrow>
     nbserve_step T net maxPipeline d (sv, ps)
       (sv\<lparr>sv_p := p, sv_flight := frame # sv_flight sv, sv_wait := Suc (sv_wait sv), sv_frames := Suc (sv_frames sv)\<rparr>,
        ps\<lparr>pmem := m\<rparr>)"
| read_error: "sv_reading sv \<Longrightarrow> ReadFrame T (pmem ps) (sv_p sv) = Ret (Inl e, m, p) \<Longrightarrow>
     nbserve_step T net maxPipeline d (sv, ps)
       (sv\<lparr>sv_p := p, sv_reading := False, sv_errs := push_error (Some e) (sv_errs sv)\<rparr>, ps\<lparr>pmem := m\<rparr>)"
| handle: "sv_flight sv = as @ frame # bs \<Longrightarrow>
     NonBlockSession_handleRequest T now d frame (sv_ses sv) ps = Ret (rid, err, s', ps') \<Longrightarrow>
     nbserve_step T net maxPipeline d (sv, ps)
       (sv\<lparr>sv_ses := s', sv_flight := as @ bs, sv_handled := rid # sv_handled sv\<rparr>, ps')"
| send: "sv_handled sv = as @ rid # bs \<Longrightarrow> length (sv_tasks sv) < maxPipeline \<Longrightarrow>
     nbserve_step T net maxPipeline d (sv, ps)
       (sv\<lparr>sv_handled := as @ bs, sv_tasks := sv_tasks sv @ [rid], sv_sent := Suc (sv_sent sv)\<rparr>, ps)"
| done_one: "sv_sent sv = Suc n \<Longrightarrow>
     nbserve_step T net maxPipeline d (sv, ps) (sv\<lparr>sv_sent := n, sv_wait := sv_wait sv - 1\<rparr>, ps)"
| closing: "\<not> sv_reading sv \<Longrightarrow> sv_wait sv = 0 \<Longrightarrow> \<not> sv_closed sv \<Longrightarrow>
     nbserve_step T net maxPipeline d (sv, ps) (sv\<lparr>sv_closed := True\<rparr>, ps)"
| written: "sv_writer sv = Writing \<Longrightarrow> sv_tasks sv = rid # rest \<Longrightarrow>
     NonBlockSession_loopWriter T net clock [rid] (sv_p sv) (sv_st sv) ps = Ret (None, p', st', ps') \<Longrightarrow>
     nbserve_step T net maxPipeline d (sv, ps)
       (sv\<lparr>sv_p := p', sv_st := st', sv_tasks := rest, sv_answered := sv_answered sv @ [rid]\<rparr>, ps')"
| write_error: "sv_writer sv = Writing \<Longrightarrow> sv_tasks sv = rid # rest \<Longrightarrow>
     NonBlockSession_loopWriter T net clock [rid] (sv_p sv) (sv_st sv) ps = Ret (Some e, p', st', ps') \<Longrightarrow>
     nbserve_step T net maxPipeline d (sv, ps)
       (sv\<lparr>sv_p := p', sv_st := st', sv_tasks := rest, sv_dropped := sv_dropped sv @ [rid], sv_writer := Draining,
          sv_errs := push_error (Some e) (sv_errs sv), sv_ses := NonBlockSession_Close (sv_ses sv)\<rparr>, ps')"
| drain: "sv_writer sv = Draining \<Longrightarrow> sv_tasks sv = rid # rest \<Longrightarrow>
     nbserve_step T net maxPipeline d (sv, ps)
       (sv\<lparr>sv_tasks := rest, sv_dropped := sv_dropped sv @ [rid]\<rparr>, ps)"
| finish: "sv_closed sv \<Longrightarrow> sv_tasks sv = [] \<Longrightarrow> sv_writer sv \<noteq> Finished \<Longrightarrow>
     nbserve_step T net maxPipeline d (sv, ps)
       (sv\<lparr>sv_writer := Finished, sv_ses := NonBlockSession_Close (sv_ses sv)\<rparr>, ps)"
| others: "next_req ps \<le> next_req ps' \<Longrightarrow> nbserve_step T net maxPipeline d (sv, ps) (sv, ps')"

subsection \<open>Sessions that keep the order\<close>

record 'n pserve =
  ss_ses :: session
  ss_p :: "'n framed"
  ss_st :: cmdstats
  ss_reading :: bool
  ss_tasks :: "nat list"
  ss_closed :: bool
  ss_writer :: writer_state
  ss_errs :: ErrorList
  ss_created :: "nat list"
  ss_answered :: "nat list"
  ss_dropped :: "nat list"

definition pserve_init :: "session \<Rightarrow> 'n framed \<Rightarrow> cmdstats \<Rightarrow> 'n pserve" where
  "pserve_init s p st = \<lparr>ss_ses = s, ss_p = p, ss_st = st, ss_reading = True, ss_tasks = [], ss_closed = False,
     ss_writer = Writing, ss_errs = [], ss_created = [], ss_answered = [], ss_dropped = []\<rparr>"

inductive pserve_step :: "thrift_lib \<Rightarrow> 'n net \<Rightarrow> nat \<Rightarrow> 'a dispatch \<Rightarrow>
    'n pserve \<times> 'a heap_scheme \<Rightarrow> 'n pserve \<times> 'a heap_scheme \<Rightarrow> bool"
  for T :: thrift_lib and net :: "'n net" and maxPipeline :: nat and d :: "'a dispatch" where
  read: "ss_reading sv \<Longrightarrow>
     Session_loopReader_turn T now maxPipeline (Some d) (ss_ses sv) (ss_p sv) (ss_tasks sv) ps =
       Ret (Continue, s', p', tasks', ps') \<Longrightarrow>
     pserve_step T net maxPipeline d (sv, ps)
       (sv\<lparr>ss_ses := s', ss_p := p', ss_tasks := tasks', ss_created := ss_created sv @ [last tasks']\<rparr>, ps')"
| read_return: "ss_reading sv \<Longrightarrow>
     Session_loopReader_turn T now maxPipeline (Some d) (ss_ses sv) (ss_p sv) (ss_tasks sv) ps =
       Ret (Return err, s', p', tasks', ps') \<Longrightarrow>
     pserve_step T net maxPipeline d (sv, ps)
       (sv\<lparr>ss_ses := s', ss_p := p', ss_tasks := tasks', ss_reading := False, ss_errs := push_error err (ss_errs sv)\<rparr>, ps')"
| closing: "\<not> ss_reading sv \<Longrightarrow> \<not> ss_closed sv \<Longrightarrow>
     pserve_step T net maxPipeline d (sv, ps) (sv\<lparr>ss_closed := True\<rparr>, ps)"
| written: "ss_writer sv = Writing \<Longrightarrow> ss_tasks sv = rid # rest \<Longrightarrow>
     Session_loopWriter T net clock [rid] (ss_p sv) (ss_st sv) ps = Ret (None, p', st', ps') \<Longrightarrow>
     pserve_step T net maxPipeline d (sv, ps)
       (sv\<lparr>ss_p := p', ss_st := st', ss_tasks := rest, ss_answered := ss_answered sv @ [rid]\<rparr>, ps')"
| write_error: "ss_writer sv = Writing \<Longrightarrow> ss_tasks sv = rid # rest \<Longrightarrow>
     Session_loopWriter T net clock [rid] (ss_p sv) (ss_st sv) ps = Ret (Some e, p', st', ps') \<Longrightarrow>
     pserve_step T net maxPipeline d (sv, ps)
       (sv\<lparr>ss_p := p', ss_st := st', ss_tasks := rest, ss_dropped := ss_dropped sv @ [rid], ss_writer := Draining,
          ss_errs := push_error (Some e) (ss_errs sv), ss_ses := Session_Close (ss_ses sv)\<rparr>, ps')"
| drain: "ss_writer sv = Draining \<Longrightarrow> ss_tasks sv = rid # rest \<Longrightarrow>
     pserve_step T net maxPipeline d (sv, ps)
       (sv\<lparr>ss_tasks := rest, ss_dropped := ss_dropped sv @ [rid]\<rparr>, Session_abandon [rid] ps)"
| finish: "ss_closed sv \<Longrightarrow> ss_tasks sv = [] \<Longrightarrow> ss_writer sv \<noteq> Finished \<Longrightarrow>
     pserve_step T net maxPipeline d (sv, ps)
       (sv\<lparr>ss_writer := Finished, ss_ses := Session_Close (ss_ses sv)\<rparr>, ps)"
| others: "next_req ps \<le> next_req ps' \<Longrightarrow> pserve_step T net maxPipeline d (sv, ps) (sv, ps')"

subsection \<open>What the loops keep\<close>

lemma set_req_next [simp]: "next_req (set_req rid r ps) = next_req ps"
  by (simp add: set_req_def)

lemma handleResponse_next: "handleResponse T module usec rid st ps = Ret (st', ps') \<Longrightarrow> next_req ps' = next_req ps"
  by (auto simp: handleResponse_def Let_def split: prod.splits if_splits)

lemma NonBlock_loopWriter_next:
  assumes "NonBlockSession_loopWriter T net clock [rid] p st ps = Ret (err, p', st', ps')"
  shows "next_req ps' = next_req ps"
proof -
  obtain st1 ps1 where h: "NonBlockSession_handleResponse T (clock rid) rid st ps = Ret (st1, ps1)" using assms by auto
  obtain x p1 where w: "framed_Write p (opt_bytes (pmem ps1) (RespData (reqs ps1 rid))) = (x, p1)" by fastforce
  obtain e p2 where f: "FlushBuffer T net (clock rid * 1000) True p1 = (e, p2)" by fastforce
  have "next_req ps1 = next_req ps" using h by (simp add: NonBlockSession_handleResponse_def handleResponse_next)
  then show ?thesis using assms h w f by (cases e) auto
qed

lemma recycle_req_next [simp]: "next_req (recycle_req rid ps) = next_req ps"
  by (auto simp: recycle_req_def split: prod.splits)

lemma Session_loopWriter_next:
  assumes "Session_loopWriter T net clock [rid] p st ps = Ret (err, p', st', ps')"
  shows "next_req ps' = next_req ps"
proof -
  obtain st1 ps1 where h: "Session_handleResponse T (clock rid) rid st ps = Ret (st1, ps1)" using assms by auto
  obtain x p1 where w: "framed_Write p (opt_bytes (pmem ps1) (RespData (reqs ps1 rid))) = (x, p1)" by fastforce
  obtain e p2 where f: "FlushBuffer T net (clock rid * 1000) True p1 = (e, p2)" by fastforce
  have "next_req ps1 = next_req ps" using h by (simp add: Session_handleResponse_def handleResponse_next)
  then show ?thesis using assms h w f by (cases e) auto
qed

context dispatcher
begin

lemma handle_new:
  assumes "NonBlockSession_handleRequest T now disp frame s ps = Ret (rid, err, s', ps')"
  shows "rid = next_req ps \<and> next_req ps' = Suc (next_req ps)"
  using assms by (auto simp: NonBlockSession_handleRequest_def new_req_def Let_def split: if_splits dest!: creates_none)

text \<open>
  The counter of the wait group is the number of goroutines before their \<open>Done\<close>; the channel is
  closed only when there are none; each frame is in exactly one place.
\<close>

definition nbserve_inv :: "nat \<Rightarrow> 'n nbserve \<Rightarrow> bool" where
  "nbserve_inv maxPipeline sv \<longleftrightarrow>
     sv_wait sv = length (sv_flight sv) + length (sv_handled sv) + sv_sent sv
     \<and> (sv_closed sv \<longrightarrow> \<not> sv_reading sv \<and> sv_wait sv = 0)
     \<and> length (sv_tasks sv) \<le> maxPipeline
     \<and> sv_frames sv = length (sv_flight sv) + length (sv_handled sv) + length (sv_tasks sv)
         + length (sv_answered sv) + length (sv_dropped sv)
     \<and> (sv_errs sv = [] \<longrightarrow> sv_dropped sv = [])
     \<and> (sv_writer sv = Writing \<longrightarrow> sv_dropped sv = []) \<and> (sv_writer sv = Draining \<longrightarrow> sv_errs sv \<noteq> [])
     \<and> (sv_writer sv = Finished \<longrightarrow> sv_closed sv \<and> sv_tasks sv = [])"

lemma nbserve_inv_step:
  assumes inv: "nbserve_inv maxPipeline sv" and step: "nbserve_step T net maxPipeline disp (sv, ps) (sv', ps')"
  shows "nbserve_inv maxPipeline sv'"
  using step by (cases rule: nbserve_step.cases)
    (use inv in \<open>auto simp: nbserve_inv_def push_error_def ErrorList_PushBack_def\<close>)

text \<open>The requests of the session; each step keeps them or adds a new one.\<close>

definition nb_used :: "'n nbserve \<Rightarrow> nat list" where
  "nb_used sv = sv_handled sv @ sv_tasks sv @ sv_answered sv @ sv_dropped sv"

lemma nb_used_step:
  assumes "nbserve_step T net maxPipeline disp (sv, ps) (sv', ps')"
  shows "mset (nb_used sv') = mset (nb_used sv) \<and> next_req ps \<le> next_req ps'
    \<or> nb_used sv' = next_req ps # nb_used sv \<and> next_req ps' = Suc (next_req ps)"
  using assms
proof (cases rule: nbserve_step.cases)
  case handle
  then show ?thesis using handle_new [OF handle(3)] by (simp add: nb_used_def)
next
  case written
  then show ?thesis using NonBlock_loopWriter_next [OF written(4)] by (simp add: nb_used_def)
next
  case write_error
  then show ?thesis using NonBlock_loopWriter_next [OF write_error(4)] by (simp add: nb_used_def)
qed (simp_all add: nb_used_def)

definition fresh_below :: "nat list \<Rightarrow> nat \<Rightarrow> bool" where
  "fresh_below rs n \<longleftrightarrow> distinct rs \<and> (\<forall>r \<in> set rs. r < n)"

lemma fresh_below_add: "fresh_below rs n \<Longrightarrow> fresh_below (n # rs) (Suc n)" "fresh_below rs n \<Longrightarrow> fresh_below (rs @ [n]) (Suc n)"
  by (auto simp: fresh_below_def less_Suc_eq)

lemma fresh_below_mset: "mset rs' = mset rs \<Longrightarrow> n \<le> n' \<Longrightarrow> fresh_below rs n \<Longrightarrow> fresh_below rs' n'"
  unfolding fresh_below_def using mset_eq_imp_distinct_iff mset_eq_setD by (metis order_less_le_trans)

lemma nbserve_reach:
  assumes "(nbserve_step T net maxPipeline disp)\<^sup>*\<^sup>* (nbserve_init s p st, ps0) x"
  shows "nbserve_inv maxPipeline (fst x) \<and> fresh_below (nb_used (fst x)) (next_req (snd x))"
  using assms
proof (induction rule: rtranclp_induct)
  case base
  then show ?case by (simp add: nbserve_inv_def nbserve_init_def nb_used_def fresh_below_def)
next
  case (step y z)
  obtain sv ps sv' ps' where yz: "y = (sv, ps)" "z = (sv', ps')" by (cases y, cases z)
  have inv: "nbserve_inv maxPipeline sv'" using nbserve_inv_step step yz by auto
  have "fresh_below (nb_used sv') (next_req ps')"
    using nb_used_step [of T net maxPipeline sv ps sv' ps'] step yz fresh_below_mset fresh_below_add by auto
  then show ?case using inv yz by simp
qed

text \<open>The proxy's sessions: what was created is answered, dropped and queued in this order.\<close>

definition pserve_inv :: "nat \<Rightarrow> 'n pserve \<Rightarrow> bool" where
  "pserve_inv maxPipeline sv \<longleftrightarrow>
     ss_created sv = ss_answered sv @ ss_dropped sv @ ss_tasks sv \<and> length (ss_tasks sv) \<le> maxPipeline
     \<and> (ss_closed sv \<longrightarrow> \<not> ss_reading sv)
     \<and> (ss_errs sv = [] \<longrightarrow> ss_dropped sv = [])
     \<and> (ss_writer sv = Writing \<longrightarrow> ss_dropped sv = []) \<and> (ss_writer sv = Draining \<longrightarrow> ss_errs sv \<noteq> [])
     \<and> (ss_writer sv = Finished \<longrightarrow> ss_closed sv \<and> ss_tasks sv = [])"

lemma pserve_created_step:
  assumes "pserve_step T net maxPipeline disp (sv, ps) (sv', ps')"
  shows "ss_created sv' = ss_created sv \<and> next_req ps \<le> next_req ps'
    \<or> ss_created sv' = ss_created sv @ [next_req ps] \<and> next_req ps' = Suc (next_req ps)"
  using assms
proof (cases rule: pserve_step.cases)
  case read
  then show ?thesis using reader_turn(1) [OF read(3) refl] by auto
next
  case read_return
  then show ?thesis using reader_turn(2) [OF read_return(3) refl] by auto
next
  case written
  then show ?thesis using Session_loopWriter_next [OF written(4)] by simp
next
  case write_error
  then show ?thesis using Session_loopWriter_next [OF write_error(4)] by simp
qed simp_all

lemma pserve_inv_step:
  assumes inv: "pserve_inv maxPipeline sv" and step: "pserve_step T net maxPipeline disp (sv, ps) (sv', ps')"
  shows "pserve_inv maxPipeline sv'"
  using step
proof (cases rule: pserve_step.cases)
  case (read now s' p' tasks')
  have t: "tasks' = ss_tasks sv @ [next_req ps]" "length tasks' \<le> maxPipeline"
    using reader_turn(1) [OF read(3) refl] by auto
  show ?thesis using inv read(1,2) t by (auto simp: pserve_inv_def)
next
  case (read_return now err s' p' tasks')
  have "tasks' = ss_tasks sv" using reader_turn(2) [OF read_return(3) refl] by auto
  then show ?thesis using inv read_return(1,2)
    by (auto simp: pserve_inv_def push_error_def ErrorList_PushBack_def split: option.splits)
qed (use inv in \<open>auto simp: pserve_inv_def push_error_def ErrorList_PushBack_def\<close>)

lemma pserve_reach:
  assumes "(pserve_step T net maxPipeline disp)\<^sup>*\<^sup>* (pserve_init s p st, ps0) x"
  shows "pserve_inv maxPipeline (fst x) \<and> fresh_below (ss_created (fst x)) (next_req (snd x))"
  using assms
proof (induction rule: rtranclp_induct)
  case base
  then show ?case by (simp add: pserve_inv_def pserve_init_def fresh_below_def)
next
  case (step y z)
  obtain sv ps sv' ps' where yz: "y = (sv, ps)" "z = (sv', ps')" by (cases y, cases z)
  have inv: "pserve_inv maxPipeline sv'" using pserve_inv_step step yz by auto
  have "fresh_below (ss_created sv') (next_req ps')"
    using pserve_created_step [of T net maxPipeline sv ps sv' ps'] step yz
      fresh_below_mset [of "ss_created sv'" "ss_created sv"] fresh_below_add by auto
  then show ?case using inv yz by simp
qed

end

subsection \<open>Sessions serve every request once\<close>

text \<open>
  C9: In every state that a session of the load balancer or of a service reaches, under any
  interleaving of its reader, its handlers and its writer, nobody is left who would send on the
  closed channel, close it again or call \<open>Done\<close> once too often; every frame read is with its
  handler, in the channel, answered or dropped, once each, and frames are dropped only after an
  error of the session. When the writer has finished, all frames that were read have been
  answered or dropped.
\<close>

theorem nonblock_serve_safe:
  assumes "dispatcher d" and "(nbserve_step T net maxPipeline d)\<^sup>*\<^sup>* (nbserve_init s p st, ps0) (sv, ps)"
  shows "(sv_closed sv \<longrightarrow> \<not> sv_reading sv \<and> sv_flight sv = [] \<and> sv_handled sv = [] \<and> sv_sent sv = 0)
    \<and> sv_sent sv \<le> sv_wait sv \<and> length (sv_tasks sv) \<le> maxPipeline
    \<and> distinct (sv_handled sv @ sv_tasks sv @ sv_answered sv @ sv_dropped sv)
    \<and> sv_frames sv = length (sv_flight sv) + length (sv_handled sv @ sv_tasks sv @ sv_answered sv @ sv_dropped sv)
    \<and> (sv_dropped sv \<noteq> [] \<longrightarrow> sv_errs sv \<noteq> [])
    \<and> (sv_writer sv = Finished \<longrightarrow> sv_frames sv = length (sv_answered sv @ sv_dropped sv))"
  using dispatcher.nbserve_reach [OF assms]
  by (auto simp: dispatcher.nbserve_inv_def [OF assms(1)] dispatcher.nb_used_def [OF assms(1)]
      dispatcher.fresh_below_def [OF assms(1)])

text \<open>
  C10: A session of the proxy answers in the order of its requests: in every reachable state the
  requests made are those answered, then those dropped after an error, then those in the
  channel, each once and in the order in which they were read; the channel is closed only after
  the reader has ended, and a finished session has answered or dropped everything.
\<close>

theorem proxy_serve_in_order:
  assumes "dispatcher d" and "(pserve_step T net maxPipeline d)\<^sup>*\<^sup>* (pserve_init s p st, ps0) (sv, ps)"
  shows "ss_created sv = ss_answered sv @ ss_dropped sv @ ss_tasks sv \<and> distinct (ss_created sv)
    \<and> length (ss_tasks sv) \<le> maxPipeline \<and> (ss_closed sv \<longrightarrow> \<not> ss_reading sv)
    \<and> (ss_dropped sv \<noteq> [] \<longrightarrow> ss_errs sv \<noteq> [])
    \<and> (ss_writer sv = Finished \<longrightarrow> ss_created sv = ss_answered sv @ ss_dropped sv)"
  using dispatcher.pserve_reach [OF assms]
  by (auto simp: dispatcher.pserve_inv_def [OF assms(1)] dispatcher.fresh_below_def [OF assms(1)])

theorem nonblock_serve_safe_witness:
  "\<exists>sv ps. (nbserve_step strict_binary net_all 10 (ThriftRpcServer_Dispatch (\<lambda>bs. [bs])))\<^sup>*\<^sup>*
      (nbserve_init (NewNonBlockSession 0 ''proxy'' False None) (demo_reader (frame_bytes [1, 2, 3])) init_cmdstats, empty_pstate)
      (sv, ps) \<and> sv_frames sv = 1 \<and> length (sv_flight sv) = 1"
proof -
  let ?sv0 = "nbserve_init (NewNonBlockSession 0 ''proxy'' False None) (demo_reader (frame_bytes [1, 2, 3])) init_cmdstats"
  let ?d = "ThriftRpcServer_Dispatch (\<lambda>bs. [bs])"
  obtain f m q where rf: "ReadFrame strict_binary (pmem empty_pstate) (sv_p ?sv0) = Ret (Inr f, m, q)"
    using ReadFrame_ok [of "pmem empty_pstate" "demo_reader (frame_bytes [1, 2, 3])" "[1, 2, 3]" "[]" strict_binary]
    by (auto simp: empty_pstate_def nbserve_init_def)
  have "nbserve_step strict_binary net_all 10 ?d (?sv0, empty_pstate)
      (?sv0\<lparr>sv_p := q, sv_flight := f # sv_flight ?sv0, sv_wait := Suc (sv_wait ?sv0), sv_frames := Suc (sv_frames ?sv0)\<rparr>,
       empty_pstate\<lparr>pmem := m\<rparr>)"
    by (rule nbserve_step.read [OF _ rf]) (simp add: nbserve_init_def)
  then have r: "(nbserve_step strict_binary net_all 10 ?d)\<^sup>*\<^sup>* (?sv0, empty_pstate)
      (?sv0\<lparr>sv_p := q, sv_flight := f # sv_flight ?sv0, sv_wait := Suc (sv_wait ?sv0), sv_frames := Suc (sv_frames ?sv0)\<rparr>,
       empty_pstate\<lparr>pmem := m\<rparr>)" by (rule r_into_rtranclp)
  show ?thesis
    using nonblock_serve_safe [OF rpc_dispatch.dispatcher_axioms r] r
    by (intro exI conjI) (assumption, simp_all add: nbserve_init_def)
qed

theorem proxy_serve_in_order_witness:
  "\<exists>sv ps. (pserve_step strict_binary net_all 10 (Router_Dispatch strict_binary 0 (NewRouter ''prod'' False)))\<^sup>*\<^sup>*
      (pserve_init (NewSession 0 ''client'' False) (demo_reader (frame_bytes [1, 2, 3])) init_cmdstats, empty_pstate)
      (sv, ps) \<and> ss_created sv = [0] \<and> distinct (ss_created sv) \<and> ss_tasks sv = [0]"
proof -
  let ?d = "Router_Dispatch strict_binary 0 (NewRouter ''prod'' False)"
  let ?start = "pserve_init (NewSession 0 ''client'' False) (demo_reader (frame_bytes [1, 2, 3])) init_cmdstats"
  obtain s' p' ps' where t: "Session_loopReader_turn strict_binary 0 10 (Some ?d)
      (NewSession 0 ''client'' False) (demo_reader (frame_bytes [1, 2, 3])) [] empty_pstate =
      Ret (Continue, s', p', [0], ps')"
    using reader_queues_one_witness by blast
  let ?sv = "?start\<lparr>ss_ses := s', ss_p := p', ss_tasks := [0], ss_created := ss_created ?start @ [last [0]]\<rparr>"
  have "pserve_step strict_binary net_all 10 ?d (?start, empty_pstate) (?sv, ps')"
    by (rule pserve_step.read [where now = 0]) (simp_all add: pserve_init_def t)
  then have r: "(pserve_step strict_binary net_all 10 ?d)\<^sup>*\<^sup>* (?start, empty_pstate) (?sv, ps')"
    by (rule r_into_rtranclp)
  show ?thesis
    using proxy_serve_in_order [OF router_dispatch.dispatcher_axioms r] r
    by (intro exI conjI) (assumption, simp_all add: pserve_init_def)
qed

end
