(* ===== verification/Servers.thy ===== *)
theory Servers
  imports Configuration Unix_Socket Serve_Machine Endpoint
begin

text \<open>
  \<open>proxy/server_general_rpc.go\<close>, \<open>proxy/server_lb.go\<close>, \<open>proxy/server_proxy.go\<close> and \<open>run\<close> of
  \<open>proxy/backend_service_lb.go\<close>: how the programs listen, turn connections into sessions or
  workers, and leave. \<open>thrift.TServerSocket\<close> is not part of the repository and a field of
  \<open>thrift_sockets\<close>; unix sockets are those of the theory on them. The goroutines of a server are
  a step relation: the loop over \<open>Accept\<close>, the consumer of the channel between them, and the
  goroutine that waits for a signal. The theory shows what becomes of each accepted connection,
  how the loops end, and that a server that leaves is no longer announced.
\<close>

subsection \<open>Transports\<close>

text \<open>
  \<open>'t\<close> is a pointer to a \<open>TServerSocket\<close>, \<open>nil\<close> included; \<open>'k\<close> is what \<open>Accept\<close> returns.
  \<open>SocketAddr_of\<close> is \<open>None\<close> for a transport without \<open>Addr\<close>.
\<close>

record ('t, 'c, 'k, 'w) thrift_sockets =
  NewTServerSocket :: "string \<Rightarrow> go_error option \<times> 't"
  tss_Listen :: "'t \<Rightarrow> 'w \<Rightarrow> (go_error option \<times> 't \<times> 'w) outcome"
  tss_Accept :: "'t \<Rightarrow> 'w \<Rightarrow> ((go_error + 'k) \<times> 't \<times> 'w) outcome"
  tss_Interrupt :: "'t \<Rightarrow> 'w \<Rightarrow> 't \<times> 'w"
  tss_Close :: "'t \<Rightarrow> 'w \<Rightarrow> 't \<times> 'w"
  NewTSocketFromConnTimeout :: "'c \<Rightarrow> int \<Rightarrow> 'k"
  SocketAddr_of :: "'k \<Rightarrow> string option"

text \<open>A value of the interface \<open>thrift.TServerTransport\<close>; the pointer to a unix socket may be \<open>nil\<close>.\<close>

datatype ('l, 't) server_transport = UnixTransport "'l TServerUnixDomain option" | SocketTransport 't

fun transport_Listen :: "('l, 'c, 'w) os_net \<Rightarrow> ('t, 'c, 'k, 'w) thrift_sockets \<Rightarrow> ('l, 't) server_transport \<Rightarrow> 'w \<Rightarrow>
    (go_error option \<times> ('l, 't) server_transport \<times> 'w) outcome" where
  "transport_Listen N S (UnixTransport None) w = Panic NilDereference"
| "transport_Listen N S (UnixTransport (Some p)) w =
     (let (err, p', w') = su_Listen N p w in Ret (err, UnixTransport (Some p'), w'))"
| "transport_Listen N S (SocketTransport t) w =
     obind (tss_Listen S t w) (\<lambda>(err, t', w'). Ret (err, SocketTransport t', w'))"

fun transport_Accept :: "thrift_lib \<Rightarrow> ('l, 'c, 'w) os_net \<Rightarrow> ('t, 'c, 'k, 'w) thrift_sockets \<Rightarrow>
    ('l, 't) server_transport \<Rightarrow> 'w \<Rightarrow> ((go_error + 'k) \<times> ('l, 't) server_transport \<times> 'w) outcome" where
  "transport_Accept T N S (UnixTransport None) w = Panic NilDereference"
| "transport_Accept T N S (UnixTransport (Some p)) w =
     (let (r, w') = su_Accept T N (NewTSocketFromConnTimeout S) p w in Ret (r, UnixTransport (Some p), w'))"
| "transport_Accept T N S (SocketTransport t) w =
     obind (tss_Accept S t w) (\<lambda>(r, t', w'). Ret (r, SocketTransport t', w'))"

fun transport_Interrupt :: "('t, 'c, 'k, 'w) thrift_sockets \<Rightarrow> ('l, 't) server_transport \<Rightarrow> 'w \<Rightarrow>
    (('l, 't) server_transport \<times> 'w) outcome" where
  "transport_Interrupt S (UnixTransport None) w = Panic NilDereference"
| "transport_Interrupt S (UnixTransport (Some p)) w = Ret (UnixTransport (Some (su_Interrupt p)), w)"
| "transport_Interrupt S (SocketTransport t) w = (let (t', w') = tss_Interrupt S t w in Ret (SocketTransport t', w'))"

fun transport_Close :: "('l, 'c, 'w) os_net \<Rightarrow> ('t, 'c, 'k, 'w) thrift_sockets \<Rightarrow> ('l, 't) server_transport \<Rightarrow> 'w \<Rightarrow>
    (('l, 't) server_transport \<times> 'w) outcome" where
  "transport_Close N S (UnixTransport None) w = Panic NilDereference"
| "transport_Close N S (UnixTransport (Some p)) w = (let (_, p', w') = su_Close N p w in Ret (UnixTransport (Some p'), w'))"
| "transport_Close N S (SocketTransport t) w = (let (t', w') = tss_Close S t w in Ret (SocketTransport t', w'))"

text \<open>
  The same lines in all four places: an address without a colon is a unix socket, whose file an
  earlier process may have left.
\<close>

definition open_transport :: "('l, 'c, 'w) os_net \<Rightarrow> ('t, 'c, 'k, 'w) thrift_sockets \<Rightarrow> string \<Rightarrow> 'w \<Rightarrow>
    go_error option \<times> ('l, 't) server_transport \<times> bool \<times> 'w" where
  "open_transport N S addr w =
     (if \<not> strings_Contains addr '':''
      then let w1 = (if FileExist N addr w then os_Remove N addr w else w) in
           (case NewTServerUnixDomain N addr of
              Inl err \<Rightarrow> (Some err, UnixTransport None, True, w1)
            | Inr p \<Rightarrow> (None, UnixTransport (Some p), True, w1))
      else let (err, t) = NewTServerSocket S addr in (err, SocketTransport t, False, w))"

text \<open>Opening with the panics of \<open>Run\<close> of a service, \<open>Run\<close> of the load balancer and \<open>run\<close> of its workers' side.\<close>

definition listen_or_panic :: "string \<Rightarrow> string \<Rightarrow> ('l, 'c, 'w) os_net \<Rightarrow> ('t, 'c, 'k, 'w) thrift_sockets \<Rightarrow> string \<Rightarrow> 'w \<Rightarrow>
    (('l, 't) server_transport \<times> bool \<times> 'w) outcome" where
  "listen_or_panic invalid cannot N S addr w =
     (case open_transport N S addr w of
        (Some _, _, _, _) \<Rightarrow> Panic (PanicMsg invalid)
      | (None, tr, isUnixDomain, w1) \<Rightarrow>
          obind (transport_Listen N S tr w1) (\<lambda>(err, tr', w2).
            if err \<noteq> None then Panic (PanicMsg cannot) else Ret (tr', isUnixDomain, w2)))"

definition ThriftRpcServer_listen :: "('l, 'c, 'w) os_net \<Rightarrow> ('t, 'c, 'k, 'w) thrift_sockets \<Rightarrow> string \<Rightarrow> 'w \<Rightarrow>
    (('l, 't) server_transport \<times> bool \<times> 'w) outcome" where
  "ThriftRpcServer_listen N S addr =
     listen_or_panic (''Invalid FrontendAddr: '' @ addr) (''Server Socket Open Failed: '' @ addr) N S addr"

definition LB_listen :: "('l, 'c, 'w) os_net \<Rightarrow> ('t, 'c, 'k, 'w) thrift_sockets \<Rightarrow> string \<Rightarrow> 'w \<Rightarrow>
    (('l, 't) server_transport \<times> bool \<times> 'w) outcome" where
  "LB_listen N S addr =
     listen_or_panic (''Invalid FrontendAddress: '' @ addr) (''Binding Error FrontendAddress: '' @ addr) N S addr"

definition BackServiceLB_listen :: "('l, 'c, 'w) os_net \<Rightarrow> ('t, 'c, 'k, 'w) thrift_sockets \<Rightarrow> string \<Rightarrow> 'w \<Rightarrow>
    (('l, 't) server_transport \<times> bool \<times> 'w) outcome" where
  "BackServiceLB_listen N S addr = listen_or_panic ''BackendAddr Invalid'' ''Server Socket Open Failed'' N S addr"

text \<open>The proxy goes on after both errors: with a \<open>nil\<close> transport, or with one that does not listen.\<close>

definition ProxyServer_listen :: "('l, 'c, 'w) os_net \<Rightarrow> ('t, 'c, 'k, 'w) thrift_sockets \<Rightarrow> string \<Rightarrow> 'w \<Rightarrow>
    (('l, 't) server_transport \<times> bool \<times> 'w) outcome" where
  "ProxyServer_listen N S addr w =
     (case open_transport N S addr w of
        (_, tr, isUnixDomain, w1) \<Rightarrow>
          obind (transport_Listen N S tr w1) (\<lambda>(_, tr', w2). Ret (tr', isUnixDomain, w2)))"

subsection \<open>The loop over \<open>Accept\<close>\<close>

definition ACCEPT_CAP :: nat where
  "ACCEPT_CAP = 4096"

datatype 'k main_pc = Accepting | Sending 'k | Returned

text \<open>
  \<open>ac_x\<close> is what the consumer of \<open>ch\<close> builds up; \<open>ac_accepted\<close> and \<open>ac_taken\<close> record the
  connections accepted and those the consumer has received. A panic in any goroutine ends the
  process: \<open>ac_crash\<close>.
\<close>

record ('l, 't, 'w, 'k, 'x) acceptor =
  ac_transport :: "('l, 't) server_transport"
  ac_world :: 'w
  ac_ch :: "'k list"
  ac_closed :: bool
  ac_main :: "'k main_pc"
  ac_x :: 'x
  ac_crash :: "go_panic option"
  ac_accepted :: "'k list"
  ac_taken :: "'k list"

definition acceptor_start :: "('l, 't) server_transport \<Rightarrow> 'w \<Rightarrow> 'x \<Rightarrow> ('l, 't, 'w, 'k, 'x) acceptor" where
  "acceptor_start tr w x = \<lparr>ac_transport = tr, ac_world = w, ac_ch = [], ac_closed = False, ac_main = Accepting, ac_x = x,
     ac_crash = None, ac_accepted = [], ac_taken = []\<rparr>"

definition close_ch :: "('l, 't, 'w, 'k, 'x) acceptor \<Rightarrow> ('l, 't, 'w, 'k, 'x) acceptor outcome" where
  "close_ch a = (if ac_closed a then Panic CloseOfClosedChannel else Ret (a\<lparr>ac_closed := True\<rparr>))"

text \<open>
  What follows an error of \<open>Accept\<close>: services and the proxy leave the loop and run the deferred
  \<open>close(ch)\<close>; the load balancer closes \<open>ch\<close> before it leaves and then again; the workers'
  side returns and leaves its channel open.
\<close>

definition Run_break :: "('l, 't, 'w, 'k, 'x) acceptor \<Rightarrow> ('l, 't, 'w, 'k, 'x) acceptor outcome" where
  "Run_break a = close_ch a"

definition LB_Run_break :: "('l, 't, 'w, 'k, 'x) acceptor \<Rightarrow> ('l, 't, 'w, 'k, 'x) acceptor outcome" where
  "LB_Run_break a = obind (close_ch a) close_ch"

definition BackServiceLB_break :: "('l, 't, 'w, 'k, 'x) acceptor \<Rightarrow> ('l, 't, 'w, 'k, 'x) acceptor outcome" where
  "BackServiceLB_break a = Ret a"

inductive accept_step :: "thrift_lib \<Rightarrow> ('l, 'c, 'w) os_net \<Rightarrow> ('t, 'c, 'k, 'w) thrift_sockets \<Rightarrow>
    (('l, 't, 'w, 'k, 'x) acceptor \<Rightarrow> ('l, 't, 'w, 'k, 'x) acceptor outcome) \<Rightarrow> (int \<Rightarrow> 'k \<Rightarrow> 'x \<Rightarrow> 'x outcome) \<Rightarrow>
    ('x \<Rightarrow> 'x \<Rightarrow> bool) \<Rightarrow> ('l, 't, 'w, 'k, 'x) acceptor \<Rightarrow> ('l, 't, 'w, 'k, 'x) acceptor \<Rightarrow> bool"
  for T :: thrift_lib and N :: "('l, 'c, 'w) os_net" and S :: "('t, 'c, 'k, 'w) thrift_sockets"
    and leave :: "('l, 't, 'w, 'k, 'x) acceptor \<Rightarrow> ('l, 't, 'w, 'k, 'x) acceptor outcome"
    and consume :: "int \<Rightarrow> 'k \<Rightarrow> 'x \<Rightarrow> 'x outcome" and env :: "'x \<Rightarrow> 'x \<Rightarrow> bool" where
  accept: "ac_crash a = None \<Longrightarrow> ac_main a = Accepting \<Longrightarrow>
     transport_Accept T N S (ac_transport a) (ac_world a) = Ret (Inr k, tr, w) \<Longrightarrow>
     accept_step T N S leave consume env a
       (a\<lparr>ac_transport := tr, ac_world := w, ac_main := Sending k, ac_accepted := ac_accepted a @ [k]\<rparr>)"
| accept_error: "ac_crash a = None \<Longrightarrow> ac_main a = Accepting \<Longrightarrow>
     transport_Accept T N S (ac_transport a) (ac_world a) = Ret (Inl e, tr, w) \<Longrightarrow>
     leave (a\<lparr>ac_transport := tr, ac_world := w\<rparr>) = Ret a' \<Longrightarrow>
     accept_step T N S leave consume env a (a'\<lparr>ac_main := Returned\<rparr>)"
| accept_error_panic: "ac_crash a = None \<Longrightarrow> ac_main a = Accepting \<Longrightarrow>
     transport_Accept T N S (ac_transport a) (ac_world a) = Ret (Inl e, tr, w) \<Longrightarrow>
     leave (a\<lparr>ac_transport := tr, ac_world := w\<rparr>) = Panic p \<Longrightarrow>
     accept_step T N S leave consume env a (a\<lparr>ac_transport := tr, ac_world := w, ac_crash := Some p\<rparr>)"
| accept_panic: "ac_crash a = None \<Longrightarrow> ac_main a = Accepting \<Longrightarrow>
     transport_Accept T N S (ac_transport a) (ac_world a) = Panic p \<Longrightarrow>
     accept_step T N S leave consume env a (a\<lparr>ac_crash := Some p\<rparr>)"
| send: "ac_crash a = None \<Longrightarrow> ac_main a = Sending k \<Longrightarrow> \<not> ac_closed a \<Longrightarrow> length (ac_ch a) < ACCEPT_CAP \<Longrightarrow>
     accept_step T N S leave consume env a (a\<lparr>ac_ch := ac_ch a @ [k], ac_main := Accepting\<rparr>)"
| send_closed: "ac_crash a = None \<Longrightarrow> ac_main a = Sending k \<Longrightarrow> ac_closed a \<Longrightarrow>
     accept_step T N S leave consume env a (a\<lparr>ac_crash := Some SendOnClosedChannel\<rparr>)"
| take: "ac_crash a = None \<Longrightarrow> ac_ch a = k # rest \<Longrightarrow> consume now k (ac_x a) = Ret x \<Longrightarrow>
     accept_step T N S leave consume env a (a\<lparr>ac_ch := rest, ac_x := x, ac_taken := ac_taken a @ [k]\<rparr>)"
| take_panic: "ac_crash a = None \<Longrightarrow> ac_ch a = k # rest \<Longrightarrow> consume now k (ac_x a) = Panic p \<Longrightarrow>
     accept_step T N S leave consume env a (a\<lparr>ac_ch := rest, ac_crash := Some p, ac_taken := ac_taken a @ [k]\<rparr>)"
| interrupt: "ac_crash a = None \<Longrightarrow> transport_Interrupt S (ac_transport a) (ac_world a) = Ret (tr, w) \<Longrightarrow>
     accept_step T N S leave consume env a (a\<lparr>ac_transport := tr, ac_world := w\<rparr>)"
| close: "ac_crash a = None \<Longrightarrow> transport_Close N S (ac_transport a) (ac_world a) = Ret (tr, w) \<Longrightarrow>
     accept_step T N S leave consume env a (a\<lparr>ac_transport := tr, ac_world := w\<rparr>)"
| elsewhere: "ac_crash a = None \<Longrightarrow> env (ac_x a) x \<Longrightarrow> accept_step T N S leave consume env a (a\<lparr>ac_world := w, ac_x := x\<rparr>)"

subsection \<open>The consumers\<close>

definition server_address :: "('t, 'c, 'k, 'w) thrift_sockets \<Rightarrow> bool \<Rightarrow> string \<Rightarrow> 'k \<Rightarrow> string" where
  "server_address S isUnixDomain front k =
     (case SocketAddr_of S k of Some addr \<Rightarrow> if isUnixDomain then front else addr | None \<Rightarrow> ''unknow'')"

definition proxy_address :: "('t, 'c, 'k, 'w) thrift_sockets \<Rightarrow> bool \<Rightarrow> string \<Rightarrow> 'k \<Rightarrow> string" where
  "proxy_address S isUnixDomain front k =
     (if isUnixDomain then front else case SocketAddr_of S k of Some addr \<Rightarrow> addr | None \<Rightarrow> ''unknow'')"

text \<open>
  Each connection gets a session of its own, which serves it from then on. The time of the last
  request is a variable that all sessions of the server share; a session starts with its value.
\<close>

definition serve_nonblock :: "('t, 'c, 'k, 'w) thrift_sockets \<Rightarrow> bool \<Rightarrow> string \<Rightarrow> bool \<Rightarrow> int \<Rightarrow> int \<Rightarrow> 'k \<Rightarrow>
    ('k \<times> nonblock_session) list \<Rightarrow> ('k \<times> nonblock_session) list outcome" where
  "serve_nonblock S isUnixDomain front verbose lastRequest now k ss =
     Ret (ss @ [(k, NewNonBlockSession now (server_address S isUnixDomain front k) verbose (Some lastRequest))])"

definition serve_proxy :: "('t, 'c, 'k, 'w) thrift_sockets \<Rightarrow> bool \<Rightarrow> string \<Rightarrow> bool \<Rightarrow> int \<Rightarrow> 'k \<Rightarrow>
    ('k \<times> session) list \<Rightarrow> ('k \<times> session) list outcome" where
  "serve_proxy S isUnixDomain front verbose now k ss =
     Ret (ss @ [(k, NewSession now (proxy_address S isUnixDomain front k) verbose)])"

definition BackServiceLB_take :: "('t, 'c, 'k, 'w) thrift_sockets \<Rightarrow> bool \<Rightarrow> string \<Rightarrow> int \<Rightarrow> 'k \<Rightarrow> lstate \<Rightarrow> lstate outcome" where
  "BackServiceLB_take S isUnixDomain backendAddr now k ls =
     (case SocketAddr_of S k of
        Some addr \<Rightarrow> Ret (BackServiceLB_accept (if isUnixDomain then backendAddr else addr) ls)
      | None \<Rightarrow> Panic (PanicMsg ''Invalid Socket Type''))"

text \<open>Other goroutines of the load balancer may do anything to the workers but make or rename them.\<close>

definition worker_addrs :: "lstate \<Rightarrow> string list" where
  "worker_addrs ls = map (\<lambda>c. lb_addr4Log (lconns ls c)) [0 ..< next_lconn ls]"

subsection \<open>What every loop keeps\<close>

definition sending :: "'k main_pc \<Rightarrow> 'k list" where
  "sending pc = (case pc of Sending k \<Rightarrow> [k] | _ \<Rightarrow> [])"

lemma transport_Accept_kind:
  "transport_Accept T N S tr w = Ret (r, tr', w') \<Longrightarrow> tr \<noteq> UnixTransport None \<Longrightarrow> tr' \<noteq> UnixTransport None"
  by (cases "(T, N, S, tr, w)" rule: transport_Accept.cases) (auto split: prod.splits)

lemma transport_Accept_panic:
  "transport_Accept T N S tr w = Panic p \<Longrightarrow> tr \<noteq> UnixTransport None \<Longrightarrow> \<exists>t. tss_Accept S t w = Panic p"
  by (cases "(T, N, S, tr, w)" rule: transport_Accept.cases) (auto split: prod.splits elim: obind.elims)

lemma transport_Listen_kind:
  "transport_Listen N S tr w = Ret (r, tr', w') \<Longrightarrow> tr' \<noteq> UnixTransport None"
  by (cases "(N, S, tr, w)" rule: transport_Listen.cases) (auto split: prod.splits)

lemma listen_kind:
  assumes "listen_or_panic invalid cannot N S addr w = Ret (tr, unix, w')"
  shows "tr \<noteq> UnixTransport None" "unix \<longleftrightarrow> CHR '':'' \<notin> set addr"
proof -
  obtain err tr0 u w1 where o: "open_transport N S addr w = (err, tr0, u, w1)" by (metis prod_cases4)
  then have e: "err = None" using assms by (cases err) (simp_all add: listen_or_panic_def)
  with o assms obtain e2 where l: "transport_Listen N S tr0 w1 = Ret (e2, tr, w')" and u: "u = unix"
    by (auto simp: listen_or_panic_def split: if_splits)
  show "tr \<noteq> UnixTransport None" by (rule transport_Listen_kind [OF l])
  show "unix \<longleftrightarrow> CHR '':'' \<notin> set addr"
    using o u by (auto simp: open_transport_def Contains_char Let_def split: if_splits sum.splits prod.splits)
qed

lemma transport_Interrupt_kind:
  "transport_Interrupt S tr w = Ret (tr', w') \<Longrightarrow> tr \<noteq> UnixTransport None \<Longrightarrow> tr' \<noteq> UnixTransport None"
  by (cases "(S, tr, w)" rule: transport_Interrupt.cases) (auto split: prod.splits)

lemma transport_Close_kind:
  "transport_Close N S tr w = Ret (tr', w') \<Longrightarrow> tr \<noteq> UnixTransport None \<Longrightarrow> tr' \<noteq> UnixTransport None"
  by (cases "(N, S, tr, w)" rule: transport_Close.cases) (auto split: prod.splits)

text \<open>
  The contract of a consumer: it appends one entry for each connection, in a view of its state
  that no other goroutine changes; and what follows an error of \<open>Accept\<close> at most closes \<open>ch\<close>.
\<close>

locale accept_loop =
  fixes leave :: "('l, 't, 'w, 'k, 'x) acceptor \<Rightarrow> ('l, 't, 'w, 'k, 'x) acceptor outcome"
    and consume :: "int \<Rightarrow> 'k \<Rightarrow> 'x \<Rightarrow> 'x outcome" and env :: "'x \<Rightarrow> 'x \<Rightarrow> bool"
    and view :: "'x \<Rightarrow> 'v list" and label :: "'k \<Rightarrow> 'v"
  assumes leave_ret: "leave a = Ret a' \<Longrightarrow> a' = a \<or> a' = a\<lparr>ac_closed := True\<rparr>"
    and consume_view: "consume now k x = Ret x' \<Longrightarrow> view x' = view x @ [label k]"
    and env_view: "env x x' \<Longrightarrow> view x' = view x"
begin

definition loop_inv :: "('l, 't, 'w, 'k, 'x) acceptor \<Rightarrow> bool" where
  "loop_inv a \<longleftrightarrow> ac_accepted a = ac_taken a @ ac_ch a @ sending (ac_main a) \<and> length (ac_ch a) \<le> ACCEPT_CAP
     \<and> (ac_closed a \<longrightarrow> ac_main a = Returned) \<and> (ac_crash a = None \<longrightarrow> view (ac_x a) = map label (ac_taken a))"

lemma loop_inv_start: "view x = [] \<Longrightarrow> loop_inv (acceptor_start tr w x)"
  by (simp add: loop_inv_def acceptor_start_def sending_def)

lemma loop_inv_step:
  assumes inv: "loop_inv a" and step: "accept_step T N S leave consume env a a'"
  shows "loop_inv a'"
  using step
proof (cases rule: accept_step.cases)
  case (accept_error e tr w b)
  then have "b = a\<lparr>ac_transport := tr, ac_world := w\<rparr> \<or> b = a\<lparr>ac_transport := tr, ac_world := w, ac_closed := True\<rparr>"
    using leave_ret by fastforce
  then show ?thesis using inv accept_error(1,2,3) by (auto simp: loop_inv_def sending_def)
next
  case (take k rest now x)
  then show ?thesis using inv consume_view [OF take(4)] by (auto simp: loop_inv_def)
next
  case (elsewhere x w)
  then show ?thesis using inv env_view by (auto simp: loop_inv_def)
qed (use inv in \<open>auto simp: loop_inv_def sending_def\<close>)

lemma loop_reach:
  assumes "(accept_step T N S leave consume env)\<^sup>*\<^sup>* (acceptor_start tr w x) a" and "view x = []"
  shows "loop_inv a"
  using assms by (induction rule: rtranclp_induct) (simp_all add: loop_inv_start loop_inv_step)

text \<open>
  Neither the channel nor the consumer makes the process panic when leaving an open channel and
  consuming do not.
\<close>

lemma no_crash_step:
  assumes inv: "loop_inv a" "ac_crash a = None" "ac_transport a \<noteq> UnixTransport None"
    and accepts: "\<And>t w p. tss_Accept S t w \<noteq> Panic p" and leaves: "\<And>b p. \<not> ac_closed b \<Longrightarrow> leave b \<noteq> Panic p"
    and consumes: "\<And>now k x p. consume now k x \<noteq> Panic p"
    and step: "accept_step T N S leave consume env a a'"
  shows "ac_crash a' = None \<and> ac_transport a' \<noteq> UnixTransport None"
  using step
proof (cases rule: accept_step.cases)
  case (accept k tr w)
  then show ?thesis using inv transport_Accept_kind by fastforce
next
  case (accept_error e tr w b)
  have "b = a\<lparr>ac_transport := tr, ac_world := w\<rparr> \<or> b = a\<lparr>ac_transport := tr, ac_world := w, ac_closed := True\<rparr>"
    using leave_ret [OF accept_error(5)] by auto
  then show ?thesis using inv transport_Accept_kind [OF accept_error(4)] accept_error(1) by auto
next
  case (accept_error_panic e tr w p)
  then show ?thesis using inv leaves [of "a\<lparr>ac_transport := tr, ac_world := w\<rparr>" p] by (auto simp: loop_inv_def)
next
  case (accept_panic p)
  obtain t where "tss_Accept S t (ac_world a) = Panic p" using transport_Accept_panic [OF accept_panic(4) inv(3)] by blast
  then show ?thesis using accepts by simp
next
  case (interrupt tr w)
  then show ?thesis using inv transport_Interrupt_kind by fastforce
next
  case (close tr w)
  then show ?thesis using inv transport_Close_kind by fastforce
qed (use inv consumes in \<open>auto simp: loop_inv_def\<close>)

lemma no_crash_reach:
  assumes "(accept_step T N S leave consume env)\<^sup>*\<^sup>* (acceptor_start tr w x) a" and "view x = []"
    and "tr \<noteq> UnixTransport None" "\<And>t w p. tss_Accept S t w \<noteq> Panic p"
    "\<And>b p. \<not> ac_closed b \<Longrightarrow> leave b \<noteq> Panic p" "\<And>now k x p. consume now k x \<noteq> Panic p"
  shows "ac_crash a = None \<and> ac_transport a \<noteq> UnixTransport None"
  using assms(1)
proof (induction rule: rtranclp_induct)
  case base
  then show ?case using assms(3) by (simp add: acceptor_start_def)
next
  case (step b c)
  have "loop_inv b" using loop_reach [OF step(1) assms(2)] .
  then show ?case
    by (rule no_crash_step [OF _ conjunct1 [OF step(3)] conjunct2 [OF step(3)] assms(4) _ assms(6) step(2)]) (rule assms(5))
qed

end

lemma Run_break_ret: "Run_break a = Ret a' \<Longrightarrow> a' = a \<or> a' = a\<lparr>ac_closed := True\<rparr>"
  by (simp add: Run_break_def close_ch_def split: if_splits)

lemma LB_Run_break_panics: "LB_Run_break a = Panic CloseOfClosedChannel"
  by (simp add: LB_Run_break_def close_ch_def)

text \<open>Sessions are seen as the connections with the addresses that were logged for them.\<close>

definition session_view :: "('k \<times> 's session_scheme) list \<Rightarrow> ('k \<times> string) list" where
  "session_view ss = map (\<lambda>(k, s). (k, RemoteAddress s)) ss"

interpretation rpc_loop: accept_loop Run_break "serve_nonblock S unix front verbose lastRequest" "(=)" session_view
    "\<lambda>k. (k, server_address S unix front k)" for S unix front verbose lastRequest
  by unfold_locales (auto simp: Run_break_def close_ch_def serve_nonblock_def session_view_def NewNonBlockSession_def
      split: if_splits)

interpretation lb_loop: accept_loop LB_Run_break "serve_nonblock S unix front verbose lastRequest" "(=)" session_view
    "\<lambda>k. (k, server_address S unix front k)" for S unix front verbose lastRequest
  by unfold_locales (auto simp: LB_Run_break_panics serve_nonblock_def session_view_def NewNonBlockSession_def)

interpretation proxy_loop: accept_loop Run_break "serve_proxy S unix front verbose" "(=)" session_view
    "\<lambda>k. (k, proxy_address S unix front k)" for S unix front verbose
  by unfold_locales (auto simp: Run_break_def close_ch_def serve_proxy_def session_view_def NewSession_def
      split: if_splits)

definition worker_env :: "lstate \<Rightarrow> lstate \<Rightarrow> bool" where
  "worker_env ls ls' \<longleftrightarrow> worker_addrs ls' = worker_addrs ls"

lemma BackServiceLB_accept_addrs: "worker_addrs (BackServiceLB_accept addr ls) = worker_addrs ls @ [addr]"
  by (simp add: worker_addrs_def BackServiceLB_accept_def NewBackendConnLB_def BackServiceLB_append_def
      upd_lbs_def upd_lconn_def)

interpretation worker_loop: accept_loop BackServiceLB_break "BackServiceLB_take S unix addr" worker_env worker_addrs
    "\<lambda>k. if unix then addr else the (SocketAddr_of S k)" for S unix addr
  by unfold_locales (auto simp: BackServiceLB_break_def BackServiceLB_take_def worker_env_def BackServiceLB_accept_addrs
      split: option.splits)

subsection \<open>The four loops\<close>

definition ThriftRpcServer_run_step :: "thrift_lib \<Rightarrow> ('l, 'c, 'w) os_net \<Rightarrow> ('t, 'c, 'k, 'w) thrift_sockets \<Rightarrow> bool \<Rightarrow>
    string \<Rightarrow> bool \<Rightarrow> int \<Rightarrow> ('l, 't, 'w, 'k, ('k \<times> nonblock_session) list) acceptor \<Rightarrow>
    ('l, 't, 'w, 'k, ('k \<times> nonblock_session) list) acceptor \<Rightarrow> bool" where
  "ThriftRpcServer_run_step T N S isUnixDomain front verbose lastRequest =
     accept_step T N S Run_break (serve_nonblock S isUnixDomain front verbose lastRequest) (=)"

definition LB_run_step :: "thrift_lib \<Rightarrow> ('l, 'c, 'w) os_net \<Rightarrow> ('t, 'c, 'k, 'w) thrift_sockets \<Rightarrow> bool \<Rightarrow>
    string \<Rightarrow> bool \<Rightarrow> int \<Rightarrow> ('l, 't, 'w, 'k, ('k \<times> nonblock_session) list) acceptor \<Rightarrow>
    ('l, 't, 'w, 'k, ('k \<times> nonblock_session) list) acceptor \<Rightarrow> bool" where
  "LB_run_step T N S isUnixDomain front verbose lastRequest =
     accept_step T N S LB_Run_break (serve_nonblock S isUnixDomain front verbose lastRequest) (=)"

definition ProxyServer_run_step :: "thrift_lib \<Rightarrow> ('l, 'c, 'w) os_net \<Rightarrow> ('t, 'c, 'k, 'w) thrift_sockets \<Rightarrow> bool \<Rightarrow>
    string \<Rightarrow> bool \<Rightarrow> ('l, 't, 'w, 'k, ('k \<times> session) list) acceptor \<Rightarrow>
    ('l, 't, 'w, 'k, ('k \<times> session) list) acceptor \<Rightarrow> bool" where
  "ProxyServer_run_step T N S isUnixDomain front verbose = accept_step T N S Run_break (serve_proxy S isUnixDomain front verbose) (=)"

definition BackServiceLB_run_step :: "thrift_lib \<Rightarrow> ('l, 'c, 'w) os_net \<Rightarrow> ('t, 'c, 'k, 'w) thrift_sockets \<Rightarrow> bool \<Rightarrow>
    string \<Rightarrow> ('l, 't, 'w, 'k, lstate) acceptor \<Rightarrow> ('l, 't, 'w, 'k, lstate) acceptor \<Rightarrow> bool" where
  "BackServiceLB_run_step T N S isUnixDomain backendAddr =
     accept_step T N S BackServiceLB_break (BackServiceLB_take S isUnixDomain backendAddr) worker_env"

subsection \<open>Every connection is served\<close>


text \<open>The same for the proxy and, up to the panic on a strange socket, for the workers of the load balancer.\<close>

lemma proxy_connections_served:
  assumes "tr \<noteq> UnixTransport None" and "\<And>t w p. tss_Accept S t w \<noteq> Panic p"
    and "(ProxyServer_run_step T N S unix front verbose)\<^sup>*\<^sup>* (acceptor_start tr w []) a"
  shows "ac_crash a = None \<and> ac_accepted a = ac_taken a @ ac_ch a @ sending (ac_main a)
    \<and> session_view (ac_x a) = map (\<lambda>k. (k, proxy_address S unix front k)) (ac_taken a)"
proof -
  note reach = assms(3) [unfolded ProxyServer_run_step_def]
  have "ac_crash a = None"
    using proxy_loop.no_crash_reach [OF reach _ assms(1,2)]
    by (simp add: session_view_def Run_break_def close_ch_def serve_proxy_def)
  then show ?thesis using proxy_loop.loop_reach [OF reach]
    by (auto simp: session_view_def proxy_loop.loop_inv_def)
qed

lemma workers_accepted:
  assumes "(BackServiceLB_run_step T N S unix addr)\<^sup>*\<^sup>* (acceptor_start tr w (empty_lstate service addr verbose)) a"
    and "ac_crash a = None"
  shows "worker_addrs (ac_x a) = map (\<lambda>k. if unix then addr else the (SocketAddr_of S k)) (ac_taken a)
    \<and> ac_accepted a = ac_taken a @ ac_ch a @ sending (ac_main a)"
  using worker_loop.loop_reach [OF assms(1) [unfolded BackServiceLB_run_step_def]] assms(2)
  by (simp add: worker_loop.loop_inv_def worker_addrs_def empty_lstate_def)

text \<open>
  C20: The load balancer cannot leave its loop in order. No reachable state has \<open>Run\<close> returned;
  and once its unix socket was interrupted, which is how it is told to leave, the next step of
  the loop closes the channel twice and the process panics.
\<close>

theorem lb_leaves_by_panic:
  assumes "(LB_run_step T N S unix front verbose lastRequest)\<^sup>*\<^sup>* (acceptor_start tr w []) a"
  shows "ac_main a \<noteq> Returned
    \<and> (ac_crash a = None \<and> ac_main a = Accepting \<and> ac_transport a = UnixTransport (Some p) \<and> su_interrupted p \<longrightarrow>
        (\<exists>a'. LB_run_step T N S unix front verbose lastRequest a a'
          \<and> ac_crash a' = Some CloseOfClosedChannel))"
  unfolding LB_run_step_def
proof (intro conjI impI)
  show "ac_main a \<noteq> Returned"
    using assms [unfolded LB_run_step_def]
  proof (induction rule: rtranclp_induct)
    case base
    then show ?case by (simp add: acceptor_start_def)
  next
    case (step b c)
    from step(2) show ?case by (cases rule: accept_step.cases) (use step(3) in \<open>auto simp: LB_Run_break_panics\<close>)
  qed
  assume a: "ac_crash a = None \<and> ac_main a = Accepting \<and> ac_transport a = UnixTransport (Some p) \<and> su_interrupted p"
  then have "transport_Accept T N S (ac_transport a) (ac_world a) =
      Ret (Inl (ErrorString ''Transport Interrupted''), ac_transport a, ac_world a)"
    by (simp add: su_Accept_interrupted)
  from accept_step.accept_error_panic [OF _ _ this LB_Run_break_panics] a
  show "\<exists>a'. accept_step T N S LB_Run_break (serve_nonblock S unix front verbose lastRequest) (=) a a'
      \<and> ac_crash a' = Some CloseOfClosedChannel" by fastforce
qed

subsection \<open>A server on a socket file\<close>

definition local_sockets :: "(unit, nat, nat, os_world) thrift_sockets" where
  "local_sockets = \<lparr>
     NewTServerSocket = (\<lambda>_. (None, ())),
     tss_Listen = (\<lambda>t w. Ret (None, t, w)),
     tss_Accept = (\<lambda>t w. Ret (Inl (ErrorString ''closed''), t, w)),
     tss_Interrupt = (\<lambda>t w. (t, w)), tss_Close = (\<lambda>t w. (t, w)),
     NewTSocketFromConnTimeout = (\<lambda>c _. c), SocketAddr_of = (\<lambda>_. Some ''peer'')\<rparr>"

definition demo_unix :: "string TServerUnixDomain" where
  "demo_unix = \<lparr>su_listener = Some ''rpc.sock'', su_addr = \<lparr>na_Network = ''unix'', na_String = ''rpc.sock''\<rparr>,
     su_clientTimeout = 0, su_interrupted = False\<rparr>"

lemma demo_listen:
  "ThriftRpcServer_listen local_net local_sockets ''rpc.sock'' ([''rpc.sock''], [], 0) =
     Ret (UnixTransport (Some demo_unix), True, ([''rpc.sock''], [], 0))"
  by (simp add: ThriftRpcServer_listen_def listen_or_panic_def open_transport_def Contains_char FileExist_def local_net_def
      NewTServerUnixDomain_def NewTServerUnixDomainTimeout_def su_Listen_def su_IsListening_def demo_unix_def)

lemma demo_accept:
  "accept_step strict_binary local_net local_sockets leave consume env
     (acceptor_start (UnixTransport (Some demo_unix)) ([''rpc.sock''], [], 0) x)
     ((acceptor_start (UnixTransport (Some demo_unix)) ([''rpc.sock''], [], 0) x)
        \<lparr>ac_world := ([''rpc.sock''], [0], 1), ac_main := Sending 0, ac_accepted := [0]\<rparr>)"
proof -
  let ?a = "acceptor_start (UnixTransport (Some demo_unix)) ([''rpc.sock''], [], 0) x"
  have "transport_Accept strict_binary local_net local_sockets (ac_transport ?a) (ac_world ?a) =
      Ret (Inr 0, UnixTransport (Some demo_unix), ([''rpc.sock''], [0], 1))"
    by (simp add: acceptor_start_def su_Accept_def demo_unix_def local_net_def local_sockets_def)
  from accept_step.accept [OF _ _ this, where leave = leave and consume = consume and env = env]
  show ?thesis by (simp add: acceptor_start_def)
qed


theorem lb_leaves_by_panic_witness:
  "\<exists>a a'. (LB_run_step strict_binary local_net local_sockets True ''rpc.sock'' False 0)\<^sup>*\<^sup>*
      (acceptor_start (UnixTransport (Some demo_unix)) ([''rpc.sock''], [], 0) []) a
    \<and> LB_run_step strict_binary local_net local_sockets True ''rpc.sock'' False 0 a a'
    \<and> ac_crash a' = Some CloseOfClosedChannel"
proof -
  let ?step = "accept_step strict_binary local_net local_sockets LB_Run_break
      (serve_nonblock local_sockets True ''rpc.sock'' False 0) (=)"
  let ?start = "acceptor_start (UnixTransport (Some demo_unix)) ([''rpc.sock''], [], 0) [] ::
      (string, unit, os_world, nat, (nat \<times> nonblock_session) list) acceptor"
  let ?a = "?start\<lparr>ac_transport := UnixTransport (Some (su_Interrupt demo_unix)), ac_world := ([''rpc.sock''], [], 0)\<rparr>"
  have "?step ?start ?a" by (rule accept_step.interrupt) (simp_all add: acceptor_start_def)
  then have "?step\<^sup>*\<^sup>* ?start ?a" by (rule r_into_rtranclp)
  note r = this [folded LB_run_step_def]
  then show ?thesis using lb_leaves_by_panic [OF r, of "su_Interrupt demo_unix"] by (auto simp: acceptor_start_def)
qed

end
