(* ===== verification/Server_Exit.thy ===== *)
theory Server_Exit
  imports Servers
begin

text \<open>
  The structs of the servers, how they start from a configuration, and how they leave:
  \<open>server_general_rpc.go\<close>, \<open>server_lb.go\<close> and \<open>server_proxy.go\<close>. The goroutine that waits for a
  signal, the loop of \<open>RegisterService\<close> it stops through \<open>evtExit\<close>, and the rest of the world are a
  step relation.
\<close>

subsection \<open>Servers\<close>

record ThriftRpcServer =
  ts_ZkAddr :: string
  ts_ProductName :: string
  ts_ServiceName :: string
  ts_FrontendAddr :: string
  ts_Verbose :: bool
  ts_lastRequestTime :: int
  ts_config :: Config

definition NewThriftRpcServer :: "Config \<Rightarrow> ThriftRpcServer" where
  "NewThriftRpcServer config =
     \<lparr>ts_ZkAddr = ZkAddr config, ts_ProductName = ProductName config, ts_ServiceName = cf_Service config,
      ts_FrontendAddr = FrontendAddr config, ts_Verbose = Verbose config, ts_lastRequestTime = 0, ts_config = config\<rparr>"

record ThriftLoadBalanceServer =
  bl_productName :: string
  bl_serviceName :: string
  bl_frontendAddr :: string
  bl_backendAddr :: string
  bl_lbServiceName :: string
  bl_zkAddr :: string
  bl_verbose :: bool
  bl_lastRequestTime :: int
  bl_config :: Config

text \<open>The connection to zookeeper may end the process; the workers' side listens before \<open>Run\<close> is called.\<close>

definition NewThriftLoadBalanceServer :: "('s, 'z) zk_helper \<Rightarrow> ('l, 'c, 'w) os_net \<Rightarrow> ('t, 'c, 'k, 'w) thrift_sockets \<Rightarrow>
    Config \<Rightarrow> 'z \<Rightarrow> 'w \<Rightarrow>
    zk_exit + (ThriftLoadBalanceServer \<times> ('s, 'z) topology \<times> 'z \<times> back_service_lb \<times> ('l, 't) server_transport \<times> bool \<times> 'w) outcome" where
  "NewThriftLoadBalanceServer Z N S config z w =
     (case NewTopology Z (ProductName config) (ZkAddr config) z of
        Inl x \<Rightarrow> Inl x
      | Inr (tp, z1) \<Rightarrow>
          let p = \<lparr>bl_productName = ProductName config, bl_serviceName = cf_Service config, bl_frontendAddr = FrontendAddr config,
                   bl_backendAddr = BackAddr config, bl_lbServiceName = GetServiceIdentity (FrontendAddr config),
                   bl_zkAddr = ZkAddr config, bl_verbose = Verbose config, bl_lastRequestTime = 0, bl_config = config\<rparr> in
          Inr (obind (BackServiceLB_listen N S (bl_backendAddr p) w) (\<lambda>(tr, unix, w1).
            Ret (p, tp, z1, NewBackServiceLB (bl_serviceName p) (bl_backendAddr p) (bl_verbose p), tr, unix, w1))))"

record ProxyServer =
  px_productName :: string
  px_proxyAddr :: string
  px_zkAdresses :: string
  px_verbose :: bool
  px_profile :: bool
  px_router :: router

definition NewProxyServer :: "('s, 'z) zk_helper \<Rightarrow> Config \<Rightarrow> 'z \<Rightarrow> zk_exit + ProxyServer \<times> ('s, 'z) topology \<times> 'z" where
  "NewProxyServer Z config z =
     (case NewTopology Z (ProductName config) (ZkAddr config) z of
        Inl x \<Rightarrow> Inl x
      | Inr (tp, z1) \<Rightarrow>
          Inr (\<lparr>px_productName = ProductName config, px_proxyAddr = ProxyAddr config, px_zkAdresses = ZkAddr config,
                px_verbose = Verbose config, px_profile = Profile config,
                px_router = NewRouter (ProductName config) (Verbose config)\<rparr>, tp, z1))"

text \<open>\<open>Run\<close> up to the loop over \<open>Accept\<close>: the server registers itself before it listens.\<close>

definition ThriftRpcServer_start :: "('s, 'z) zk_helper \<Rightarrow> ('l, 'c, 'w) os_net \<Rightarrow> ('t, 'c, 'k, 'w) thrift_sockets \<Rightarrow>
    go_error + string \<Rightarrow> civil_time \<Rightarrow> ThriftRpcServer \<Rightarrow> 'z \<Rightarrow> 'w \<Rightarrow>
    (zk_exit + (ServiceEndpoint \<times> ('s, 'z) topology \<times> 'z \<times> ('l, 't) server_transport \<times> bool \<times> 'w) outcome) option" where
  "ThriftRpcServer_start Z N S host now p z w =
     (case NewTopology Z (ts_ProductName p) (ts_ZkAddr p) z of
        Inl x \<Rightarrow> Some (Inl x)
      | Inr (tp, z1) \<Rightarrow>
          map_option (\<lambda>r. Inr (obind r (\<lambda>(e, z2).
            obind (ThriftRpcServer_listen N S (ts_FrontendAddr p) w) (\<lambda>(tr, unix, w1). Ret (e, tp, z2, tr, unix, w1)))))
          (RegisterService Z tp host now (ts_ServiceName p) (ts_FrontendAddr p) (GetServiceIdentity (ts_FrontendAddr p))
             (WorkDir (ts_config p)) (CodeUrlVersion (ts_config p)) z1))"

definition LB_start :: "('s, 'z) zk_helper \<Rightarrow> ('l, 'c, 'w) os_net \<Rightarrow> ('t, 'c, 'k, 'w) thrift_sockets \<Rightarrow>
    go_error + string \<Rightarrow> civil_time \<Rightarrow> ThriftLoadBalanceServer \<Rightarrow> ('s, 'z) topology \<Rightarrow> 'z \<Rightarrow> 'w \<Rightarrow>
    (ServiceEndpoint \<times> 'z \<times> ('l, 't) server_transport \<times> bool \<times> 'w) outcome option" where
  "LB_start Z N S host now p tp z w =
     map_option (\<lambda>r. obind r (\<lambda>(e, z2).
         obind (LB_listen N S (bl_frontendAddr p) w) (\<lambda>(tr, unix, w1). Ret (e, z2, tr, unix, w1))))
       (RegisterService Z tp host now (bl_serviceName p) (bl_frontendAddr p) (bl_lbServiceName p)
          (WorkDir (bl_config p)) (CodeUrlVersion (bl_config p)) z)"

definition printList :: "string list \<Rightarrow> string" where
  "printList msgs = join_with '',''
     ((''Msgs Len: '' @ fmt_d (int (length msgs) - 1) @ '', '') # map (\<lambda>m. ''['' @ m @ '']'') (take (length msgs - 1) msgs))"

text \<open>
  A service or load balancer with an accepted configuration listens where the configuration
  says: on the socket file \<open>front_sock\<close> if there is one, otherwise on the host and port, the host
  being the configured one or an address of the machine with the configured prefix. It listens on
  a unix socket exactly if there is a socket file and its path has no colon.
\<close>

lemma listens_as_configured:
  assumes load: "LoadConf c dir ifaces file = Inr conf"
    and check: "ConfigCheckThriftService conf = Inr () \<or> ConfigCheckRpcLB conf = Inr ()"
    and listen: "ThriftRpcServer_listen N S (FrontendAddr conf) w = Ret (tr, unix, w')"
  shows "(unix \<longleftrightarrow> FrontSock conf \<noteq> [] \<and> CHR '':'' \<notin> set (FrontSock conf))
    \<and> ProductName conf \<noteq> [] \<and> cf_Service conf \<noteq> [] \<and> ZkAddr conf \<noteq> []
    \<and> (FrontSock conf \<noteq> [] \<longrightarrow> FrontendAddr conf = FrontSock conf
        \<and> (\<exists>sock. sock \<noteq> [] \<and> FrontSock conf = path_Clean (path_Join [dir, sock])))
    \<and> (FrontSock conf = [] \<longrightarrow> FrontPort conf \<noteq> [] \<and> (\<exists>h. h \<noteq> [] \<and> FrontendAddr conf = h @ '':'' @ FrontPort conf
        \<and> (h = FrontHost conf \<or> FrontHost conf = [] \<and> strings_HasPrefix h (IpPrefix conf))))"
proof -
  note fields = LoadConf_fields [OF load]
  have ne: "FrontendAddr conf \<noteq> []" "cf_Service conf \<noteq> []" "ZkAddr conf \<noteq> []"
    using check by (auto simp: ConfigCheckThriftService_def ConfigCheckRpcLB_def split: if_splits)
  have addr: "FrontendAddr conf = getFrontendAddr ifaces conf (FrontHost conf) (IpPrefix conf) (FrontPort conf)"
    using fields by blast
  note front = getFrontendAddr_cases [OF ne(1) [unfolded addr], folded addr]
  have "unix \<longleftrightarrow> CHR '':'' \<notin> set (FrontendAddr conf)"
    using listen_kind(2) [OF listen [unfolded ThriftRpcServer_listen_def]] .
  then show ?thesis using front fields ne(2,3) by auto
qed

subsection \<open>Leaving\<close>

text \<open>
  The wait before a server leaves: each turn compares the clock with the time of the lastReq
  request; \<open>clock i\<close> and \<open>lastReq i\<close> are what turn \<open>i\<close> reads. The result is the turn in which it ends.
\<close>

partial_function (option) graceful_wait :: "(nat \<Rightarrow> int) \<Rightarrow> (nat \<Rightarrow> int) \<Rightarrow> nat \<Rightarrow> nat option" where
  "graceful_wait clock lastReq i = (if clock i - lastReq i > 5 then Some i else graceful_wait clock lastReq (Suc i))"

lemma graceful_wait_least:
  assumes "i \<le> n" "clock n - lastReq n > (5 :: int)" "\<And>j. i \<le> j \<Longrightarrow> j < n \<Longrightarrow> clock j - lastReq j \<le> 5"
  shows "graceful_wait clock lastReq i = Some n"
  using assms
proof (induction "n - i" arbitrary: i)
  case 0
  then show ?case by (simp add: graceful_wait.simps)
next
  case (Suc d)
  then have "clock i - lastReq i \<le> 5" "graceful_wait clock lastReq (Suc i) = Some n" by simp_all
  then show ?case by (simp add: graceful_wait.simps [of clock lastReq i])
qed

text \<open>
  C19: A server that was told to leave waits until more than five seconds lie between the clock and
  the last request, and not a turn longer. When every turn takes at least a second and no request
  comes after turn \<open>k\<close>, the wait ends within six more turns.
\<close>

theorem graceful_wait_ends:
  assumes tick: "\<And>i. clock (Suc i) \<ge> clock i + 1" and idle: "\<And>i. i \<ge> k \<Longrightarrow> lastReq i \<le> clock k"
  shows "\<exists>n \<le> k + 6. graceful_wait clock lastReq 0 = Some n \<and> clock n - lastReq n > 5
    \<and> (\<forall>j < n. clock j - lastReq j \<le> 5)"
proof -
  let ?P = "\<lambda>n. clock n - lastReq n > 5"
  have up: "clock (k + d) \<ge> clock k + int d" for d
  proof (induction d)
    case (Suc d)
    then show ?case using tick [of "k + d"] by simp
  qed simp
  have six: "?P (k + 6)" using up [of 6] idle [of "k + 6"] by simp
  define n where "n = (LEAST n. ?P n)"
  have n: "?P n" unfolding n_def using six by (rule LeastI)
  have before: "clock j - lastReq j \<le> 5" if "j < n" for j
    using not_less_Least [of j ?P] that unfolding n_def by (simp only: not_less)
  have le: "n \<le> k + 6" unfolding n_def using six by (rule Least_le)
  have "graceful_wait clock lastReq 0 = Some n" using n before by (intro graceful_wait_least) simp_all
  then show ?thesis using le n before by blast
qed

theorem graceful_wait_ends_witness:
  "\<exists>n \<le> 9. graceful_wait (\<lambda>i. 100 + int i) (\<lambda>i. if i < 3 then 100 + int i else 103) 0 = Some n
    \<and> (100 + int n) - (if n < 3 then 100 + int n else 103) > 5"
  using graceful_wait_ends [of "\<lambda>i. 100 + int i" 3 "\<lambda>i. if i < 3 then 100 + int i else 103"] by fastforce

text \<open>The goroutine that waits for a signal, and what it shares with the rest of the server.\<close>

datatype exit_pc = AwaitSignal | StopRegistration | Unregister | WaitIdle | InterruptTransport | CloseTransport | ExitDone

record ('z, 'l, 't, 'w) leaving =
  ex_pc :: exit_pc
  ex_registering :: bool
  ex_last :: int
  ex_now :: int
  ex_zk :: 'z
  ex_transport :: "('l, 't) server_transport"
  ex_world :: 'w

text \<open>
  \<open>evtExit\<close> has no buffer: the signal is handed over when the loop of \<open>RegisterService\<close> selects it,
  and the loop has ended then. \<open>ext\<close> is what other clients of zookeeper do.
\<close>

inductive exit_step :: "('s, 'z) zk_helper \<Rightarrow> ('s, 'z) topology \<Rightarrow> ServiceEndpoint \<Rightarrow> ('l, 'c, 'w) os_net \<Rightarrow>
    ('t, 'c, 'k, 'w) thrift_sockets \<Rightarrow> ('z \<Rightarrow> 'z \<Rightarrow> bool) \<Rightarrow>
    ('z, 'l, 't, 'w) leaving \<Rightarrow> ('z, 'l, 't, 'w) leaving \<Rightarrow> bool"
  for Z :: "('s, 'z) zk_helper" and tp :: "('s, 'z) topology" and e :: ServiceEndpoint and N :: "('l, 'c, 'w) os_net"
    and S :: "('t, 'c, 'k, 'w) thrift_sockets" and ext :: "'z \<Rightarrow> 'z \<Rightarrow> bool" where
  register_turn: "ex_registering x \<Longrightarrow> RegisterService_turn Z tp e wait later (ex_zk x) = Some (Ret (True, z)) \<Longrightarrow>
     exit_step Z tp e N S ext x (x\<lparr>ex_zk := z\<rparr>)"
| signal: "ex_pc x = AwaitSignal \<Longrightarrow> exit_step Z tp e N S ext x (x\<lparr>ex_pc := StopRegistration\<rparr>)"
| hand_over: "ex_pc x = StopRegistration \<Longrightarrow> ex_registering x \<Longrightarrow>
     RegisterService_turn Z tp e RegExit later (ex_zk x) = Some (Ret (False, z)) \<Longrightarrow>
     exit_step Z tp e N S ext x (x\<lparr>ex_pc := Unregister, ex_registering := False, ex_zk := z\<rparr>)"
| unregister: "ex_pc x = Unregister \<Longrightarrow>
     exit_step Z tp e N S ext x (x\<lparr>ex_pc := WaitIdle, ex_zk := DeleteServiceEndpoint Z tp e (ex_zk x)\<rparr>)"
| busy: "ex_pc x = WaitIdle \<Longrightarrow> ex_now x - ex_last x \<le> 5 \<Longrightarrow> exit_step Z tp e N S ext x (x\<lparr>ex_now := ex_now x + 1\<rparr>)"
| idle: "ex_pc x = WaitIdle \<Longrightarrow> ex_now x - ex_last x > 5 \<Longrightarrow>
     exit_step Z tp e N S ext x (x\<lparr>ex_pc := InterruptTransport\<rparr>)"
| interrupt: "ex_pc x = InterruptTransport \<Longrightarrow> transport_Interrupt S (ex_transport x) (ex_world x) = Ret (tr, w) \<Longrightarrow>
     exit_step Z tp e N S ext x (x\<lparr>ex_pc := CloseTransport, ex_transport := tr, ex_world := w\<rparr>)"
| close: "ex_pc x = CloseTransport \<Longrightarrow> transport_Close N S (ex_transport x) (ex_world x) = Ret (tr, w) \<Longrightarrow>
     exit_step Z tp e N S ext x (x\<lparr>ex_pc := ExitDone, ex_transport := tr, ex_world := w\<rparr>)"
| request: "exit_step Z tp e N S ext x (x\<lparr>ex_last := ex_now x\<rparr>)"
| tick: "now \<ge> ex_now x \<Longrightarrow> exit_step Z tp e N S ext x (x\<lparr>ex_now := now\<rparr>)"
| others: "ext (ex_zk x) z \<Longrightarrow> exit_step Z tp e N S ext x (x\<lparr>ex_zk := z, ex_world := w\<rparr>)"

text \<open>The load balancer has the same goroutine.\<close>

definition LB_exit_step :: "('s, 'z) zk_helper \<Rightarrow> ('s, 'z) topology \<Rightarrow> ServiceEndpoint \<Rightarrow> ('l, 'c, 'w) os_net \<Rightarrow>
    ('t, 'c, 'k, 'w) thrift_sockets \<Rightarrow> ('z \<Rightarrow> 'z \<Rightarrow> bool) \<Rightarrow>
    ('z, 'l, 't, 'w) leaving \<Rightarrow> ('z, 'l, 't, 'w) leaving \<Rightarrow> bool" where
  "LB_exit_step = exit_step"

definition unregistered :: "exit_pc \<Rightarrow> bool" where
  "unregistered pc \<longleftrightarrow> pc \<in> {WaitIdle, InterruptTransport, CloseTransport, ExitDone}"

definition leaving_inv :: "('z \<Rightarrow> bool) \<Rightarrow> ('z \<Rightarrow> ztree) \<Rightarrow> string \<Rightarrow> ('z, 'l, 't, 'w) leaving \<Rightarrow> bool" where
  "leaving_inv up nodes p x \<longleftrightarrow> (ex_registering x \<longleftrightarrow> ex_pc x \<in> {AwaitSignal, StopRegistration})
     \<and> (unregistered (ex_pc x) \<and> up (ex_zk x) \<longrightarrow> nodes (ex_zk x) p = None)"

text \<open>
  C18: A server that leaves is no longer announced: once its goroutine has deleted the node, and
  under every interleaving with the loop that registers it, with requests and with other clients
  that leave the node of this server alone, the loop has ended and the node does not come back,
  while the server goes on serving until it is idle.
\<close>

theorem leaving_server_gone:
  fixes tp :: "('s, 'z) topology" and x0 :: "('z, 'l, 't, 'w) leaving"
  assumes Z: "zk_service Z (tp_ZkConn tp) up nodes" and tp: "topology_ok tp" and e: "endpoint_ok e"
    and ext: "\<And>z z'. ext z z' \<Longrightarrow> up z' \<Longrightarrow> up z \<and> (nodes z (endpoint_path tp e) = None \<longrightarrow> nodes z' (endpoint_path tp e) = None)"
    and start: "ex_pc x0 = AwaitSignal" "ex_registering x0"
    and reach: "(exit_step Z tp e N S ext)\<^sup>*\<^sup>* x0 x" and left: "unregistered (ex_pc x)"
  shows "\<not> ex_registering x \<and> (up (ex_zk x) \<longrightarrow> nodes (ex_zk x) (endpoint_path tp e) = None)"
proof -
  have p: "endpoint_path tp e = zpath (endpoint_names tp (ep_Service e) (ep_ServiceId e))"
    using endpoint_zpath [OF tp] by (simp add: endpoint_path_def)
  have good: "good_name (ep_Service e)" "good_name (ep_ServiceId e)" using e by (auto simp: endpoint_ok_def)
  have "leaving_inv up nodes (endpoint_path tp e) x"
    using reach
  proof (induction rule: rtranclp_induct)
    case base
    then show ?case using start by (simp add: leaving_inv_def unregistered_def)
  next
    case (step y y')
    from step(2) show ?case
    proof (cases rule: exit_step.cases)
      case unregister
      then show ?thesis using step(3) DeleteServiceEndpoint_gone [OF Z tp good, of "ex_zk y"]
        by (auto simp: leaving_inv_def unregistered_def p)
    next
      case (others z w)
      then show ?thesis using step(3) ext [OF others(2)] by (auto simp: leaving_inv_def)
    qed (use step(3) in \<open>auto simp: leaving_inv_def unregistered_def\<close>)
  qed
  then show ?thesis using left by (auto simp: leaving_inv_def unregistered_def)
qed

text \<open>A registered server is told to leave.\<close>

definition demo_leaving :: "(zworld, string, unit, os_world) leaving" where
  "demo_leaving = \<lparr>ex_pc = AwaitSignal, ex_registering = True, ex_last = 0, ex_now = 100,
     ex_zk = (''/zk/product/online/services/typo/10_1_1_7_5555'', [], True) # demo_watched,
     ex_transport = UnixTransport (Some demo_unix), ex_world = ([], [], 0)\<rparr>"

theorem leaving_server_gone_witness:
  "\<exists>x. (exit_step tree_helper (tree_topology ''online'') demo_endpoint local_net local_sockets (=))\<^sup>*\<^sup>* demo_leaving x
    \<and> ex_pc x = WaitIdle \<and> map_of (ex_zk demo_leaving) ''/zk/product/online/services/typo/10_1_1_7_5555'' = Some ([], True)
    \<and> map_of (ex_zk x) ''/zk/product/online/services/typo/10_1_1_7_5555'' = None"
proof -
  let ?step = "exit_step tree_helper (tree_topology ''online'') demo_endpoint local_net local_sockets (=)"
  let ?one = "demo_leaving\<lparr>ex_pc := StopRegistration\<rparr>"
  have w: "WatchNode (tree_topology ''online'') (ProductServicePath (tree_topology ''online'') (ep_Service demo_endpoint)) True
      (ex_zk demo_leaving) = (Inr ([], Some 0), ex_zk demo_leaving)"
    by (simp add: WatchNode_def tree_topology_def tree_conn_def tree_get_def ProductServicePath_def productBasePath_def
        demo_endpoint_def demo_watched_def demo_leaving_def)
  let ?two = "?one\<lparr>ex_pc := Unregister, ex_registering := False, ex_zk := ex_zk demo_leaving\<rparr>"
  let ?x = "?two\<lparr>ex_pc := WaitIdle,
      ex_zk := DeleteServiceEndpoint tree_helper (tree_topology ''online'') demo_endpoint (ex_zk ?two)\<rparr>"
  have s1: "?step demo_leaving ?one" by (rule exit_step.signal) (simp add: demo_leaving_def)
  have s2: "?step ?one ?two"
    by (rule exit_step.hand_over [where later = "\<lambda>z. z"]) (simp_all add: RegisterService_turn_def w, simp add: demo_leaving_def)
  have s3: "?step ?two ?x" by (rule exit_step.unregister) simp
  have r: "?step\<^sup>*\<^sup>* demo_leaving ?x"
    by (rule converse_rtranclp_into_rtranclp, rule s1, rule converse_rtranclp_into_rtranclp, rule s2,
        rule r_into_rtranclp, rule s3)
  have path: "endpoint_path (tree_topology ''online'') demo_endpoint = ''/zk/product/online/services/typo/10_1_1_7_5555''"
    using endpoint_zpath [OF demo_topology_ok] by (simp add: endpoint_path_def endpoint_names_def tree_topology_def demo_endpoint_def)
  have "map_of (ex_zk ?x) (endpoint_path (tree_topology ''online'') demo_endpoint) = None"
    using leaving_server_gone [OF tree_topology_service demo_topology_ok demo_endpoint_ok _ _ _ r]
    by (simp add: unregistered_def demo_leaving_def)
  then show ?thesis using r path by (intro exI [of _ ?x]) (simp add: demo_leaving_def)
qed

text \<open>A service on a socket file below its working directory.\<close>

definition demo_cfg :: cfg where
  "demo_cfg = \<lparr>cfg_Load = None,
     ReadString = (\<lambda>k d. if k = ''zk'' then ''zk:2181'' else if k = ''service'' then ''typo''
                         else if k = ''front_sock'' then ''run/typo.sock'' else d),
     ReadInt = (\<lambda>_ d. d)\<rparr>"

lemma demo_path: "path_Clean (path_Join [''/srv'', ''run/typo.sock'']) = ''/srv/run/typo.sock''"
  by code_simp

lemma demo_conf:
  "\<exists>conf. LoadConf demo_cfg ''/srv'' [] ''typo.ini'' = Inr conf \<and> ConfigCheckThriftService conf = Inr ()
    \<and> FrontSock conf = ''/srv/run/typo.sock'' \<and> FrontendAddr conf = ''/srv/run/typo.sock''"
  by (simp add: LoadConf_def Let_def demo_cfg_def loadConfInt_def TrimSpace_printable printable_def demo_path
      getFrontendAddr_def empty_Config_def ConfigCheckThriftService_def)

lemma listens_as_configured_witness:
  "\<exists>conf tr w. LoadConf demo_cfg ''/srv'' [] ''typo.ini'' = Inr conf
    \<and> ThriftRpcServer_listen local_net local_sockets (FrontendAddr conf) ([], [], 0) = Ret (tr, True, w)
    \<and> FrontendAddr conf = ''/srv/run/typo.sock'' \<and> cf_Service conf \<noteq> []"
proof -
  obtain conf where c: "LoadConf demo_cfg ''/srv'' [] ''typo.ini'' = Inr conf" "ConfigCheckThriftService conf = Inr ()"
    "FrontSock conf = ''/srv/run/typo.sock''" "FrontendAddr conf = ''/srv/run/typo.sock''"
    using demo_conf by blast
  obtain tr unix w where l: "ThriftRpcServer_listen local_net local_sockets (FrontendAddr conf) ([], [], 0) = Ret (tr, unix, w)"
    by (simp add: c(4) ThriftRpcServer_listen_def listen_or_panic_def open_transport_def Contains_char FileExist_def
        local_net_def NewTServerUnixDomain_def NewTServerUnixDomainTimeout_def su_Listen_def su_IsListening_def)
  have "unix" "cf_Service conf \<noteq> []"
    using listens_as_configured [OF c(1) disjI1 [OF c(2)] l] c(3) by auto
  then show ?thesis using c l by (intro exI [of _ conf] exI [of _ tr] exI [of _ w]) simp
qed

end
