(* ===== verification/Worker_Machine.thy ===== *)
theory Worker_Machine
  imports Conn_Machine Backend_Conn_LB_Correct
begin

text \<open>
  The goroutines of one \<open>BackendConnLB\<close> as a step relation: the writer with its deferred
  function and the rest of \<open>Run\<close>, the heartbeat, the reader, which unlike the reader of the
  proxy's connection closes the input when it ends, and the goroutines in
  \<open>BackServiceLB.Dispatch\<close>. \<open>Dispatch\<close> takes the lock to choose the worker and pushes without
  it, and the heartbeat looks at the flag before it pushes: both are two steps here, between
  which the other goroutines may run.
\<close>

subsection \<open>Machine\<close>

text \<open>
  \<open>WhPing rid\<close>: the heartbeat has found the connection active, made the ping \<open>rid\<close> and is about
  to push it. \<open>w_rd\<close>: the reader runs. \<open>w_chosen\<close>: the requests whose dispatcher has chosen
  this worker and not yet pushed.
\<close>

datatype wh_pc = WhSelect | WhPing nat | WhSending | WhDone

record 'n worker =
  w_ls :: lstate
  w_tr :: "'n framed"
  w_wr :: wr_pc
  w_hb :: wh_pc
  w_rd :: bool
  w_chosen :: "nat list"

definition unpushed :: "'n worker \<Rightarrow> nat list" where
  "unpushed W = (case w_hb W of WhPing rid \<Rightarrow> [rid] | _ \<Rightarrow> []) @ w_chosen W"

definition in_hand :: "'n worker \<Rightarrow> nat list" where
  "in_hand W = (case w_wr W of WrSent rid \<Rightarrow> [rid] | _ \<Rightarrow> [])"

definition BackendConnLB_make_ping :: "thrift_lib \<Rightarrow> int \<Rightarrow> lstate \<Rightarrow> nat \<times> lstate" where
  "BackendConnLB_make_ping T now ls =
     (let (r, m) = NewPingRequest T (pmem ls) now in new_req r (ls\<lparr>pmem := m\<rparr>))"

definition BackServiceLB_choose :: "nat \<Rightarrow> lstate \<Rightarrow> nat option \<times> lstate" where
  "BackServiceLB_choose rid ls =
     (let (backendConn, ls1) = BackServiceLB_nextBackendConn ls in
      (backendConn, set_req rid ((reqs ls1 rid)\<lparr>Service := lbs_serviceName (lbs ls1)\<rparr>) ls1))"

text \<open>A worker that has just been accepted, with its reader and its heartbeat started.\<close>

definition BackendConnLB_start :: "int \<Rightarrow> string \<Rightarrow> 'n framed \<Rightarrow> lstate \<Rightarrow> 'n worker" where
  "BackendConnLB_start now addr p ls =
     \<lparr>w_ls = upd_lconn (next_lconn ls) (\<lambda>b. b\<lparr>lb_hbLastTime := now\<rparr>) (BackServiceLB_accept addr ls),
      w_tr = p, w_wr = WrSelect, w_hb = WhSelect, w_rd = True, w_chosen = []\<rparr>"

inductive work_step :: "thrift_lib \<Rightarrow> 'n net \<Rightarrow> nat \<Rightarrow> 'n worker \<Rightarrow> 'n worker \<Rightarrow> bool"
  for T :: thrift_lib and net :: "'n net" and c :: nat where
  expired: "w_wr W = WrSelect \<Longrightarrow> lb_input (lconns (w_ls W) c) = rid # rest \<Longrightarrow>
     ReqTypeId (reqs (w_ls W) rid) = MESSAGE_TYPE_HEART_BEAT \<Longrightarrow> now - Start (reqs (w_ls W) rid) > 4 \<Longrightarrow>
     work_step T net c W (W\<lparr>w_ls := upd_lconn c (\<lambda>b. b\<lparr>lb_input := rest\<rparr>) (w_ls W)\<rparr>)"
| send: "w_wr W = WrSelect \<Longrightarrow> lb_input (lconns (w_ls W) c) = rid # rest \<Longrightarrow>
     \<not> (ReqTypeId (reqs (w_ls W) rid) = MESSAGE_TYPE_HEART_BEAT \<and> now - Start (reqs (w_ls W) rid) > 4) \<Longrightarrow>
     write_request T net nano (lb_currentSeqId (lconns (w_ls W) c)) (rest = []) rid (w_tr W)
       (upd_lconn c (\<lambda>b. b\<lparr>lb_input := rest\<rparr>) (w_ls W)) = Ret (None, p', ls') \<Longrightarrow>
     work_step T net c W (W\<lparr>w_ls := ls', w_tr := p', w_wr := WrSent rid\<rparr>)"
| register: "w_wr W = WrSent rid \<Longrightarrow>
     work_step T net c W (W\<lparr>w_ls := upd_lconn c (lb_store (RespSeqId (reqs (w_ls W) rid)) rid) (w_ls W),
       w_wr := WrSelect\<rparr>)"
| leave: "w_wr W = WrSelect \<Longrightarrow>
     BackendConnLB_loopWriter_turn T net now nano c (w_tr W) (w_ls W) = Ret (Return e, p', ls') \<Longrightarrow>
     work_step T net c W (W\<lparr>w_ls := ls', w_tr := p', w_wr := WrDefer e\<rparr>)"
| hb_timeout: "w_wr W = WrSelect \<Longrightarrow> w_hb W = WhSending \<Longrightarrow>
     work_step T net c W (W\<lparr>w_wr := WrDefer (Some BackendConnLB_hb_timeout_error), w_hb := WhDone\<rparr>)"
| hb_stop: "w_wr W = WrDefer e \<Longrightarrow> w_hb W = WhSelect \<Longrightarrow>
     work_step T net c W (W\<lparr>w_wr := WrReturned e, w_hb := WhDone\<rparr>)"
| after: "w_wr W = WrReturned e \<Longrightarrow> BackendConnLB_after_writer T now c e (w_ls W) = Ret ls' \<Longrightarrow>
     work_step T net c W (W\<lparr>w_ls := ls', w_wr := WrEnded\<rparr>)"
| tick_timeout: "w_hb W = WhSelect \<Longrightarrow> now - lb_hbLastTime (lconns (w_ls W) c) > HB_TIMEOUT \<Longrightarrow>
     work_step T net c W (W\<lparr>w_hb := WhSending\<rparr>)"
| tick_ping: "w_hb W = WhSelect \<Longrightarrow> \<not> now - lb_hbLastTime (lconns (w_ls W) c) > HB_TIMEOUT \<Longrightarrow>
     lb_IsConnActive (lconns (w_ls W) c) \<Longrightarrow> BackendConnLB_make_ping T now (w_ls W) = (rid, ls') \<Longrightarrow>
     work_step T net c W (W\<lparr>w_ls := ls', w_hb := WhPing rid\<rparr>)"
| tick_offline: "w_hb W = WhSelect \<Longrightarrow> \<not> now - lb_hbLastTime (lconns (w_ls W) c) > HB_TIMEOUT \<Longrightarrow>
     \<not> lb_IsConnActive (lconns (w_ls W) c) \<Longrightarrow> work_step T net c W (W\<lparr>w_hb := WhDone\<rparr>)"
| ping: "w_hb W = WhPing rid \<Longrightarrow> BackendConnLB_PushBack c rid (w_ls W) = Ret ls' \<Longrightarrow>
     work_step T net c W (W\<lparr>w_ls := ls', w_hb := WhSelect\<rparr>)"
| reply: "w_rd W \<Longrightarrow>
     BackendConnLB_setResponse T now c None (Some d) None ((w_ls W)\<lparr>pmem := m\<rparr>) = Ret (e, ls') \<Longrightarrow>
     work_step T net c W (W\<lparr>w_ls := ls'\<rparr>)"
| lost: "w_rd W \<Longrightarrow> map_order (lb_seqNum2Request (lconns (w_ls W) c)) ks \<Longrightarrow>
     BackendConnLB_flushRequests c err ks ((w_ls W)\<lparr>pmem := m\<rparr>) = Ret ls' \<Longrightarrow>
     work_step T net c W (W\<lparr>w_ls := ls', w_rd := False\<rparr>)"
| choose: "BackServiceLB_choose rid (w_ls W) = (Some c, ls') \<Longrightarrow>
     rid \<notin> set (unpushed W @ in_hand W) \<Longrightarrow> rid \<notin> lb_pending c (w_ls W) \<Longrightarrow> rid < next_req (w_ls W) \<Longrightarrow>
     ReqData (reqs (w_ls W) rid) \<noteq> None \<Longrightarrow> Wait (reqs (w_ls W) rid) = Some 0 \<Longrightarrow>
     work_step T net c W (W\<lparr>w_ls := ls', w_chosen := w_chosen W @ [rid]\<rparr>)"
| push: "rid \<in> set (w_chosen W) \<Longrightarrow> BackendConnLB_PushBack c rid (w_ls W) = Ret ls' \<Longrightarrow>
     work_step T net c W (W\<lparr>w_ls := ls', w_chosen := remove1 rid (w_chosen W)\<rparr>)"
| others: "lb_step op (w_ls W) = Ret ls' \<Longrightarrow> op \<noteq> LbFail c \<Longrightarrow> work_step T net c W (W\<lparr>w_ls := ls'\<rparr>)"

inductive_cases work_stepE: "work_step T net c W W'"

abbreviation work_reach :: "thrift_lib \<Rightarrow> 'n net \<Rightarrow> nat \<Rightarrow> 'n worker \<Rightarrow> 'n worker \<Rightarrow> bool" where
  "work_reach T net c \<equiv> (work_step T net c)\<^sup>*\<^sup>*"

subsection \<open>The steps compose to the functions\<close>

lemma LB_turn_decomposes:
  assumes "BackendConnLB_loopWriter_turn T net now nano c p ls = Ret (Continue, p', ls')"
    and "lb_input (lconns ls c) = rid # rest"
    and "\<not> (ReqTypeId (reqs ls rid) = MESSAGE_TYPE_HEART_BEAT \<and> now - Start (reqs ls rid) > 4)"
  shows "\<exists>ls1. write_request T net nano (lb_currentSeqId (lconns ls c)) (rest = []) rid p
        (upd_lconn c (\<lambda>b. b\<lparr>lb_input := rest\<rparr>) ls) = Ret (None, p', ls1)
    \<and> ls' = upd_lconn c (lb_store (RespSeqId (reqs ls1 rid)) rid) ls1"
  using assms by (auto simp: BackendConnLB_loopWriter_turn_def Let_def split: option.splits)

lemma LB_Dispatch_decomposes:
  "BackServiceLB_choose rid ls = (Some c, ls1) \<Longrightarrow>
   BackServiceLB_Dispatch T rid ls = obind (BackendConnLB_PushBack c rid ls1) (\<lambda>ls2. Ret (Some c, ls2))"
  by (auto simp: BackServiceLB_Dispatch_def BackServiceLB_choose_def Let_def split: prod.splits)

lemma LB_tick_decomposes:
  assumes "\<not> now - lb_hbLastTime (lconns ls c) > HB_TIMEOUT" and "lb_IsConnActive (lconns ls c)"
    and "BackendConnLB_make_ping T now ls = (rid, ls1)"
  shows "BackendConnLB_hb_tick T now c ls = obind (BackendConnLB_PushBack c rid ls1) (\<lambda>ls2. Ret (HbPing, ls2))"
  using assms by (auto simp: BackendConnLB_hb_tick_def BackendConnLB_make_ping_def Let_def split: prod.splits)

subsection \<open>Invariant\<close>

text \<open>Operations on one connection leave the array of workers and the flags alone.\<close>

definition same_workers :: "lstate \<Rightarrow> lstate \<Rightarrow> bool" where
  "same_workers ls ls' \<longleftrightarrow> next_lconn ls' = next_lconn ls \<and> next_req ls' = next_req ls \<and>
     lbs_activeConns (lbs ls') = lbs_activeConns (lbs ls) \<and>
     (\<forall>d. lb_Index (lconns ls' d) = lb_Index (lconns ls d) \<and> lb_delegate (lconns ls' d) = lb_delegate (lconns ls d)
       \<and> lb_IsConnActive (lconns ls' d) = lb_IsConnActive (lconns ls d)
       \<and> lb_input_closed (lconns ls' d) = lb_input_closed (lconns ls d))"

lemma same_workers_inv: "same_workers ls ls' \<Longrightarrow> lb_inv ls' = lb_inv ls"
  by (simp add: same_workers_def lb_inv_def lbp.indexed_def)

lemma same_workers_trans: "same_workers ls ls1 \<Longrightarrow> same_workers ls1 ls2 \<Longrightarrow> same_workers ls ls2"
  by (simp add: same_workers_def)

lemma same_workers_basic [simp]:
  "same_workers ls ls" "same_workers ls (ls\<lparr>pmem := m\<rparr>)" "same_workers ls (set_req rid r ls)"
  "same_workers ls ((set_req rid r ls)\<lparr>pmem := m\<rparr>)" "same_workers ls (upd_lconn c (\<lambda>b. b\<lparr>lb_input := i\<rparr>) ls)"
  "same_workers ls (upd_lconn c (lb_store k rid) ls)" "same_workers ls (upd_lconn c (\<lambda>_. snd (lb_take (lconns ls c) k)) ls)"
  "same_workers ls (upd_lconn c (\<lambda>b. b\<lparr>lb_seqNum2Request := tab, lb_hbLastTime := now\<rparr>) ls)"
  by (simp_all add: same_workers_def lb_store_def BackendConnLB_IncreaseCurrentSeqId_def lb_take_def Let_def)

text \<open>What a step that pushes nothing does to the requests of the connection.\<close>

definition lkeeps :: "nat \<Rightarrow> lstate \<Rightarrow> lstate \<Rightarrow> bool" where
  "lkeeps c ls ls' \<longleftrightarrow> lb_inv ls' \<and> next_lconn ls \<le> next_lconn ls' \<and> lconn_inv c ls' \<and>
     lb_pending c ls' \<subseteq> lb_pending c ls \<and> next_req ls' = next_req ls \<and>
     lb_currentSeqId (lconns ls' c) = lb_currentSeqId (lconns ls c) \<and>
     (\<forall>q. q \<notin> lb_pending c ls \<or> q \<in> lb_pending c ls' \<longrightarrow> reqs ls' q = reqs ls q)"

lemma pmem_lirrelevant [simp]:
  "lconn_inv c (ls\<lparr>pmem := m\<rparr>) = lconn_inv c ls" "lb_pending c (ls\<lparr>pmem := m\<rparr>) = lb_pending c ls"
  "lkeeps c (ls\<lparr>pmem := m\<rparr>) ls' = lkeeps c ls ls'" "lb_inv (ls\<lparr>pmem := m\<rparr>) = lb_inv ls"
  "lb_inv (ls\<lparr>next_req := n\<rparr>) = lb_inv ls"
  by (simp_all add: lconn_inv_def lb_pending_def lkeeps_def lb_inv_def lbp.indexed_def)

definition work_inv :: "nat \<Rightarrow> 'n worker \<Rightarrow> bool" where
  "work_inv c W \<longleftrightarrow> lb_inv (w_ls W) \<and> c < next_lconn (w_ls W) \<and> lconn_inv c (w_ls W) \<and>
     (w_rd W \<longleftrightarrow> \<not> lb_input_closed (lconns (w_ls W) c)) \<and> distinct (unpushed W @ in_hand W) \<and>
     set (unpushed W @ in_hand W) \<inter> lb_pending c (w_ls W) = {} \<and>
     (\<forall>rid \<in> set (unpushed W @ in_hand W) \<union> lb_pending c (w_ls W).
        rid < next_req (w_ls W) \<and> ReqData (reqs (w_ls W) rid) \<noteq> None) \<and>
     (\<forall>rid \<in> set (unpushed W). case Wait (reqs (w_ls W) rid) of None \<Rightarrow> True | Some w \<Rightarrow> w \<ge> 0) \<and>
     (\<forall>rid \<in> set (in_hand W). awaited (reqs (w_ls W) rid) \<and>
        RespSeqId (reqs (w_ls W) rid) = lb_currentSeqId (lconns (w_ls W) c))"

lemma work_inv_keeps:
  assumes inv: "work_inv c W" and k: "lkeeps c (w_ls W) (w_ls W')"
    and rd: "w_rd W' \<longleftrightarrow> \<not> lb_input_closed (lconns (w_ls W') c)"
    and out: "distinct (unpushed W' @ in_hand W')" "set (unpushed W') \<subseteq> set (unpushed W)"
      "set (in_hand W') \<subseteq> set (in_hand W)"
  shows "work_inv c W'"
proof -
  let ?o = "set (unpushed W @ in_hand W)" and ?o' = "set (unpushed W' @ in_hand W')"
  have sub: "?o' \<subseteq> ?o" using out by auto
  have dis: "?o \<inter> lb_pending c (w_ls W) = {}" using inv by (simp add: work_inv_def)
  have same: "reqs (w_ls W') q = reqs (w_ls W) q" if "q \<in> ?o' \<union> lb_pending c (w_ls W')" for q
    using that sub dis k unfolding lkeeps_def by blast
  have mem: "?o' \<union> lb_pending c (w_ls W') \<subseteq> ?o \<union> lb_pending c (w_ls W)"
    using sub k unfolding lkeeps_def by blast
  have "q < next_req (w_ls W') \<and> ReqData (reqs (w_ls W') q) \<noteq> None" if "q \<in> ?o' \<union> lb_pending c (w_ls W')" for q
    using that same [OF that] mem inv k unfolding work_inv_def lkeeps_def by auto
  moreover have "?o' \<inter> lb_pending c (w_ls W') = {}" using sub dis k unfolding lkeeps_def by blast
  moreover have "case Wait (reqs (w_ls W') q) of None \<Rightarrow> True | Some w \<Rightarrow> w \<ge> 0" if "q \<in> set (unpushed W')" for q
    using that out(2) same [of q] inv unfolding work_inv_def by auto
  moreover have "awaited (reqs (w_ls W') q) \<and> RespSeqId (reqs (w_ls W') q) = lb_currentSeqId (lconns (w_ls W') c)"
    if "q \<in> set (in_hand W')" for q
    using that out(3) same [of q] inv k unfolding work_inv_def lkeeps_def by auto
  ultimately show ?thesis using inv k rd out(1) unfolding work_inv_def lkeeps_def by auto
qed

lemma lkeeps_self: "lb_inv ls \<Longrightarrow> lconn_inv c ls \<Longrightarrow> lkeeps c ls ls"
  by (simp add: lkeeps_def)

lemma lkeeps_trans:
  assumes "lkeeps c ls ls1" and "lkeeps c ls1 ls2"
  shows "lkeeps c ls ls2"
  using assms unfolding lkeeps_def by (metis order_trans subset_iff)

lemma lkeeps_dequeue:
  assumes lb: "lb_inv ls" and inv: "lconn_inv c ls" and inp: "lb_input (lconns ls c) = rid # rest"
    and ls': "same_workers ls ls'" "lb_input (lconns ls' c) = rest"
      "lb_seqNum2Request (lconns ls' c) = lb_seqNum2Request (lconns ls c)"
      "lb_currentSeqId (lconns ls' c) = lb_currentSeqId (lconns ls c)" "\<And>q. q \<noteq> rid \<Longrightarrow> reqs ls' q = reqs ls q"
  shows "lkeeps c ls ls' \<and> lb_pending c ls' = lb_pending c ls - {rid}"
proof -
  have "lconn_inv c ls'" and p: "lb_pending c ls' = lb_pending c ls - {rid}"
    using pend_dequeued [of _ _ rid rest "reqs ls" "reqs ls'"] inv inp ls'
    by (simp_all add: lconn_inv_def lb_pending_def)
  moreover have "rid \<in> lb_pending c ls" using inp by (simp add: lb_pending_def pending_def)
  moreover from this have "reqs ls' q = reqs ls q" if "q \<notin> lb_pending c ls \<or> q \<in> lb_pending c ls'" for q
    using that p ls'(5) [of q] by auto
  moreover have "lb_inv ls'" using lb same_workers_inv [OF ls'(1)] by simp
  ultimately show ?thesis using ls'(1,4) by (simp add: lkeeps_def same_workers_def)
qed

lemma lkeeps_leave:
  assumes lb: "lb_inv ls" and inv: "lconn_inv c ls" and dat: "\<forall>rid \<in> lb_pending c ls. ReqData (reqs ls rid) \<noteq> None"
    and t: "BackendConnLB_loopWriter_turn T net now nano c p ls = Ret (Return e, p', ls')"
  shows "lkeeps c ls ls' \<and> same_workers ls ls' \<and> set (lb_input (lconns ls' c)) \<subseteq> set (lb_input (lconns ls c))
    \<and> (\<forall>q. q \<notin> set (lb_input (lconns ls c)) \<longrightarrow> reqs ls' q = reqs ls q)"
proof (cases "lb_input (lconns ls c)")
  case Nil
  then have "ls' = ls" using t by (auto simp: BackendConnLB_loopWriter_turn_def split: if_splits)
  then show ?thesis using lkeeps_self [OF lb inv] by simp
next
  case (Cons rid rest)
  let ?ls0 = "upd_lconn c (\<lambda>b. b\<lparr>lb_input := rest\<rparr>) ls"
  obtain e0 p1 ls1 where w: "write_request T net nano (lb_currentSeqId (lconns ls c)) (rest = []) rid p ?ls0 = Ret (Some e0, p1, ls1)"
    and s: "BackendConnLB_setResponse T now c (Some rid) None (Some e0) ls1 = Ret (e, ls')"
    using t Cons by (auto simp: BackendConnLB_loopWriter_turn_def Let_def split: if_splits option.splits)
  have d: "ReqData (reqs ?ls0 rid) \<noteq> None" using dat Cons by (simp add: lb_pending_def pending_def)
  obtain r m where ls1: "ls1 = (set_req rid r ?ls0)\<lparr>pmem := m\<rparr>" and r: "Wait r = Wait (reqs ls rid)"
    using write_request_shape [OF w d] by auto
  have "awaited (reqs ls1 rid)"
    using lconn_invD(9) [OF inv, of rid] Cons r ls1 by (simp add: awaited_def)
  then have ls': "ls' = set_req rid (completed (reqs ls1 rid) None (Some e0)) ls1"
    using s LB_setResponse_error [of ls1 rid T now c e0] by auto
  have "same_workers ls ls1" unfolding ls1 by (rule same_workers_trans [OF same_workers_basic(5) [of _ c rest]]) simp
  then have sw: "same_workers ls ls'" unfolding ls' by (rule same_workers_trans) simp
  then show ?thesis using lkeeps_dequeue [OF lb inv Cons sw] ls' ls1 Cons by auto
qed

lemma LB_MarkConnActiveFalse_next_req:
  "BackendConnLB_MarkConnActiveFalse c ls = Ret ls' \<Longrightarrow> next_req ls' = next_req ls"
  by (auto simp: BackendConnLB_MarkConnActiveFalse_def BackServiceLB_StateChanged_def Let_def split: if_splits)

lemma lkeeps_mark:
  assumes lb: "lb_inv ls" and c: "c < next_lconn ls" and inv: "lconn_inv c ls"
    and m: "BackendConnLB_MarkConnActiveFalse c ls = Ret ls'"
  shows "lkeeps c ls ls'" and "lb_input (lconns ls' c) = lb_input (lconns ls c)"
    and "lb_seqNum2Request (lconns ls' c) = lb_seqNum2Request (lconns ls c)"
    and "lb_input_closed (lconns ls' c) = lb_input_closed (lconns ls c)" and "reqs ls' = reqs ls"
    and "next_lconn ls' = next_lconn ls"
proof -
  have i: "lb_inv ls'" "reqs ls' = reqs ls" "next_lconn ls' = next_lconn ls"
    and all: "\<forall>d. \<exists>j. lconns ls' d = (lconns ls d)\<lparr>lb_IsConnActive := (d \<noteq> c \<and> lb_IsConnActive (lconns ls d)), lb_Index := j\<rparr>"
    using LB_MarkConnActiveFalse_inv [OF lb c] m by auto
  have fr: "\<exists>j. lconns ls' c = (lconns ls c)\<lparr>lb_IsConnActive := False, lb_Index := j\<rparr>"
    using all [rule_format, of c] by simp
  have n: "next_req ls' = next_req ls"
    by (rule LB_MarkConnActiveFalse_next_req [OF m])
  from i fr n inv show "lkeeps c ls ls'" by (auto simp: lkeeps_def lconn_inv_def lb_pending_def)
  from fr show "lb_input (lconns ls' c) = lb_input (lconns ls c)"
    "lb_seqNum2Request (lconns ls' c) = lb_seqNum2Request (lconns ls c)"
    "lb_input_closed (lconns ls' c) = lb_input_closed (lconns ls c)" by auto
  from i show "reqs ls' = reqs ls" "next_lconn ls' = next_lconn ls" by simp_all
qed

lemma LB_drain_workers:
  "lconn_inv c ls \<Longrightarrow> n = length (lb_input (lconns ls c)) \<Longrightarrow> BackendConnLB_drain T now c e n ls = Ret ls' \<Longrightarrow>
   same_workers ls ls' \<and> lb_seqNum2Request (lconns ls' c) = lb_seqNum2Request (lconns ls c)
   \<and> lb_currentSeqId (lconns ls' c) = lb_currentSeqId (lconns ls c)"
proof (induction n arbitrary: ls)
  case 0
  then show ?case by simp
next
  case (Suc n)
  then obtain rid rest where inp: "lb_input (lconns ls c) = rid # rest" by (cases "lb_input (lconns ls c)") auto
  let ?ls0 = "upd_lconn c (\<lambda>b. b\<lparr>lb_input := rest\<rparr>) ls"
  let ?ls1 = "set_req rid (completed (reqs ls rid) None (Some e)) ?ls0"
  have "awaited (reqs ?ls0 rid)" using lconn_invD(9) [OF Suc.prems(1), of rid] inp by simp
  then have d: "BackendConnLB_drain T now c e n ?ls1 = Ret ls'"
    using Suc.prems(3) inp LB_setResponse_error [of ?ls0 rid T now c e] by simp
  have "lconn_inv c ?ls1"
    using pend_dequeued [of _ _ rid rest "reqs ls" "reqs ?ls1"] Suc.prems(1) inp by (simp add: lconn_inv_def)
  moreover have "same_workers ls ?ls1" by (rule same_workers_trans [OF same_workers_basic(5) [of _ c rest]]) simp
  ultimately show ?case using Suc.IH [OF _ _ d] Suc.prems(2) inp same_workers_trans by auto
qed

lemma lkeeps_after:
  assumes lb: "lb_inv ls" and c: "c < next_lconn ls" and inv: "lconn_inv c ls"
    and t: "BackendConnLB_after_writer T now c e ls = Ret ls'"
  shows "lkeeps c ls ls' \<and> lb_input_closed (lconns ls' c) = lb_input_closed (lconns ls c)
    \<and> set (lb_input (lconns ls' c)) \<subseteq> set (lb_input (lconns ls c))
    \<and> (\<forall>q. q \<notin> set (lb_input (lconns ls c)) \<longrightarrow> reqs ls' q = reqs ls q)"
proof -
  obtain ls1 where m: "BackendConnLB_MarkConnActiveFalse c ls = Ret ls1"
    and r: "(case e of None \<Rightarrow> Ret ls1
       | Some e \<Rightarrow> BackendConnLB_drain T now c e (length (lb_input (lconns ls1 c))) ls1) = Ret ls'"
    using t by (auto simp: BackendConnLB_after_writer_def)
  note mk = lkeeps_mark [OF lb c inv m]
  then have inv1: "lconn_inv c ls1" "lb_inv ls1" by (simp_all add: lkeeps_def)
  show ?thesis
  proof (cases e)
    case None
    then show ?thesis using r mk by simp
  next
    case (Some x)
    then have d: "BackendConnLB_drain T now c x (length (lb_input (lconns ls1 c))) ls1 = Ret ls'" using r by simp
    note w = LB_drain_workers [OF inv1(1) refl d]
    have sp: "lb_input (lconns ls' c) = []" "lconn_inv c ls'"
      "reqs ls' = (\<lambda>q. if q \<in> set (lb_input (lconns ls1 c)) then completed (reqs ls1 q) None (Some x) else reqs ls1 q)"
      using LB_drain_spec [OF inv1(1) refl, of T now x] d by auto
    have "q \<notin> set (lb_input (lconns ls1 c))" if "q \<notin> lb_pending c ls1 \<or> q \<in> lb_pending c ls'" for q
      using that w sp(1) lconn_invD(4) [OF inv1(1)] by (auto simp: lb_pending_def pending_def ran_def)
    then have "lkeeps c ls1 ls'"
      using w sp inv1(2) same_workers_inv [of ls1 ls']
      by (auto simp: lkeeps_def same_workers_def lb_pending_def pending_def)
    then show ?thesis using lkeeps_trans [OF mk(1)] mk(2,4,5) w sp(1,3) by (auto simp: same_workers_def)
  qed
qed

lemma LB_setResponse_known:
  assumes lb: "lb_inv ls" and inv: "lconn_inv c ls" and dec: "DecodeThriftTypIdSeqId T (pmem ls) d = (ty, k, None)"
    and known: "ty \<noteq> MESSAGE_TYPE_STOP" "ty \<noteq> MESSAGE_TYPE_HEART_BEAT" "lb_seqNum2Request (lconns ls c) k = Some rid"
  shows "\<exists>e ls'. BackendConnLB_setResponse T now c r (Some d) None ls = Ret (e, ls') \<and> lkeeps c ls ls'
    \<and> lb_input_closed (lconns ls' c) = lb_input_closed (lconns ls c) \<and> lb_input (lconns ls' c) = lb_input (lconns ls c)"
proof -
  let ?b = "snd (lb_take (lconns ls c) k)"
  let ?ls = "set_req rid ((reqs ls rid)\<lparr>RespTypeId := ty\<rparr>) (upd_lconn c (\<lambda>_. ?b) ls)"
  have "awaited (reqs ?ls rid)" using lconn_invD(8) [OF inv, of rid] known(3) by (auto simp: ran_def)
  then obtain r' m' where f: "finish_in T rid (Some d) None ?ls = Ret (None, (set_req rid r' ?ls)\<lparr>pmem := m'\<rparr>)"
    using finish_in_total by blast
  define ls' where "ls' = (set_req rid r' ?ls)\<lparr>pmem := m'\<rparr>"
  have ret: "BackendConnLB_setResponse T now c r (Some d) None ls = Ret (None, ls')"
    using dec known f by (simp add: BackendConnLB_setResponse_def lb_take_def ls'_def)
  have sel: "reqs ls' = (reqs ls)(rid := r')" "lconns ls' = (lconns ls)(c := ?b)" "next_req ls' = next_req ls"
    "next_lconn ls' = next_lconn ls" by (simp_all add: ls'_def)
  have "same_workers ls ls'" by (simp add: same_workers_def ls'_def lb_take_def)
  then have lb': "lb_inv ls'" using lb same_workers_inv by blast
  have "lconn_inv c ls'" "lb_pending c ls' = lb_pending c ls - {rid}"
    using pend_taken [OF inv [unfolded lconn_inv_def] known(3) sel(1)] sel(2)
    by (simp_all add: lconn_inv_def lb_pending_def)
  moreover have "rid \<in> lb_pending c ls" using known(3) by (auto simp: lb_pending_def pending_def ran_def)
  ultimately have "lkeeps c ls ls'" using lb' sel by (auto simp: lkeeps_def)
  then show ?thesis using ret sel(2) by (simp add: lb_take_def)
qed

lemma LB_setResponse_robust:
  assumes lb: "lb_inv ls" and c: "c < next_lconn ls" and inv: "lconn_inv c ls"
  shows "\<exists>e ls'. BackendConnLB_setResponse T now c r (Some d) None ls = Ret (e, ls') \<and> lkeeps c ls ls'
    \<and> lb_input_closed (lconns ls' c) = lb_input_closed (lconns ls c) \<and> lb_input (lconns ls' c) = lb_input (lconns ls c)"
proof -
  obtain ty k derr where dec: "DecodeThriftTypIdSeqId T (pmem ls) d = (ty, k, derr)"
    by (cases "DecodeThriftTypIdSeqId T (pmem ls) d")
  let ?b = "snd (lb_take (lconns ls c) k)"
  note forget = pend_forget [OF inv [unfolded lconn_inv_def], of k]
  obtain ls1 where m: "BackendConnLB_MarkConnActiveFalse c ls = Ret ls1"
    using LB_MarkConnActiveFalse_inv [OF lb c] by blast
  consider (bad) e where "derr = Some e" | (stop) "derr = None" "ty = MESSAGE_TYPE_STOP"
    | (heartbeat) "derr = None" "ty \<noteq> MESSAGE_TYPE_STOP" "ty = MESSAGE_TYPE_HEART_BEAT"
    | (unknown) "derr = None" "ty \<noteq> MESSAGE_TYPE_STOP" "ty \<noteq> MESSAGE_TYPE_HEART_BEAT" "lb_seqNum2Request (lconns ls c) k = None"
    | (known) rid where "derr = None" "ty \<noteq> MESSAGE_TYPE_STOP" "ty \<noteq> MESSAGE_TYPE_HEART_BEAT"
        "lb_seqNum2Request (lconns ls c) k = Some rid"
    by (cases derr; cases "lb_seqNum2Request (lconns ls c) k") auto
  then show ?thesis
  proof cases
    case bad
    then show ?thesis using dec lkeeps_self [OF lb inv] by (simp add: BackendConnLB_setResponse_def)
  next
    case stop
    then show ?thesis
      using LB_setResponse_stop [of T ls d k now c r None] dec m lkeeps_mark [OF lb c inv m] by simp
  next
    case heartbeat
    let ?ls = "upd_lconn c (\<lambda>b. b\<lparr>lb_seqNum2Request := (lb_seqNum2Request b)(k := None), lb_hbLastTime := now\<rparr>) ls"
    have sw: "same_workers ls ?ls" by (simp add: same_workers_def)
    then have "lkeeps c ls ?ls" using same_workers_inv [OF sw] lb forget
      by (simp add: lkeeps_def lconn_inv_def lb_pending_def)
    then show ?thesis using LB_setResponse_heartbeat [of T ls d k now c r None] dec heartbeat by simp
  next
    case unknown
    let ?ls = "upd_lconn c (\<lambda>_. ?b) ls"
    have "lkeeps c ls ?ls" using same_workers_inv [OF same_workers_basic(7) [of ls c k]] lb forget
      by (simp add: lkeeps_def lconn_inv_def lb_pending_def)
    moreover have "BackendConnLB_setResponse T now c r (Some d) None ls = Ret (Some (ErrorString ''Invalid Response''), ?ls)"
      using dec unknown by (simp add: BackendConnLB_setResponse_def lb_take_def)
    ultimately show ?thesis by (simp add: lb_take_def)
  next
    case known
    then show ?thesis using LB_setResponse_known [OF lb inv _ known(2-4)] dec by blast
  qed
qed

lemma lkeeps_lost:
  assumes lb: "lb_inv ls" and c: "c < next_lconn ls" and inv: "lconn_inv c ls"
    and ks: "map_order (lb_seqNum2Request (lconns ls c)) ks" and f: "BackendConnLB_flushRequests c err ks ls = Ret ls'"
  shows "lkeeps c ls ls' \<and> lb_input_closed (lconns ls' c) \<and> lb_input (lconns ls' c) = lb_input (lconns ls c)"
proof -
  let ?t = "lb_seqNum2Request (lconns ls c)"
  obtain ls1 where m: "BackendConnLB_MarkConnActiveFalse c ls = Ret ls1" and cl: "\<not> lb_input_closed (lconns ls1 c)"
    and fr: "next_req ls' = next_req ls1" "next_lconn ls' = next_lconn ls1"
      "lb_currentSeqId (lconns ls' c) = lb_currentSeqId (lconns ls1 c)"
    using f by (auto simp: BackendConnLB_flushRequests_def Let_def split: if_splits)
  note mk = lkeeps_mark [OF lb c inv m]
  have sp: "lb_inv ls'" "lb_input_closed (lconns ls' c)" "lb_seqNum2Request (lconns ls' c) = Map.empty"
    "lb_input (lconns ls' c) = lb_input (lconns ls c)" "lconn_inv c ls'" "\<And>q. q \<notin> ran ?t \<Longrightarrow> reqs ls' q = reqs ls q"
    using LB_flushRequests_spec [OF lb c inv ks, of err] cl mk(4) f by auto
  have "q \<notin> ran ?t" if "q \<notin> lb_pending c ls \<or> q \<in> lb_pending c ls'" for q
    using that lconn_invD(4) [OF inv] sp(3,4) by (auto simp: lb_pending_def pending_def ran_def)
  then show ?thesis using sp fr mk(1) by (auto simp: lkeeps_def lb_pending_def pending_def)
qed

lemma lkeeps_others:
  assumes lb: "lb_inv ls" and c: "c < next_lconn ls" and inv: "lconn_inv c ls"
    and s: "lb_step op ls = Ret ls'" and op: "op \<noteq> LbFail c"
  shows "lkeeps c ls ls' \<and> lb_input_closed (lconns ls' c) = lb_input_closed (lconns ls c)
    \<and> lb_input (lconns ls' c) = lb_input (lconns ls c) \<and> reqs ls' = reqs ls"
proof -
  have lb': "lb_inv ls'" using lb_step_inv [OF lb, of op] s by auto
  have "next_lconn ls \<le> next_lconn ls' \<and> next_req ls' = next_req ls \<and> reqs ls' = reqs ls
    \<and> (\<exists>j. lconns ls' c = (lconns ls c)\<lparr>lb_Index := j\<rparr>)"
  proof (cases op)
    case (LbAccept addr)
    then show ?thesis using s c
      by (auto simp: BackServiceLB_accept_def BackServiceLB_append_def NewBackendConnLB_def intro: exI [of _ "lb_Index (lconns ls c)"])
  next
    case (LbFail d)
    show ?thesis
    proof (cases "d < next_lconn ls")
      case True
      then have m: "BackendConnLB_MarkConnActiveFalse d ls = Ret ls'" using s LbFail by simp
      then have fr: "reqs ls' = reqs ls" "next_lconn ls' = next_lconn ls"
        and all: "\<forall>e. \<exists>j. lconns ls' e = (lconns ls e)\<lparr>lb_IsConnActive := (e \<noteq> d \<and> lb_IsConnActive (lconns ls e)), lb_Index := j\<rparr>"
        using LB_MarkConnActiveFalse_inv [OF lb True] by auto
      have "next_req ls' = next_req ls"
        by (rule LB_MarkConnActiveFalse_next_req [OF m])
      then show ?thesis using fr all [rule_format, of c] op LbFail by auto
    next
      case False
      then show ?thesis using s LbFail by (auto intro: exI [of _ "lb_Index (lconns ls c)"])
    qed
  next
    case LbNext
    then show ?thesis using s
      by (auto simp: BackServiceLB_nextBackendConn_def Let_def intro: exI [of _ "lb_Index (lconns ls c)"])
  qed
  then show ?thesis using lb' inv by (auto simp: lkeeps_def lconn_inv_def lb_pending_def)
qed

lemma work_invD:
  assumes "work_inv c W"
  shows "lb_inv (w_ls W)" "c < next_lconn (w_ls W)" "lconn_inv c (w_ls W)"
    "w_rd W \<longleftrightarrow> \<not> lb_input_closed (lconns (w_ls W) c)" "distinct (unpushed W)" "distinct (in_hand W)"
    "set (unpushed W) \<inter> set (in_hand W) = {}" "set (unpushed W @ in_hand W) \<inter> lb_pending c (w_ls W) = {}"
    "\<And>rid. rid \<in> set (unpushed W) \<union> set (in_hand W) \<union> lb_pending c (w_ls W) \<Longrightarrow>
       rid < next_req (w_ls W) \<and> ReqData (reqs (w_ls W) rid) \<noteq> None"
    "\<And>rid. rid \<in> set (unpushed W) \<Longrightarrow> case Wait (reqs (w_ls W) rid) of None \<Rightarrow> True | Some w \<Rightarrow> w \<ge> 0"
    "\<And>rid. rid \<in> set (in_hand W) \<Longrightarrow> awaited (reqs (w_ls W) rid) \<and>
       RespSeqId (reqs (w_ls W) rid) = lb_currentSeqId (lconns (w_ls W) c)"
  using assms unfolding work_inv_def by auto

lemma work_inv_push:
  assumes inv: "work_inv c W" and rid: "rid \<in> set (unpushed W)" and p: "BackendConnLB_PushBack c rid (w_ls W) = Ret ls'"
    and W': "w_ls W' = ls'" "set (unpushed W') = set (unpushed W) - {rid}" "distinct (unpushed W')"
      "in_hand W' = in_hand W" "w_rd W' = w_rd W"
  shows "work_inv c W'"
proof -
  let ?ls = "w_ls W"
  note i = work_invD [OF inv]
  have new: "rid \<notin> lb_pending c ?ls" "rid \<notin> set (in_hand W)" using rid i(7,8) by auto
  have sp: "lconn_inv c ls'" "lb_pending c ls' = insert rid (lb_pending c ?ls)"
    "reqs ls' = (reqs ?ls)(rid := wait_add ((reqs ?ls rid)\<lparr>Service := lb_serviceName (lconns ?ls c)\<rparr>))"
    using LB_PushBack_spec [OF i(3) new(1) i(10) [OF rid] p] by auto
  have sw: "same_workers ?ls ls'" and cur: "lb_currentSeqId (lconns ls' c) = lb_currentSeqId (lconns ?ls c)"
    using p by (auto simp: BackendConnLB_PushBack_def same_workers_def Let_def split: if_splits)
  have "q < next_req ls' \<and> ReqData (reqs ls' q) \<noteq> None"
    if "q \<in> set (unpushed W' @ in_hand W') \<union> lb_pending c ls'" for q
    using that i(9) [of q] rid sp(2,3) sw W' by (auto simp: same_workers_def wait_add_def)
  moreover have "set (unpushed W' @ in_hand W') \<inter> lb_pending c ls' = {}" using i(8) new(2) sp(2) W' by auto
  moreover have "case Wait (reqs ls' q) of None \<Rightarrow> True | Some w \<Rightarrow> w \<ge> 0" if "q \<in> set (unpushed W')" for q
    using that i(10) [of q] sp(3) W' by auto
  moreover have "awaited (reqs ls' q) \<and> RespSeqId (reqs ls' q) = lb_currentSeqId (lconns ls' c)" if "q \<in> set (in_hand W')" for q
    using that i(11) [of q] new(2) sp(3) cur W' by auto
  moreover have "lb_inv ls'" using i(1) same_workers_inv [OF sw] by simp
  moreover have "distinct (unpushed W' @ in_hand W')" using i(6,7) W' by auto
  ultimately show ?thesis using i(2,4) sp(1) sw W' by (simp add: work_inv_def same_workers_def)
qed

text \<open>A request enters: chosen by a dispatcher or made by the heartbeat.\<close>

lemma work_inv_enter:
  assumes inv: "work_inv c W" and new: "rid \<notin> set (unpushed W @ in_hand W)" "rid \<notin> lb_pending c (w_ls W)"
      "rid < next_req (w_ls W')"
    and r: "ReqData (reqs (w_ls W') rid) \<noteq> None" "case Wait (reqs (w_ls W') rid) of None \<Rightarrow> True | Some w \<Rightarrow> w \<ge> 0"
    and ls': "same_workers (w_ls W) ((w_ls W')\<lparr>next_req := next_req (w_ls W)\<rparr>)" "next_req (w_ls W) \<le> next_req (w_ls W')"
      "lconns (w_ls W') = lconns (w_ls W)" "\<And>q. q \<noteq> rid \<Longrightarrow> reqs (w_ls W') q = reqs (w_ls W) q"
    and W': "set (unpushed W') = insert rid (set (unpushed W))" "distinct (unpushed W')" "in_hand W' = in_hand W"
      "w_rd W' = w_rd W"
  shows "work_inv c W'"
proof -
  let ?ls = "w_ls W" and ?ls' = "w_ls W'"
  note i = work_invD [OF inv]
  have p: "lb_pending c ?ls' = lb_pending c ?ls" using ls'(3) by (simp add: lb_pending_def)
  have same: "reqs ?ls' q = reqs ?ls q" if "q \<in> set (unpushed W) \<union> set (in_hand W) \<union> lb_pending c ?ls" for q
    using that new(1,2) ls'(4) [of q] by auto
  have "lconn_inv c ?ls'"
    using i(3) pend_cong [of "lb_seqNum2Request (lconns ?ls c)" "lb_input (lconns ?ls c)" "reqs ?ls'" "reqs ?ls"] same ls'(3)
    by (simp add: lconn_inv_def lb_pending_def)
  moreover have "q < next_req ?ls' \<and> ReqData (reqs ?ls' q) \<noteq> None"
    if "q \<in> set (unpushed W' @ in_hand W') \<union> lb_pending c ?ls'" for q
    using that i(9) [of q] same [of q] r(1) new(3) ls'(2) p W' by (cases "q = rid") auto
  moreover have "case Wait (reqs ?ls' q) of None \<Rightarrow> True | Some w \<Rightarrow> w \<ge> 0" if "q \<in> set (unpushed W')" for q
    using that i(10) [of q] same [of q] r(2) W' by (cases "q = rid") auto
  moreover have "awaited (reqs ?ls' q) \<and> RespSeqId (reqs ?ls' q) = lb_currentSeqId (lconns ?ls' c)" if "q \<in> set (in_hand W')" for q
    using that i(11) [of q] same [of q] ls'(3) W' by auto
  moreover have "set (unpushed W' @ in_hand W') \<inter> lb_pending c ?ls' = {}" using i(8) new(2) p W' by auto
  moreover have "distinct (unpushed W' @ in_hand W')" using i(6,7) new(1) W' by auto
  moreover have "lb_inv ?ls'"
    using i(1) same_workers_inv [OF ls'(1)] by simp
  moreover have "next_lconn ?ls' = next_lconn ?ls" using ls'(1) by (simp add: same_workers_def)
  ultimately show ?thesis using i(2,4) ls'(3) W' by (simp add: work_inv_def)
qed

lemma work_inv_send:
  assumes inv: "work_inv c W" and sel: "w_wr W = WrSelect" and inp: "lb_input (lconns (w_ls W) c) = rid # rest"
    and s: "write_request T net nano (lb_currentSeqId (lconns (w_ls W) c)) (rest = []) rid (w_tr W)
       (upd_lconn c (\<lambda>b. b\<lparr>lb_input := rest\<rparr>) (w_ls W)) = Ret (None, p', ls')"
  shows "work_inv c (W\<lparr>w_ls := ls', w_tr := p', w_wr := WrSent rid\<rparr>)"
proof -
  let ?ls = "w_ls W" and ?start = "upd_lconn c (\<lambda>b. b\<lparr>lb_input := rest\<rparr>) (w_ls W)"
  let ?W = "W\<lparr>w_ls := ls', w_tr := p'\<rparr>"
  note i = work_invD [OF inv]
  have mem: "rid \<in> lb_pending c ?ls" using inp by (simp add: lb_pending_def pending_def)
  then have d: "ReqData (reqs ?start rid) \<noteq> None" and lt: "rid < next_req ?ls" using i(9) by auto
  obtain r m where ls': "ls' = (set_req rid r ?start)\<lparr>pmem := m\<rparr>"
    and r: "RespSeqId r = lb_currentSeqId (lconns ?ls c)" "Wait r = Wait (reqs ?ls rid)" "ReqData r \<noteq> None"
    using write_request_shape [OF s d] by auto
  have sw: "same_workers ?ls ls'" unfolding ls' by (rule same_workers_trans [OF same_workers_basic(5) [of _ c rest]]) simp
  have k: "lkeeps c ?ls ls' \<and> lb_pending c ls' = lb_pending c ?ls - {rid}"
    by (rule lkeeps_dequeue [OF i(1,3) inp sw]) (simp_all add: ls')
  have "work_inv c ?W"
    by (rule work_inv_keeps [OF inv]) (use k sw i sel in \<open>auto simp: unpushed_def in_hand_def same_workers_def\<close>)
  note j = work_invD [OF this]
  have "awaited r" using lconn_invD(9) [OF i(3), of rid] inp r(2) by (simp add: awaited_def)
  moreover have "rid \<notin> set (unpushed W)" using mem i(8) by auto
  moreover have "unpushed (W\<lparr>w_ls := ls', w_tr := p', w_wr := WrSent rid\<rparr>) = unpushed W"
    "in_hand (W\<lparr>w_ls := ls', w_tr := p', w_wr := WrSent rid\<rparr>) = [rid]" "unpushed ?W = unpushed W" "in_hand ?W = []"
    using sel by (simp_all add: unpushed_def in_hand_def)
  ultimately show ?thesis
    using j k r lt sw unfolding work_inv_def by (auto simp: ls' same_workers_def)
qed

lemma work_inv_register:
  assumes inv: "work_inv c W" and wr: "w_wr W = WrSent rid"
  shows "work_inv c (W\<lparr>w_ls := upd_lconn c (lb_store (RespSeqId (reqs (w_ls W) rid)) rid) (w_ls W), w_wr := WrSelect\<rparr>)"
proof -
  let ?ls = "w_ls W" and ?ls' = "upd_lconn c (lb_store (RespSeqId (reqs (w_ls W) rid)) rid) (w_ls W)"
  let ?W = "W\<lparr>w_ls := ?ls', w_wr := WrSelect\<rparr>"
  note i = work_invD [OF inv]
  have h: "in_hand W = [rid]" "unpushed ?W = unpushed W" "in_hand ?W = []"
    using wr by (simp_all add: in_hand_def unpushed_def)
  have r: "rid \<notin> lb_pending c ?ls" "awaited (reqs ?ls rid)" "RespSeqId (reqs ?ls rid) = lb_currentSeqId (lconns ?ls c)"
    "rid \<notin> set (unpushed W)" using i(7,8,11) h by auto
  note ps = pend_store [OF i(3) [unfolded lconn_inv_def] r(1) [unfolded lb_pending_def] r(3,2)]
  have "lconn_inv c ?ls'" using ps r(3) by (simp add: lconn_inv_def)
  moreover have sub: "lb_pending c ?ls' \<subseteq> insert rid (lb_pending c ?ls)"
    using ps r(3) by (auto simp: lb_pending_def split: option.splits)
  moreover have "lb_inv ?ls'" using i(1) same_workers_inv [OF same_workers_basic(6)] by blast
  moreover have "lb_input_closed (lconns ?ls' c) = lb_input_closed (lconns ?ls c)"
    by (simp add: lb_store_def BackendConnLB_IncreaseCurrentSeqId_def Let_def)
  moreover have "set (unpushed W) \<inter> lb_pending c ?ls' = {}" using sub i(8) r(4) by auto
  ultimately show ?thesis using i h unfolding work_inv_def by auto
qed

lemma make_ping_fresh:
  assumes "BackendConnLB_make_ping T now ls = (rid, ls')"
  shows "rid = next_req ls \<and> next_req ls' = Suc (next_req ls) \<and> lconns ls' = lconns ls \<and> lbs ls' = lbs ls
    \<and> next_lconn ls' = next_lconn ls \<and> ReqData (reqs ls' rid) \<noteq> None \<and> Wait (reqs ls' rid) = None
    \<and> (\<forall>q. q \<noteq> rid \<longrightarrow> reqs ls' q = reqs ls q)"
proof -
  obtain r m where n: "NewPingRequest T (pmem ls) now = (r, m)" by (cases "NewPingRequest T (pmem ls) now")
  then have "ReqData r \<noteq> None" "Wait r = None"
    by (auto simp: NewPingRequest_def zero_request_def Let_def split: prod.splits)
  then show ?thesis using assms n by (auto simp: BackendConnLB_make_ping_def new_req_def)
qed

lemma choose_frame:
  assumes "BackServiceLB_choose rid ls = (Some c, ls')"
  shows "same_workers ls ls' \<and> lconns ls' = lconns ls \<and> c \<in> set (lbs_activeConns (lbs ls))
    \<and> reqs ls' = (reqs ls)(rid := (reqs ls rid)\<lparr>Service := lbs_serviceName (lbs ls)\<rparr>)"
  using assms by (auto simp: BackServiceLB_choose_def BackServiceLB_nextBackendConn_def same_workers_def Let_def
      split: if_splits)

theorem work_inv_step:
  assumes step: "work_step T net c W W'" and inv: "work_inv c W"
  shows "work_inv c W'"
proof -
  note i = work_invD [OF inv]
  note self = lkeeps_self [OF i(1,3)]
  note keeps = work_inv_keeps [OF inv]
  have dat: "\<forall>rid \<in> lb_pending c (w_ls W). ReqData (reqs (w_ls W) rid) \<noteq> None" using i(9) by blast
  have out: "distinct (unpushed W @ in_hand W)" using i(5-7) by auto
  note defs = unpushed_def in_hand_def
  from step show ?thesis
  proof (cases rule: work_step.cases)
    case (expired rid rest now)
    then show ?thesis using lkeeps_dequeue [OF i(1,3) expired(3), of "w_ls W'"] i(4) out
      by (intro keeps) (auto simp: defs)
  next
    case (send rid rest now nano p' ls')
    then show ?thesis using work_inv_send [OF inv send(2,3,5)] by simp
  next
    case (register rid)
    then show ?thesis using work_inv_register [OF inv] by simp
  next
    case (leave now nano e p' ls')
    then show ?thesis using lkeeps_leave [OF i(1,3) dat leave(3)] i(4) out
      by (intro keeps) (auto simp: defs same_workers_def)
  next
    case hb_timeout
    then show ?thesis using self i(4) out by (intro keeps) (auto simp: defs)
  next
    case (hb_stop e)
    then show ?thesis using self i(4) out by (intro keeps) (auto simp: defs)
  next
    case (after e now ls')
    then show ?thesis using lkeeps_after [OF i(1,2,3) after(3)] i(4) out by (intro keeps) (auto simp: defs)
  next
    case (tick_timeout now)
    then show ?thesis using self i(4) out by (intro keeps) (auto simp: defs)
  next
    case (tick_ping now rid ls')
    note f = make_ping_fresh [OF tick_ping(5)]
    have "rid \<notin> set (unpushed W @ in_hand W)" "rid \<notin> lb_pending c (w_ls W)" using f i(9) by auto
    then show ?thesis using tick_ping(1,2) f out
      by (intro work_inv_enter [OF inv, of rid]) (auto simp: defs same_workers_def)
  next
    case (tick_offline now)
    then show ?thesis using self i(4) out by (intro keeps) (auto simp: defs)
  next
    case (ping rid ls')
    then show ?thesis using out by (intro work_inv_push [OF inv _ ping(3)]) (auto simp: defs)
  next
    case (reply now d m e ls')
    then have "lkeeps c ((w_ls W)\<lparr>pmem := m\<rparr>) ls' \<and> lb_input_closed (lconns ls' c) = lb_input_closed (lconns (w_ls W) c)"
      using LB_setResponse_robust [of "(w_ls W)\<lparr>pmem := m\<rparr>" c T now None d] i(1-3) by auto
    then show ?thesis using reply(1,2) i(4) out by (intro keeps) (auto simp: defs)
  next
    case (lost ks err m ls')
    then have "lkeeps c ((w_ls W)\<lparr>pmem := m\<rparr>) ls' \<and> lb_input_closed (lconns ls' c)"
      using lkeeps_lost [of "(w_ls W)\<lparr>pmem := m\<rparr>" c ks err ls'] i(1-3) by simp
    then show ?thesis using lost(1) out by (intro keeps) (auto simp: defs)
  next
    case (choose rid ls')
    note f = choose_frame [OF choose(2)]
    have "next_req ls' = next_req (w_ls W)" using f by (simp add: same_workers_def)
    then show ?thesis using choose(1,3-7) f out
      by (intro work_inv_enter [OF inv choose(3,4)]) (auto simp: defs same_workers_def)
  next
    case (push rid ls')
    then show ?thesis using out by (intro work_inv_push [OF inv _ push(3)]) (auto simp: defs set_remove1_eq)
  next
    case (others op ls')
    then show ?thesis using lkeeps_others [OF i(1-3) others(2,3)] i(4) out by (intro keeps) (auto simp: defs)
  qed
qed

lemma work_inv_reach:
  assumes "work_reach T net c W W'" and "work_inv c W"
  shows "work_inv c W'"
  using assms by (induction rule: rtranclp_induct) (auto intro: work_inv_step)

subsection \<open>What a send may do\<close>

lemma PushBack_panics:
  assumes "work_inv c W"
  shows "BackendConnLB_PushBack c rid (w_ls W) = Panic x \<longleftrightarrow> \<not> w_rd W \<and> x = SendOnClosedChannel"
  using work_invD(4) [OF assms] by (auto simp: BackendConnLB_PushBack_def Let_def)

lemma reader_ended_forever:
  assumes "work_reach T net c W W'" and "\<not> w_rd W"
  shows "\<not> w_rd W'"
  using assms by (induction rule: rtranclp_induct) (auto elim: work_stepE)

lemma flush_enabled:
  assumes inv: "work_inv c W" and rd: "w_rd W" and ks: "map_order (lb_seqNum2Request (lconns (w_ls W) c)) ks"
  shows "\<exists>ls'. BackendConnLB_flushRequests c err ks (w_ls W) = Ret ls'
    \<and> work_step T net c W (W\<lparr>w_ls := ls', w_rd := False\<rparr>)
    \<and> (\<forall>q. q \<notin> lb_pending c (w_ls W) \<longrightarrow> reqs ls' q = reqs (w_ls W) q)"
proof -
  note i = work_invD [OF inv]
  obtain ls' where f: "BackendConnLB_flushRequests c err ks (w_ls W) = Ret ls'"
    using LB_flushRequests_spec [OF i(1-3) ks] i(4) rd by blast
  then have "work_step T net c W (W\<lparr>w_ls := ls', w_rd := False\<rparr>)"
    by (intro work_step.lost [OF rd ks, of err "pmem (w_ls W)"]) simp
  then show ?thesis using f lkeeps_lost [OF i(1-3) ks f] unfolding lkeeps_def by blast
qed

subsection \<open>A request registered after the reader has ended\<close>

definition stranded :: "nat \<Rightarrow> nat \<Rightarrow> request \<Rightarrow> 'n worker \<Rightarrow> bool" where
  "stranded c rid r W \<longleftrightarrow> \<not> w_rd W \<and> rid < next_req (w_ls W) \<and> rid \<notin> set (unpushed W) \<and>
     rid \<notin> set (lb_input (lconns (w_ls W) c)) \<and> reqs (w_ls W) rid = r"

lemma LB_PushBack_frame:
  assumes "BackendConnLB_PushBack c rid ls = Ret ls'"
  shows "lb_input (lconns ls' c) = lb_input (lconns ls c) @ [rid] \<and> next_req ls' = next_req ls
    \<and> (\<forall>q. q \<noteq> rid \<longrightarrow> reqs ls' q = reqs ls q)"
  using assms by (auto simp: BackendConnLB_PushBack_def Let_def split: if_splits)

lemma stranded_step:
  assumes step: "work_step T net c W W'" and inv: "work_inv c W" and s: "stranded c rid r W" and w: "Wait r \<noteq> Some 0"
  shows "stranded c rid r W'"
proof -
  note i = work_invD [OF inv]
  have dat: "\<forall>rid \<in> lb_pending c (w_ls W). ReqData (reqs (w_ls W) rid) \<noteq> None" using i(9) by blast
  note defs = stranded_def unpushed_def
  from step show ?thesis
  proof (cases rule: work_step.cases)
    case (send q rest now nano p' ls')
    let ?start = "upd_lconn c (\<lambda>b. b\<lparr>lb_input := rest\<rparr>) (w_ls W)"
    have d: "ReqData (reqs ?start q) \<noteq> None" using dat send(3) by (simp add: lb_pending_def pending_def)
    show ?thesis using write_request_shape [OF send(5) d] s send(1,2,3) by (auto simp: defs)
  next
    case (leave now nano e p' ls')
    then show ?thesis using lkeeps_leave [OF i(1,3) dat leave(3)] s by (auto simp: defs same_workers_def)
  next
    case (after e now ls')
    then show ?thesis using lkeeps_after [OF i(1-3) after(3)] s by (auto simp: defs lkeeps_def)
  next
    case (tick_ping now q ls')
    then show ?thesis using make_ping_fresh [OF tick_ping(5)] s by (auto simp: defs)
  next
    case (ping q ls')
    then show ?thesis using LB_PushBack_frame [OF ping(3)] s by (auto simp: defs)
  next
    case (choose q ls')
    then have "q \<noteq> rid" using s w by (auto simp: stranded_def)
    then show ?thesis using choose(1) choose_frame [OF choose(2)] s by (auto simp: defs same_workers_def)
  next
    case (push q ls')
    then have "q \<noteq> rid" using s by (auto simp: defs)
    then show ?thesis using push(1) LB_PushBack_frame [OF push(3)] s
      by (auto simp: defs dest: set_remove1_subset [THEN subsetD])
  next
    case (others op ls')
    then show ?thesis using lkeeps_others [OF i(1-3) others(2,3)] s by (auto simp: defs lkeeps_def)
  qed (use s in \<open>auto simp: defs\<close>)
qed

lemma stranded_forever:
  assumes "work_reach T net c W W'" and "work_inv c W" and "stranded c rid r W" and "Wait r \<noteq> Some 0"
  shows "stranded c rid r W'"
proof -
  have "work_inv c W' \<and> stranded c rid r W'"
    using assms by (induction rule: rtranclp_induct) (auto intro: work_inv_step stranded_step)
  then show ?thesis by simp
qed

subsection \<open>A writer that never returns\<close>

definition jammed :: "'n worker \<Rightarrow> bool" where
  "jammed W \<longleftrightarrow> (\<exists>e. w_wr W = WrDefer e) \<and> (w_hb W = WhSending \<or> w_hb W = WhDone)"

lemma jammed_step:
  assumes step: "work_step T net c W W'" and inv: "work_inv c W" and j: "jammed W"
  shows "jammed W' \<and> w_wr W' = w_wr W \<and> set (lb_input (lconns (w_ls W) c)) \<subseteq> set (lb_input (lconns (w_ls W') c))"
proof -
  note i = work_invD [OF inv]
  from step show ?thesis
  proof (cases rule: work_step.cases)
    case (reply now d m e ls')
    then show ?thesis using LB_setResponse_robust [of "(w_ls W)\<lparr>pmem := m\<rparr>" c T now None d] i(1-3) j by (auto simp: jammed_def)
  next
    case (lost ks err m ls')
    then show ?thesis using lkeeps_lost [of "(w_ls W)\<lparr>pmem := m\<rparr>" c ks err ls'] i(1-3) j by (auto simp: jammed_def)
  next
    case (choose rid ls')
    then show ?thesis using choose_frame [OF choose(2)] j by (auto simp: jammed_def)
  next
    case (push rid ls')
    then show ?thesis using LB_PushBack_frame [OF push(3)] j by (auto simp: jammed_def)
  next
    case (others op ls')
    then show ?thesis using lkeeps_others [OF i(1-3) others(2,3)] j by (auto simp: jammed_def)
  qed (use j in \<open>auto simp: jammed_def\<close>)
qed

lemma jammed_forever:
  assumes "work_reach T net c W W'" and "work_inv c W" and "jammed W"
  shows "work_inv c W' \<and> jammed W' \<and> w_wr W' = w_wr W
    \<and> set (lb_input (lconns (w_ls W) c)) \<subseteq> set (lb_input (lconns (w_ls W') c))"
  using assms
proof (induction rule: rtranclp_induct)
  case base
  then show ?case by simp
next
  case (step y z)
  then show ?case using jammed_step [OF step.hyps(2)] work_inv_step [OF step.hyps(2)] by auto
qed

lemma queued_waits:
  assumes "work_inv c W" and "rid \<in> set (lb_input (lconns (w_ls W) c))" and "Wait (reqs (w_ls W) rid) = Some n"
  shows "wait_wait (reqs (w_ls W) rid) = Block"
  using lconn_invD(9) [OF work_invD(3) [OF assms(1)] assms(2)] assms(3) by (simp add: awaited_def wait_wait_def)

subsection \<open>Properties of the machine\<close>

lemma work_inv_start:
  assumes "lb_inv ls"
  shows "work_inv (next_lconn ls) (BackendConnLB_start now addr p ls)"
proof -
  let ?W = "BackendConnLB_start now addr p ls"
  have sw: "same_workers (BackServiceLB_accept addr ls) (w_ls ?W)"
    by (simp add: BackendConnLB_start_def same_workers_def)
  have "lb_inv (w_ls ?W)" using LB_accept_inv [OF assms] same_workers_inv [OF sw] by simp
  moreover have "lb_input (lconns (w_ls ?W) (next_lconn ls)) = []"
    "lb_seqNum2Request (lconns (w_ls ?W) (next_lconn ls)) = Map.empty"
    "lb_currentSeqId (lconns (w_ls ?W) (next_lconn ls)) = BACKEND_CONN_MIN_SEQ_ID"
    "\<not> lb_input_closed (lconns (w_ls ?W) (next_lconn ls))" "next_lconn (w_ls ?W) = Suc (next_lconn ls)"
    by (simp_all add: BackendConnLB_start_def BackServiceLB_accept_def BackServiceLB_append_def NewBackendConnLB_def)
  moreover have "unpushed ?W = []" "in_hand ?W = []" "w_rd ?W"
    by (simp_all add: BackendConnLB_start_def unpushed_def in_hand_def)
  ultimately show ?thesis by (simp add: work_inv_def lconn_inv_def lb_pending_def pending_def pend_init)
qed



definition demo_worker :: "int \<Rightarrow> nat list \<Rightarrow> wr_pc \<Rightarrow> byte list worker" where
  "demo_worker waits input wr =
     \<lparr>w_ls = upd_lconn 0 (\<lambda>b. b\<lparr>lb_input := input\<rparr>) (demo_ls\<lparr>reqs := (\<lambda>_. zero_request\<lparr>ReqName := ''add'', ReqTypeId := 1,
        RespSeqId := 1, Wait := Some waits, ReqData := Some (demo_frame [])\<rparr>), next_req := 1\<rparr>),
      w_tr = demo_writer, w_wr = wr, w_hb = WhSelect, w_rd = True, w_chosen = []\<rparr>"

lemma demo_worker_sel [simp]:
  "reqs (w_ls (demo_worker n inp wr)) q = zero_request\<lparr>ReqName := ''add'', ReqTypeId := 1, RespSeqId := 1,
     Wait := Some n, ReqData := Some (demo_frame [])\<rparr>"
  "next_req (w_ls (demo_worker n inp wr)) = 1" "lb_input (lconns (w_ls (demo_worker n inp wr)) 0) = inp"
  "lb_seqNum2Request (lconns (w_ls (demo_worker n inp wr)) 0) = Map.empty"
  "lb_currentSeqId (lconns (w_ls (demo_worker n inp wr)) 0) = 1"
  "w_wr (demo_worker n inp wr) = wr" "w_hb (demo_worker n inp wr) = WhSelect" "w_rd (demo_worker n inp wr)"
  "unpushed (demo_worker n inp wr) = []" "lb_pending 0 (w_ls (demo_worker n inp wr)) = set inp"
  "lbs (w_ls (demo_worker n inp wr)) = lbs demo_ls"
  by (simp_all add: demo_worker_def unpushed_def lb_pending_def pending_def)

lemma demo_worker_inv:
  assumes "(inp = [] \<and> (wr = WrSelect \<or> wr = WrSent 0 \<and> n = 1)) \<or> (inp = [0] \<and> n = 1 \<and> (\<forall>q. wr \<noteq> WrSent q))"
  shows "work_inv 0 (demo_worker n inp wr)"
proof -
  let ?W = "demo_worker n inp wr"
  have sw: "same_workers demo_ls ((w_ls ?W)\<lparr>next_req := next_req demo_ls\<rparr>)" by (simp add: demo_worker_def same_workers_def)
  have "lb_inv (w_ls ?W)"
    using same_workers_inv [OF sw] by simp
  moreover have "lconn_inv 0 (w_ls ?W)"
    using assms by (auto simp: lconn_inv_def pend_inv_def pending_def awaited_def seq_ok_def CHAN_CAP_def)
  moreover have "next_lconn (w_ls ?W) = 2" "\<not> lb_input_closed (lconns (w_ls ?W) 0)" by (simp_all add: demo_worker_def)
  ultimately show ?thesis
    using assms by (auto simp: work_inv_def in_hand_def awaited_def split: wr_pc.splits)
qed

text \<open>
  C31: \<open>Dispatch\<close> chooses the worker under the lock of the service and pushes to it without
  the lock. If the connection is lost in between, its reader closes the input, and then the
  dispatcher panics, whatever else happens first: the panic ends the process.
\<close>

theorem chosen_worker_lost:
  assumes inv: "work_inv c W" and rd: "w_rd W" and ch: "BackServiceLB_choose rid (w_ls W) = (Some c, ls')"
    and new: "rid \<notin> set (unpushed W @ in_hand W)" "rid \<notin> lb_pending c (w_ls W)" "rid < next_req (w_ls W)"
      "ReqData (reqs (w_ls W) rid) \<noteq> None" "Wait (reqs (w_ls W) rid) = Some 0"
  shows "BackServiceLB_Dispatch T rid (w_ls W) = obind (BackendConnLB_PushBack c rid ls') (\<lambda>ls2. Ret (Some c, ls2))
    \<and> (\<exists>W1 W2. work_step T net c W W1 \<and> w_ls W1 = ls' \<and> rid \<in> set (w_chosen W1) \<and> work_step T net c W1 W2
      \<and> (\<forall>W'. work_reach T net c W2 W' \<longrightarrow> BackendConnLB_PushBack c rid (w_ls W') = Panic SendOnClosedChannel))"
proof -
  let ?W1 = "W\<lparr>w_ls := ls', w_chosen := w_chosen W @ [rid]\<rparr>"
  have s1: "work_step T net c W ?W1" by (rule work_step.choose [OF ch new])
  have inv1: "work_inv c ?W1" by (rule work_inv_step [OF s1 inv])
  obtain ks where ks: "map_order (lb_seqNum2Request (lconns (w_ls ?W1) c)) ks"
    using map_order_exists [OF lconn_invD(2) [OF work_invD(3) [OF inv1]]] by blast
  obtain W2 where s2: "work_step T net c ?W1 W2" and nr: "\<not> w_rd W2"
    using flush_enabled [OF inv1 _ ks, where err = IoEOF and T = T and net = net] rd by force
  have "BackendConnLB_PushBack c rid (w_ls W') = Panic SendOnClosedChannel" if "work_reach T net c W2 W'" for W'
    using PushBack_panics [OF work_inv_reach [OF that work_inv_step [OF s2 inv1]]] reader_ended_forever [OF that nr] by blast
  then have "\<forall>W'. work_reach T net c W2 W' \<longrightarrow> BackendConnLB_PushBack c rid (w_ls W') = Panic SendOnClosedChannel" by blast
  moreover have "w_ls ?W1 = ls'" "rid \<in> set (w_chosen ?W1)" by simp_all
  ultimately show ?thesis using LB_Dispatch_decomposes [OF ch] s1 s2 by blast
qed

theorem chosen_worker_lost_witness:
  "\<exists>W1 W2. work_step strict_binary net_all 0 (demo_worker 0 [] WrSelect) W1 \<and> 0 \<in> set (w_chosen W1)
    \<and> work_step strict_binary net_all 0 W1 W2 \<and> BackendConnLB_PushBack 0 0 (w_ls W2) = Panic SendOnClosedChannel"
proof -
  let ?W = "demo_worker 0 [] WrSelect"
  have inv: "work_inv 0 ?W" by (rule demo_worker_inv) simp
  have ch: "BackServiceLB_choose 0 (w_ls ?W) = (Some 0, snd (BackServiceLB_choose 0 (w_ls ?W)))"
    by (simp add: BackServiceLB_choose_def BackServiceLB_nextBackendConn_def)
  have "in_hand ?W = []" by (simp add: in_hand_def)
  then show ?thesis
    using chosen_worker_lost [OF inv _ ch, of strict_binary net_all] by (simp only: demo_worker_sel) force
qed

text \<open>
  C32: The writer flushes a request and only then puts it into the table. If the connection is
  lost in between, the reader fails the requests of the table without this one and ends; the
  request is stored afterwards, and from then on nothing completes it, whatever the
  goroutines do: \<open>Dispatch\<close> waits for it for ever.
\<close>

theorem sent_request_stranded:
  assumes inv: "work_inv c W" and wr: "w_wr W = WrSent rid" and rd: "w_rd W"
    and ks: "map_order (lb_seqNum2Request (lconns (w_ls W) c)) ks" and w: "Wait (reqs (w_ls W) rid) = Some n"
  shows "\<exists>ls'. BackendConnLB_flushRequests c err ks (w_ls W) = Ret ls'
    \<and> work_step T net c W (W\<lparr>w_ls := ls', w_rd := False\<rparr>)
    \<and> (\<forall>W'. work_reach T net c (W\<lparr>w_ls := ls', w_rd := False\<rparr>) W' \<longrightarrow> wait_wait (reqs (w_ls W') rid) = Block)"
proof -
  let ?r = "reqs (w_ls W) rid"
  note i = work_invD [OF inv]
  obtain ls' where f: "BackendConnLB_flushRequests c err ks (w_ls W) = Ret ls'"
    and s: "work_step T net c W (W\<lparr>w_ls := ls', w_rd := False\<rparr>)"
    and same: "\<forall>q. q \<notin> lb_pending c (w_ls W) \<longrightarrow> reqs ls' q = reqs (w_ls W) q"
    using flush_enabled [OF inv rd ks] by blast
  let ?W1 = "W\<lparr>w_ls := ls', w_rd := False\<rparr>"
  have inv1: "work_inv c ?W1" by (rule work_inv_step [OF s inv])
  have hand: "rid \<in> set (in_hand W)" using wr by (simp add: in_hand_def)
  then have aw: "awaited ?r" and out: "rid \<notin> lb_pending c (w_ls W)" "rid \<notin> set (unpushed W)" using i(7,8,11) by auto
  have "in_hand ?W1 = in_hand W" "unpushed ?W1 = unpushed W" by (simp_all add: in_hand_def unpushed_def)
  then have "rid \<notin> lb_pending c ls'" "rid < next_req ls'"
    using work_invD(8,9) [OF inv1] hand by auto
  then have str: "stranded c rid ?r ?W1"
    using out same by (auto simp: stranded_def lb_pending_def pending_def unpushed_def)
  have "wait_wait (reqs (w_ls W') rid) = Block" if "work_reach T net c ?W1 W'" for W'
    using stranded_forever [OF that inv1 str] aw w by (auto simp: stranded_def awaited_def wait_wait_def)
  then show ?thesis using f s by blast
qed

theorem sent_request_stranded_witness:
  "\<exists>ls'. BackendConnLB_flushRequests 0 IoEOF [] (w_ls (demo_worker 1 [] (WrSent 0))) = Ret ls'
    \<and> work_step strict_binary net_all 0 (demo_worker 1 [] (WrSent 0)) ((demo_worker 1 [] (WrSent 0))\<lparr>w_ls := ls', w_rd := False\<rparr>)
    \<and> wait_wait (reqs ls' 0) = Block"
proof -
  let ?W = "demo_worker 1 [] (WrSent 0)"
  have inv: "work_inv 0 ?W" by (rule demo_worker_inv) simp
  have ks: "map_order (lb_seqNum2Request (lconns (w_ls ?W) 0)) []" by (simp add: map_order_def)
  show ?thesis
    using sent_request_stranded [OF inv _ _ ks, of 0 1 IoEOF strict_binary net_all] by fastforce
qed

text \<open>
  When the heartbeat of a worker times out, the writer leaves its loop and its deferred
  \<open>bc.hbStop <- true\<close> waits for a heartbeat that has ended. The worker is still in the array,
  the requests in its input stay there, and nobody completes them.
\<close>

lemma timed_out_worker_jams:
  assumes inv: "work_inv c W" and pc: "w_wr W = WrSelect" "w_hb W = WhSending"
  shows "\<exists>W1. work_step T net c W W1 \<and> w_ls W1 = w_ls W \<and> (\<forall>W'. work_reach T net c W1 W' \<longrightarrow>
    w_wr W' = WrDefer (Some BackendConnLB_hb_timeout_error)
    \<and> set (lb_input (lconns (w_ls W) c)) \<subseteq> set (lb_input (lconns (w_ls W') c))
    \<and> (\<forall>rid n. rid \<in> set (lb_input (lconns (w_ls W') c)) \<and> Wait (reqs (w_ls W') rid) = Some n \<longrightarrow>
        wait_wait (reqs (w_ls W') rid) = Block))"
proof -
  let ?W1 = "W\<lparr>w_wr := WrDefer (Some BackendConnLB_hb_timeout_error), w_hb := WhDone\<rparr>"
  have s: "work_step T net c W ?W1" by (rule work_step.hb_timeout [OF pc])
  note inv1 = work_inv_step [OF s inv]
  have j: "jammed ?W1" by (simp add: jammed_def)
  show ?thesis
    by (rule exI [of _ ?W1]) (use s jammed_forever [OF _ inv1 j] queued_waits in fastforce)
qed



end
