(* ===== verification/Balancer_Trip.thy ===== *)
theory Balancer_Trip
  imports End_To_End Backend_Conn_LB_Correct
begin

text \<open>
  One request on its way through the load balancer: the bytes of the proxy through the session
  of the load balancer, \<open>Dispatch\<close> and the writer of a worker's connection to the worker, and the
  bytes of the worker through the reader of that connection and the writer of the session back
  to the proxy.
\<close>

subsection \<open>Proxy to worker\<close>

lemma NewRequest_plain_sendable:
  assumes T: "thrift_ok T" and ok: "slice_ok m d" and bytes: "slice_bytes m d = msg_header T name ty seq @ payload"
    and msg: "msg_ok name ty" and name: "CHR '':'' \<notin> set name"
  shows "sendable m ((NewRequest T m d False)\<lparr>Service := svc\<rparr>) payload"
  using NewRequest_plain [OF T msg name bytes, of False] ok bytes msg T
  by (auto simp: sendable_def header_start_def)

lemma LB_Dispatch_pushes:
  assumes act: "lbs_activeConns (lbs ls) \<noteq> []" and c: "c = lb_next ls" "\<not> lb_input_closed (lconns ls c)"
      "length (lb_input (lconns ls c)) < CHAN_CAP"
  shows "\<exists>ls'. LB_Dispatch_enter T rid ls = Ret (None, ls')
    \<and> lconns ls' = (lconns ls)(c := (lconns ls c)\<lparr>lb_input := lb_input (lconns ls c) @ [rid]\<rparr>)
    \<and> reqs ls' = (reqs ls)(rid := wait_add ((reqs ls rid)\<lparr>Service := lb_serviceName (lconns ls c)\<rparr>)) \<and> pmem ls' = pmem ls"
proof -
  obtain ls1 where nx: "BackServiceLB_nextBackendConn ls = (Some c, ls1)"
    and l1: "reqs ls1 = reqs ls" "lconns ls1 = lconns ls" "pmem ls1 = pmem ls"
    using act c(1) by (auto simp: BackServiceLB_nextBackendConn_def Let_def lb_next_def rr_start_def)
  show ?thesis
    using nx l1 c(2,3)
    by (auto simp: LB_Dispatch_enter_def BackServiceLB_Dispatch_def BackendConnLB_PushBack_def wait_add_def fun_eq_iff)
qed

lemma lb_request_enters:
  fixes ls :: lstate
  assumes T: "thrift_ok T" and m: "pool_ok (pmem ls)"
    and rd: "FrameSize sp = 0" "reader_bytes (Reader sp) = frame_bytes f @ behind" "length f \<le> maxLength sp" "length f < 2 ^ 32"
    and f: "f = msg_header T name ty seq @ payload" "msg_ok name ty" "CHR '':'' \<notin> set name" "ty \<noteq> MESSAGE_TYPE_HEART_BEAT"
    and act: "lbs_activeConns (lbs ls) \<noteq> []"
    and c: "c = lb_next ls" "lconn_inv c ls" "\<not> lb_input_closed (lconns ls c)" "length (lb_input (lconns ls c)) < CHAN_CAP"
      "next_req ls \<notin> lb_pending c ls"
  shows "\<exists>frame m1 sp1 s1 ls1. ReadFrame T (pmem ls) sp = Ret (Inr frame, m1, sp1) \<and> reader_bytes (Reader sp1) = behind
    \<and> NonBlockSession_handleRequest T now (LB_Dispatch_enter T) frame s (ls\<lparr>pmem := m1\<rparr>) = Ret (next_req ls, None, s1, ls1)
    \<and> lconn_inv c ls1 \<and> lb_input (lconns ls1 c) = lb_input (lconns ls c) @ [next_req ls]
    \<and> lb_currentSeqId (lconns ls1 c) = lb_currentSeqId (lconns ls c)
    \<and> sendable (pmem ls1) (reqs ls1 (next_req ls)) payload
    \<and> ReqName (reqs ls1 (next_req ls)) = name \<and> ReqTypeId (reqs ls1 (next_req ls)) = ty
    \<and> ReqSeqId (reqs ls1 (next_req ls)) = seq \<and> Wait (reqs ls1 (next_req ls)) = Some 1"
proof -
  let ?rid = "next_req ls"
  obtain d m1 r1 where rf: "ReadFrame T (pmem ls) sp = Ret (Inr d, m1, sp\<lparr>Reader := r1\<rparr>)"
    and d: "slice_bytes m1 d = f" "slice_ok m1 d" and r1: "reader_bytes r1 = behind"
    using ReadFrame_ok [OF m rd] by blast
  let ?r = "NewRequest T m1 d False"
  note fs = NewRequest_plain [OF T f(2,3) d(1) [unfolded f(1)], of False]
  define qs where "qs = (set_req ?rid ?r (ls\<lparr>pmem := m1\<rparr>))\<lparr>next_req := Suc ?rid\<rparr>"
  have sel: "lbs qs = lbs ls" "lconns qs = lconns ls" "reqs qs = (reqs ls)(?rid := ?r)" "pmem qs = m1" by (simp_all add: qs_def)
  have nc: "c = lb_next qs" using c(1) sel(1) by (simp add: lb_next_def)
  obtain ls1 where disp: "LB_Dispatch_enter T ?rid qs = Ret (None, ls1)"
    and cn: "lconns ls1 = (lconns ls)(c := (lconns ls c)\<lparr>lb_input := lb_input (lconns ls c) @ [?rid]\<rparr>)"
    and rs: "reqs ls1 = (reqs ls)(?rid := wait_add (?r\<lparr>Service := lb_serviceName (lconns ls c)\<rparr>))" and pm: "pmem ls1 = m1"
    using LB_Dispatch_pushes [of qs c T ?rid] act nc c(3,4) sel by auto
  have h: "NonBlockSession_handleRequest T now (LB_Dispatch_enter T) d s (ls\<lparr>pmem := m1\<rparr>) = Ret (?rid, None,
      s\<lparr>nb_lastRequestTime := map_option (\<lambda>_. now) (nb_lastRequestTime s), LastOpUnix := now, Ops := Ops s + 1\<rparr>, ls1)"
    using disp fs f(4) by (simp add: NonBlockSession_handleRequest_def new_req_def qs_def)
  have "awaited (wait_add (?r\<lparr>Service := lb_serviceName (lconns ls c)\<rparr>))" by (simp add: awaited_def)
  from pend_push [OF c(2) [unfolded lconn_inv_def] c(5) [unfolded lb_pending_def] c(4) this rs]
  have inv: "lconn_inv c ls1" using cn by (simp add: lconn_inv_def)
  have send: "sendable m1 (?r\<lparr>Service := lb_serviceName (lconns ls c)\<rparr>) payload"
    by (rule NewRequest_plain_sendable [OF T d(2) d(1) [unfolded f(1)] f(2,3)])
  show ?thesis
    by (intro exI conjI, rule rf, simp add: r1, rule h) (use inv cn rs pm fs send in simp_all)
qed

lemma lb_request_leaves:
  fixes ls :: lstate
  assumes T: "thrift_ok T" and inv: "lconn_inv c ls" and inp: "lb_input (lconns ls c) = [rid]"
    and s: "sendable (pmem ls) (reqs ls rid) payload" and ty: "ReqTypeId (reqs ls rid) \<noteq> MESSAGE_TYPE_HEART_BEAT"
    and net: "net_accepts net sent" "werr (Writer p) = None" "fbuf p = []"
  shows "\<exists>p' ls'. BackendConnLB_loopWriter_turn T net now nano c p ls = Ret (Continue, p', ls')
    \<and> sent (under (Writer p')) = framed_out sent p @ frame_bytes (msg_header T (ReqName (reqs ls rid))
        (ReqTypeId (reqs ls rid)) (lb_currentSeqId (lconns ls c)) @ payload)
    \<and> lconn_inv c ls' \<and> lb_seqNum2Request (lconns ls' c) (lb_currentSeqId (lconns ls c)) = Some rid
    \<and> ReqName (reqs ls' rid) = ReqName (reqs ls rid) \<and> ReqSeqId (reqs ls' rid) = ReqSeqId (reqs ls rid)
    \<and> Wait (reqs ls' rid) = Wait (reqs ls rid)"
proof -
  let ?k = "lb_currentSeqId (lconns ls c)"
  let ?f = "msg_header T (ReqName (reqs ls rid)) (ReqTypeId (reqs ls rid)) ?k @ payload"
  obtain e p' where fl: "send_frame T net nano True ?f p = (e, p')" by (cases "send_frame T net nano True ?f p")
  note a = send_frame_accepts [OF net fl]
  show ?thesis using LB_turn_sent [OF T inv inp _ s, of now net nano p p'] ty fl a by auto
qed

subsection \<open>Worker to proxy\<close>

lemma NonBlock_loopWriter_one:
  assumes net: "net_accepts net sent" "werr (Writer q) = None" "fbuf q = []" and fin: "finished (pmem ls) (reqs ls rid)"
  shows "\<exists>q' st' ls'. NonBlockSession_loopWriter T net clock [rid] q st ls = Ret (None, q', st', ls')
    \<and> sent (under (Writer q')) = framed_out sent q @
        frame_bytes (response_bytes T ''nonblock_session'' (pmem ls) (reqs ls rid))"
proof -
  obtain ls1 st1 where h: "handleResponse T ''nonblock_session'' (clock rid) rid st ls = Ret (st1, ls1)"
    and b: "opt_bytes (pmem ls1) (RespData (reqs ls1 rid)) = response_bytes T ''nonblock_session'' (pmem ls) (reqs ls rid)"
    using handleResponse_spec [OF fin] by blast
  let ?f = "response_bytes T ''nonblock_session'' (pmem ls) (reqs ls rid)"
  obtain e q1 where fl: "send_frame T net (clock rid * 1000) True ?f q = (e, q1)"
    by (cases "send_frame T net (clock rid * 1000) True ?f q")
  show ?thesis using send_frame_accepts [OF net fl] h b fl
    by (simp add: NonBlockSession_handleResponse_def send_frame_def framed_Write_def)
qed

lemma lb_reply_returns:
  fixes ls :: lstate
  assumes T: "thrift_ok T" and inv: "lconn_inv c ls" and m: "pool_ok (pmem ls)"
    and tab: "lb_seqNum2Request (lconns ls c) k = Some rid" and w: "Wait (reqs ls rid) = Some 1"
    and rd: "FrameSize p = 0" "reader_bytes (Reader p) = frame_bytes f @ behind" "length f \<le> maxLength p" "length f < 2 ^ 32"
    and f: "f = msg_header T n ty k @ payload" "msg_ok n ty" "ty \<noteq> MESSAGE_TYPE_HEART_BEAT" "ty \<noteq> MESSAGE_TYPE_STOP"
      "length n = length (ReqName (reqs ls rid))"
    and net: "net_accepts net sent" "werr (Writer q) = None" "fbuf q = []"
  shows "\<exists>r1 ls1 q' st' ls2. BackendConnLB_loopReader_turn T now c ks p ls = Ret (Continue, p\<lparr>Reader := r1\<rparr>, ls1)
    \<and> lb_pending c ls1 = lb_pending c ls - {rid} \<and> wait_wait (reqs ls1 rid) = Ret ()
    \<and> NonBlockSession_loopWriter T net clock [rid] q st ls1 = Ret (None, q', st', ls2)
    \<and> sent (under (Writer q')) = framed_out sent q @
        frame_bytes (msg_header T (ReqName (reqs ls rid)) ty (ReqSeqId (reqs ls rid)) @ payload)"
proof -
  obtain d m1 r1 where rf: "ReadFrame T (pmem ls) p = Ret (Inr d, m1, p\<lparr>Reader := r1\<rparr>)"
    and d: "slice_bytes m1 d = f" "slice_ok m1 d"
    using ReadFrame_ok [OF m rd] by blast
  let ?qs = "ls\<lparr>pmem := m1\<rparr>"
  have "lconn_inv c ?qs" using inv by (simp add: lconn_inv_def)
  from LB_setResponse_reply [OF T this, of d n ty k payload rid now] d f tab obtain ls1
    where sr: "BackendConnLB_setResponse T now c None (Some d) None ?qs = Ret (None, ls1)"
    and rs: "reqs ls1 = (reqs ls)(rid := completed ((reqs ls rid)\<lparr>RespTypeId := ty\<rparr>) (Some d) None)"
    and b: "slice_bytes (pmem ls1) d = msg_header T (ReqName (reqs ls rid)) ty (ReqSeqId (reqs ls rid)) @ payload"
    and ok: "slice_ok (pmem ls1) d" and pend: "lb_pending c ls1 = lb_pending c ls - {rid}"
    by (auto simp: lb_pending_def)
  have fin: "finished (pmem ls1) (reqs ls1 rid)" and ww: "wait_wait (reqs ls1 rid) = Ret ()"
    using ok w by (simp_all add: finished_def rs completed_def wait_wait_def)
  have "response_bytes T ''nonblock_session'' (pmem ls1) (reqs ls1 rid) =
      msg_header T (ReqName (reqs ls rid)) ty (ReqSeqId (reqs ls rid)) @ payload"
    using b by (simp add: response_bytes_def rs completed_def opt_bytes_def)
  moreover have "BackendConnLB_loopReader_turn T now c ks p ls = Ret (Continue, p\<lparr>Reader := r1\<rparr>, ls1)"
    using rf sr by (simp add: BackendConnLB_loopReader_turn_def)
  ultimately show ?thesis
    using NonBlock_loopWriter_one [OF net fin, of T clock st] pend ww by auto
qed

subsection \<open>The round trip\<close>

text \<open>
  C2: A frame of a proxy, read by a session of the load balancer, is pushed to the worker
  whose turn it is and reaches it as the same message under a sequence number of the worker's
  connection, while \<open>Dispatch\<close> waits; and when the worker answers under this number with a
  message of the same name, in whatever chunks, \<open>Dispatch\<close> goes on, the request is no longer
  pending, and the session sends the proxy exactly that message under the proxy's number.
\<close>

theorem worker_round_trip:
  fixes ls :: lstate
  assumes T: "thrift_ok T" and mem: "pool_ok (pmem ls)"
    and proxy: "FrameSize sp = 0" "reader_bytes (Reader sp) = frame_bytes req @ behind"
      "length req \<le> maxLength sp" "length req < 2 ^ 32"
    and req: "req = msg_header T name ty seq @ payload" "msg_ok name ty" "CHR '':'' \<notin> set name" "ty \<noteq> MESSAGE_TYPE_HEART_BEAT"
    and worker: "lbs_activeConns (lbs ls) \<noteq> []" "c = lb_next ls" "lconn_inv c ls" "\<not> lb_input_closed (lconns ls c)"
      "lb_input (lconns ls c) = []" "next_req ls \<notin> lb_pending c ls"
    and there: "net_accepts wnet wsent" "werr (Writer wp) = None" "fbuf wp = []"
    and back_net: "net_accepts snet ssent" "werr (Writer sw) = None" "fbuf sw = []"
  shows "\<exists>frame m sp1 s1 ls1 wp1 ls2. ReadFrame T (pmem ls) sp = Ret (Inr frame, m, sp1) \<and> reader_bytes (Reader sp1) = behind
    \<and> NonBlockSession_handleRequest T now (LB_Dispatch_enter T) frame s (ls\<lparr>pmem := m\<rparr>) = Ret (next_req ls, None, s1, ls1)
    \<and> BackendConnLB_loopWriter_turn T wnet now nano c wp ls1 = Ret (Continue, wp1, ls2)
    \<and> wsent (under (Writer wp1)) = framed_out wsent wp @
        frame_bytes (msg_header T name ty (lb_currentSeqId (lconns ls c)) @ payload)
    \<and> wait_wait (reqs ls2 (next_req ls)) = Block
    \<and> (\<forall>m' wr reply ty' payload' rest. reply = msg_header T name ty' (lb_currentSeqId (lconns ls c)) @ payload' \<longrightarrow>
        msg_ok name ty' \<longrightarrow> ty' \<noteq> MESSAGE_TYPE_HEART_BEAT \<longrightarrow> ty' \<noteq> MESSAGE_TYPE_STOP \<longrightarrow> pool_ok m' \<longrightarrow> FrameSize wr = 0 \<longrightarrow>
        reader_bytes (Reader wr) = frame_bytes reply @ rest \<longrightarrow> length reply \<le> maxLength wr \<longrightarrow> length reply < 2 ^ 32 \<longrightarrow>
        (\<exists>wr1 ls3 sw1 st1 ls4.
          BackendConnLB_loopReader_turn T now c ks (wr :: 'n framed) (ls2\<lparr>pmem := m'\<rparr>) = Ret (Continue, wr1, ls3)
        \<and> next_req ls \<notin> lb_pending c ls3 \<and> wait_wait (reqs ls3 (next_req ls)) = Ret ()
        \<and> NonBlockSession_loopWriter T snet clock [next_req ls] sw st ls3 = Ret (None, sw1, st1, ls4)
        \<and> ssent (under (Writer sw1)) = framed_out ssent sw @ frame_bytes (msg_header T name ty' seq @ payload')))"
proof -
  let ?rid = "next_req ls" and ?k = "lb_currentSeqId (lconns ls c)"
  have room: "length (lb_input (lconns ls c)) < CHAN_CAP" using worker(5) by (simp add: CHAN_CAP_def)
  obtain frame m sp1 s1 ls1 where a: "ReadFrame T (pmem ls) sp = Ret (Inr frame, m, sp1)" "reader_bytes (Reader sp1) = behind"
      "NonBlockSession_handleRequest T now (LB_Dispatch_enter T) frame s (ls\<lparr>pmem := m\<rparr>) = Ret (?rid, None, s1, ls1)"
    and i1: "lconn_inv c ls1" "lb_input (lconns ls1 c) = [?rid]" "lb_currentSeqId (lconns ls1 c) = ?k"
      "sendable (pmem ls1) (reqs ls1 ?rid) payload"
    and f1: "ReqName (reqs ls1 ?rid) = name" "ReqTypeId (reqs ls1 ?rid) = ty" "ReqSeqId (reqs ls1 ?rid) = seq"
      "Wait (reqs ls1 ?rid) = Some 1"
    using lb_request_enters [OF T mem proxy req worker(1-4) room worker(6), of now s] worker(5) by auto
  obtain wp1 ls2 where b: "BackendConnLB_loopWriter_turn T wnet now nano c wp ls1 = Ret (Continue, wp1, ls2)"
      "wsent (under (Writer wp1)) = framed_out wsent wp @ frame_bytes (msg_header T name ty ?k @ payload)"
    and i2: "lconn_inv c ls2" "lb_seqNum2Request (lconns ls2 c) ?k = Some ?rid"
    and f2: "ReqName (reqs ls2 ?rid) = name" "ReqSeqId (reqs ls2 ?rid) = seq" "Wait (reqs ls2 ?rid) = Some 1"
    using lb_request_leaves [OF T i1(1,2,4) _ there, of now nano] req(4) f1 i1(3) by auto
  have "\<exists>wr1 ls3 sw1 st1 ls4. BackendConnLB_loopReader_turn T now c ks wr (ls2\<lparr>pmem := m'\<rparr>) = Ret (Continue, wr1, ls3)
      \<and> ?rid \<notin> lb_pending c ls3 \<and> wait_wait (reqs ls3 ?rid) = Ret ()
      \<and> NonBlockSession_loopWriter T snet clock [?rid] sw st ls3 = Ret (None, sw1, st1, ls4)
      \<and> ssent (under (Writer sw1)) = framed_out ssent sw @ frame_bytes (msg_header T name ty' seq @ payload')"
    if h: "reply = msg_header T name ty' ?k @ payload'" "msg_ok name ty'" "ty' \<noteq> MESSAGE_TYPE_HEART_BEAT"
      "ty' \<noteq> MESSAGE_TYPE_STOP" "pool_ok m'" "FrameSize wr = 0" "reader_bytes (Reader wr) = frame_bytes reply @ rest"
      "length reply \<le> maxLength wr" "length reply < 2 ^ 32" for m' reply ty' payload' rest and wr :: "'n framed"
  proof -
    let ?qs = "ls2\<lparr>pmem := m'\<rparr>"
    have "lconn_inv c ?qs" "pool_ok (pmem ?qs)" "lb_seqNum2Request (lconns ?qs c) ?k = Some ?rid" "Wait (reqs ?qs ?rid) = Some 1"
      "length name = length (ReqName (reqs ?qs ?rid))" using i2 f2 h(5) by (simp_all add: lconn_inv_def)
    from lb_reply_returns [OF T this(1-4) h(6-9) h(1-4) this(5) back_net, of now ks clock st] show ?thesis
      using f2 by (auto simp del: NonBlockSession_loopWriter.simps)
  qed
  moreover have "wait_wait (reqs ls2 ?rid) = Block" using f2(3) by (simp add: wait_wait_def)
  ultimately show ?thesis using a b by blast
qed

theorem worker_round_trip_witness:
  "\<exists>frame m sp1 s1 ls1 wp1 ls2 wr1 ls3 sw1 st1 ls4.
      ReadFrame strict_binary (pmem demo_ls) (demo_reader (frame_bytes (msg_header strict_binary ''add'' 1 7 @ [42]))) =
        Ret (Inr frame, m, sp1)
    \<and> NonBlockSession_handleRequest strict_binary 0 (LB_Dispatch_enter strict_binary) frame
        (NewNonBlockSession 0 ''proxy'' False None) (demo_ls\<lparr>pmem := m\<rparr>) = Ret (0, None, s1, ls1)
    \<and> BackendConnLB_loopWriter_turn strict_binary net_all 0 0 0 demo_writer ls1 = Ret (Continue, wp1, ls2)
    \<and> under (Writer wp1) = frame_bytes (msg_header strict_binary ''add'' 1 1 @ [42])
    \<and> BackendConnLB_loopReader_turn strict_binary 0 0 [] (demo_reader (frame_bytes (msg_header strict_binary ''add'' 2 1 @ [43])))
        (ls2\<lparr>pmem := empty_memory\<rparr>) = Ret (Continue, wr1, ls3)
    \<and> NonBlockSession_loopWriter strict_binary net_all (\<lambda>_. 0) [0] demo_writer init_cmdstats ls3 = Ret (None, sw1, st1, ls4)
    \<and> under (Writer sw1) = frame_bytes (msg_header strict_binary ''add'' 2 7 @ [43])"
proof -
  let ?T = strict_binary
  let ?req = "msg_header ?T ''add'' 1 7 @ [42]" and ?reply = "msg_header ?T ''add'' 2 1 @ [43]"
  have ok: "msg_ok ''add'' 1" "msg_ok ''add'' 2" by (simp_all add: msg_ok_def)
  have len: "length ?req = 16" "length ?reply = 16" using ok by simp_all
  have rq: "FrameSize (demo_reader (frame_bytes ?req)) = 0" "reader_bytes (Reader (demo_reader (frame_bytes ?req))) = frame_bytes ?req @ []"
    "length ?req \<le> maxLength (demo_reader (frame_bytes ?req))" "length ?req < 2 ^ 32" using len by simp_all
  have ty: "CHR '':'' \<notin> set ''add''" "(1 :: int32) \<noteq> MESSAGE_TYPE_HEART_BEAT" "(2 :: int32) \<noteq> MESSAGE_TYPE_HEART_BEAT"
    "(2 :: int32) \<noteq> MESSAGE_TYPE_STOP" by (simp_all add: MESSAGE_TYPE_HEART_BEAT_def MESSAGE_TYPE_STOP_def)
  have seq: "lb_currentSeqId (lconns demo_ls 0) = 1" and next0: "next_req demo_ls = 0" and mem: "pool_ok (pmem demo_ls)"
    by (simp_all add: demo_ls_def empty_lstate_def BackServiceLB_accept_def NewBackendConnLB_def BackServiceLB_append_def
        BACKEND_CONN_MIN_SEQ_ID_def)
  have w: "lbs_activeConns (lbs demo_ls) \<noteq> []" "0 = lb_next demo_ls" "lconn_inv 0 demo_ls" "\<not> lb_input_closed (lconns demo_ls 0)"
    "lb_input (lconns demo_ls 0) = []" "next_req demo_ls \<notin> lb_pending 0 demo_ls"
    by (simp_all add: lb_next_def rr_start_def lconn_inv_def lb_pending_def pending_def pend_inv_def seq_ok_def)
  note rt = worker_round_trip [OF thrift_ok_strict_binary mem rq refl ok(1) ty(1,2) w net_accepts_all demo_transport(1,2)
      net_accepts_all demo_transport(1,2), of 0 "NewNonBlockSession 0 ''proxy'' False None" 0 "[]" "\<lambda>_. 0" init_cmdstats,
      where ?'n = "byte list"]
  have rd: "?reply = msg_header ?T ''add'' 2 (lb_currentSeqId (lconns demo_ls 0)) @ [43]" "pool_ok empty_memory"
    "FrameSize (demo_reader (frame_bytes ?reply)) = 0" "reader_bytes (Reader (demo_reader (frame_bytes ?reply))) = frame_bytes ?reply @ []"
    "length ?reply \<le> maxLength (demo_reader (frame_bytes ?reply))" "length ?reply < 2 ^ 32" using len seq by simp_all
  from rt obtain frame m sp1 s1 ls1 wp1 ls2 where
    a: "ReadFrame ?T (pmem demo_ls) (demo_reader (frame_bytes ?req)) = Ret (Inr frame, m, sp1)"
      "NonBlockSession_handleRequest ?T 0 (LB_Dispatch_enter ?T) frame (NewNonBlockSession 0 ''proxy'' False None)
        (demo_ls\<lparr>pmem := m\<rparr>) = Ret (next_req demo_ls, None, s1, ls1)"
      "BackendConnLB_loopWriter_turn ?T net_all 0 0 0 demo_writer ls1 = Ret (Continue, wp1, ls2)"
      "id (under (Writer wp1)) = framed_out id demo_writer @
        frame_bytes (msg_header ?T ''add'' 1 (lb_currentSeqId (lconns demo_ls 0)) @ [42])"
    and b: "\<And>m' (wr :: byte list framed) reply ty' payload' rest. reply = msg_header ?T ''add'' ty' (lb_currentSeqId (lconns demo_ls 0)) @ payload' \<Longrightarrow>
        msg_ok ''add'' ty' \<Longrightarrow> ty' \<noteq> MESSAGE_TYPE_HEART_BEAT \<Longrightarrow> ty' \<noteq> MESSAGE_TYPE_STOP \<Longrightarrow> pool_ok m' \<Longrightarrow> FrameSize wr = 0 \<Longrightarrow>
        reader_bytes (Reader wr) = frame_bytes reply @ rest \<Longrightarrow> length reply \<le> maxLength wr \<Longrightarrow> length reply < 2 ^ 32 \<Longrightarrow>
        \<exists>wr1 ls3 sw1 st1 ls4. BackendConnLB_loopReader_turn ?T 0 0 [] wr (ls2\<lparr>pmem := m'\<rparr>) = Ret (Continue, wr1, ls3)
        \<and> next_req demo_ls \<notin> lb_pending 0 ls3 \<and> wait_wait (reqs ls3 (next_req demo_ls)) = Ret ()
        \<and> NonBlockSession_loopWriter ?T net_all (\<lambda>_. 0) [next_req demo_ls] demo_writer init_cmdstats ls3 = Ret (None, sw1, st1, ls4)
        \<and> id (under (Writer sw1)) = framed_out id demo_writer @ frame_bytes (msg_header ?T ''add'' ty' 7 @ payload')"
    by (elim exE conjE) (rule that, assumption+, simp only: simp_thms)
  from b [OF rd(1) ok(2) ty(3,4) rd(2-6)] a show ?thesis
    unfolding seq next0 by (elim exE conjE) (intro exI conjI, (assumption | simp)+)
qed

end
