(* ===== verification/Server_Trip.thy ===== *)
theory Server_Trip
  imports Balancer_Trip
begin

text \<open>
  The other end of a connection of the proxy: a session of a server. A request is answered with
  what the processor writes, and a heartbeat with itself; together with the proxy's side this
  is the round trip of a heartbeat, which keeps the connection alive.
\<close>

subsection \<open>Requests\<close>

lemma getSlice_keeps:
  assumes "pool_ok m" and "getSlice m 0 DEFAULT_SLICE_LEN = Ret (sl, m1)" and "slice_ok m d"
    and "s_arr d \<notin> set (pooled_arrays m)"
  shows "slice_bytes m1 d = slice_bytes m d"
  using getSlice_spec [OF assms(1,2)] assms(3,4) by auto

lemma server_Dispatch_answers:
  assumes pool: "pool_ok (pmem ps)" and d: "ReqData (reqs ps rid) = Some f" "slice_ok (pmem ps) f"
      "s_arr f \<notin> set (pooled_arrays (pmem ps))"
  shows "\<exists>ps' out. ThriftRpcServer_Dispatch process rid ps = Ret (None, ps')
    \<and> reqs ps' = (reqs ps)(rid := (reqs ps rid)\<lparr>RespData := Some out\<rparr>) \<and> slice_ok (pmem ps') out
    \<and> slice_bytes (pmem ps') out = concat (process (slice_bytes (pmem ps) f))"
proof -
  obtain sl m1 where g: "getSlice (pmem ps) 0 DEFAULT_SLICE_LEN = Ret (sl, m1)"
    using getSlice_total by blast
  note gd = getSlice_default [OF pool g]
  have arg: "opt_bytes m1 (ReqData (reqs ps rid)) = slice_bytes (pmem ps) f"
    using getSlice_keeps [OF pool g d(2,3)] d(1) by (simp add: opt_bytes_def)
  obtain out m2 where w: "buf_writes m1 sl (process (slice_bytes (pmem ps) f)) = (out, m2)" by fastforce
  have b: "slice_bytes m2 out = concat (process (slice_bytes (pmem ps) f))" "slice_ok m2 out"
    using buf_writes_contents [OF gd(3) w] gd(2) by (simp_all add: slice_bytes_def)
  have "slice_bytes (snd (returnSlice m2 sl)) t = slice_bytes m2 t \<and> slice_ok (snd (returnSlice m2 sl)) t = slice_ok m2 t" for t
    by (simp add: returnSlice_def)
  then show ?thesis
    using g w arg b by (auto simp: ThriftRpcServer_Dispatch_def tmb_Write_def NewTMemoryBufferWithBuf_def Let_def)
qed

lemma session_reads:
  fixes ps :: "'a heap_scheme"
  assumes m: "pool_ok (pmem ps)"
    and rd: "FrameSize sp = 0" "reader_bytes (Reader sp) = frame_bytes f @ behind" "length f \<le> maxLength sp" "length f < 2 ^ 32"
  obtains frame m1 sp1 where "ReadFrame T (pmem ps) sp = Ret (Inr frame, m1, sp1)" "reader_bytes (Reader sp1) = behind"
    "slice_bytes m1 frame = f" "slice_ok m1 frame" "pool_ok m1" "s_arr frame \<notin> set (pooled_arrays m1)"
  using ReadFrame_ok [OF m rd, of T] that by force

lemma server_answers:
  fixes ps :: "'a heap_scheme"
  assumes T: "thrift_ok T" and m: "pool_ok (pmem ps)"
    and rd: "FrameSize sp = 0" "reader_bytes (Reader sp) = frame_bytes f @ behind" "length f \<le> maxLength sp" "length f < 2 ^ 32"
    and f: "f = msg_header T name ty seq @ payload" "msg_ok name ty" "CHR '':'' \<notin> set name" "ty \<noteq> MESSAGE_TYPE_HEART_BEAT"
    and net: "net_accepts net sent" "werr (Writer sw) = None" "fbuf sw = []"
  shows "\<exists>frame m1 sp1 s1 ps1 sw1 st1 ps2. ReadFrame T (pmem ps) sp = Ret (Inr frame, m1, sp1)
    \<and> reader_bytes (Reader sp1) = behind
    \<and> NonBlockSession_handleRequest T now (ThriftRpcServer_Dispatch process) frame s (ps\<lparr>pmem := m1\<rparr>) =
        Ret (next_req ps, None, s1, ps1)
    \<and> NonBlockSession_loopWriter T net clock [next_req ps] sw st ps1 = Ret (None, sw1, st1, ps2)
    \<and> sent (under (Writer sw1)) = framed_out sent sw @ frame_bytes (concat (process f))"
proof -
  let ?rid = "next_req ps"
  obtain frame m1 sp1 where rf: "ReadFrame T (pmem ps) sp = Ret (Inr frame, m1, sp1)" "reader_bytes (Reader sp1) = behind"
    and d: "slice_bytes m1 frame = f" "slice_ok m1 frame" "pool_ok m1" "s_arr frame \<notin> set (pooled_arrays m1)"
    by (rule session_reads [OF m rd])
  let ?r = "NewRequest T m1 frame False"
  note fs = NewRequest_plain [OF T f(2,3) d(1) [unfolded f(1)], of False]
  define qs where "qs = (set_req ?rid ?r (ps\<lparr>pmem := m1\<rparr>))\<lparr>next_req := Suc ?rid\<rparr>"
  have q: "pmem qs = m1" "reqs qs ?rid = ?r" by (simp_all add: qs_def)
  obtain ps1 out where disp: "ThriftRpcServer_Dispatch process ?rid qs = Ret (None, ps1)"
    and rs: "reqs ps1 ?rid = ?r\<lparr>RespData := Some out\<rparr>" and out: "slice_ok (pmem ps1) out"
      "slice_bytes (pmem ps1) out = concat (process f)"
    using server_Dispatch_answers [of qs ?rid frame process] q d by auto
  have h: "NonBlockSession_handleRequest T now (ThriftRpcServer_Dispatch process) frame s (ps\<lparr>pmem := m1\<rparr>) = Ret (?rid, None,
      s\<lparr>nb_lastRequestTime := map_option (\<lambda>_. now) (nb_lastRequestTime s), LastOpUnix := now, Ops := Ops s + 1\<rparr>, ps1)"
    using disp fs f(4) by (simp add: NonBlockSession_handleRequest_def new_req_def qs_def)
  have fin: "finished (pmem ps1) (reqs ps1 ?rid)" using rs out by (simp add: finished_def)
  have "response_bytes T ''nonblock_session'' (pmem ps1) (reqs ps1 ?rid) = concat (process f)"
    using rs out by (simp add: response_bytes_def opt_bytes_def)
  then show ?thesis using rf h NonBlock_loopWriter_one [OF net fin, of T clock st] by auto
qed

subsection \<open>Heartbeats\<close>

lemma ping_sendable:
  assumes T: "thrift_ok T" and p: "NewPingRequest T m now = (r, m')"
  shows "sendable m' r (concat (WriteMessageEnd T)) \<and> ReqName r = ''ping'' \<and> ReqTypeId r = MESSAGE_TYPE_HEART_BEAT
    \<and> Start r = now \<and> Wait r = None"
proof -
  obtain buf m1 where mk: "make_slice m 0 30 = (buf, m1)" by fastforce
  obtain d m2 where w: "buf_writes m1 buf (WriteMessageBegin T ''ping'' MESSAGE_TYPE_HEART_BEAT 0 @ WriteMessageEnd T) = (d, m2)"
    by fastforce
  have ok: "slice_ok m1 buf" and emp: "slice_bytes m1 buf = []"
    using mk by (auto simp: make_slice_def slice_ok_def slice_bytes_def)
  have b: "slice_bytes m2 d = msg_header T ''ping'' MESSAGE_TYPE_HEART_BEAT 0 @ concat (WriteMessageEnd T)" "slice_ok m2 d"
    using buf_writes_contents [OF ok w] emp by (simp_all add: msg_header_def)
  have mo: "msg_ok ''ping'' MESSAGE_TYPE_HEART_BEAT" by (simp add: msg_ok_def MESSAGE_TYPE_HEART_BEAT_def)
  have rm: "r = zero_request\<lparr>ProxyRequest := False, Start := now, ReqData := Some d, ReqName := ''ping'', ReqSeqId := 0,
      ReqTypeId := MESSAGE_TYPE_HEART_BEAT\<rparr>" "m' = m2"
    using p mk w by (simp_all add: NewPingRequest_def NewTMemoryBufferLen_def tmb_Write_def)
  show ?thesis using b mo T by (auto simp: rm sendable_def header_start_def zero_request_def)
qed

lemma ping_leaves:
  fixes ps :: pstate
  assumes T: "thrift_ok T" and inv: "conn_inv c ps" "bc_input (conns ps c) = []" "next_req ps \<notin> bc_pending c ps"
    and up: "\<not> bc_input_closed (conns ps c)" "\<not> bc_IsMarkOffline (conns ps c)"
    and time: "t - bc_hbLastTime (conns ps c) \<le> HB_TIMEOUT" "now - t \<le> 4"
    and net: "net_accepts net sent" "werr (Writer p) = None" "fbuf p = []"
  shows "\<exists>ps1 p' ps2. BackendConn_hb_tick T t c ps = Ret (HbPing, ps1)
    \<and> BackendConn_loopWriter_turn T net now nano c p ps1 = Ret (Continue, p', ps2)
    \<and> sent (under (Writer p')) = framed_out sent p @ frame_bytes (msg_header T ''ping'' MESSAGE_TYPE_HEART_BEAT
        (bc_currentSeqId (conns ps c)) @ concat (WriteMessageEnd T))
    \<and> conn_inv c ps2 \<and> bc_seqNum2Request (conns ps2 c) (bc_currentSeqId (conns ps c)) = Some (next_req ps)
    \<and> bc_hbLastTime (conns ps2 c) = bc_hbLastTime (conns ps c)"
proof -
  let ?rid = "next_req ps"
  obtain r m where n: "NewPingRequest T (pmem ps) t = (r, m)" by fastforce
  note pg = ping_sendable [OF T n]
  define qs where "qs = (set_req ?rid r (ps\<lparr>pmem := m\<rparr>))\<lparr>next_req := Suc ?rid\<rparr>"
  define ps1 where "ps1 = upd_conn c (\<lambda>b. b\<lparr>bc_input := [?rid]\<rparr>) (set_req ?rid (wait_add r) qs)"
  have pb: "BackendConn_PushBack c ?rid qs = Ret ps1"
    using up(1) inv(2) by (simp add: PushBack_cases ps1_def qs_def CHAN_CAP_def upd_conn_def)
  have tick: "BackendConn_hb_tick T t c ps = Ret (HbPing, ps1)"
    using time(1) up(2) n pb by (simp add: BackendConn_hb_tick_def new_req_def qs_def)
  have sel: "conns qs = conns ps" "reqs qs = (reqs ps)(?rid := r)" by (simp_all add: qs_def)
  have "reqs qs q = reqs ps q" if "q \<in> pending (bc_seqNum2Request (conns ps c)) (bc_input (conns ps c))" for q
    using that inv(3) sel(2) by (auto simp: bc_pending_def)
  from pend_cong [OF this] have "conn_inv c qs" using inv(1) sel(1) by (simp add: conn_inv_def)
  moreover have "?rid \<notin> bc_pending c qs" using inv(3) sel(1) by (simp add: bc_pending_def)
  ultimately have inv1: "conn_inv c ps1" using PushBack_spec [OF _ _ _ pb] sel pg by simp
  have s1: "bc_input (conns ps1 c) = [?rid]" "reqs ps1 ?rid = wait_add r" "pmem ps1 = m"
    "bc_currentSeqId (conns ps1 c) = bc_currentSeqId (conns ps c)" "bc_hbLastTime (conns ps1 c) = bc_hbLastTime (conns ps c)"
    by (simp_all add: ps1_def qs_def)
  have fr: "\<not> (ReqTypeId (reqs ps1 ?rid) = MESSAGE_TYPE_HEART_BEAT \<and> now - Start (reqs ps1 ?rid) > 4)"
    using time(2) pg s1(2) by (simp add: wait_add_def)
  have sd: "sendable (pmem ps1) (reqs ps1 ?rid) (concat (WriteMessageEnd T))" using pg s1(2,3) by simp
  show ?thesis using request_leaves [OF T inv1 s1(1) sd fr net, of nano] tick s1 pg by auto
qed

lemma ping_answered:
  fixes ps :: "'a heap_scheme"
  assumes T: "thrift_ok T" and m: "pool_ok (pmem ps)"
    and rd: "FrameSize sp = 0" "reader_bytes (Reader sp) = frame_bytes f @ behind" "length f \<le> maxLength sp" "length f < 2 ^ 32"
    and f: "f = msg_header T ''ping'' MESSAGE_TYPE_HEART_BEAT seq @ payload"
    and net: "net_accepts net sent" "werr (Writer sw) = None" "fbuf sw = []"
  shows "\<exists>frame m1 sp1 ps1 sw1 st1 ps2. ReadFrame T (pmem ps) sp = Ret (Inr frame, m1, sp1)
    \<and> NonBlockSession_handleRequest T now d frame s (ps\<lparr>pmem := m1\<rparr>) = Ret (next_req ps, None, s, ps1)
    \<and> NonBlockSession_loopWriter T net clock [next_req ps] sw st ps1 = Ret (None, sw1, st1, ps2)
    \<and> sent (under (Writer sw1)) = framed_out sent sw @ frame_bytes f"
proof -
  let ?rid = "next_req ps"
  obtain frame m1 sp1 where rf: "ReadFrame T (pmem ps) sp = Ret (Inr frame, m1, sp1)"
    and d: "slice_bytes m1 frame = f" "slice_ok m1 frame"
    using session_reads [OF m rd] by metis
  let ?r = "HandlePingRequest (NewRequest T m1 frame False)"
  have mo: "msg_ok ''ping'' MESSAGE_TYPE_HEART_BEAT" by (simp add: msg_ok_def MESSAGE_TYPE_HEART_BEAT_def)
  note fs = NewRequest_plain [OF T mo _ d(1) [unfolded f], of False]
  define ps1 where "ps1 = set_req ?rid ?r ((set_req ?rid (NewRequest T m1 frame False) (ps\<lparr>pmem := m1\<rparr>))\<lparr>next_req := Suc ?rid\<rparr>)"
  have h: "NonBlockSession_handleRequest T now d frame s (ps\<lparr>pmem := m1\<rparr>) = Ret (?rid, None, s, ps1)"
    using fs by (simp add: NonBlockSession_handleRequest_def new_req_def ps1_def)
  have rs: "reqs ps1 ?rid = ?r" "pmem ps1 = m1" by (simp_all add: ps1_def)
  have fin: "finished (pmem ps1) (reqs ps1 ?rid)" using rs d(2) by (simp add: finished_def HandlePingRequest_def)
  have "response_bytes T ''nonblock_session'' (pmem ps1) (reqs ps1 ?rid) = f"
    using rs d(1) by (simp add: response_bytes_def opt_bytes_def HandlePingRequest_def)
  then show ?thesis using rf h NonBlock_loopWriter_one [OF net fin, of T clock st] by auto
qed

lemma pong_returns:
  fixes ps :: pstate
  assumes T: "thrift_ok T" and m: "pool_ok (pmem ps)"
    and rd: "FrameSize p = 0" "reader_bytes (Reader p) = frame_bytes f @ behind" "length f \<le> maxLength p" "length f < 2 ^ 32"
    and f: "f = msg_header T ''ping'' MESSAGE_TYPE_HEART_BEAT k @ payload"
  shows "\<exists>p1 ps1. BackendConn_loopReader_turn T now c ks p ps = Ret (Continue, p1, ps1)
    \<and> conns ps1 c = (conns ps c)\<lparr>bc_seqNum2Request := (bc_seqNum2Request (conns ps c))(k := None), bc_hbLastTime := now\<rparr>
    \<and> reqs ps1 = reqs ps"
proof -
  obtain d m1 r1 where rf: "ReadFrame T (pmem ps) p = Ret (Inr d, m1, p\<lparr>Reader := r1\<rparr>)" and d: "slice_bytes m1 d = f"
    using ReadFrame_ok [OF m rd] by blast
  have mo: "msg_ok ''ping'' MESSAGE_TYPE_HEART_BEAT" by (simp add: msg_ok_def MESSAGE_TYPE_HEART_BEAT_def)
  have "DecodeThriftTypIdSeqId T (pmem (ps\<lparr>pmem := m1\<rparr>)) d = (MESSAGE_TYPE_HEART_BEAT, k, None)"
    using T mo d f by (simp add: DecodeThriftTypIdSeqId_def)
  from setResponse_heartbeat [OF this, of now c None None] rf show ?thesis
    by (auto simp: BackendConn_loopReader_turn_def)
qed

text \<open>
  C37: A tick of the heartbeat of a connection sends a ping under the next sequence number; a
  server's session answers it with the same frame, without its dispatcher; and when the answer
  is read, the time of the last heartbeat is set, the ping is no longer pending, and no tick
  within the following six seconds reports a timeout.
\<close>

theorem heartbeat_round_trip:
  fixes ps :: pstate and qs :: "'a heap_scheme"
  assumes T: "thrift_ok T" and mem: "pool_ok m" "pool_ok (pmem qs)"
    and conn: "conn_inv c ps" "bc_input (conns ps c) = []" "next_req ps \<notin> bc_pending c ps"
      "\<not> bc_input_closed (conns ps c)" "\<not> bc_IsMarkOffline (conns ps c)"
    and time: "t - bc_hbLastTime (conns ps c) \<le> HB_TIMEOUT" "now - t \<le> 4"
    and ping: "f = msg_header T ''ping'' MESSAGE_TYPE_HEART_BEAT (bc_currentSeqId (conns ps c)) @ concat (WriteMessageEnd T)"
      "length f < 2 ^ 32"
    and there: "net_accepts bnet bsent" "werr (Writer bp) = None" "fbuf bp = []"
    and server: "FrameSize sp = 0" "reader_bytes (Reader sp) = frame_bytes f @ behind" "length f \<le> maxLength sp"
      "net_accepts snet ssent" "werr (Writer sw) = None" "fbuf sw = []"
    and again: "FrameSize br = 0" "reader_bytes (Reader br) = frame_bytes f @ rest" "length f \<le> maxLength br"
  shows "\<exists>ps1 bp1 ps2 frame m1 sp1 qs1 sw1 st1 qs2 br1 ps3. BackendConn_hb_tick T t c ps = Ret (HbPing, ps1)
    \<and> BackendConn_loopWriter_turn T bnet now nano c bp ps1 = Ret (Continue, bp1, ps2)
    \<and> bsent (under (Writer bp1)) = framed_out bsent bp @ frame_bytes f
    \<and> ReadFrame T (pmem qs) sp = Ret (Inr frame, m1, sp1)
    \<and> NonBlockSession_handleRequest T now d frame s (qs\<lparr>pmem := m1\<rparr>) = Ret (next_req qs, None, s, qs1)
    \<and> NonBlockSession_loopWriter T snet clock [next_req qs] sw st qs1 = Ret (None, sw1, st1, qs2)
    \<and> ssent (under (Writer sw1)) = framed_out ssent sw @ frame_bytes f
    \<and> BackendConn_loopReader_turn T now2 c ks br (ps2\<lparr>pmem := m\<rparr>) = Ret (Continue, br1, ps3)
    \<and> next_req ps \<notin> bc_pending c ps3
    \<and> (\<forall>now3 ps4. now3 \<le> now2 + HB_TIMEOUT \<longrightarrow> BackendConn_hb_tick T now3 c ps3 \<noteq> Ret (HbTimeout, ps4))"
proof -
  let ?k = "bc_currentSeqId (conns ps c)" and ?rid = "next_req ps"
  obtain ps1 bp1 ps2 where a: "BackendConn_hb_tick T t c ps = Ret (HbPing, ps1)"
      "BackendConn_loopWriter_turn T bnet now nano c bp ps1 = Ret (Continue, bp1, ps2)"
      "bsent (under (Writer bp1)) = framed_out bsent bp @ frame_bytes f"
    and inv2: "conn_inv c ps2" and tab: "bc_seqNum2Request (conns ps2 c) ?k = Some ?rid"
    using ping_leaves [OF T conn time there, of nano] ping(1) by auto
  obtain frame m1 sp1 qs1 sw1 st1 qs2 where b: "ReadFrame T (pmem qs) sp = Ret (Inr frame, m1, sp1)"
      "NonBlockSession_handleRequest T now d frame s (qs\<lparr>pmem := m1\<rparr>) = Ret (next_req qs, None, s, qs1)"
      "NonBlockSession_loopWriter T snet clock [next_req qs] sw st qs1 = Ret (None, sw1, st1, qs2)"
      "ssent (under (Writer sw1)) = framed_out ssent sw @ frame_bytes f"
    using ping_answered [OF T mem(2) server(1-3) ping(2,1) server(4-6), of now d s clock st] by blast
  have "pool_ok (pmem (ps2\<lparr>pmem := m\<rparr>))" using mem(1) by simp
  from pong_returns [OF T this again ping(2,1), of now2 c ks] obtain br1 ps3
    where r: "BackendConn_loopReader_turn T now2 c ks br (ps2\<lparr>pmem := m\<rparr>) = Ret (Continue, br1, ps3)"
      and cn: "conns ps3 c = (conns ps2 c)\<lparr>bc_seqNum2Request := (bc_seqNum2Request (conns ps2 c))(?k := None),
        bc_hbLastTime := now2\<rparr>" by auto
  have "?rid \<notin> bc_pending c ps3"
    using pend_ran_remove [OF inv2 [unfolded conn_inv_def] tab] conn_invD(4) [OF inv2 tab] cn
    by (simp add: bc_pending_def pending_def)
  moreover have "BackendConn_hb_tick T now3 c ps3 \<noteq> Ret (HbTimeout, ps4)" if "now3 \<le> now2 + HB_TIMEOUT" for now3 ps4
    using that cn by (auto simp: BackendConn_hb_tick_def Let_def case_prod_beta)
  ultimately show ?thesis using a b r by blast
qed

lemma demo_conn_inv: "conn_inv 0 demo_ps" "bc_pending 0 demo_ps = {}" "next_conn_of 0 demo_ps = 0" "pool_ok (pmem demo_ps)"
  by (simp_all add: conn_inv_def pend_inv_def bc_pending_def pending_def seq_ok_def next_conn_of_def rr_start_def)

theorem heartbeat_round_trip_witness:
  "\<exists>ps1 bp1 ps2 frame m1 sp1 qs1 sw1 st1 qs2 br1 ps3. BackendConn_hb_tick strict_binary 0 0 demo_ps = Ret (HbPing, ps1)
    \<and> BackendConn_loopWriter_turn strict_binary net_all 1 0 0 demo_writer ps1 = Ret (Continue, bp1, ps2)
    \<and> under (Writer bp1) = frame_bytes (msg_header strict_binary ''ping'' MESSAGE_TYPE_HEART_BEAT 1)
    \<and> ReadFrame strict_binary empty_memory (demo_reader (frame_bytes (msg_header strict_binary ''ping'' MESSAGE_TYPE_HEART_BEAT 1))) =
        Ret (Inr frame, m1, sp1)
    \<and> NonBlockSession_handleRequest strict_binary 1 (ThriftRpcServer_Dispatch (\<lambda>_. [])) frame
        (NewNonBlockSession 0 ''proxy'' False None) (demo_ps\<lparr>pmem := m1\<rparr>) =
        Ret (0, None, NewNonBlockSession 0 ''proxy'' False None, qs1)
    \<and> NonBlockSession_loopWriter strict_binary net_all (\<lambda>_. 0) [0] demo_writer init_cmdstats qs1 = Ret (None, sw1, st1, qs2)
    \<and> under (Writer sw1) = frame_bytes (msg_header strict_binary ''ping'' MESSAGE_TYPE_HEART_BEAT 1)
    \<and> BackendConn_loopReader_turn strict_binary 2 0 [] (demo_reader (frame_bytes (msg_header strict_binary ''ping'' MESSAGE_TYPE_HEART_BEAT 1)))
        (ps2\<lparr>pmem := empty_memory\<rparr>) = Ret (Continue, br1, ps3)
    \<and> BackendConn_hb_tick strict_binary 8 0 ps3 \<noteq> Ret (HbTimeout, ps3)"
proof -
  let ?T = strict_binary and ?f = "msg_header strict_binary ''ping'' MESSAGE_TYPE_HEART_BEAT 1"
  have mo: "msg_ok ''ping'' MESSAGE_TYPE_HEART_BEAT" by (simp add: msg_ok_def MESSAGE_TYPE_HEART_BEAT_def)
  have len: "length ?f = 16" using mo by simp
  have f: "?f = msg_header ?T ''ping'' MESSAGE_TYPE_HEART_BEAT (bc_currentSeqId (conns demo_ps 0)) @ concat (WriteMessageEnd ?T)"
    "length ?f < 2 ^ 32" using len by (simp_all add: strict_binary_def)
  have c: "bc_input (conns demo_ps 0) = []" "next_req demo_ps \<notin> bc_pending 0 demo_ps" "\<not> bc_input_closed (conns demo_ps 0)"
    "\<not> bc_IsMarkOffline (conns demo_ps 0)" "0 - bc_hbLastTime (conns demo_ps 0) \<le> HB_TIMEOUT" "(1::int) - 0 \<le> 4"
    using demo_conn_inv by (simp_all add: demo_ps_def demo_defs HB_TIMEOUT_def)
  have r: "FrameSize (demo_reader (frame_bytes ?f)) = 0" "reader_bytes (Reader (demo_reader (frame_bytes ?f))) = frame_bytes ?f @ []"
    "length ?f \<le> maxLength (demo_reader (frame_bytes ?f))" using len by simp_all
  have mem: "pmem demo_ps = empty_memory" "next_req demo_ps = 0" "pool_ok empty_memory" by simp_all
  note rt = heartbeat_round_trip [OF thrift_ok_strict_binary mem(3) demo_conn_inv(4,1) c f net_accepts_all demo_transport(1,2)
      r net_accepts_all demo_transport(1,2) r,
      of 0 "ThriftRpcServer_Dispatch (\<lambda>_. [])" "NewNonBlockSession 0 ''proxy'' False None" "\<lambda>_. 0" init_cmdstats 2 "[]"]
  have "(8::int) \<le> 2 + HB_TIMEOUT" by (simp add: HB_TIMEOUT_def)
  then show ?thesis using rt unfolding mem(1,2) by (elim exE conjE) (intro exI conjI;
        (assumption | (simp del: NonBlockSession_loopWriter.simps; fail) | blast))
qed

subsection \<open>A request served\<close>

text \<open>
  C3: A client's frame for \<open>service:method\<close> goes through the proxy to a server and its answer
  back: the session of the proxy reads it, the connection sends it on under its own number,
  the session of the server reads it, has it processed and sends what the processor wrote, and
  when this is a reply to the message, the reader of the connection and the writer of the
  session give the client exactly this reply under the client's number.
\<close>

theorem request_served:
  fixes ps :: pstate and qs :: "'a heap_scheme"
  assumes T: "thrift_ok T" and mem: "pool_ok (pmem ps)" "pool_ok (pmem qs)" "pool_ok m"
    and ses: "\<not> quit ses" "length tasks < maxPipeline"
    and client: "FrameSize cp = 0" "reader_bytes (Reader cp) = frame_bytes req @ behind"
      "length req \<le> maxLength cp" "length req < 2 ^ 32"
    and req: "req = msg_header T (svc @ '':'' @ name) ty seq @ payload" "msg_ok (svc @ '':'' @ name) ty"
      "CHR '':'' \<notin> set svc" "svc \<noteq> []" "CHR '':'' \<notin> set name" "ty \<noteq> MESSAGE_TYPE_HEART_BEAT"
    and service: "rt_services r svc = Some s" "activeConns (svcs ps s) \<noteq> []"
    and conn: "c = next_conn_of s ps" "conn_inv c ps" "\<not> bc_input_closed (conns ps c)" "bc_input (conns ps c) = []"
      "next_req ps \<notin> bc_pending c ps"
    and backend: "net_accepts bnet bsent" "werr (Writer bp) = None" "fbuf bp = []"
    and call: "call = msg_header T name ty (bc_currentSeqId (conns ps c)) @ payload" "length call < 2 ^ 32"
    and server: "FrameSize sp = 0" "reader_bytes (Reader sp) = frame_bytes call @ sbehind" "length call \<le> maxLength sp"
      "net_accepts snet ssent" "werr (Writer sw) = None" "fbuf sw = []"
    and processed: "concat (process call) = msg_header T name ty' (bc_currentSeqId (conns ps c)) @ result"
      "msg_ok name ty'" "ty' \<noteq> MESSAGE_TYPE_HEART_BEAT"
    and again: "FrameSize br = 0" "reader_bytes (Reader br) = frame_bytes (concat (process call)) @ rest"
      "length (concat (process call)) \<le> maxLength br" "length (concat (process call)) < 2 ^ 32"
    and answer: "net_accepts cnet csent" "werr (Writer cw) = None" "fbuf cw = []"
  shows "\<exists>ses1 cp1 ps1 bp1 ps2 frame m1 sp1 nb1 qs1 sw1 st1 qs2 br1 ps3 cw1 st2 ps4.
      Session_loopReader_turn T t maxPipeline (Some (Router_Dispatch T t r)) ses cp tasks ps =
        Ret (Continue, ses1, cp1, tasks @ [next_req ps], ps1)
    \<and> BackendConn_loopWriter_turn T bnet now nano c bp ps1 = Ret (Continue, bp1, ps2)
    \<and> bsent (under (Writer bp1)) = framed_out bsent bp @ frame_bytes call
    \<and> ReadFrame T (pmem qs) sp = Ret (Inr frame, m1, sp1)
    \<and> NonBlockSession_handleRequest T now (ThriftRpcServer_Dispatch process) frame nb (qs\<lparr>pmem := m1\<rparr>) =
        Ret (next_req qs, None, nb1, qs1)
    \<and> NonBlockSession_loopWriter T snet clock [next_req qs] sw st qs1 = Ret (None, sw1, st1, qs2)
    \<and> ssent (under (Writer sw1)) = framed_out ssent sw @ frame_bytes (concat (process call))
    \<and> BackendConn_loopReader_turn T now c ks br (ps2\<lparr>pmem := m\<rparr>) = Ret (Continue, br1, ps3)
    \<and> Session_loopWriter T cnet clock [next_req ps] cw st' ps3 = Ret (None, cw1, st2, ps4)
    \<and> csent (under (Writer cw1)) = framed_out csent cw @ frame_bytes (msg_header T name ty' seq @ result)"
proof -
  let ?rid = "next_req ps" and ?k = "bc_currentSeqId (conns ps c)"
  have room: "length (bc_input (conns ps c)) < CHAN_CAP" using conn(4) by (simp add: CHAN_CAP_def)
  obtain ses1 cp1 ps1 where a: "Session_loopReader_turn T t maxPipeline (Some (Router_Dispatch T t r)) ses cp tasks ps =
      Ret (Continue, ses1, cp1, tasks @ [?rid], ps1)"
    and i1: "conn_inv c ps1" "bc_input (conns ps1 c) = [?rid]" "bc_currentSeqId (conns ps1 c) = ?k"
      "sendable (pmem ps1) (reqs ps1 ?rid) payload"
    and f1: "ReqName (reqs ps1 ?rid) = name" "ReqTypeId (reqs ps1 ?rid) = ty" "ReqSeqId (reqs ps1 ?rid) = seq"
      "Wait (reqs ps1 ?rid) = Some 1"
    using request_enters [OF T mem(1) ses client req(1-4) service conn(1-3) room conn(5), of t] conn(4) by auto
  obtain bp1 ps2 where b: "BackendConn_loopWriter_turn T bnet now nano c bp ps1 = Ret (Continue, bp1, ps2)"
      "bsent (under (Writer bp1)) = framed_out bsent bp @ frame_bytes call"
    and i2: "conn_inv c ps2" "bc_seqNum2Request (conns ps2 c) ?k = Some ?rid"
    and f2: "ReqName (reqs ps2 ?rid) = name" "ReqSeqId (reqs ps2 ?rid) = seq" "Wait (reqs ps2 ?rid) = Some 1"
    using request_leaves [OF T i1(1,2,4) _ backend, of now nano] req(6) f1 i1(3) call(1) by auto
  have mo: "msg_ok name ty" using req(2) by (rule msg_ok_shorter) simp
  obtain frame m1 sp1 nb1 qs1 sw1 st1 qs2 where sv: "ReadFrame T (pmem qs) sp = Ret (Inr frame, m1, sp1)"
      "NonBlockSession_handleRequest T now (ThriftRpcServer_Dispatch process) frame nb (qs\<lparr>pmem := m1\<rparr>) =
        Ret (next_req qs, None, nb1, qs1)"
      "NonBlockSession_loopWriter T snet clock [next_req qs] sw st qs1 = Ret (None, sw1, st1, qs2)"
      "ssent (under (Writer sw1)) = framed_out ssent sw @ frame_bytes (concat (process call))"
    using server_answers [OF T mem(2) server(1-3) call(2,1) mo req(5,6) server(4-6), of now process nb clock st] by blast
  let ?ps = "ps2\<lparr>pmem := m\<rparr>"
  have "conn_inv c ?ps" "pool_ok (pmem ?ps)" "bc_seqNum2Request (conns ?ps c) ?k = Some ?rid" "Wait (reqs ?ps ?rid) = Some 1"
    "length name = length (ReqName (reqs ?ps ?rid))" using i2 f2 mem(3) by simp_all
  from reply_returns [OF T this(1-4) again processed(1-3) this(5) answer, of now ks clock st'] obtain br1 ps3 cw1 st2 ps4
    where "BackendConn_loopReader_turn T now c ks br ?ps = Ret (Continue, br1, ps3)"
      "Session_loopWriter T cnet clock [?rid] cw st' ps3 = Ret (None, cw1, st2, ps4)"
      "csent (under (Writer cw1)) = framed_out csent cw @ frame_bytes (msg_header T name ty' seq @ result)"
    using f2 by (auto simp del: Session_loopWriter.simps)
  then show ?thesis using a b sv by blast
qed

definition demo_process :: "byte list \<Rightarrow> byte list list" where
  "demo_process bs = [msg_header strict_binary ''add'' 2 1, [last bs + 1]]"

theorem request_served_witness:
  "\<exists>ses1 cp1 ps1 bp1 ps2 frame m1 sp1 nb1 qs1 sw1 st1 qs2 br1 ps3 cw1 st2 ps4.
      Session_loopReader_turn strict_binary 0 10 (Some (Router_Dispatch strict_binary 0 demo_router))
        (NewSession 0 ''client'' False) (demo_reader (frame_bytes (msg_header strict_binary ''math:add'' 1 7 @ [42]))) [] demo_ps =
        Ret (Continue, ses1, cp1, [0], ps1)
    \<and> BackendConn_loopWriter_turn strict_binary net_all 0 0 0 demo_writer ps1 = Ret (Continue, bp1, ps2)
    \<and> ReadFrame strict_binary empty_memory (demo_reader (frame_bytes (msg_header strict_binary ''add'' 1 1 @ [42]))) =
        Ret (Inr frame, m1, sp1)
    \<and> NonBlockSession_handleRequest strict_binary 0 (ThriftRpcServer_Dispatch demo_process) frame
        (NewNonBlockSession 0 ''proxy'' False None) (demo_ps\<lparr>pmem := m1\<rparr>) = Ret (0, None, nb1, qs1)
    \<and> NonBlockSession_loopWriter strict_binary net_all (\<lambda>_. 0) [0] demo_writer init_cmdstats qs1 = Ret (None, sw1, st1, qs2)
    \<and> BackendConn_loopReader_turn strict_binary 0 0 []
        (demo_reader (frame_bytes (concat (demo_process (msg_header strict_binary ''add'' 1 1 @ [42])))))
        (ps2\<lparr>pmem := empty_memory\<rparr>) = Ret (Continue, br1, ps3)
    \<and> Session_loopWriter strict_binary net_all (\<lambda>_. 0) [0] demo_writer init_cmdstats ps3 = Ret (None, cw1, st2, ps4)
    \<and> under (Writer cw1) = frame_bytes (msg_header strict_binary ''add'' 2 7 @ [43])"
proof -
  let ?T = strict_binary
  let ?req = "msg_header ?T (''math'' @ '':'' @ ''add'') 1 7 @ [42]" and ?call = "msg_header ?T ''add'' 1 1 @ [42]"
  have ok: "msg_ok (''math'' @ '':'' @ ''add'') 1" "msg_ok ''add'' 2" "msg_ok ''add'' 1" by (simp_all add: msg_ok_def)
  have out: "concat (demo_process ?call) = msg_header ?T ''add'' 2 (bc_currentSeqId (conns demo_ps 0)) @ [43]"
    by (simp add: demo_process_def)
  have len: "length ?req = 21" "length ?call = 16" "length (concat (demo_process ?call)) = 16"
    using ok by (simp_all add: demo_process_def)
  have ses: "\<not> quit (NewSession 0 ''client'' False)" "length ([] :: nat list) < 10" by (simp_all add: NewSession_def)
  have cl: "FrameSize (demo_reader (frame_bytes ?req)) = 0" "reader_bytes (Reader (demo_reader (frame_bytes ?req))) = frame_bytes ?req @ []"
    "length ?req \<le> maxLength (demo_reader (frame_bytes ?req))" "length ?req < 2 ^ 32" using len by simp_all
  have hb: "CHR '':'' \<notin> set ''math''" "''math'' \<noteq> []" "CHR '':'' \<notin> set ''add''" "(1 :: int32) \<noteq> MESSAGE_TYPE_HEART_BEAT"
    "(2 :: int32) \<noteq> MESSAGE_TYPE_HEART_BEAT" by (simp_all add: MESSAGE_TYPE_HEART_BEAT_def)
  have sv: "rt_services demo_router ''math'' = Some 0" "activeConns (svcs demo_ps 0) \<noteq> []" by (simp_all add: demo_router_def)
  have cn: "\<not> bc_input_closed (conns demo_ps 0)" "bc_input (conns demo_ps 0) = []" "next_req demo_ps \<notin> bc_pending 0 demo_ps"
    "next_req demo_ps = 0" using demo_conn_inv by simp_all
  have call: "?call = msg_header ?T ''add'' 1 (bc_currentSeqId (conns demo_ps 0)) @ [42]" "length ?call < 2 ^ 32" using len by simp_all
  have sr: "FrameSize (demo_reader (frame_bytes ?call)) = 0" "reader_bytes (Reader (demo_reader (frame_bytes ?call))) = frame_bytes ?call @ []"
    "length ?call \<le> maxLength (demo_reader (frame_bytes ?call))" using len by simp_all
  have rd: "FrameSize (demo_reader (frame_bytes (concat (demo_process ?call)))) = 0"
    "reader_bytes (Reader (demo_reader (frame_bytes (concat (demo_process ?call))))) = frame_bytes (concat (demo_process ?call)) @ []"
    "length (concat (demo_process ?call)) \<le> maxLength (demo_reader (frame_bytes (concat (demo_process ?call))))"
    "length (concat (demo_process ?call)) < 2 ^ 32" using len by simp_all
  have em: "pool_ok empty_memory" by simp
  note rt = request_served [where process = demo_process, OF thrift_ok_strict_binary demo_conn_inv(4,4) em ses cl refl ok(1) hb(1-4) sv
      demo_conn_inv(3) [symmetric] demo_conn_inv(1) cn(1-3) net_accepts_all demo_transport(1,2) call sr
      net_accepts_all demo_transport(1,2) out ok(2) hb(5) rd net_accepts_all demo_transport(1,2),
      of 0 0 0 "NewNonBlockSession 0 ''proxy'' False None" "\<lambda>_. 0" init_cmdstats "[]" init_cmdstats]
  have "pmem demo_ps = empty_memory" "''math:add'' = ''math'' @ '':'' @ ''add''" by simp_all
  then show ?thesis using rt unfolding cn(4)
    by (elim exE conjE) (intro exI conjI; (assumption | simp del: Session_loopWriter.simps NonBlockSession_loopWriter.simps))
qed

end
