(* ===== verification/Rpc_Service_Base.thy ===== *)
theory Rpc_Service_Base
  imports Thrift_Lib "HOL-Library.Monad_Syntax"
begin

text \<open>
  The service that every server has, in the code that the Thrift compiler wrote for it
  (\<open>gen-go/rpc_thrift/services\<close>): the structures \<open>RpcException\<close>, \<open>RpcServiceBasePingArgs\<close> and
  \<open>RpcServiceBasePingResult\<close> with their \<open>Read\<close> and \<open>Write\<close>, the client stub of \<open>ping\<close>, and the processor
  that serves it. The protocol object of the Thrift library is a parameter.
\<close>

subsection \<open>The protocol\<close>

text \<open>
  What the generated code calls of \<open>thrift.TProtocol\<close> and of the library around it, for a protocol
  with state \<open>'p\<close> and errors \<open>'e\<close>. Every call returns its error, if any, and the new state.
\<close>

type_synonym int16 = "16 word"

record ('p, 'e) tprotocol =
  pr_ReadMessageBegin :: "'p \<Rightarrow> (string \<times> int32 \<times> int32 \<times> 'e option) \<times> 'p"
  pr_ReadMessageEnd :: "'p \<Rightarrow> 'e option \<times> 'p"
  pr_ReadStructBegin :: "'p \<Rightarrow> 'e option \<times> 'p"
  pr_ReadStructEnd :: "'p \<Rightarrow> 'e option \<times> 'p"
  pr_ReadFieldBegin :: "'p \<Rightarrow> (byte \<times> int16 \<times> 'e option) \<times> 'p"
  pr_ReadFieldEnd :: "'p \<Rightarrow> 'e option \<times> 'p"
  pr_ReadI32 :: "'p \<Rightarrow> (int32 \<times> 'e option) \<times> 'p"
  pr_ReadString :: "'p \<Rightarrow> (string \<times> 'e option) \<times> 'p"
  pr_Skip :: "byte \<Rightarrow> 'p \<Rightarrow> 'e option \<times> 'p"
  pr_WriteMessageBegin :: "string \<Rightarrow> int32 \<Rightarrow> int32 \<Rightarrow> 'p \<Rightarrow> 'e option \<times> 'p"
  pr_WriteMessageEnd :: "'p \<Rightarrow> 'e option \<times> 'p"
  pr_WriteStructBegin :: "string \<Rightarrow> 'p \<Rightarrow> 'e option \<times> 'p"
  pr_WriteStructEnd :: "'p \<Rightarrow> 'e option \<times> 'p"
  pr_WriteFieldBegin :: "string \<Rightarrow> byte \<Rightarrow> int16 \<Rightarrow> 'p \<Rightarrow> 'e option \<times> 'p"
  pr_WriteFieldEnd :: "'p \<Rightarrow> 'e option \<times> 'p"
  pr_WriteFieldStop :: "'p \<Rightarrow> 'e option \<times> 'p"
  pr_WriteI32 :: "int32 \<Rightarrow> 'p \<Rightarrow> 'e option \<times> 'p"
  pr_WriteString :: "string \<Rightarrow> 'p \<Rightarrow> 'e option \<times> 'p"
  pr_Flush :: "'p \<Rightarrow> 'e option \<times> 'p"
  pr_NewTApplicationException :: "int32 \<Rightarrow> string \<Rightarrow> 'e"
  pr_exception_Write :: "'e \<Rightarrow> 'p \<Rightarrow> 'e option \<times> 'p"
  pr_exception_Read :: "'e \<Rightarrow> 'p \<Rightarrow> ('e \<times> 'e option) \<times> 'p"
  pr_PrependError :: "string \<Rightarrow> 'e \<Rightarrow> 'e"
  pr_Error :: "'e \<Rightarrow> string"

text \<open>The constants of the library: message types, field types, kinds of application exceptions.\<close>

definition thrift_CALL :: int32 where "thrift_CALL = 1"
definition thrift_REPLY :: int32 where "thrift_REPLY = 2"
definition thrift_EXCEPTION :: int32 where "thrift_EXCEPTION = 3"
definition thrift_STOP :: byte where "thrift_STOP = 0"
definition thrift_I32 :: byte where "thrift_I32 = 8"
definition thrift_STRING :: byte where "thrift_STRING = 11"
definition thrift_STRUCT :: byte where "thrift_STRUCT = 12"
definition UNKNOWN_METHOD :: int32 where "UNKNOWN_METHOD = 1"
definition INVALID_MESSAGE_TYPE_EXCEPTION :: int32 where "INVALID_MESSAGE_TYPE_EXCEPTION = 2"
definition WRONG_METHOD_NAME :: int32 where "WRONG_METHOD_NAME = 3"
definition BAD_SEQUENCE_ID :: int32 where "BAD_SEQUENCE_ID = 4"
definition thrift_INTERNAL_ERROR :: int32 where "thrift_INTERNAL_ERROR = 6"
definition PROTOCOL_ERROR :: int32 where "PROTOCOL_ERROR = 7"

lemmas thrift_constants = thrift_CALL_def thrift_REPLY_def thrift_EXCEPTION_def thrift_STOP_def thrift_I32_def
  thrift_STRING_def thrift_STRUCT_def UNKNOWN_METHOD_def INVALID_MESSAGE_TYPE_EXCEPTION_def WRONG_METHOD_NAME_def
  BAD_SEQUENCE_ID_def thrift_INTERNAL_ERROR_def PROTOCOL_ERROR_def

text \<open>\<open>if err := f; err != nil { return wrap(err) }\<close>, and then the rest.\<close>

definition checked :: "('e \<Rightarrow> 'e) \<Rightarrow> ('p \<Rightarrow> 'e option \<times> 'p) \<Rightarrow> ('p \<Rightarrow> 'e option \<times> 'p) \<Rightarrow> 'p \<Rightarrow> 'e option \<times> 'p" where
  "checked wrap f g p = (case f p of (Some e, p1) \<Rightarrow> (Some (wrap e), p1) | (None, p1) \<Rightarrow> g p1)"

subsection \<open>Structures without fields\<close>

text \<open>
  The loop of \<open>Read\<close> of a structure that has no fields skips whatever it finds. It need not
  end for every protocol: the value is then \<open>None\<close>.
\<close>

partial_function (option) skip_fields :: "('p, 'e) tprotocol \<Rightarrow> string \<Rightarrow> 'p \<Rightarrow> ('e option \<times> 'p) option" where
  "skip_fields P tname p =
     (case pr_ReadFieldBegin P p of ((fieldTypeId, fieldId, err), p1) \<Rightarrow>
        (case err of
           Some e \<Rightarrow> Some (Some (pr_PrependError P (tname @ '' field '' @ fmt_d (sint fieldId) @ '' read error: '') e), p1)
         | None \<Rightarrow>
             if fieldTypeId = thrift_STOP then Some (None, p1)
             else (case pr_Skip P fieldTypeId p1 of (err2, p2) \<Rightarrow>
               (case err2 of
                  Some e \<Rightarrow> Some (Some e, p2)
                | None \<Rightarrow> (case pr_ReadFieldEnd P p2 of (err3, p3) \<Rightarrow>
                    (case err3 of Some e \<Rightarrow> Some (Some e, p3) | None \<Rightarrow> skip_fields P tname p3))))))"

definition read_struct_end :: "('p, 'e) tprotocol \<Rightarrow> string \<Rightarrow> 'p \<Rightarrow> 'e option \<times> 'p" where
  "read_struct_end P tname = checked (pr_PrependError P (tname @ '' read struct end error: '')) (pr_ReadStructEnd P) (Pair None)"

definition read_empty_struct :: "('p, 'e) tprotocol \<Rightarrow> string \<Rightarrow> 'p \<Rightarrow> ('e option \<times> 'p) option" where
  "read_empty_struct P tname p =
     (case pr_ReadStructBegin P p of
        (Some e, p1) \<Rightarrow> Some (Some (pr_PrependError P (tname @ '' read error: '') e), p1)
      | (None, p1) \<Rightarrow>
          Option.bind (skip_fields P tname p1) (\<lambda>(err, p2).
          Some (case err of Some e \<Rightarrow> (Some e, p2) | None \<Rightarrow> read_struct_end P tname p2)))"

definition RpcServiceBasePingArgs_Read :: "('p, 'e) tprotocol \<Rightarrow> 'p \<Rightarrow> ('e option \<times> 'p) option" where
  "RpcServiceBasePingArgs_Read P = read_empty_struct P ''*services.RpcServiceBasePingArgs''"

definition RpcServiceBasePingResult_Read :: "('p, 'e) tprotocol \<Rightarrow> 'p \<Rightarrow> ('e option \<times> 'p) option" where
  "RpcServiceBasePingResult_Read P = read_empty_struct P ''*services.RpcServiceBasePingResult''"

definition write_struct_stop :: "('p, 'e) tprotocol \<Rightarrow> 'p \<Rightarrow> 'e option \<times> 'p" where
  "write_struct_stop P =
     checked (pr_PrependError P ''write field stop error: '') (pr_WriteFieldStop P)
       (checked (pr_PrependError P ''write struct stop error: '') (pr_WriteStructEnd P) (Pair None))"

definition RpcServiceBasePingArgs_Write :: "('p, 'e) tprotocol \<Rightarrow> 'p \<Rightarrow> 'e option \<times> 'p" where
  "RpcServiceBasePingArgs_Write P =
     checked (pr_PrependError P ''*services.RpcServiceBasePingArgs write struct begin error: '')
       (pr_WriteStructBegin P ''ping_args'') (write_struct_stop P)"

definition RpcServiceBasePingResult_Write :: "('p, 'e) tprotocol \<Rightarrow> 'p \<Rightarrow> 'e option \<times> 'p" where
  "RpcServiceBasePingResult_Write P =
     checked (pr_PrependError P ''*services.RpcServiceBasePingResult write struct begin error: '')
       (pr_WriteStructBegin P ''ping_result'') (write_struct_stop P)"

definition RpcServiceBasePingArgs_String :: "unit option \<Rightarrow> string" where
  "RpcServiceBasePingArgs_String p = (case p of None \<Rightarrow> ''<nil>'' | Some _ \<Rightarrow> ''RpcServiceBasePingArgs({})'')"

definition RpcServiceBasePingResult_String :: "unit option \<Rightarrow> string" where
  "RpcServiceBasePingResult_String p = (case p of None \<Rightarrow> ''<nil>'' | Some _ \<Rightarrow> ''RpcServiceBasePingResult({})'')"

subsection \<open>RpcException\<close>

record RpcException =
  exc_Code :: int32
  exc_Msg :: string

definition NewRpcException :: RpcException where
  "NewRpcException = \<lparr>exc_Code = 0, exc_Msg = []\<rparr>"

text \<open>The text of an exception, as \<open>%+v\<close> prints the structure.\<close>

definition RpcException_String :: "RpcException option \<Rightarrow> string" where
  "RpcException_String p = (case p of None \<Rightarrow> ''<nil>''
     | Some x \<Rightarrow> ''RpcException({Code:'' @ fmt_d (sint (exc_Code x)) @ '' Msg:'' @ exc_Msg x @ ''})'')"

definition RpcException_Error :: "RpcException option \<Rightarrow> string" where
  "RpcException_Error p = RpcException_String p"

definition RpcException_ReadField1 :: "('p, 'e) tprotocol \<Rightarrow> RpcException \<Rightarrow> 'p \<Rightarrow> ('e option \<times> RpcException) \<times> 'p" where
  "RpcException_ReadField1 P x p =
     (case pr_ReadI32 P p of
        ((v, Some e), p1) \<Rightarrow> ((Some (pr_PrependError P ''error reading field 1: '' e), x), p1)
      | ((v, None), p1) \<Rightarrow> ((None, x\<lparr>exc_Code := v\<rparr>), p1))"

definition RpcException_ReadField2 :: "('p, 'e) tprotocol \<Rightarrow> RpcException \<Rightarrow> 'p \<Rightarrow> ('e option \<times> RpcException) \<times> 'p" where
  "RpcException_ReadField2 P x p =
     (case pr_ReadString P p of
        ((v, Some e), p1) \<Rightarrow> ((Some (pr_PrependError P ''error reading field 2: '' e), x), p1)
      | ((v, None), p1) \<Rightarrow> ((None, x\<lparr>exc_Msg := v\<rparr>), p1))"

definition RpcException_read_field :: "('p, 'e) tprotocol \<Rightarrow> byte \<Rightarrow> int16 \<Rightarrow> RpcException \<Rightarrow> 'p \<Rightarrow>
    ('e option \<times> RpcException) \<times> 'p" where
  "RpcException_read_field P fieldTypeId fieldId x p =
     (if fieldId = 1 then RpcException_ReadField1 P x p
      else if fieldId = 2 then RpcException_ReadField2 P x p
      else (case pr_Skip P fieldTypeId p of (err, p1) \<Rightarrow> ((err, x), p1)))"

partial_function (option) RpcException_read_fields :: "('p, 'e) tprotocol \<Rightarrow> RpcException \<Rightarrow> 'p \<Rightarrow>
    (('e option \<times> RpcException) \<times> 'p) option" where
  "RpcException_read_fields P x p =
     (case pr_ReadFieldBegin P p of ((fieldTypeId, fieldId, err), p1) \<Rightarrow>
        (case err of
           Some e \<Rightarrow> Some ((Some (pr_PrependError P
             (''*services.RpcException field '' @ fmt_d (sint fieldId) @ '' read error: '') e), x), p1)
         | None \<Rightarrow>
             if fieldTypeId = thrift_STOP then Some ((None, x), p1)
             else (case RpcException_read_field P fieldTypeId fieldId x p1 of ((err2, x2), p2) \<Rightarrow>
               (case err2 of
                  Some e \<Rightarrow> Some ((Some e, x2), p2)
                | None \<Rightarrow> (case pr_ReadFieldEnd P p2 of (err3, p3) \<Rightarrow>
                    (case err3 of Some e \<Rightarrow> Some ((Some e, x2), p3) | None \<Rightarrow> RpcException_read_fields P x2 p3))))))"

definition RpcException_Read :: "('p, 'e) tprotocol \<Rightarrow> RpcException \<Rightarrow> 'p \<Rightarrow> (('e option \<times> RpcException) \<times> 'p) option" where
  "RpcException_Read P x p =
     (case pr_ReadStructBegin P p of
        (Some e, p1) \<Rightarrow> Some ((Some (pr_PrependError P ''*services.RpcException read error: '' e), x), p1)
      | (None, p1) \<Rightarrow>
          Option.bind (RpcException_read_fields P x p1) (\<lambda>((err, x2), p2).
          Some (case err of
                  Some e \<Rightarrow> ((Some e, x2), p2)
                | None \<Rightarrow> (case read_struct_end P ''*services.RpcException'' p2 of (err3, p3) \<Rightarrow> ((err3, x2), p3)))))"

definition RpcException_writeField1 :: "('p, 'e) tprotocol \<Rightarrow> RpcException \<Rightarrow> 'p \<Rightarrow> 'e option \<times> 'p" where
  "RpcException_writeField1 P x =
     checked (pr_PrependError P ''*services.RpcException write field begin error 1:code: '')
       (pr_WriteFieldBegin P ''code'' thrift_I32 1)
       (checked (pr_PrependError P ''*services.RpcException.code (1) field write error: '') (pr_WriteI32 P (exc_Code x))
         (checked (pr_PrependError P ''*services.RpcException write field end error 1:code: '') (pr_WriteFieldEnd P) (Pair None)))"

definition RpcException_writeField2 :: "('p, 'e) tprotocol \<Rightarrow> RpcException \<Rightarrow> 'p \<Rightarrow> 'e option \<times> 'p" where
  "RpcException_writeField2 P x =
     checked (pr_PrependError P ''*services.RpcException write field begin error 2:msg: '')
       (pr_WriteFieldBegin P ''msg'' thrift_STRING 2)
       (checked (pr_PrependError P ''*services.RpcException.msg (2) field write error: '') (pr_WriteString P (exc_Msg x))
         (checked (pr_PrependError P ''*services.RpcException write field end error 2:msg: '') (pr_WriteFieldEnd P) (Pair None)))"

definition RpcException_Write :: "('p, 'e) tprotocol \<Rightarrow> RpcException \<Rightarrow> 'p \<Rightarrow> 'e option \<times> 'p" where
  "RpcException_Write P x =
     checked (pr_PrependError P ''*services.RpcException write struct begin error: '') (pr_WriteStructBegin P ''RpcException'')
       (checked (\<lambda>e. e) (RpcException_writeField1 P x)
         (checked (\<lambda>e. e) (RpcException_writeField2 P x) (write_struct_stop P)))"

subsection \<open>The client\<close>

text \<open>
  \<open>ProtocolFactory\<close> is \<open>None\<close> for \<open>nil\<close> and otherwise gives the protocol that \<open>GetProtocol\<close> makes over
  the transport of the client.
\<close>

record 'p rpc_client =
  cl_ProtocolFactory :: "(unit \<Rightarrow> 'p) option"
  cl_InputProtocol :: "'p option"
  cl_OutputProtocol :: "'p option"
  cl_SeqId :: int32

definition NewRpcServiceBaseClientFactory :: "(unit \<Rightarrow> 'p) \<Rightarrow> 'p rpc_client" where
  "NewRpcServiceBaseClientFactory f =
     \<lparr>cl_ProtocolFactory = Some f, cl_InputProtocol = Some (f ()), cl_OutputProtocol = Some (f ()), cl_SeqId = 0\<rparr>"

definition NewRpcServiceBaseClientProtocol :: "'p option \<Rightarrow> 'p option \<Rightarrow> 'p rpc_client" where
  "NewRpcServiceBaseClientProtocol iprot oprot =
     \<lparr>cl_ProtocolFactory = None, cl_InputProtocol = iprot, cl_OutputProtocol = oprot, cl_SeqId = 0\<rparr>"

definition client_protocol :: "'p option \<Rightarrow> 'p rpc_client \<Rightarrow> 'p outcome" where
  "client_protocol prot c =
     (case prot of Some p \<Rightarrow> Ret p
      | None \<Rightarrow> (case cl_ProtocolFactory c of Some f \<Rightarrow> Ret (f ()) | None \<Rightarrow> Panic NilDereference))"

definition RpcServiceBaseClient_sendPing :: "('p, 'e) tprotocol \<Rightarrow> 'p rpc_client \<Rightarrow> ('e option \<times> 'p rpc_client) outcome" where
  "RpcServiceBaseClient_sendPing P c =
     obind (client_protocol (cl_OutputProtocol c) c) (\<lambda>oprot.
     let seq = cl_SeqId c + 1;
         (err, oprot') =
           checked (\<lambda>e. e) (pr_WriteMessageBegin P ''ping'' thrift_CALL seq)
             (checked (\<lambda>e. e) (RpcServiceBasePingArgs_Write P)
               (checked (\<lambda>e. e) (pr_WriteMessageEnd P) (pr_Flush P))) oprot in
     Ret (err, c\<lparr>cl_OutputProtocol := Some oprot', cl_SeqId := seq\<rparr>))"

definition recv_ping :: "('p, 'e) tprotocol \<Rightarrow> int32 \<Rightarrow> 'p \<Rightarrow> ('e option \<times> 'p) option" where
  "recv_ping P sent iprot =
     (case pr_ReadMessageBegin P iprot of ((meth, mTypeId, seqId, err), p1) \<Rightarrow>
        (case err of
           Some e \<Rightarrow> Some (Some e, p1)
         | None \<Rightarrow>
             if meth \<noteq> ''ping''
             then Some (Some (pr_NewTApplicationException P WRONG_METHOD_NAME ''ping failed: wrong method name''), p1)
             else if sent \<noteq> seqId
             then Some (Some (pr_NewTApplicationException P BAD_SEQUENCE_ID ''ping failed: out of sequence response''), p1)
             else if mTypeId = thrift_EXCEPTION
             then (case pr_exception_Read P (pr_NewTApplicationException P 0 ''Unknown Exception'') p1 of
                     ((error1, Some e), p2) \<Rightarrow> Some (Some e, p2)
                   | ((error1, None), p2) \<Rightarrow>
                       (case pr_ReadMessageEnd P p2 of (Some e, p3) \<Rightarrow> Some (Some e, p3) | (None, p3) \<Rightarrow> Some (Some error1, p3)))
             else if mTypeId \<noteq> thrift_REPLY
             then Some (Some (pr_NewTApplicationException P INVALID_MESSAGE_TYPE_EXCEPTION ''ping failed: invalid message type''), p1)
             else Option.bind (RpcServiceBasePingResult_Read P p1) (\<lambda>(err2, p2).
                    Some (case err2 of Some e \<Rightarrow> (Some e, p2) | None \<Rightarrow> pr_ReadMessageEnd P p2))))"

definition RpcServiceBaseClient_recvPing :: "('p, 'e) tprotocol \<Rightarrow> 'p rpc_client \<Rightarrow>
    ('e option \<times> 'p rpc_client) outcome option" where
  "RpcServiceBaseClient_recvPing P c =
     (case client_protocol (cl_InputProtocol c) c of
        Ret iprot \<Rightarrow> map_option (\<lambda>(err, iprot'). Ret (err, c\<lparr>cl_InputProtocol := Some iprot'\<rparr>))
          (recv_ping P (cl_SeqId c) iprot)
      | Panic x \<Rightarrow> Some (Panic x)
      | Block \<Rightarrow> Some Block)"

definition RpcServiceBaseClient_Ping :: "('p, 'e) tprotocol \<Rightarrow> 'p rpc_client \<Rightarrow> ('e option \<times> 'p rpc_client) outcome option" where
  "RpcServiceBaseClient_Ping P c =
     (case RpcServiceBaseClient_sendPing P c of
        Ret (Some e, c1) \<Rightarrow> Some (Ret (Some e, c1))
      | Ret (None, c1) \<Rightarrow> RpcServiceBaseClient_recvPing P c1
      | Panic x \<Rightarrow> Some (Panic x)
      | Block \<Rightarrow> Some Block)"

subsection \<open>The processor\<close>

text \<open>
  A processor function takes the sequence number and the two protocols, which are over separate
  buffers as the dispatcher of the server makes them; \<open>'h\<close> is the state of the handler, whose method
  \<open>Ping\<close> is a parameter. The processor is its map, since the handler is in the functions of the map.
\<close>

type_synonym ('p, 'e, 'h) processor_function =
  "int32 \<Rightarrow> 'p \<Rightarrow> 'p \<Rightarrow> 'h \<Rightarrow> ((bool \<times> 'e option) \<times> 'p \<times> 'p \<times> 'h) option"

definition write_exception :: "('p, 'e) tprotocol \<Rightarrow> string \<Rightarrow> int32 \<Rightarrow> 'e \<Rightarrow> 'p \<Rightarrow> 'p" where
  "write_exception P name seqId x oprot =
     (let o1 = snd (pr_WriteMessageBegin P name thrift_EXCEPTION seqId oprot);
          o2 = snd (pr_exception_Write P x o1);
          o3 = snd (pr_WriteMessageEnd P o2) in
      snd (pr_Flush P o3))"

definition write_ping_reply :: "('p, 'e) tprotocol \<Rightarrow> int32 \<Rightarrow> 'p \<Rightarrow> 'e option \<times> 'p" where
  "write_ping_reply P seqId oprot =
     (let (e1, o1) = pr_WriteMessageBegin P ''ping'' thrift_REPLY seqId oprot;
          (e2, o2) = RpcServiceBasePingResult_Write P o1;
          err = (if e1 = None \<and> e2 \<noteq> None then e2 else e1);
          (e3, o3) = pr_WriteMessageEnd P o2;
          err = (if err = None \<and> e3 \<noteq> None then e3 else err);
          (e4, o4) = pr_Flush P o3;
          err = (if err = None \<and> e4 \<noteq> None then e4 else err) in
      (err, o4))"

definition rpcServiceBaseProcessorPing_Process :: "('p, 'e) tprotocol \<Rightarrow> ('h \<Rightarrow> 'e option \<times> 'h) \<Rightarrow>
    ('p, 'e, 'h) processor_function" where
  "rpcServiceBaseProcessorPing_Process P Ping seqId iprot oprot h =
     Option.bind (RpcServiceBasePingArgs_Read P iprot) (\<lambda>(err, i1).
     let i2 = snd (pr_ReadMessageEnd P i1) in
     case err of
       Some e \<Rightarrow>
         Some ((False, Some e), i2,
           write_exception P ''ping'' seqId (pr_NewTApplicationException P PROTOCOL_ERROR (pr_Error P e)) oprot, h)
     | None \<Rightarrow>
         (case Ping h of
            (Some e2, h1) \<Rightarrow>
              Some ((True, Some e2), i2, write_exception P ''ping'' seqId
                (pr_NewTApplicationException P thrift_INTERNAL_ERROR (''Internal error processing ping: '' @ pr_Error P e2)) oprot, h1)
          | (None, h1) \<Rightarrow>
              (case write_ping_reply P seqId oprot of
                 (Some e, o4) \<Rightarrow> Some ((False, Some e), i2, o4, h1)
               | (None, o4) \<Rightarrow> Some ((True, None), i2, o4, h1))))"

type_synonym ('p, 'e, 'h) rpc_processor = "string \<Rightarrow> ('p, 'e, 'h) processor_function option"

definition AddToProcessorMap :: "string \<Rightarrow> ('p, 'e, 'h) processor_function \<Rightarrow> ('p, 'e, 'h) rpc_processor \<Rightarrow>
    ('p, 'e, 'h) rpc_processor" where
  "AddToProcessorMap key processor m = m(key \<mapsto> processor)"

definition GetProcessorFunction :: "('p, 'e, 'h) rpc_processor \<Rightarrow> string \<Rightarrow> ('p, 'e, 'h) processor_function option" where
  "GetProcessorFunction m key = m key"

definition ProcessorMap :: "('p, 'e, 'h) rpc_processor \<Rightarrow> string \<rightharpoonup> ('p, 'e, 'h) processor_function" where
  "ProcessorMap m = m"

definition NewRpcServiceBaseProcessor :: "('p, 'e) tprotocol \<Rightarrow> ('h \<Rightarrow> 'e option \<times> 'h) \<Rightarrow> ('p, 'e, 'h) rpc_processor" where
  "NewRpcServiceBaseProcessor P Ping = [''ping'' \<mapsto> rpcServiceBaseProcessorPing_Process P Ping]"

definition RpcServiceBaseProcessor_Process :: "('p, 'e) tprotocol \<Rightarrow> ('p, 'e, 'h) rpc_processor \<Rightarrow>
    'p \<Rightarrow> 'p \<Rightarrow> 'h \<Rightarrow> ((bool \<times> 'e option) \<times> 'p \<times> 'p \<times> 'h) option" where
  "RpcServiceBaseProcessor_Process P m iprot oprot h =
     (case pr_ReadMessageBegin P iprot of ((name, _, seqId, err), i1) \<Rightarrow>
        (case err of
           Some e \<Rightarrow> Some ((False, Some e), i1, oprot, h)
         | None \<Rightarrow>
             (case GetProcessorFunction m name of
                Some processor \<Rightarrow> processor seqId i1 oprot h
              | None \<Rightarrow>
                  let i2 = snd (pr_Skip P thrift_STRUCT i1);
                      i3 = snd (pr_ReadMessageEnd P i2);
                      x3 = pr_NewTApplicationException P UNKNOWN_METHOD (''Unknown function '' @ name) in
                  Some ((False, Some x3), i3, write_exception P name seqId x3 oprot, h))))"

end
