(* ===== verification/Rpc_Service_Correct.thy ===== *)
theory Rpc_Service_Correct
  imports Rpc_Service_Base Server_Trip
begin

text \<open>
  What the generated code of \<open>RpcServiceBase\<close> does over the binary protocol: an \<open>RpcException\<close> is read
  back as it was written, and a \<open>Ping\<close> of the client stub, served by the processor, returns what
  the handler returned. The encoding is the documented one of \<open>TBinaryProtocol\<close>; \<open>binary_ok\<close> states it
  of a protocol object, and \<open>binary_memory\<close> is such an object over a buffer in memory.
\<close>

subsection \<open>The binary protocol\<close>

definition put_uint16 :: "int16 \<Rightarrow> byte list" where
  "put_uint16 w = [ucast (drop_bit 8 w), ucast w]"

definition get_uint16 :: "byte list \<Rightarrow> int16" where
  "get_uint16 bs = push_bit 8 (ucast (bs ! 0)) OR ucast (bs ! 1)"

lemma get_put_uint16 [simp]: "get_uint16 (put_uint16 w @ rest) = w"
proof (rule bit_word_eqI)
  fix n assume "n < LENGTH(16)"
  then have "n < 8 \<or> 8 \<le> n \<and> n < 16" by auto
  then show "bit (get_uint16 (put_uint16 w @ rest)) n = bit w n"
    by (auto simp: get_uint16_def put_uint16_def bit_simps)
qed

lemma length_put_uint16 [simp]: "length (put_uint16 w) = 2"
  by (simp add: put_uint16_def)

definition text_bytes :: "string \<Rightarrow> byte list" where
  "text_bytes s = put_uint32 (of_nat (length s)) @ string_bytes s"

definition field_bytes :: "byte \<Rightarrow> int16 \<Rightarrow> byte list \<Rightarrow> byte list" where
  "field_bytes t i bs = t # put_uint16 i @ bs"

text \<open>The encoded values of the types of fixed size, by the number of the type, and of strings.\<close>

definition base_size :: "byte \<Rightarrow> nat option" where
  "base_size t = (if t = 2 \<or> t = 3 then Some 1 else if t = 6 then Some 2 else if t = 8 then Some 4
     else if t = 4 \<or> t = 10 then Some 8 else None)"

definition base_value :: "byte \<Rightarrow> byte list \<Rightarrow> bool" where
  "base_value t bs \<longleftrightarrow>
     (case base_size t of
        Some n \<Rightarrow> length bs = n
      | None \<Rightarrow> t = thrift_STRING \<and> bs = text_bytes (bytes_string (drop 4 bs)) \<and> length bs < 2 ^ 31)"

text \<open>
  \<open>consumes\<close>: a call that finds the bytes at the front of the input returns the value and leaves
  the rest. \<open>emits\<close>: a call succeeds and appends the bytes to the output.
\<close>

definition consumes :: "('p \<Rightarrow> byte list) \<Rightarrow> ('p \<Rightarrow> 'v \<times> 'p) \<Rightarrow> byte list \<Rightarrow> 'v \<Rightarrow> bool" where
  "consumes inp f bs v \<longleftrightarrow> (\<forall>p rest. inp p = bs @ rest \<longrightarrow> fst (f p) = v \<and> inp (snd (f p)) = rest)"

definition emits :: "('p \<Rightarrow> byte list) \<Rightarrow> ('p \<Rightarrow> 'e option \<times> 'p) \<Rightarrow> byte list \<Rightarrow> bool" where
  "emits out f bs \<longleftrightarrow> (\<forall>p. fst (f p) = None \<and> out (snd (f p)) = out p @ bs)"

definition reads_ok :: "thrift_lib \<Rightarrow> ('p, 'e) tprotocol \<Rightarrow> ('p \<Rightarrow> byte list) \<Rightarrow> bool" where
  "reads_ok T P inp \<longleftrightarrow>
     (\<forall>name ty seq. msg_ok name ty \<longrightarrow>
        consumes inp (pr_ReadMessageBegin P) (msg_header T name ty seq) (name, ty, seq, None)) \<and>
     consumes inp (pr_ReadMessageEnd P) [] None \<and> consumes inp (pr_ReadStructBegin P) [] None \<and>
     consumes inp (pr_ReadStructEnd P) [] None \<and> consumes inp (pr_ReadFieldEnd P) [] None \<and>
     (\<forall>t i. t \<noteq> thrift_STOP \<longrightarrow> consumes inp (pr_ReadFieldBegin P) (field_bytes t i []) (t, i, None)) \<and>
     consumes inp (pr_ReadFieldBegin P) [thrift_STOP] (thrift_STOP, 0, None) \<and>
     (\<forall>v. consumes inp (pr_ReadI32 P) (put_uint32 v) (v, None)) \<and>
     (\<forall>s. length s < 2 ^ 31 \<longrightarrow> consumes inp (pr_ReadString P) (text_bytes s) (s, None)) \<and>
     (\<forall>t bs. base_value t bs \<longrightarrow> consumes inp (pr_Skip P t) bs None) \<and>
     (\<forall>e k s. s \<noteq> [] \<longrightarrow> length s < 2 ^ 31 \<longrightarrow>
        consumes inp (pr_exception_Read P e) (concat (WriteApplicationException T k s)) (pr_NewTApplicationException P k s, None))"

definition writes_ok :: "thrift_lib \<Rightarrow> ('p, 'e) tprotocol \<Rightarrow> ('p \<Rightarrow> byte list) \<Rightarrow> bool" where
  "writes_ok T P out \<longleftrightarrow>
     (\<forall>name ty seq. emits out (pr_WriteMessageBegin P name ty seq) (msg_header T name ty seq)) \<and>
     emits out (pr_WriteMessageEnd P) [] \<and> (\<forall>name. emits out (pr_WriteStructBegin P name) []) \<and>
     emits out (pr_WriteStructEnd P) [] \<and> (\<forall>name t i. emits out (pr_WriteFieldBegin P name t i) (field_bytes t i [])) \<and>
     emits out (pr_WriteFieldEnd P) [] \<and> emits out (pr_WriteFieldStop P) [thrift_STOP] \<and>
     (\<forall>v. emits out (pr_WriteI32 P v) (put_uint32 v)) \<and> (\<forall>s. emits out (pr_WriteString P s) (text_bytes s)) \<and>
     emits out (pr_Flush P) [] \<and>
     (\<forall>k s. emits out (pr_exception_Write P (pr_NewTApplicationException P k s)) (concat (WriteApplicationException T k s)))"

definition binary_ok :: "thrift_lib \<Rightarrow> ('p, 'e) tprotocol \<Rightarrow> ('p \<Rightarrow> byte list) \<Rightarrow> ('p \<Rightarrow> byte list) \<Rightarrow> bool" where
  "binary_ok T P inp out \<longleftrightarrow> reads_ok T P inp \<and> writes_ok T P out"

lemma consumesE:
  assumes "consumes inp f bs v" and "inp p = bs @ rest"
  obtains p' where "f p = (v, p')" "inp p' = rest"
  using assms unfolding consumes_def by (metis prod.collapse)

lemma emitsE:
  assumes "emits out f bs"
  obtains p' where "f p = (None, p')" "out p' = out p @ bs"
  using assms unfolding emits_def by (metis prod.collapse)

lemma emits_Pair [simp]: "emits out (Pair None) []"
  by (simp add: emits_def)

lemma emits_checked:
  assumes "emits out f b1" and "emits out g b2"
  shows "emits out (checked w f g) (b1 @ b2)"
  unfolding emits_def
proof
  fix p
  obtain p1 where "f p = (None, p1)" "out p1 = out p @ b1" by (rule emitsE [OF assms(1)])
  then show "fst (checked w f g p) = None \<and> out (snd (checked w f g p)) = out p @ b1 @ b2"
    using assms(2) by (simp add: checked_def emits_def)
qed

lemma writes_okD:
  assumes "writes_ok T P out"
  shows "emits out (pr_WriteMessageBegin P name ty seq) (msg_header T name ty seq)"
    and "emits out (pr_WriteMessageEnd P) []" and "emits out (pr_WriteStructBegin P name) []"
    and "emits out (pr_WriteStructEnd P) []" and "emits out (pr_WriteFieldBegin P name t i) (field_bytes t i [])"
    and "emits out (pr_WriteFieldEnd P) []" and "emits out (pr_WriteFieldStop P) [thrift_STOP]"
    and "emits out (pr_WriteI32 P v) (put_uint32 v)" and "emits out (pr_WriteString P s) (text_bytes s)"
    and "emits out (pr_Flush P) []"
    and "emits out (pr_exception_Write P (pr_NewTApplicationException P k s)) (concat (WriteApplicationException T k s))"
  using assms unfolding writes_ok_def by simp_all

lemma reads_okD:
  assumes "reads_ok T P inp"
  shows "consumes inp (pr_ReadMessageEnd P) [] None" and "consumes inp (pr_ReadStructBegin P) [] None"
    and "consumes inp (pr_ReadStructEnd P) [] None" and "consumes inp (pr_ReadFieldEnd P) [] None"
    and "t \<noteq> thrift_STOP \<Longrightarrow> consumes inp (pr_ReadFieldBegin P) (field_bytes t i []) (t, i, None)"
    and "consumes inp (pr_ReadFieldBegin P) [thrift_STOP] (thrift_STOP, 0, None)"
    and "consumes inp (pr_ReadI32 P) (put_uint32 v) (v, None)"
    and "length s < 2 ^ 31 \<Longrightarrow> consumes inp (pr_ReadString P) (text_bytes s) (s, None)"
    and "base_value t bs \<Longrightarrow> consumes inp (pr_Skip P t) bs None"
    and "msg_ok name ty \<Longrightarrow> consumes inp (pr_ReadMessageBegin P) (msg_header T name ty seq) (name, ty, seq, None)"
    and "s \<noteq> [] \<Longrightarrow> length s < 2 ^ 31 \<Longrightarrow>
      consumes inp (pr_exception_Read P e) (concat (WriteApplicationException T k s)) (pr_NewTApplicationException P k s, None)"
  using assms unfolding reads_ok_def by simp_all

subsection \<open>Structures\<close>

lemma emits_stop:
  assumes "writes_ok T P out"
  shows "emits out (write_struct_stop P) [thrift_STOP]"
  using emits_checked [OF writes_okD(7) [OF assms] emits_checked [OF writes_okD(4) [OF assms] emits_Pair]]
  by (simp add: write_struct_stop_def)

lemma emits_ping_struct:
  assumes "writes_ok T P out"
  shows "emits out (RpcServiceBasePingArgs_Write P) [thrift_STOP]" and "emits out (RpcServiceBasePingResult_Write P) [thrift_STOP]"
  using emits_checked [OF writes_okD(3) [OF assms] emits_stop [OF assms]]
  by (simp_all add: RpcServiceBasePingArgs_Write_def RpcServiceBasePingResult_Write_def)

lemma read_struct_end_ok:
  assumes "reads_ok T P inp"
  obtains p' where "read_struct_end P n p = (None, p')" "inp p' = inp p"
  by (rule consumesE [OF reads_okD(3) [OF assms], of p "inp p"]) (simp_all add: read_struct_end_def checked_def that)

text \<open>A structure without fields is also read when a peer with a newer definition has put fields into it.\<close>

type_synonym raw_field = "byte \<times> int16 \<times> byte list"

definition raw_bytes :: "raw_field \<Rightarrow> byte list" where
  "raw_bytes = (\<lambda>(t, i, bs). field_bytes t i bs)"

definition raw_ok :: "raw_field \<Rightarrow> bool" where
  "raw_ok = (\<lambda>(t, i, bs). base_value t bs)"

lemma base_value_STOP [simp]: "\<not> base_value thrift_STOP bs"
  by (simp add: base_value_def base_size_def thrift_constants)

lemma field_bytes_split: "field_bytes t i bs = field_bytes t i [] @ bs"
  by (simp add: field_bytes_def)

lemma skip_fields_ok:
  assumes P: "reads_ok T P inp"
  shows "list_all raw_ok fs \<Longrightarrow> inp p = concat (map raw_bytes fs) @ [thrift_STOP] @ rest \<Longrightarrow>
    \<exists>p'. skip_fields P n p = Some (None, p') \<and> inp p' = rest"
proof (induction fs arbitrary: p)
  case Nil
  then obtain p1 where "pr_ReadFieldBegin P p = ((thrift_STOP, 0, None), p1)" "inp p1 = rest"
    using consumesE [OF reads_okD(6) [OF P], of p rest] by auto
  then show ?case by (simp add: skip_fields.simps)
next
  case (Cons x fs)
  let ?more = "concat (map raw_bytes fs) @ [thrift_STOP] @ rest"
  obtain t i bs where x: "x = (t, i, bs)" by (cases x)
  have b: "base_value t bs" using Cons.prems(1) by (simp add: raw_ok_def x)
  then have t: "t \<noteq> thrift_STOP" by auto
  have "inp p = field_bytes t i [] @ bs @ ?more"
    using Cons.prems(2) field_bytes_split [of t i bs] by (simp add: x raw_bytes_def)
  then obtain p1 where 1: "pr_ReadFieldBegin P p = ((t, i, None), p1)" "inp p1 = bs @ ?more"
    by (rule consumesE [OF reads_okD(5) [OF P t]])
  obtain p2 where 2: "pr_Skip P t p1 = (None, p2)" "inp p2 = ?more"
    using 1(2) by (rule consumesE [OF reads_okD(9) [OF P b]])
  obtain p3 where 3: "pr_ReadFieldEnd P p2 = (None, p3)" "inp p3 = inp p2"
    by (rule consumesE [OF reads_okD(4) [OF P], of p2 "inp p2"]) simp_all
  have "\<exists>p'. skip_fields P n p3 = Some (None, p') \<and> inp p' = rest"
    using Cons.prems(1) 2(2) 3(2) by (intro Cons.IH) simp_all
  then show ?case using t 1 2 3 by (simp add: skip_fields.simps [of P n p])
qed

lemma read_empty_struct_ok:
  assumes P: "reads_ok T P inp" and "list_all raw_ok fs" and "inp p = concat (map raw_bytes fs) @ [thrift_STOP] @ rest"
  obtains p' where "read_empty_struct P n p = Some (None, p')" "inp p' = rest"
proof -
  obtain p1 where 1: "pr_ReadStructBegin P p = (None, p1)" "inp p1 = inp p"
    by (rule consumesE [OF reads_okD(2) [OF P], of p "inp p"]) simp_all
  obtain p2 where 2: "skip_fields P n p1 = Some (None, p2)" "inp p2 = rest"
    using skip_fields_ok [OF P assms(2)] assms(3) 1(2) by metis
  obtain p3 where "read_struct_end P n p2 = (None, p3)" "inp p3 = inp p2" by (rule read_struct_end_ok [OF P])
  with 1 2 that show thesis by (simp add: read_empty_struct_def)
qed

subsection \<open>RpcException\<close>

text \<open>
  The fields a peer may send in an \<open>RpcException\<close>: the code, the message, and fields of other numbers,
  in any order and any number of times.
\<close>

datatype exc_field = CodeField int32 | MsgField string | OtherField byte int16 "byte list"

fun exc_field_bytes :: "exc_field \<Rightarrow> byte list" where
  "exc_field_bytes (CodeField v) = field_bytes thrift_I32 1 (put_uint32 v)"
| "exc_field_bytes (MsgField s) = field_bytes thrift_STRING 2 (text_bytes s)"
| "exc_field_bytes (OtherField t i bs) = field_bytes t i bs"

fun exc_field_ok :: "exc_field \<Rightarrow> bool" where
  "exc_field_ok (CodeField v) \<longleftrightarrow> True"
| "exc_field_ok (MsgField s) \<longleftrightarrow> length s < 2 ^ 31"
| "exc_field_ok (OtherField t i bs) \<longleftrightarrow> i \<noteq> 1 \<and> i \<noteq> 2 \<and> base_value t bs"

fun exc_field_set :: "exc_field \<Rightarrow> RpcException \<Rightarrow> RpcException" where
  "exc_field_set (CodeField v) x = x\<lparr>exc_Code := v\<rparr>"
| "exc_field_set (MsgField s) x = x\<lparr>exc_Msg := s\<rparr>"
| "exc_field_set (OtherField t i bs) x = x"

lemma read_exc_field:
  assumes P: "reads_ok T P inp" and f: "exc_field_ok f" and p: "inp p = exc_field_bytes f @ rest"
  obtains t i p1 p2 where "pr_ReadFieldBegin P p = ((t, i, None), p1)" "t \<noteq> thrift_STOP"
    "RpcException_read_field P t i x p1 = ((None, exc_field_set f x), p2)" "inp p2 = rest"
proof -
  obtain t i bs where b: "exc_field_bytes f = field_bytes t i bs" "t \<noteq> thrift_STOP"
    and rf: "\<And>p1. inp p1 = bs @ rest \<Longrightarrow> \<exists>p2. RpcException_read_field P t i x p1 = ((None, exc_field_set f x), p2) \<and> inp p2 = rest"
  proof (cases f)
    case (CodeField v)
    then show ?thesis
      by (intro that [of thrift_I32 1 "put_uint32 v"]; (simp add: thrift_constants; fail)?)
        (auto simp: RpcException_read_field_def RpcException_ReadField1_def elim!: consumesE [OF reads_okD(7) [OF P]])
  next
    case (MsgField s)
    then have l: "length s < 2 ^ 31" using f by simp
    from MsgField show ?thesis
      by (intro that [of thrift_STRING 2 "text_bytes s"]; (simp add: thrift_constants; fail)?)
        (auto simp: RpcException_read_field_def RpcException_ReadField2_def elim!: consumesE [OF reads_okD(8) [OF P l]])
  next
    case (OtherField t i bs)
    then have o: "base_value t bs" "i \<noteq> 1" "i \<noteq> 2" using f by simp_all
    then have "t \<noteq> thrift_STOP" by auto
    with o OtherField show ?thesis
      by (intro that [of t i bs]) (auto simp: RpcException_read_field_def elim!: consumesE [OF reads_okD(9) [OF P]])
  qed
  have "inp p = field_bytes t i [] @ bs @ rest" using p b(1) field_bytes_split [of t i bs] by simp
  then obtain p1 where "pr_ReadFieldBegin P p = ((t, i, None), p1)" "inp p1 = bs @ rest"
    by (rule consumesE [OF reads_okD(5) [OF P b(2)]])
  then show thesis using rf b(2) that by blast
qed

lemma RpcException_read_fields_ok:
  assumes P: "reads_ok T P inp"
  shows "list_all exc_field_ok fs \<Longrightarrow> inp p = concat (map exc_field_bytes fs) @ [thrift_STOP] @ rest \<Longrightarrow>
    \<exists>p'. RpcException_read_fields P x p = Some ((None, fold exc_field_set fs x), p') \<and> inp p' = rest"
proof (induction fs arbitrary: p x)
  case Nil
  then obtain p1 where "pr_ReadFieldBegin P p = ((thrift_STOP, 0, None), p1)" "inp p1 = rest"
    using consumesE [OF reads_okD(6) [OF P], of p rest] by auto
  then show ?case by (simp add: RpcException_read_fields.simps)
next
  case (Cons f fs)
  let ?more = "concat (map exc_field_bytes fs) @ [thrift_STOP] @ rest"
  have f: "exc_field_ok f" "inp p = exc_field_bytes f @ ?more" using Cons.prems by simp_all
  obtain t i p1 p2 where 1: "pr_ReadFieldBegin P p = ((t, i, None), p1)" "t \<noteq> thrift_STOP"
      "RpcException_read_field P t i x p1 = ((None, exc_field_set f x), p2)" "inp p2 = ?more"
    by (rule read_exc_field [OF P f])
  obtain p3 where 3: "pr_ReadFieldEnd P p2 = (None, p3)" "inp p3 = inp p2"
    by (rule consumesE [OF reads_okD(4) [OF P], of p2 "inp p2"]) simp_all
  have "\<exists>p'. RpcException_read_fields P (exc_field_set f x) p3 = Some ((None, fold exc_field_set fs (exc_field_set f x)), p') \<and> inp p' = rest"
    using Cons.prems(1) 1(4) 3(2) by (intro Cons.IH) simp_all
  then show ?case using 1 3 by (simp add: RpcException_read_fields.simps [of P x p])
qed

lemma RpcException_Read_ok:
  assumes P: "reads_ok T P inp" and fs: "list_all exc_field_ok fs"
    and p: "inp p = concat (map exc_field_bytes fs) @ [thrift_STOP] @ rest"
  shows "\<exists>p'. RpcException_Read P x p = Some ((None, fold exc_field_set fs x), p') \<and> inp p' = rest"
proof -
  obtain p1 where 1: "pr_ReadStructBegin P p = (None, p1)" "inp p1 = inp p"
    by (rule consumesE [OF reads_okD(2) [OF P], of p "inp p"]) simp_all
  obtain p2 where 2: "RpcException_read_fields P x p1 = Some ((None, fold exc_field_set fs x), p2)" "inp p2 = rest"
    using RpcException_read_fields_ok [OF P fs] p 1(2) by metis
  obtain p3 where "read_struct_end P ''*services.RpcException'' p2 = (None, p3)" "inp p3 = inp p2"
    by (rule read_struct_end_ok [OF P])
  with 1 2 show ?thesis by (simp add: RpcException_Read_def)
qed

lemma emits_RpcException:
  assumes W: "writes_ok T P out"
  shows "emits out (RpcException_Write P x)
    (concat (map exc_field_bytes [CodeField (exc_Code x), MsgField (exc_Msg x)]) @ [thrift_STOP])"
proof -
  have "emits out (RpcException_writeField1 P x) (exc_field_bytes (CodeField (exc_Code x)))"
    using emits_checked [OF writes_okD(5) emits_checked [OF writes_okD(8) emits_checked [OF writes_okD(6) emits_Pair]], OF W W W]
      by (simp add: RpcException_writeField1_def field_bytes_def)
  moreover have "emits out (RpcException_writeField2 P x) (exc_field_bytes (MsgField (exc_Msg x)))"
    using emits_checked [OF writes_okD(5) emits_checked [OF writes_okD(9) emits_checked [OF writes_okD(6) emits_Pair]], OF W W W]
      by (simp add: RpcException_writeField2_def field_bytes_def)
  ultimately show ?thesis
    using emits_checked [OF writes_okD(3) emits_checked [OF _ emits_checked [OF _ emits_stop]], OF W _ _ W]
    by (simp add: RpcException_Write_def)
qed

subsection \<open>The call of ping\<close>

text \<open>What the client of \<open>ping\<close> gets, and what is sent for it, when the handler returned the error \<open>e\<close>.\<close>

definition ping_failure :: "('p, 'e) tprotocol \<Rightarrow> 'e \<Rightarrow> string" where
  "ping_failure P e = ''Internal error processing ping: '' @ pr_Error P e"

definition ping_result :: "('p, 'e) tprotocol \<Rightarrow> 'e option \<Rightarrow> 'e option" where
  "ping_result P = map_option (\<lambda>e. pr_NewTApplicationException P thrift_INTERNAL_ERROR (ping_failure P e))"

definition ping_reply_type :: "'e option \<Rightarrow> int32" where
  "ping_reply_type e = (if e = None then thrift_REPLY else thrift_EXCEPTION)"

definition ping_reply_body :: "thrift_lib \<Rightarrow> ('p, 'e) tprotocol \<Rightarrow> 'e option \<Rightarrow> byte list" where
  "ping_reply_body T P e = (case e of None \<Rightarrow> [thrift_STOP]
     | Some x \<Rightarrow> concat (WriteApplicationException T thrift_INTERNAL_ERROR (ping_failure P x)))"

definition ping_reply :: "thrift_lib \<Rightarrow> ('p, 'e) tprotocol \<Rightarrow> int32 \<Rightarrow> 'e option \<Rightarrow> byte list" where
  "ping_reply T P seq e = msg_header T ''ping'' (ping_reply_type e) seq @ ping_reply_body T P e"

definition ping_call :: "thrift_lib \<Rightarrow> int32 \<Rightarrow> byte list" where
  "ping_call T seq = msg_header T ''ping'' thrift_CALL seq @ [thrift_STOP]"

lemma ping_msg_ok [simp]:
  "msg_ok ''ping'' thrift_CALL" "msg_ok ''ping'' (ping_reply_type e)" "msg_ok ''ping'' thrift_REPLY" "msg_ok ''ping'' thrift_EXCEPTION"
  by (simp_all add: msg_ok_def thrift_constants ping_reply_type_def)

lemma sendPing_ok:
  assumes W: "writes_ok T P out" and c: "cl_OutputProtocol c = Some w"
  obtains w' where "RpcServiceBaseClient_sendPing P c =
      Ret (None, c\<lparr>cl_OutputProtocol := Some w', cl_SeqId := cl_SeqId c + 1\<rparr>)"
    "out w' = out w @ ping_call T (cl_SeqId c + 1)"
proof -
  let ?f = "checked (\<lambda>e. e) (pr_WriteMessageBegin P ''ping'' thrift_CALL (cl_SeqId c + 1))
    (checked (\<lambda>e. e) (RpcServiceBasePingArgs_Write P) (checked (\<lambda>e. e) (pr_WriteMessageEnd P) (pr_Flush P)))"
  have "emits out ?f (ping_call T (cl_SeqId c + 1))"
    using emits_checked [OF writes_okD(1) emits_checked [OF emits_ping_struct(1) emits_checked [OF writes_okD(2) writes_okD(10)]],
      OF W W W W] by (simp add: ping_call_def)
  then obtain w' where "?f w = (None, w')" "out w' = out w @ ping_call T (cl_SeqId c + 1)" by (rule emitsE)
  then show thesis using c that by (simp add: RpcServiceBaseClient_sendPing_def client_protocol_def)
qed

lemma write_exception_ok:
  assumes W: "writes_ok T P out"
  shows "out (write_exception P name seq (pr_NewTApplicationException P k s) w) =
    out w @ msg_header T name thrift_EXCEPTION seq @ concat (WriteApplicationException T k s)"
  using writes_okD(1,2,10,11) [OF W] by (simp add: write_exception_def emits_def)

lemma write_ping_reply_ok:
  assumes W: "writes_ok T P out"
  obtains w' where "write_ping_reply P seq w = (None, w')" "out w' = out w @ ping_reply T P seq (None :: 'e option)"
proof -
  obtain o1 where 1: "pr_WriteMessageBegin P ''ping'' thrift_REPLY seq w = (None, o1)" "out o1 = out w @ msg_header T ''ping'' thrift_REPLY seq"
    by (rule emitsE [OF writes_okD(1) [OF W]])
  obtain o2 where 2: "RpcServiceBasePingResult_Write P o1 = (None, o2)" "out o2 = out o1 @ [thrift_STOP]"
    by (rule emitsE [OF emits_ping_struct(2) [OF W]])
  obtain o3 where 3: "pr_WriteMessageEnd P o2 = (None, o3)" "out o3 = out o2 @ []" by (rule emitsE [OF writes_okD(2) [OF W]])
  obtain o4 where "pr_Flush P o3 = (None, o4)" "out o4 = out o3 @ []" by (rule emitsE [OF writes_okD(10) [OF W]])
  with 1 2 3 that show thesis by (simp add: write_ping_reply_def ping_reply_def ping_reply_type_def ping_reply_body_def)
qed

text \<open>The processor calls the handler exactly once and writes its answer, also when the arguments hold fields it does not know.\<close>

lemma Process_ping_ok:
  assumes P: "binary_ok T P inp out" and fs: "list_all raw_ok fs" and ty: "msg_ok ''ping'' ty"
    and i: "inp i = msg_header T ''ping'' ty seq @ concat (map raw_bytes fs) @ [thrift_STOP] @ rest"
  obtains i' w' where "RpcServiceBaseProcessor_Process P (NewRpcServiceBaseProcessor P Ping) i w h =
      Some ((True, fst (Ping h)), i', w', snd (Ping h))"
    "inp i' = rest" "out w' = out w @ ping_reply T P seq (fst (Ping h))"
proof -
  have R: "reads_ok T P inp" and W: "writes_ok T P out" using P by (simp_all add: binary_ok_def)
  obtain i1 where 1: "pr_ReadMessageBegin P i = ((''ping'', ty, seq, None), i1)"
      "inp i1 = concat (map raw_bytes fs) @ [thrift_STOP] @ rest"
    using i by (rule consumesE [OF reads_okD(10) [OF R ty]])
  obtain i2 where 2: "RpcServiceBasePingArgs_Read P i1 = Some (None, i2)" "inp i2 = rest"
    using read_empty_struct_ok [OF R fs 1(2)] unfolding RpcServiceBasePingArgs_Read_def by blast
  obtain i3 where 3: "pr_ReadMessageEnd P i2 = (None, i3)" "inp i3 = inp i2"
    by (rule consumesE [OF reads_okD(1) [OF R], of i2 "inp i2"]) simp_all
  obtain w' where w: "write_ping_reply P seq w = (None, w')" "out w' = out w @ ping_reply T P seq (None :: 'b option)"
    by (rule write_ping_reply_ok [OF W])
  show thesis
  proof (cases "fst (Ping h)")
    case None
    with 1 2 3 w that show thesis
      by (cases "Ping h") (simp add: RpcServiceBaseProcessor_Process_def GetProcessorFunction_def NewRpcServiceBaseProcessor_def
        rpcServiceBaseProcessorPing_Process_def)
  next
    case (Some e)
    have "out (write_exception P ''ping'' seq (pr_NewTApplicationException P thrift_INTERNAL_ERROR (ping_failure P e)) w) =
        out w @ ping_reply T P seq (Some e)"
      using write_exception_ok [OF W] by (simp add: ping_reply_def ping_reply_type_def ping_reply_body_def)
    with Some 1 2 3 that show thesis
      by (cases "Ping h") (simp add: RpcServiceBaseProcessor_Process_def GetProcessorFunction_def NewRpcServiceBaseProcessor_def
        rpcServiceBaseProcessorPing_Process_def ping_failure_def)
  qed
qed

lemma recvPing_ok:
  assumes R: "reads_ok T P inp" and c: "cl_InputProtocol c = Some i" and i: "inp i = ping_reply T P (cl_SeqId c) e @ rest"
    and e: "\<And>x. e = Some x \<Longrightarrow> length (ping_failure P x) < 2 ^ 31"
  obtains i' where "RpcServiceBaseClient_recvPing P c = Some (Ret (ping_result P e, c\<lparr>cl_InputProtocol := Some i'\<rparr>))" "inp i' = rest"
proof -
  obtain i1 where 1: "pr_ReadMessageBegin P i = ((''ping'', ping_reply_type e, cl_SeqId c, None), i1)"
      "inp i1 = ping_reply_body T P e @ rest"
    by (rule consumesE [OF reads_okD(10) [OF R ping_msg_ok(2)], of i]) (use i in \<open>simp_all add: ping_reply_def\<close>)
  show thesis
  proof (cases e)
    case None
    then obtain i2 where 2: "RpcServiceBasePingResult_Read P i1 = Some (None, i2)" "inp i2 = rest"
      using read_empty_struct_ok [OF R, of "[]" i1 rest] 1(2) unfolding RpcServiceBasePingResult_Read_def ping_reply_body_def by auto
    obtain i3 where "pr_ReadMessageEnd P i2 = (None, i3)" "inp i3 = inp i2"
      by (rule consumesE [OF reads_okD(1) [OF R], of i2 "inp i2"]) simp_all
    with None 1 2 c that show thesis
      by (simp add: RpcServiceBaseClient_recvPing_def client_protocol_def recv_ping_def ping_reply_type_def ping_result_def
        thrift_constants)
  next
    case (Some x)
    let ?x = "pr_NewTApplicationException P thrift_INTERNAL_ERROR (ping_failure P x)"
    have f: "ping_failure P x \<noteq> []" "length (ping_failure P x) < 2 ^ 31" using e Some by (simp_all add: ping_failure_def)
    obtain i2 where 2: "pr_exception_Read P (pr_NewTApplicationException P 0 ''Unknown Exception'') i1 = ((?x, None), i2)" "inp i2 = rest"
      by (rule consumesE [OF reads_okD(11) [OF R f], of i1]) (use 1(2) Some in \<open>simp_all add: ping_reply_body_def\<close>)
    obtain i3 where "pr_ReadMessageEnd P i2 = (None, i3)" "inp i3 = inp i2"
      by (rule consumesE [OF reads_okD(1) [OF R], of i2 "inp i2"]) simp_all
    with Some 1 2 c that show thesis
      by (simp add: RpcServiceBaseClient_recvPing_def client_protocol_def recv_ping_def ping_reply_type_def ping_result_def
        thrift_constants)
  qed
qed

text \<open>
  The client stub takes a message for the reply to its \<open>ping\<close> only when it has the name \<open>ping\<close>, the
  number of the call and the type of a reply or an exception. Any other message is refused
  with an application exception whose type says which of them was wrong, and only its header is read.
\<close>

definition refusal :: "string \<Rightarrow> int32 \<Rightarrow> int32 \<Rightarrow> int32 \<times> string" where
  "refusal name seq sent = (if name \<noteq> ''ping'' then (WRONG_METHOD_NAME, ''ping failed: wrong method name'')
     else if seq \<noteq> sent then (BAD_SEQUENCE_ID, ''ping failed: out of sequence response'')
     else (INVALID_MESSAGE_TYPE_EXCEPTION, ''ping failed: invalid message type''))"

lemma recvPing_refuses:
  assumes R: "reads_ok T P inp" and c: "cl_InputProtocol c = Some i" and i: "inp i = msg_header T name ty seq @ rest" "msg_ok name ty"
    and wrong: "name \<noteq> ''ping'' \<or> seq \<noteq> cl_SeqId c \<or> ty \<notin> {thrift_REPLY, thrift_EXCEPTION}"
  obtains i' where "RpcServiceBaseClient_recvPing P c =
      Some (Ret (Some (case_prod (pr_NewTApplicationException P) (refusal name seq (cl_SeqId c))), c\<lparr>cl_InputProtocol := Some i'\<rparr>))"
    "inp i' = rest"
proof -
  obtain i1 where 1: "pr_ReadMessageBegin P i = ((name, ty, seq, None), i1)" "inp i1 = rest"
    using i(1) by (rule consumesE [OF reads_okD(10) [OF R i(2)]])
  then have "recv_ping P (cl_SeqId c) i =
      Some (Some (case_prod (pr_NewTApplicationException P) (refusal name seq (cl_SeqId c))), i1)"
    using wrong by (auto simp: recv_ping_def refusal_def)
  then show thesis using c 1(2) that [of i1] by (simp add: RpcServiceBaseClient_recvPing_def client_protocol_def)
qed

lemma Process_unknown_method:
  assumes R: "reads_ok T P inp" and W: "writes_ok T P out" and i: "inp i = msg_header T name ty seq @ rest" "msg_ok name ty"
    and m: "m name = None"
  shows "\<exists>i' w'. RpcServiceBaseProcessor_Process P m i w h =
      Some ((False, Some (pr_NewTApplicationException P UNKNOWN_METHOD (''Unknown function '' @ name))), i', w', h)
    \<and> out w' = out w @ msg_header T name thrift_EXCEPTION seq
        @ concat (WriteApplicationException T UNKNOWN_METHOD (''Unknown function '' @ name))"
proof -
  obtain i1 where "pr_ReadMessageBegin P i = ((name, ty, seq, None), i1)" "inp i1 = rest"
    using i(1) by (rule consumesE [OF reads_okD(10) [OF R i(2)]])
  with m show ?thesis
    by (simp add: RpcServiceBaseProcessor_Process_def GetProcessorFunction_def write_exception_ok [OF W] Let_def)
qed

subsection \<open>A protocol over memory\<close>

text \<open>
  The documented encoding as a protocol object whose state is the input that is left and the
  output so far.
\<close>

datatype memory_error = ApplicationException int32 string | ProtocolError string

type_synonym memory_protocol = "byte list \<times> byte list"

definition bm_take :: "nat \<Rightarrow> (byte list \<Rightarrow> 'v) \<Rightarrow> memory_protocol \<Rightarrow> ('v \<times> memory_error option) \<times> memory_protocol" where
  "bm_take n f = (\<lambda>(i, w). if length i < n then ((f (replicate n 0), Some (ProtocolError ''EOF'')), (i, w))
     else ((f (take n i), None), (drop n i, w)))"

definition bm_ReadString :: "memory_protocol \<Rightarrow> (string \<times> memory_error option) \<times> memory_protocol" where
  "bm_ReadString = (\<lambda>(i, w). if length i < 4 then (([], Some (ProtocolError ''EOF'')), (i, w))
     else bm_take (unat (get_uint32 i)) bytes_string (drop 4 i, w))"

definition bm_ReadFieldBegin :: "memory_protocol \<Rightarrow> (byte \<times> int16 \<times> memory_error option) \<times> memory_protocol" where
  "bm_ReadFieldBegin = (\<lambda>(i, w). if i \<noteq> [] \<and> hd i = thrift_STOP then ((thrift_STOP, 0, None), (tl i, w))
     else (case bm_take 3 (\<lambda>b. (hd b, get_uint16 (tl b))) (i, w) of (((t, n), e), p) \<Rightarrow> ((t, n, e), p)))"

definition bm_ReadMessageBegin :: "memory_protocol \<Rightarrow> (string \<times> int32 \<times> int32 \<times> memory_error option) \<times> memory_protocol" where
  "bm_ReadMessageBegin = (\<lambda>(i, w). case sb_read_begin i of
     (name, ty, seq, None) \<Rightarrow> ((name, ty, seq, None), (drop (12 + length name) i, w))
   | (name, ty, seq, Some e) \<Rightarrow> ((name, ty, seq, Some (ProtocolError (error_text e))), (i, w)))"

definition bm_Skip :: "byte \<Rightarrow> memory_protocol \<Rightarrow> memory_error option \<times> memory_protocol" where
  "bm_Skip t p = (case base_size t of
     Some n \<Rightarrow> apfst snd (bm_take n (\<lambda>_. ()) p)
   | None \<Rightarrow> if t = thrift_STRING then apfst snd (bm_ReadString p) else (Some (ProtocolError ''unknown type''), p))"

definition bm_exception_Read :: "memory_error \<Rightarrow> memory_protocol \<Rightarrow> (memory_error \<times> memory_error option) \<times> memory_protocol" where
  "bm_exception_Read e = (\<lambda>(i, w). let n = unat (get_uint32 (drop 3 i)) in
     if length i < 15 + n then ((e, Some (ProtocolError ''EOF'')), (i, w))
     else ((ApplicationException (get_uint32 (drop 3 (drop n (drop 7 i)))) (bytes_string (take n (drop 7 i))), None),
       (drop 8 (drop n (drop 7 i)), w)))"

definition bm_write :: "byte list \<Rightarrow> memory_protocol \<Rightarrow> memory_error option \<times> memory_protocol" where
  "bm_write bs = (\<lambda>(i, w). (None, (i, w @ bs)))"

fun bm_Error :: "memory_error \<Rightarrow> string" where
  "bm_Error (ApplicationException k s) = s"
| "bm_Error (ProtocolError s) = s"

definition binary_memory :: "(memory_protocol, memory_error) tprotocol" where
  "binary_memory = \<lparr>pr_ReadMessageBegin = bm_ReadMessageBegin, pr_ReadMessageEnd = Pair None, pr_ReadStructBegin = Pair None,
     pr_ReadStructEnd = Pair None, pr_ReadFieldBegin = bm_ReadFieldBegin, pr_ReadFieldEnd = Pair None,
     pr_ReadI32 = bm_take 4 get_uint32, pr_ReadString = bm_ReadString, pr_Skip = bm_Skip,
     pr_WriteMessageBegin = (\<lambda>name ty seq. bm_write (msg_header strict_binary name ty seq)), pr_WriteMessageEnd = bm_write [],
     pr_WriteStructBegin = (\<lambda>_. bm_write []), pr_WriteStructEnd = bm_write [],
     pr_WriteFieldBegin = (\<lambda>_ t i. bm_write (field_bytes t i [])), pr_WriteFieldEnd = bm_write [],
     pr_WriteFieldStop = bm_write [thrift_STOP], pr_WriteI32 = (\<lambda>v. bm_write (put_uint32 v)),
     pr_WriteString = (\<lambda>s. bm_write (text_bytes s)), pr_Flush = bm_write [],
     pr_NewTApplicationException = ApplicationException,
     pr_exception_Write = (\<lambda>e. case e of ApplicationException k s \<Rightarrow> bm_write (concat (WriteApplicationException strict_binary k s))
       | ProtocolError s \<Rightarrow> bm_write []),
     pr_exception_Read = bm_exception_Read, pr_PrependError = (\<lambda>s e. ProtocolError (s @ bm_Error e)), pr_Error = bm_Error\<rparr>"

lemma emits_bm_write [simp]: "emits snd (bm_write bs) bs"
  by (simp add: emits_def bm_write_def case_prod_beta)

lemma consumes_bm_take: "length bs = n \<Longrightarrow> consumes fst (bm_take n f) bs (f bs, None)"
  by (auto simp: consumes_def bm_take_def)

lemma consumes_nothing [simp]: "consumes inp (Pair v) [] v"
  by (simp add: consumes_def)

lemma length_word [simp]: "n < 2 ^ 31 \<Longrightarrow> unat (word_of_nat n :: int32) = n"
  by (simp add: unat_of_nat)

lemma consumes_bm_string: "length s < 2 ^ 31 \<Longrightarrow> consumes fst bm_ReadString (text_bytes s) (s, None)"
  by (auto simp: consumes_def bm_ReadString_def text_bytes_def bm_take_def)

lemma consumes_bm_header:
  assumes "msg_ok name ty"
  shows "consumes fst bm_ReadMessageBegin (msg_header strict_binary name ty seq) (name, ty, seq, None)"
proof -
  have "length (msg_header strict_binary name ty seq) = 12 + length name" using assms by simp
  moreover have "sb_read_begin (msg_header strict_binary name ty seq @ rest) = (name, ty, seq, None)" for rest
    using sb_roundtrip [OF assms, of seq rest] by (simp add: msg_header_def strict_binary_def)
  ultimately show ?thesis by (auto simp: consumes_def bm_ReadMessageBegin_def)
qed

lemma consumes_bm_field:
  "t \<noteq> thrift_STOP \<Longrightarrow> consumes fst bm_ReadFieldBegin (field_bytes t i []) (t, i, None)"
  "consumes fst bm_ReadFieldBegin [thrift_STOP] (thrift_STOP, 0, None)"
  using get_put_uint16 [of i "[]"]
  by (auto simp: consumes_def bm_ReadFieldBegin_def field_bytes_def bm_take_def put_uint16_def)

lemma consumes_apfst: "consumes inp f bs (v, e) \<Longrightarrow> consumes inp (\<lambda>p. apfst snd (f p)) bs e"
  by (simp add: consumes_def)

lemma consumes_bm_Skip:
  assumes "base_value t bs"
  shows "consumes fst (bm_Skip t) bs None"
proof (cases "base_size t")
  case None
  have len: "length (bytes_string b) = length b" for b by (simp add: bytes_string_def)
  have t: "t = thrift_STRING" "bs = text_bytes (bytes_string (drop 4 bs))" "length (bytes_string (drop 4 bs)) < 2 ^ 31"
    using assms None by (auto simp: base_value_def len)
  have "bm_Skip t = (\<lambda>p. apfst snd (bm_ReadString p))" using None t(1) by (simp add: bm_Skip_def fun_eq_iff)
  then show ?thesis using consumes_apfst [OF consumes_bm_string [OF t(3)]] t(2) by simp
next
  case (Some n)
  then have "length bs = n" using assms by (simp add: base_value_def)
  moreover have "bm_Skip t = (\<lambda>p. apfst snd (bm_take n (\<lambda>_. ()) p))" using Some by (simp add: bm_Skip_def fun_eq_iff)
  ultimately show ?thesis using consumes_apfst [OF consumes_bm_take] by simp
qed

lemma consumes_bm_exception:
  "length s < 2 ^ 31 \<Longrightarrow>
    consumes fst (bm_exception_Read e) (concat (WriteApplicationException strict_binary k s)) (ApplicationException k s, None)"
  by (auto simp: consumes_def bm_exception_Read_def strict_binary_def Let_def simp del: drop_drop)

lemma binary_ok_memory: "binary_ok strict_binary binary_memory fst snd"
proof -
  have "consumes fst (bm_take 4 get_uint32) (put_uint32 v) (v, None)" for v
    using consumes_bm_take [of "put_uint32 v" 4 get_uint32] by simp
  then have "reads_ok strict_binary binary_memory fst"
    by (simp add: reads_ok_def binary_memory_def consumes_bm_string consumes_bm_header consumes_bm_field consumes_bm_Skip
      consumes_bm_exception)
  moreover have "writes_ok strict_binary binary_memory snd" by (simp add: writes_ok_def binary_memory_def)
  ultimately show ?thesis by (simp add: binary_ok_def)
qed

subsection \<open>What the generated code does\<close>



text \<open>
  \<open>Processor.Process\<close> as the dispatcher of the server calls it: over the bytes of the request and an
  empty buffer. \<open>mk\<close> makes the protocol object over a memory buffer.
\<close>

definition processor_chunks :: "('p, 'e) tprotocol \<Rightarrow> (byte list \<Rightarrow> 'p) \<Rightarrow> ('p \<Rightarrow> byte list) \<Rightarrow> ('p, 'e, 'h) rpc_processor \<Rightarrow> 'h \<Rightarrow>
    byte list \<Rightarrow> byte list list" where
  "processor_chunks P mk out m h bs =
     (case RpcServiceBaseProcessor_Process P m (mk bs) (mk []) h of Some (_, _, w, _) \<Rightarrow> [out w] | None \<Rightarrow> [])"

lemma processor_chunks_ping:
  assumes "binary_ok T P inp out" and "\<And>bs. inp (mk bs) = bs" and "\<And>bs. out (mk bs) = []"
  shows "concat (processor_chunks P mk out (NewRpcServiceBaseProcessor P Ping) h (ping_call T seq)) = ping_reply T P seq (fst (Ping h))"
proof -
  have none: "list_all raw_ok []" by simp
  have "inp (mk (ping_call T seq)) = msg_header T ''ping'' thrift_CALL seq @ concat (map raw_bytes []) @ [thrift_STOP] @ []"
    using assms(2) by (simp add: ping_call_def)
  then obtain i' w' where "RpcServiceBaseProcessor_Process P (NewRpcServiceBaseProcessor P Ping) (mk (ping_call T seq)) (mk []) h =
      Some ((True, fst (Ping h)), i', w', snd (Ping h))" "out w' = out (mk []) @ ping_reply T P seq (fst (Ping h))"
    by (rule Process_ping_ok [OF assms(1) none ping_msg_ok(1)])
  then show ?thesis using assms(3) by (simp add: processor_chunks_def)
qed

text \<open>
  C33: A \<open>Ping\<close> of the client stub to a server that runs the generated processor: the bytes the stub
  writes, as a frame, are read by the session of the server, the processor calls the handler,
  and what the session sends is the reply from which the stub returns: \<open>nil\<close> when the handler
  returned \<open>nil\<close>, and otherwise an application exception with the handler's error in its text.
\<close>

theorem ping_served:
  fixes ps :: "'a heap_scheme"
  assumes T: "thrift_ok T" "binary_ok T P inp out" and mk: "\<And>bs. inp (mk bs) = bs" "\<And>bs. out (mk bs) = []"
    and client: "cl_OutputProtocol c = Some w" "out w = []" "cl_InputProtocol c = Some i"
      "inp i = ping_reply T P (cl_SeqId c + 1) (fst (Ping h)) @ rest"
    and m: "pool_ok (pmem ps)"
    and server: "FrameSize sp = 0" "reader_bytes (Reader sp) = frame_bytes (ping_call T (cl_SeqId c + 1)) @ behind" "17 \<le> maxLength sp"
    and net: "net_accepts net sent" "werr (Writer sw) = None" "fbuf sw = []"
    and fits: "\<And>x. fst (Ping h) = Some x \<Longrightarrow> length (ping_failure P x) < 2 ^ 31"
  shows "\<exists>c1 w1 frame m1 sp1 s1 ps1 sw1 st1 ps2 c2. RpcServiceBaseClient_sendPing P c = Ret (None, c1)
    \<and> cl_OutputProtocol c1 = Some w1 \<and> out w1 = ping_call T (cl_SeqId c + 1)
    \<and> ReadFrame T (pmem ps) sp = Ret (Inr frame, m1, sp1)
    \<and> NonBlockSession_handleRequest T now
        (ThriftRpcServer_Dispatch (processor_chunks P mk out (NewRpcServiceBaseProcessor P Ping) h)) frame s (ps\<lparr>pmem := m1\<rparr>) =
        Ret (next_req ps, None, s1, ps1)
    \<and> NonBlockSession_loopWriter T net clock [next_req ps] sw st ps1 = Ret (None, sw1, st1, ps2)
    \<and> sent (under (Writer sw1)) = framed_out sent sw @ frame_bytes (ping_reply T P (cl_SeqId c + 1) (fst (Ping h)))
    \<and> RpcServiceBaseClient_recvPing P c1 = Some (Ret (ping_result P (fst (Ping h)), c2))"
proof -
  let ?k = "cl_SeqId c + 1" and ?proc = "processor_chunks P mk out (NewRpcServiceBaseProcessor P Ping) h"
  have R: "reads_ok T P inp" and W: "writes_ok T P out" using T(2) by (simp_all add: binary_ok_def)
  obtain w1 where snd: "RpcServiceBaseClient_sendPing P c = Ret (None, c\<lparr>cl_OutputProtocol := Some w1, cl_SeqId := ?k\<rparr>)"
      "out w1 = ping_call T ?k" using sendPing_ok [OF W client(1)] client(2) by auto
  let ?c1 = "c\<lparr>cl_OutputProtocol := Some w1, cl_SeqId := ?k\<rparr>"
  have len: "length (ping_call T ?k) = 17" using T(1) by (simp add: ping_call_def)
  then have l: "length (ping_call T ?k) \<le> maxLength sp" "length (ping_call T ?k) < 2 ^ 32" using server(3) by simp_all
  have ty: "CHR '':'' \<notin> set ''ping''" "thrift_CALL \<noteq> MESSAGE_TYPE_HEART_BEAT"
    by (simp_all add: thrift_CALL_def MESSAGE_TYPE_HEART_BEAT_def)
  note sv = server_answers [OF T(1) m server(1,2) l ping_call_def ping_msg_ok(1) ty net, of now ?proc s clock st]
  have i: "cl_InputProtocol ?c1 = Some i" "inp i = ping_reply T P (cl_SeqId ?c1) (fst (Ping h)) @ rest" using client(3,4) by simp_all
  obtain i' where "RpcServiceBaseClient_recvPing P ?c1 = Some (Ret (ping_result P (fst (Ping h)), ?c1\<lparr>cl_InputProtocol := Some i'\<rparr>))"
    by (rule recvPing_ok [OF R i fits])
  moreover have "cl_OutputProtocol ?c1 = Some w1" by simp
  ultimately show ?thesis using snd sv unfolding processor_chunks_ping [OF T(2) mk] by blast
qed

theorem ping_served_witness:
  "\<exists>c1 w1 frame m1 sp1 s1 ps1 sw1 st1 ps2 c2. RpcServiceBaseClient_sendPing binary_memory
      (NewRpcServiceBaseClientProtocol (Some (ping_reply strict_binary binary_memory 1 None, [])) (Some ([], []))) = Ret (None, c1)
    \<and> cl_OutputProtocol c1 = Some w1 \<and> snd w1 = ping_call strict_binary 1
    \<and> ReadFrame strict_binary empty_memory (demo_reader (frame_bytes (ping_call strict_binary 1))) = Ret (Inr frame, m1, sp1)
    \<and> NonBlockSession_handleRequest strict_binary 0
        (ThriftRpcServer_Dispatch (processor_chunks binary_memory (\<lambda>bs. (bs, [])) snd
          (NewRpcServiceBaseProcessor binary_memory (\<lambda>h. (None, Suc h))) 0)) frame
        (NewNonBlockSession 0 ''client'' False None) (demo_ps\<lparr>pmem := m1\<rparr>) = Ret (0, None, s1, ps1)
    \<and> NonBlockSession_loopWriter strict_binary net_all (\<lambda>_. 0) [0] demo_writer init_cmdstats ps1 = Ret (None, sw1, st1, ps2)
    \<and> under (Writer sw1) = frame_bytes (ping_reply strict_binary binary_memory 1 None)
    \<and> RpcServiceBaseClient_recvPing binary_memory c1 = Some (Ret (None, c2))"
proof -
  let ?T = strict_binary and ?P = binary_memory and ?Ping = "\<lambda>h. (None, Suc h)"
  let ?c = "NewRpcServiceBaseClientProtocol (Some (ping_reply ?T ?P 1 None, [])) (Some ([], []))"
  have c: "cl_OutputProtocol ?c = Some ([], [])" "snd ([], []) = []" "cl_InputProtocol ?c = Some (ping_reply ?T ?P 1 None, [])"
    "fst (ping_reply ?T ?P 1 None, []) = ping_reply ?T ?P (cl_SeqId ?c + 1) (fst (?Ping 0)) @ []"
    by (simp_all add: NewRpcServiceBaseClientProtocol_def)
  let ?sp = "demo_reader (frame_bytes (ping_call ?T 1))"
  have r: "FrameSize ?sp = 0" "reader_bytes (Reader ?sp) = frame_bytes (ping_call ?T (cl_SeqId ?c + 1)) @ []" "17 \<le> maxLength ?sp"
    by (simp_all add: NewRpcServiceBaseClientProtocol_def)
  have mem: "pmem demo_ps = empty_memory" "next_req demo_ps = 0" by simp_all
  have "cl_SeqId ?c + 1 = 1" by (simp add: NewRpcServiceBaseClientProtocol_def)
  note rt = ping_served [where mk = "\<lambda>bs. (bs, [])" and Ping = ?Ping and h = 0, OF thrift_ok_strict_binary binary_ok_memory _ _ c
      demo_conn_inv(4) r net_accepts_all demo_transport(1,2), of 0 "NewNonBlockSession 0 ''client'' False None" "\<lambda>_. 0" init_cmdstats,
      unfolded this mem]
  show ?thesis using rt by (simp del: NonBlockSession_loopWriter.simps add: ping_result_def)
qed

end
