(* ===== verification/Go_Log.thy ===== *)
theory Go_Log
  imports Go_Errors
begin

text \<open>
  \<open>utils/log/log.go\<close>, \<open>utils/assert\<close> and \<open>SetLogLevel\<close> of \<open>proxy/utils_log.go\<close>: which messages are
  written, and what is written for them. The formatting of Go values and the standard \<open>log.Logger\<close>
  that stamps and writes a text are fields of \<open>log_env\<close>; \<open>'o\<close> is what has been written so far.
  A call that ends the process returns \<open>Inl\<close> of the logger as it leaves it.
\<close>

subsection \<open>Types and levels\<close>

type_synonym LogType = int64
type_synonym LogLevel = int64

definition TYPE_ERROR :: LogType where "TYPE_ERROR = 1"
definition TYPE_WARN :: LogType where "TYPE_WARN = 2"
definition TYPE_INFO :: LogType where "TYPE_INFO = 4"
definition TYPE_DEBUG :: LogType where "TYPE_DEBUG = 8"
definition TYPE_PANIC :: LogType where "TYPE_PANIC = - 1"

definition LEVEL_NONE :: LogLevel where "LEVEL_NONE = 0"
definition LEVEL_ERROR :: LogLevel where "LEVEL_ERROR = 1"
definition LEVEL_WARN :: LogLevel where "LEVEL_WARN = 3"
definition LEVEL_INFO :: LogLevel where "LEVEL_INFO = 7"
definition LEVEL_DEBUG :: LogLevel where "LEVEL_DEBUG = 15"
definition LEVEL_ALL :: LogLevel where "LEVEL_ALL = LEVEL_DEBUG"

lemmas log_consts = TYPE_ERROR_def TYPE_WARN_def TYPE_INFO_def TYPE_DEBUG_def TYPE_PANIC_def LEVEL_NONE_def
  LEVEL_ERROR_def LEVEL_WARN_def LEVEL_INFO_def LEVEL_DEBUG_def LEVEL_ALL_def

definition LogType_String :: "LogType \<Rightarrow> string" where
  "LogType_String t =
     (if t = TYPE_PANIC then ''[PANIC]'' else if t = TYPE_ERROR then ''[ERROR]'' else if t = TYPE_WARN then ''[WARN]''
      else if t = TYPE_INFO then ''[INFO]'' else if t = TYPE_DEBUG then ''[DEBUG]'' else ''[LOG]'')"

definition LogLevel_Set :: "LogLevel \<Rightarrow> LogLevel \<Rightarrow> LogLevel" where
  "LogLevel_Set v l = v"

definition LogLevel_Test :: "LogLevel \<Rightarrow> LogType \<Rightarrow> bool" where
  "LogLevel_Test l m \<longleftrightarrow> and l m \<noteq> 0"

subsection \<open>Loggers\<close>

record 'o Logger =
  lg_flags :: int
  lg_prefix :: string
  lg_level :: LogLevel
  lg_trace :: LogLevel
  lg_out :: 'o

record ('v, 'o) log_env =
  Sprint :: "'v list \<Rightarrow> string"
  Sprintf :: "string \<Rightarrow> 'v list \<Rightarrow> string"
  Sprintln :: "'v list \<Rightarrow> string"
  le_frames :: runtime_frames
  std_Output :: "int \<Rightarrow> string \<Rightarrow> nat \<Rightarrow> string \<Rightarrow> 'o \<Rightarrow> go_error option \<times> 'o"
  out_Close :: "'o \<Rightarrow> 'o"

definition LstdFlags :: int where
  "LstdFlags = 3"

definition log_New :: "'o \<Rightarrow> string \<Rightarrow> 'o Logger" where
  "log_New out prefix = \<lparr>lg_flags = LstdFlags, lg_prefix = prefix, lg_level = LEVEL_ALL, lg_trace = LEVEL_ERROR, lg_out = out\<rparr>"

definition Logger_Flags :: "'o Logger \<Rightarrow> int" where "Logger_Flags l = lg_flags l"
definition Logger_Prefix :: "'o Logger \<Rightarrow> string" where "Logger_Prefix l = lg_prefix l"
definition Logger_SetFlags :: "int \<Rightarrow> 'o Logger \<Rightarrow> 'o Logger" where "Logger_SetFlags flags l = l\<lparr>lg_flags := flags\<rparr>"
definition Logger_SetPrefix :: "string \<Rightarrow> 'o Logger \<Rightarrow> 'o Logger" where "Logger_SetPrefix prefix l = l\<lparr>lg_prefix := prefix\<rparr>"

definition Logger_SetLevel :: "LogLevel \<Rightarrow> 'o Logger \<Rightarrow> 'o Logger" where
  "Logger_SetLevel v l = l\<lparr>lg_level := LogLevel_Set v (lg_level l)\<rparr>"

definition Logger_SetTraceLevel :: "LogLevel \<Rightarrow> 'o Logger \<Rightarrow> 'o Logger" where
  "Logger_SetTraceLevel v l = l\<lparr>lg_trace := LogLevel_Set v (lg_trace l)\<rparr>"

definition Logger_Close :: "('v, 'o) log_env \<Rightarrow> 'o Logger \<Rightarrow> 'o Logger" where
  "Logger_Close E l = l\<lparr>lg_out := out_Close E (lg_out l)\<rparr>"

definition isDisabled :: "'o Logger \<Rightarrow> LogType \<Rightarrow> bool" where
  "isDisabled l t \<longleftrightarrow> t \<noteq> TYPE_PANIC \<and> \<not> LogLevel_Test (lg_level l) t"

definition isTraceEnabled :: "'o Logger \<Rightarrow> LogType \<Rightarrow> bool" where
  "isTraceEnabled l t \<longleftrightarrow> t = TYPE_PANIC \<or> LogLevel_Test (lg_trace l) t"

text \<open>The text of a message: its type, the text, a newline if it has none, the error with its stack, the stack of the call.\<close>

definition output_text :: "('v, 'o) log_env \<Rightarrow> 'o Logger \<Rightarrow> nat \<Rightarrow> traced_error option \<Rightarrow> LogType \<Rightarrow> string \<Rightarrow> string" where
  "output_text E l traceskip err t s =
     (let stack = (if isTraceEnabled l t then TraceN (le_frames E) (traceskip + 1) 32 else []) in
      LogType_String t @ '' '' @ s
      @ (if length s = 0 \<or> s ! (length s - 1) \<noteq> CHR 0x0A then [CHR 0x0A] else [])
      @ (case err of
           None \<Rightarrow> []
         | Some e \<Rightarrow> ''[error]: '' @ Error_text e @ [CHR 0x0A]
                     @ (case errors_Stack (Some e) of None \<Rightarrow> [] | Some st \<Rightarrow> StringWithIndent st 1))
      @ (if length stack \<noteq> 0 then ''[stack]: '' @ [CHR 0x0A] @ StringWithIndent stack 1 else []))"

definition log_output :: "('v, 'o) log_env \<Rightarrow> nat \<Rightarrow> traced_error option \<Rightarrow> LogType \<Rightarrow> string \<Rightarrow> 'o Logger \<Rightarrow>
    go_error option \<times> 'o Logger" where
  "log_output E traceskip err t s l =
     (let (e, out) = std_Output E (lg_flags l) (lg_prefix l) (traceskip + 2) (output_text E l traceskip err t s) (lg_out l) in
      (e, l\<lparr>lg_out := out\<rparr>))"

subsection \<open>The methods of a logger\<close>

definition Logger_Panic :: "('v, 'o) log_env \<Rightarrow> 'v list \<Rightarrow> 'o Logger \<Rightarrow> 'o Logger + 'o Logger" where
  "Logger_Panic E v l =
     Inl (snd (log_output E 1 None TYPE_PANIC (Sprint E v) l))"

definition Logger_Panicf :: "('v, 'o) log_env \<Rightarrow> string \<Rightarrow> 'v list \<Rightarrow> 'o Logger \<Rightarrow> 'o Logger + 'o Logger" where
  "Logger_Panicf E fmt v l =
     Inl (snd (log_output E 1 None TYPE_PANIC (Sprintf E fmt v) l))"

definition Logger_PanicError :: "('v, 'o) log_env \<Rightarrow> traced_error option \<Rightarrow> 'v list \<Rightarrow> 'o Logger \<Rightarrow> 'o Logger + 'o Logger" where
  "Logger_PanicError E err v l =
     Inl (snd (log_output E 1 err TYPE_PANIC (Sprint E v) l))"

definition Logger_PanicErrorf :: "('v, 'o) log_env \<Rightarrow> traced_error option \<Rightarrow> string \<Rightarrow> 'v list \<Rightarrow> 'o Logger \<Rightarrow> 'o Logger + 'o Logger" where
  "Logger_PanicErrorf E err fmt v l =
     Inl (snd (log_output E 1 err TYPE_PANIC (Sprintf E fmt v) l))"

definition Logger_Error :: "('v, 'o) log_env \<Rightarrow> 'v list \<Rightarrow> 'o Logger \<Rightarrow> 'o Logger" where
  "Logger_Error E v l =
     (if isDisabled l TYPE_ERROR then l else snd (log_output E 1 None TYPE_ERROR (Sprint E v) l))"

definition Logger_Errorf :: "('v, 'o) log_env \<Rightarrow> string \<Rightarrow> 'v list \<Rightarrow> 'o Logger \<Rightarrow> 'o Logger" where
  "Logger_Errorf E fmt v l =
     (if isDisabled l TYPE_ERROR then l else snd (log_output E 1 None TYPE_ERROR (Sprintf E fmt v) l))"

definition Logger_ErrorError :: "('v, 'o) log_env \<Rightarrow> traced_error option \<Rightarrow> 'v list \<Rightarrow> 'o Logger \<Rightarrow> 'o Logger" where
  "Logger_ErrorError E err v l =
     (if isDisabled l TYPE_ERROR then l else snd (log_output E 1 err TYPE_ERROR (Sprint E v) l))"

definition Logger_ErrorErrorf :: "('v, 'o) log_env \<Rightarrow> traced_error option \<Rightarrow> string \<Rightarrow> 'v list \<Rightarrow> 'o Logger \<Rightarrow> 'o Logger" where
  "Logger_ErrorErrorf E err fmt v l =
     (if isDisabled l TYPE_ERROR then l else snd (log_output E 1 err TYPE_ERROR (Sprintf E fmt v) l))"

definition Logger_Warn :: "('v, 'o) log_env \<Rightarrow> 'v list \<Rightarrow> 'o Logger \<Rightarrow> 'o Logger" where
  "Logger_Warn E v l =
     (if isDisabled l TYPE_WARN then l else snd (log_output E 1 None TYPE_WARN (Sprint E v) l))"

definition Logger_Warnf :: "('v, 'o) log_env \<Rightarrow> string \<Rightarrow> 'v list \<Rightarrow> 'o Logger \<Rightarrow> 'o Logger" where
  "Logger_Warnf E fmt v l =
     (if isDisabled l TYPE_WARN then l else snd (log_output E 1 None TYPE_WARN (Sprintf E fmt v) l))"

definition Logger_WarnError :: "('v, 'o) log_env \<Rightarrow> traced_error option \<Rightarrow> 'v list \<Rightarrow> 'o Logger \<Rightarrow> 'o Logger" where
  "Logger_WarnError E err v l =
     (if isDisabled l TYPE_WARN then l else snd (log_output E 1 err TYPE_WARN (Sprint E v) l))"

definition Logger_WarnErrorf :: "('v, 'o) log_env \<Rightarrow> traced_error option \<Rightarrow> string \<Rightarrow> 'v list \<Rightarrow> 'o Logger \<Rightarrow> 'o Logger" where
  "Logger_WarnErrorf E err fmt v l =
     (if isDisabled l TYPE_WARN then l else snd (log_output E 1 err TYPE_WARN (Sprintf E fmt v) l))"

definition Logger_Info :: "('v, 'o) log_env \<Rightarrow> 'v list \<Rightarrow> 'o Logger \<Rightarrow> 'o Logger" where
  "Logger_Info E v l =
     (if isDisabled l TYPE_INFO then l else snd (log_output E 1 None TYPE_INFO (Sprint E v) l))"

definition Logger_Infof :: "('v, 'o) log_env \<Rightarrow> string \<Rightarrow> 'v list \<Rightarrow> 'o Logger \<Rightarrow> 'o Logger" where
  "Logger_Infof E fmt v l =
     (if isDisabled l TYPE_INFO then l else snd (log_output E 1 None TYPE_INFO (Sprintf E fmt v) l))"

definition Logger_InfoError :: "('v, 'o) log_env \<Rightarrow> traced_error option \<Rightarrow> 'v list \<Rightarrow> 'o Logger \<Rightarrow> 'o Logger" where
  "Logger_InfoError E err v l =
     (if isDisabled l TYPE_INFO then l else snd (log_output E 1 err TYPE_INFO (Sprint E v) l))"

definition Logger_InfoErrorf :: "('v, 'o) log_env \<Rightarrow> traced_error option \<Rightarrow> string \<Rightarrow> 'v list \<Rightarrow> 'o Logger \<Rightarrow> 'o Logger" where
  "Logger_InfoErrorf E err fmt v l =
     (if isDisabled l TYPE_INFO then l else snd (log_output E 1 err TYPE_INFO (Sprintf E fmt v) l))"

definition Logger_Debug :: "('v, 'o) log_env \<Rightarrow> 'v list \<Rightarrow> 'o Logger \<Rightarrow> 'o Logger" where
  "Logger_Debug E v l =
     (if isDisabled l TYPE_DEBUG then l else snd (log_output E 1 None TYPE_DEBUG (Sprint E v) l))"

definition Logger_Debugf :: "('v, 'o) log_env \<Rightarrow> string \<Rightarrow> 'v list \<Rightarrow> 'o Logger \<Rightarrow> 'o Logger" where
  "Logger_Debugf E fmt v l =
     (if isDisabled l TYPE_DEBUG then l else snd (log_output E 1 None TYPE_DEBUG (Sprintf E fmt v) l))"

definition Logger_DebugError :: "('v, 'o) log_env \<Rightarrow> traced_error option \<Rightarrow> 'v list \<Rightarrow> 'o Logger \<Rightarrow> 'o Logger" where
  "Logger_DebugError E err v l =
     (if isDisabled l TYPE_DEBUG then l else snd (log_output E 1 err TYPE_DEBUG (Sprint E v) l))"

definition Logger_DebugErrorf :: "('v, 'o) log_env \<Rightarrow> traced_error option \<Rightarrow> string \<Rightarrow> 'v list \<Rightarrow> 'o Logger \<Rightarrow> 'o Logger" where
  "Logger_DebugErrorf E err fmt v l =
     (if isDisabled l TYPE_DEBUG then l else snd (log_output E 1 err TYPE_DEBUG (Sprintf E fmt v) l))"

definition Logger_Print :: "('v, 'o) log_env \<Rightarrow> 'v list \<Rightarrow> 'o Logger \<Rightarrow> 'o Logger" where
  "Logger_Print E v l =
     snd (log_output E 1 None 0 (Sprint E v) l)"

definition Logger_Printf :: "('v, 'o) log_env \<Rightarrow> string \<Rightarrow> 'v list \<Rightarrow> 'o Logger \<Rightarrow> 'o Logger" where
  "Logger_Printf E fmt v l =
     snd (log_output E 1 None 0 (Sprintf E fmt v) l)"

definition Logger_Println :: "('v, 'o) log_env \<Rightarrow> 'v list \<Rightarrow> 'o Logger \<Rightarrow> 'o Logger" where
  "Logger_Println E v l =
     snd (log_output E 1 None 0 (Sprintln E v) l)"

subsection \<open>The functions of the package, on the global logger\<close>

definition log_Flags :: "'o Logger \<Rightarrow> int" where "log_Flags StdLog = lg_flags StdLog"
definition log_Prefix :: "'o Logger \<Rightarrow> string" where "log_Prefix StdLog = lg_prefix StdLog"
definition log_SetFlags :: "int \<Rightarrow> 'o Logger \<Rightarrow> 'o Logger" where "log_SetFlags flags StdLog = StdLog\<lparr>lg_flags := flags\<rparr>"
definition log_SetPrefix :: "string \<Rightarrow> 'o Logger \<Rightarrow> 'o Logger" where "log_SetPrefix prefix StdLog = StdLog\<lparr>lg_prefix := prefix\<rparr>"

definition log_SetLevel :: "LogLevel \<Rightarrow> 'o Logger \<Rightarrow> 'o Logger" where
  "log_SetLevel v StdLog = StdLog\<lparr>lg_level := LogLevel_Set v (lg_level StdLog)\<rparr>"

definition log_SetTrace :: "LogLevel \<Rightarrow> 'o Logger \<Rightarrow> 'o Logger" where
  "log_SetTrace v StdLog = StdLog\<lparr>lg_trace := LogLevel_Set v (lg_trace StdLog)\<rparr>"

definition log_Panic :: "('v, 'o) log_env \<Rightarrow> 'v list \<Rightarrow> 'o Logger \<Rightarrow> 'o Logger + 'o Logger" where
  "log_Panic E v StdLog =
     Inl (snd (log_output E 1 None TYPE_PANIC (Sprint E v) StdLog))"

definition log_Panicf :: "('v, 'o) log_env \<Rightarrow> string \<Rightarrow> 'v list \<Rightarrow> 'o Logger \<Rightarrow> 'o Logger + 'o Logger" where
  "log_Panicf E fmt v StdLog =
     Inl (snd (log_output E 1 None TYPE_PANIC (Sprintf E fmt v) StdLog))"

definition log_PanicError :: "('v, 'o) log_env \<Rightarrow> traced_error option \<Rightarrow> 'v list \<Rightarrow> 'o Logger \<Rightarrow> 'o Logger + 'o Logger" where
  "log_PanicError E err v StdLog =
     Inl (snd (log_output E 1 err TYPE_PANIC (Sprint E v) StdLog))"

definition log_PanicErrorf :: "('v, 'o) log_env \<Rightarrow> traced_error option \<Rightarrow> string \<Rightarrow> 'v list \<Rightarrow> 'o Logger \<Rightarrow> 'o Logger + 'o Logger" where
  "log_PanicErrorf E err fmt v StdLog =
     Inl (snd (log_output E 1 err TYPE_PANIC (Sprintf E fmt v) StdLog))"

definition log_Error :: "('v, 'o) log_env \<Rightarrow> 'v list \<Rightarrow> 'o Logger \<Rightarrow> 'o Logger" where
  "log_Error E v StdLog =
     (if isDisabled StdLog TYPE_ERROR then StdLog else snd (log_output E 1 None TYPE_ERROR (Sprint E v) StdLog))"

definition log_Errorf :: "('v, 'o) log_env \<Rightarrow> string \<Rightarrow> 'v list \<Rightarrow> 'o Logger \<Rightarrow> 'o Logger" where
  "log_Errorf E fmt v StdLog =
     (if isDisabled StdLog TYPE_ERROR then StdLog else snd (log_output E 1 None TYPE_ERROR (Sprintf E fmt v) StdLog))"

definition log_ErrorError :: "('v, 'o) log_env \<Rightarrow> traced_error option \<Rightarrow> 'v list \<Rightarrow> 'o Logger \<Rightarrow> 'o Logger" where
  "log_ErrorError E err v StdLog =
     (if isDisabled StdLog TYPE_ERROR then StdLog else snd (log_output E 1 err TYPE_ERROR (Sprint E v) StdLog))"

definition log_ErrorErrorf :: "('v, 'o) log_env \<Rightarrow> traced_error option \<Rightarrow> string \<Rightarrow> 'v list \<Rightarrow> 'o Logger \<Rightarrow> 'o Logger" where
  "log_ErrorErrorf E err fmt v StdLog =
     (if isDisabled StdLog TYPE_ERROR then StdLog else snd (log_output E 1 err TYPE_ERROR (Sprintf E fmt v) StdLog))"

definition log_Warn :: "('v, 'o) log_env \<Rightarrow> 'v list \<Rightarrow> 'o Logger \<Rightarrow> 'o Logger" where
  "log_Warn E v StdLog =
     (if isDisabled StdLog TYPE_WARN then StdLog else snd (log_output E 1 None TYPE_WARN (Sprint E v) StdLog))"

definition log_Warnf :: "('v, 'o) log_env \<Rightarrow> string \<Rightarrow> 'v list \<Rightarrow> 'o Logger \<Rightarrow> 'o Logger" where
  "log_Warnf E fmt v StdLog =
     (if isDisabled StdLog TYPE_WARN then StdLog else snd (log_output E 1 None TYPE_WARN (Sprintf E fmt v) StdLog))"

definition log_WarnError :: "('v, 'o) log_env \<Rightarrow> traced_error option \<Rightarrow> 'v list \<Rightarrow> 'o Logger \<Rightarrow> 'o Logger" where
  "log_WarnError E err v StdLog =
     (if isDisabled StdLog TYPE_WARN then StdLog else snd (log_output E 1 err TYPE_WARN (Sprint E v) StdLog))"

definition log_WarnErrorf :: "('v, 'o) log_env \<Rightarrow> traced_error option \<Rightarrow> string \<Rightarrow> 'v list \<Rightarrow> 'o Logger \<Rightarrow> 'o Logger" where
  "log_WarnErrorf E err fmt v StdLog =
     (if isDisabled StdLog TYPE_WARN then StdLog else snd (log_output E 1 err TYPE_WARN (Sprintf E fmt v) StdLog))"

definition log_Info :: "('v, 'o) log_env \<Rightarrow> 'v list \<Rightarrow> 'o Logger \<Rightarrow> 'o Logger" where
  "log_Info E v StdLog =
     (if isDisabled StdLog TYPE_INFO then StdLog else snd (log_output E 1 None TYPE_INFO (Sprint E v) StdLog))"

definition log_Infof :: "('v, 'o) log_env \<Rightarrow> string \<Rightarrow> 'v list \<Rightarrow> 'o Logger \<Rightarrow> 'o Logger" where
  "log_Infof E fmt v StdLog =
     (if isDisabled StdLog TYPE_INFO then StdLog else snd (log_output E 1 None TYPE_INFO (Sprintf E fmt v) StdLog))"

definition log_InfoError :: "('v, 'o) log_env \<Rightarrow> traced_error option \<Rightarrow> 'v list \<Rightarrow> 'o Logger \<Rightarrow> 'o Logger" where
  "log_InfoError E err v StdLog =
     (if isDisabled StdLog TYPE_INFO then StdLog else snd (log_output E 1 err TYPE_INFO (Sprint E v) StdLog))"

definition log_InfoErrorf :: "('v, 'o) log_env \<Rightarrow> traced_error option \<Rightarrow> string \<Rightarrow> 'v list \<Rightarrow> 'o Logger \<Rightarrow> 'o Logger" where
  "log_InfoErrorf E err fmt v StdLog =
     (if isDisabled StdLog TYPE_INFO then StdLog else snd (log_output E 1 err TYPE_INFO (Sprintf E fmt v) StdLog))"

definition log_Debug :: "('v, 'o) log_env \<Rightarrow> 'v list \<Rightarrow> 'o Logger \<Rightarrow> 'o Logger" where
  "log_Debug E v StdLog =
     (if isDisabled StdLog TYPE_DEBUG then StdLog else snd (log_output E 1 None TYPE_DEBUG (Sprint E v) StdLog))"

definition log_Debugf :: "('v, 'o) log_env \<Rightarrow> string \<Rightarrow> 'v list \<Rightarrow> 'o Logger \<Rightarrow> 'o Logger" where
  "log_Debugf E fmt v StdLog =
     (if isDisabled StdLog TYPE_DEBUG then StdLog else snd (log_output E 1 None TYPE_DEBUG (Sprintf E fmt v) StdLog))"

definition log_DebugError :: "('v, 'o) log_env \<Rightarrow> traced_error option \<Rightarrow> 'v list \<Rightarrow> 'o Logger \<Rightarrow> 'o Logger" where
  "log_DebugError E err v StdLog =
     (if isDisabled StdLog TYPE_DEBUG then StdLog else snd (log_output E 1 err TYPE_DEBUG (Sprint E v) StdLog))"

definition log_DebugErrorf :: "('v, 'o) log_env \<Rightarrow> traced_error option \<Rightarrow> string \<Rightarrow> 'v list \<Rightarrow> 'o Logger \<Rightarrow> 'o Logger" where
  "log_DebugErrorf E err fmt v StdLog =
     (if isDisabled StdLog TYPE_DEBUG then StdLog else snd (log_output E 1 err TYPE_DEBUG (Sprintf E fmt v) StdLog))"

definition log_Print :: "('v, 'o) log_env \<Rightarrow> 'v list \<Rightarrow> 'o Logger \<Rightarrow> 'o Logger" where
  "log_Print E v StdLog =
     snd (log_output E 1 None 0 (Sprint E v) StdLog)"

definition log_Printf :: "('v, 'o) log_env \<Rightarrow> string \<Rightarrow> 'v list \<Rightarrow> 'o Logger \<Rightarrow> 'o Logger" where
  "log_Printf E fmt v StdLog =
     snd (log_output E 1 None 0 (Sprintf E fmt v) StdLog)"

definition log_Println :: "('v, 'o) log_env \<Rightarrow> 'v list \<Rightarrow> 'o Logger \<Rightarrow> 'o Logger" where
  "log_Println E v StdLog =
     snd (log_output E 1 None 0 (Sprintln E v) StdLog)"

lemmas logger_defs = Logger_Panic_def Logger_Panicf_def Logger_PanicError_def Logger_PanicErrorf_def Logger_Error_def Logger_Errorf_def Logger_ErrorError_def Logger_ErrorErrorf_def Logger_Warn_def Logger_Warnf_def Logger_WarnError_def Logger_WarnErrorf_def Logger_Info_def Logger_Infof_def Logger_InfoError_def Logger_InfoErrorf_def Logger_Debug_def Logger_Debugf_def Logger_DebugError_def Logger_DebugErrorf_def Logger_Print_def Logger_Printf_def Logger_Println_def

lemmas log_defs = log_Panic_def log_Panicf_def log_PanicError_def log_PanicErrorf_def log_Error_def log_Errorf_def log_ErrorError_def log_ErrorErrorf_def log_Warn_def log_Warnf_def log_WarnError_def log_WarnErrorf_def log_Info_def log_Infof_def log_InfoError_def log_InfoErrorf_def log_Debug_def log_Debugf_def log_DebugError_def log_DebugErrorf_def log_Print_def log_Printf_def log_Println_def

text \<open>The functions of the package are the methods of the global logger.\<close>

lemma log_is_Logger:
  "log_Panic = Logger_Panic"
  "log_Panicf = Logger_Panicf"
  "log_PanicError = Logger_PanicError"
  "log_PanicErrorf = Logger_PanicErrorf"
  "log_Error = Logger_Error"
  "log_Errorf = Logger_Errorf"
  "log_ErrorError = Logger_ErrorError"
  "log_ErrorErrorf = Logger_ErrorErrorf"
  "log_Warn = Logger_Warn"
  "log_Warnf = Logger_Warnf"
  "log_WarnError = Logger_WarnError"
  "log_WarnErrorf = Logger_WarnErrorf"
  "log_Info = Logger_Info"
  "log_Infof = Logger_Infof"
  "log_InfoError = Logger_InfoError"
  "log_InfoErrorf = Logger_InfoErrorf"
  "log_Debug = Logger_Debug"
  "log_Debugf = Logger_Debugf"
  "log_DebugError = Logger_DebugError"
  "log_DebugErrorf = Logger_DebugErrorf"
  "log_Print = Logger_Print"
  "log_Printf = Logger_Printf"
  "log_Println = Logger_Println"
  by (simp_all only: fun_eq_iff logger_defs log_defs simp_thms)

subsection \<open>Assertions\<close>

definition assert_Must :: "('v, 'o) log_env \<Rightarrow> 'v \<Rightarrow> bool \<Rightarrow> 'o Logger \<Rightarrow> 'o Logger + 'o Logger" where
  "assert_Must E msg b StdLog = (if b then Inr StdLog else log_Panic E [msg] StdLog)"

definition assert_MustNoError :: "('v, 'o) log_env \<Rightarrow> 'v \<Rightarrow> traced_error option \<Rightarrow> 'o Logger \<Rightarrow> 'o Logger + 'o Logger" where
  "assert_MustNoError E msg err StdLog = (if err = None then Inr StdLog else log_PanicError E err [msg] StdLog)"

subsection \<open>Setting the level by name\<close>

definition char_lower :: "char \<Rightarrow> char" where
  "char_lower c = (if 65 \<le> (of_char c :: nat) \<and> (of_char c :: nat) \<le> 90 then char_of (of_char c + 32 :: nat) else c)"

text \<open>\<open>strings.ToLower\<close>; only ASCII names are compared with the result. \<open>lv\<close> is the level as a Go value.\<close>

definition ToLower :: "string \<Rightarrow> string" where
  "ToLower s = map char_lower s"

definition level_of_name :: "string \<Rightarrow> LogLevel" where
  "level_of_name level =
     (let s = ToLower level in
      if s = ''error'' then LEVEL_ERROR
      else if s = ''warn'' \<or> s = ''warning'' then LEVEL_WARN
      else if s = ''debug'' then LEVEL_DEBUG
      else LEVEL_INFO)"

definition SetLogLevel :: "('v, 'o) log_env \<Rightarrow> (LogLevel \<Rightarrow> 'v) \<Rightarrow> string \<Rightarrow> 'o Logger \<Rightarrow> 'o Logger" where
  "SetLogLevel E lv level StdLog =
     log_Infof E ''set log level to %s'' [lv (level_of_name level)] (log_SetLevel (level_of_name level) StdLog)"

subsection \<open>What is written\<close>

lemma level_tests [simp]:
  "LogLevel_Test LEVEL_ERROR TYPE_ERROR" "\<not> LogLevel_Test LEVEL_ERROR TYPE_WARN" "\<not> LogLevel_Test LEVEL_ERROR TYPE_INFO"
  "\<not> LogLevel_Test LEVEL_ERROR TYPE_DEBUG" "LogLevel_Test LEVEL_WARN TYPE_ERROR" "LogLevel_Test LEVEL_WARN TYPE_WARN"
  "\<not> LogLevel_Test LEVEL_WARN TYPE_INFO" "\<not> LogLevel_Test LEVEL_WARN TYPE_DEBUG" "LogLevel_Test LEVEL_INFO TYPE_ERROR"
  "LogLevel_Test LEVEL_INFO TYPE_WARN" "LogLevel_Test LEVEL_INFO TYPE_INFO" "\<not> LogLevel_Test LEVEL_INFO TYPE_DEBUG"
  "LogLevel_Test LEVEL_DEBUG TYPE_ERROR" "LogLevel_Test LEVEL_DEBUG TYPE_WARN" "LogLevel_Test LEVEL_DEBUG TYPE_INFO"
  "LogLevel_Test LEVEL_DEBUG TYPE_DEBUG" "\<not> LogLevel_Test LEVEL_NONE t"
  by (simp_all add: LogLevel_Test_def log_consts)

lemma types_not_panic [simp]:
  "TYPE_ERROR \<noteq> TYPE_PANIC" "TYPE_WARN \<noteq> TYPE_PANIC" "TYPE_INFO \<noteq> TYPE_PANIC" "TYPE_DEBUG \<noteq> TYPE_PANIC"
  by (simp_all add: log_consts)

text \<open>The severities in order, for the levels and the types.\<close>

definition severity :: "LogType \<Rightarrow> nat" where
  "severity t = (if t = TYPE_ERROR then 1 else if t = TYPE_WARN then 2 else if t = TYPE_INFO then 3 else 4)"

definition level_rank :: "string \<Rightarrow> nat" where
  "level_rank level = (let s = ToLower level in if s = ''error'' then 1 else if s = ''warn'' \<or> s = ''warning'' then 2
     else if s = ''debug'' then 4 else 3)"

lemma SetLogLevel_level: "lg_level (SetLogLevel E lv level l) = level_of_name level"
  by (simp add: SetLogLevel_def log_Infof_def log_output_def log_SetLevel_def LogLevel_Set_def split: prod.splits)

text \<open>After \<open>SetLogLevel\<close> a message passes exactly if it is at least as severe as the named level; panics always do.\<close>

lemma SetLogLevel_filters:
  assumes "t \<in> {TYPE_ERROR, TYPE_WARN, TYPE_INFO, TYPE_DEBUG}"
  shows "isDisabled (SetLogLevel E lv level l) t \<longleftrightarrow> severity t > level_rank level"
    "\<not> isDisabled (SetLogLevel E lv level l) TYPE_PANIC"
proof -
  have "LogLevel_Test (level_of_name level) t \<longleftrightarrow> severity t \<le> level_rank level"
    using assms by (auto simp: level_of_name_def level_rank_def severity_def Let_def TYPE_ERROR_def TYPE_WARN_def
        TYPE_INFO_def TYPE_DEBUG_def LogLevel_Test_def LEVEL_ERROR_def LEVEL_WARN_def LEVEL_INFO_def LEVEL_DEBUG_def)
  then show "isDisabled (SetLogLevel E lv level l) t \<longleftrightarrow> severity t > level_rank level"
    using assms by (auto simp: isDisabled_def SetLogLevel_level)
  show "\<not> isDisabled (SetLogLevel E lv level l) TYPE_PANIC" by (simp add: isDisabled_def)
qed

text \<open>Every text ends with a newline, so messages do not run together.\<close>

lemma StringWithIndent_end: "st \<noteq> [] \<Longrightarrow> \<exists>s. StringWithIndent st n = s @ [CHR 0x0A]"
  by (simp add: StringWithIndent_def)

lemma output_text_newline: "\<exists>s. output_text E l k err t msg = s @ [CHR 0x0A]"
proof -
  define stack where "stack = (if isTraceEnabled l t then TraceN (le_frames E) (k + 1) 32 else [])"
  define body where "body = LogType_String t @ '' '' @ msg
      @ (if length msg = 0 \<or> msg ! (length msg - 1) \<noteq> CHR 0x0A then [CHR 0x0A] else [])"
  define e where "e = (case err of None \<Rightarrow> [] | Some e \<Rightarrow> ''[error]: '' @ Error_text e @ [CHR 0x0A]
      @ (case errors_Stack (Some e) of None \<Rightarrow> [] | Some st \<Rightarrow> StringWithIndent st 1))"
  have t: "output_text E l k err t msg = body @ e
      @ (if length stack \<noteq> 0 then ''[stack]: '' @ [CHR 0x0A] @ StringWithIndent stack 1 else [])"
    by (simp add: output_text_def Let_def stack_def body_def e_def)
  have b: "\<exists>s. body = s @ [CHR 0x0A]"
    by (cases msg rule: rev_cases) (auto simp: body_def nth_append)
  have "e = [] \<or> (\<exists>s. e = s @ [CHR 0x0A])"
  proof (cases err)
    case x: (Some x)
    show ?thesis
    proof (cases "errors_Stack (Some x)")
      case (Some st)
      then show ?thesis using x StringWithIndent_end [of st 1]
        by (cases "st = []") (auto simp: e_def StringWithIndent_def)
    qed (simp add: e_def x)
  qed (simp add: e_def)
  then show ?thesis using b StringWithIndent_end [of stack 1] unfolding t
    by (cases "stack = []") (auto simp flip: append_assoc)
qed

end
