(* ===== verification/Log_Files.thy ===== *)
theory Log_Files
  imports Go_Log Go_Path
begin

text \<open>
  \<open>utils/log/rolling.go\<close>: a log file for each day, with old files deleted as days pass, on the part
  of Go's calendar that it uses. A point in time is the number of seconds since the first of
  January of year 1 on the clock of the machine, whose zone has a fixed offset. The file system
  maps names to contents; whether a file can be opened and a write succeeds is up to it.
\<close>

subsection \<open>The calendar\<close>

definition leap :: "nat \<Rightarrow> bool" where
  "leap y \<longleftrightarrow> y mod 4 = 0 \<and> (y mod 100 \<noteq> 0 \<or> y mod 400 = 0)"

definition days_in_month :: "nat \<Rightarrow> nat \<Rightarrow> nat" where
  "days_in_month y m = (if m = 2 then (if leap y then 29 else 28) else if m \<in> {4, 6, 9, 11} then 30 else 31)"

definition days_in_year :: "nat \<Rightarrow> nat" where
  "days_in_year y = (if leap y then 366 else 365)"

function month_from :: "nat \<Rightarrow> nat \<Rightarrow> nat \<Rightarrow> nat \<times> nat \<times> nat" where
  "month_from y m n = (if m \<ge> 12 \<or> n < days_in_month y m then (y, m, Suc n) else month_from y (Suc m) (n - days_in_month y m))"
  by auto

termination by (relation "measure (\<lambda>(y, m, n). 12 - m)") auto

declare month_from.simps [simp del]

function date_from :: "nat \<Rightarrow> nat \<Rightarrow> nat \<times> nat \<times> nat" where
  "date_from y n = (if n < days_in_year y then month_from y 1 n else date_from (Suc y) (n - days_in_year y))"
  by auto

termination by (relation "measure snd") (auto simp: days_in_year_def)

declare date_from.simps [simp del]

definition day_secs :: nat where
  "day_secs = 86400"

definition day_of :: "nat \<Rightarrow> nat" where
  "day_of t = t div day_secs"

text \<open>\<open>Time.Date\<close>, \<open>time.Date\<close> at midnight, \<open>AddDate(0, 0, n)\<close> and \<open>AddDate(0, 0, -n)\<close>.\<close>

definition time_Date :: "nat \<Rightarrow> nat \<times> nat \<times> nat" where
  "time_Date t = date_from 1 (day_of t)"

fun days_before :: "nat \<times> nat \<times> nat \<Rightarrow> nat" where
  "days_before (y, m, d) = (\<Sum>k = 1 ..< y. days_in_year k) + (\<Sum>j = 1 ..< m. days_in_month y j) + (d - 1)"

definition time_midnight :: "nat \<times> nat \<times> nat \<Rightarrow> nat" where
  "time_midnight date = days_before date * day_secs"

definition time_AddDays :: "nat \<Rightarrow> nat \<Rightarrow> nat" where
  "time_AddDays t n = t + n * day_secs"

definition time_SubDays :: "nat \<Rightarrow> nat \<Rightarrow> nat" where
  "time_SubDays t n = t - n * day_secs"

text \<open>\<open>Format("20060102")\<close>\<close>

definition format_date :: "nat \<times> nat \<times> nat \<Rightarrow> string" where
  "format_date date = (case date of (y, m, d) \<Rightarrow> pad 4 y @ pad 2 m @ pad 2 d)"

lemma days_before_month_from:
  assumes "1 \<le> m"
  shows "days_before (month_from y m n) = (\<Sum>k = 1 ..< y. days_in_year k) + (\<Sum>j = 1 ..< m. days_in_month y j) + n"
  using assms
proof (induction y m n rule: month_from.induct)
  case (1 y m n)
  then show ?case by (cases "m \<ge> 12 \<or> n < days_in_month y m") (simp_all add: month_from.simps [of y m n])
qed

lemma days_before_date_from:
  assumes "1 \<le> y"
  shows "days_before (date_from y n) = (\<Sum>k = 1 ..< y. days_in_year k) + n"
  using assms
proof (induction y n rule: date_from.induct)
  case (1 y n)
  then show ?case
    by (cases "n < days_in_year y") (simp_all add: date_from.simps [of y n] days_before_month_from)
qed

lemma days_before_Date [simp]: "days_before (time_Date t) = day_of t"
  by (simp add: time_Date_def days_before_date_from)

lemma midnight: "time_midnight (time_Date t) = day_of t * day_secs" "time_midnight (time_Date t) \<le> t"
  "t < time_AddDays (time_midnight (time_Date t)) 1"
  by (simp_all add: time_midnight_def time_AddDays_def day_of_def day_secs_def)

text \<open>Months and days of the calendar have two digits.\<close>

lemma month_from_range:
  assumes "1 \<le> m" "m \<le> 12" "n < (\<Sum>j = m .. 12. days_in_month y j)"
  shows "case month_from y m n of (y', m', d) \<Rightarrow> m' \<le> 12 \<and> d \<le> 31"
  using assms
proof (induction y m n rule: month_from.induct)
  case (1 y m n)
  have dm: "days_in_month y k \<le> 31" for k by (simp add: days_in_month_def)
  show ?case
  proof (cases "n < days_in_month y m")
    case True
    then show ?thesis using 1(3) dm [of m] by (simp add: month_from.simps [of y m n])
  next
    case False
    then have m: "m < 12" using 1(3,4) by (cases "m = 12") auto
    then have "(\<Sum>j = m .. 12. days_in_month y j) = days_in_month y m + (\<Sum>j = Suc m .. 12. days_in_month y j)"
      by (simp add: sum.atLeast_Suc_atMost)
    then have "n - days_in_month y m < (\<Sum>j = Suc m .. 12. days_in_month y j)" using False 1(4) by simp
    then show ?thesis using 1(1) False m 1(2) by (simp add: month_from.simps [of y m n])
  qed
qed

lemma date_range: "case date_from y n of (y', m, d) \<Rightarrow> m \<le> 12 \<and> d \<le> 31"
proof (induction y n rule: date_from.induct)
  case (1 y n)
  have "(\<Sum>j = 1 .. 12. days_in_month y j) = days_in_year y"
    by (simp add: days_in_month_def days_in_year_def numeral_eq_Suc)
  then show ?case using 1 month_from_range [of 1 n y] by (cases "n < days_in_year y") (simp_all add: date_from.simps [of y n])
qed

text \<open>Padded numbers can be read back, so different days have different names.\<close>

definition dec_value :: "string \<Rightarrow> nat" where
  "dec_value s = foldl (\<lambda>a c. a * 10 + (of_char c - 48)) 0 s"

lemma dec_value_digits: "dec_value (dec_digits n) = n"
proof (induction n rule: dec_digits.induct)
  case (1 n)
  then show ?case by (cases "n < 10") (simp_all add: dec_digits.simps [of n] dec_value_def)
qed

lemma dec_value_pad [simp]: "dec_value (pad k n) = n"
proof -
  have "foldl (\<lambda>a c. a * 10 + (of_char c - 48)) 0 (replicate j CHR ''0'') = (0 :: nat)" for j
    by (induction j) simp_all
  then show ?thesis using dec_value_digits [of n] by (simp add: pad_def dec_value_def)
qed

lemma length_pad_2: "n < 100 \<Longrightarrow> length (pad 2 n) = 2"
proof -
  assume "n < 100"
  then have "n div 10 < 10" by simp
  then show ?thesis by (simp add: pad_def dec_digits.simps [of n] dec_digits.simps [of "n div 10"])
qed

lemma format_date_inj:
  assumes "format_date (y, m, d) = format_date (y', m', d')" "m < 100" "d < 100" "m' < 100" "d' < 100"
  shows "(y, m, d) = (y', m', d')"
proof -
  have "pad 4 y @ (pad 2 m @ pad 2 d) = pad 4 y' @ (pad 2 m' @ pad 2 d')" using assms(1) by (simp add: format_date_def)
  moreover have "length (pad 2 m @ pad 2 d) = length (pad 2 m' @ pad 2 d')" using assms by (simp add: length_pad_2)
  ultimately have "pad 4 y = pad 4 y'" "pad 2 m @ pad 2 d = pad 2 m' @ pad 2 d'" using append_eq_append_conv by metis+
  moreover from this(2) have "pad 2 m = pad 2 m'" "pad 2 d = pad 2 d'" using assms by (simp_all add: length_pad_2)
  ultimately show ?thesis using dec_value_pad by metis
qed

lemma format_day_inj:
  assumes "format_date (time_Date t) = format_date (time_Date t')"
  shows "day_of t = day_of t'"
proof -
  obtain y m d y' m' d' where d: "time_Date t = (y, m, d)" "time_Date t' = (y', m', d')" by (metis prod_cases3)
  then have "m \<le> 12" "d \<le> 31" "m' \<le> 12" "d' \<le> 31"
    using date_range [of 1 "day_of t"] date_range [of 1 "day_of t'"] by (simp_all add: time_Date_def)
  then have "time_Date t = time_Date t'" using assms d format_date_inj [of y m d y' m' d'] by simp
  then show ?thesis using days_before_Date [of t] days_before_Date [of t'] by simp
qed

subsection \<open>Files by day\<close>

type_synonym files = "string \<Rightarrow> byte list option"

record rollingFile =
  rf_logKeepDays :: nat
  rf_basePath :: string
  rf_file :: "string option"
  rf_filePath :: string
  rf_nextStartOfDate :: nat
  rf_closed :: bool

definition nextStartOfDay :: "nat \<Rightarrow> nat" where
  "nextStartOfDay t = time_AddDays (time_midnight (time_Date t)) 1"

text \<open>The same functions of \<open>utils/utils.go\<close>.\<close>

definition StartOfDay :: "nat \<Rightarrow> nat" where
  "StartOfDay t = time_midnight (time_Date t)"

definition NextStartOfDay :: "nat \<Rightarrow> nat" where
  "NextStartOfDay t = time_AddDays (time_midnight (time_Date t)) 1"

lemma StartOfDay_bounds: "StartOfDay t \<le> t" "t < NextStartOfDay t" "StartOfDay (NextStartOfDay t) = NextStartOfDay t"
proof -
  show "StartOfDay t \<le> t" by (simp add: StartOfDay_def midnight(2))
  show "t < NextStartOfDay t" unfolding NextStartOfDay_def by (rule midnight(3))
  have "day_of (day_of t * day_secs + day_secs) = day_of t + 1" by (simp add: day_of_def day_secs_def)
  then show "StartOfDay (NextStartOfDay t) = NextStartOfDay t"
    by (simp add: StartOfDay_def NextStartOfDay_def midnight(1) time_AddDays_def)
qed

definition NewRollingFile :: "bool \<Rightarrow> runtime_frames \<Rightarrow> nat \<Rightarrow> string \<Rightarrow> int \<Rightarrow> traced_error + rollingFile" where
  "NewRollingFile traced frames now basePath logKeepDays =
     (if logKeepDays \<le> 0 then Inl (errors_Errorf traced frames (''invalid max file-frag = '' @ fmt_d logKeepDays))
      else if snd (path_Split basePath) = []
      then Inl (errors_Errorf traced frames (''invalid base-path = '' @ basePath @ '', file name is required''))
      else Inr \<lparr>rf_logKeepDays = nat logKeepDays, rf_basePath = basePath, rf_file = None, rf_filePath = [],
                rf_nextStartOfDate = nextStartOfDay now, rf_closed = False\<rparr>)"

definition ErrClosedRollingFile :: traced_error where
  "ErrClosedRollingFile = errors_New ''rolling file is closed''"

definition day_file :: "string \<Rightarrow> nat \<Rightarrow> string" where
  "day_file basePath t = basePath @ ''-'' @ format_date (time_Date t)"

text \<open>The loop that deletes the files of four days; \<open>i\<close> counts from \<open>logKeepDays\<close>.\<close>

fun purge :: "string \<Rightarrow> nat \<Rightarrow> nat list \<Rightarrow> files \<Rightarrow> files" where
  "purge basePath now [] fs = fs"
| "purge basePath now (i # is) fs =
     (let filePath = day_file basePath (time_SubDays now i) in
      purge basePath now is (if fs filePath \<noteq> None then fs(filePath := None) else fs))"

text \<open>
  \<open>roll\<close> reads the clock twice: \<open>now\<close> to see whether the day has changed, \<open>now'\<close> for the name of the
  file. \<open>open_err\<close> is the error of \<open>os.OpenFile\<close> for a name, if any; opening creates a missing file.
\<close>

definition roll :: "bool \<Rightarrow> runtime_frames \<Rightarrow> (string \<Rightarrow> go_error option) \<Rightarrow> nat \<Rightarrow> nat \<Rightarrow> rollingFile \<Rightarrow> files \<Rightarrow>
    traced_error option \<times> rollingFile \<times> files" where
  "roll traced frames open_err now now' r fs =
     (if rf_file r \<noteq> None \<and> now < rf_nextStartOfDate r then (None, r, fs)
      else
        let (r1, fs1) = (if rf_file r \<noteq> None
              then (r\<lparr>rf_file := None, rf_nextStartOfDate := nextStartOfDay now\<rparr>,
                    purge (rf_basePath r) now [rf_logKeepDays r ..< rf_logKeepDays r + 4] fs)
              else (r, fs));
            p = day_file (rf_basePath r) now';
            r2 = r1\<lparr>rf_filePath := p\<rparr> in
        case open_err p of
          Some e \<Rightarrow> (errors_Trace traced frames (Some (Plain e)), r2, fs1)
        | None \<Rightarrow> (None, r2\<lparr>rf_file := Some p\<rparr>, if fs1 p = None then fs1(p := Some []) else fs1))"

text \<open>\<open>write_err\<close> is what the file accepts of the bytes before an error, if it fails.\<close>

definition rollingFile_Write :: "bool \<Rightarrow> runtime_frames \<Rightarrow> (string \<Rightarrow> go_error option) \<Rightarrow> (nat \<times> go_error) option \<Rightarrow>
    nat \<Rightarrow> nat \<Rightarrow> byte list \<Rightarrow> rollingFile \<Rightarrow> files \<Rightarrow> (nat \<times> traced_error option \<times> rollingFile \<times> files) outcome" where
  "rollingFile_Write traced frames open_err write_err now now' b r fs =
     (if rf_closed r then Ret (0, errors_Trace traced frames (Some ErrClosedRollingFile), r, fs)
      else case roll traced frames open_err now now' r fs of
             (Some e, r1, fs1) \<Rightarrow> Ret (0, Some e, r1, fs1)
           | (None, r1, fs1) \<Rightarrow>
               (case rf_file r1 of
                  None \<Rightarrow> Panic NilDereference
                | Some p \<Rightarrow>
                    let old = (case fs1 p of Some c \<Rightarrow> c | None \<Rightarrow> []) in
                    (case write_err of
                       Some (n, e) \<Rightarrow> Ret (min n (length b), errors_Trace traced frames (Some (Plain e)), r1,
                                           fs1(p := Some (old @ take n b)))
                     | None \<Rightarrow> Ret (length b, None, r1, fs1(p := Some (old @ b))))))"

definition rollingFile_Close :: "bool \<Rightarrow> runtime_frames \<Rightarrow> go_error option \<Rightarrow> rollingFile \<Rightarrow> traced_error option \<times> rollingFile" where
  "rollingFile_Close traced frames close_err r =
     (if rf_closed r then (None, r)
      else if rf_file r \<noteq> None
      then (errors_Trace traced frames (map_option Plain close_err), r\<lparr>rf_closed := True, rf_file := None\<rparr>)
      else (None, r\<lparr>rf_closed := True\<rparr>))"

subsection \<open>What a day's log holds\<close>

lemma day_file_eq: "day_file b t = day_file b t' \<longleftrightarrow> day_of t = day_of t'"
  using format_day_inj by (auto simp: day_file_def time_Date_def)

lemma day_of_SubDays: "n \<le> day_of t \<Longrightarrow> day_of (time_SubDays t n) = day_of t - n"
proof -
  assume "n \<le> day_of t"
  then have "t - n * day_secs = t mod day_secs + (day_of t - n) * day_secs"
    using div_mult_mod_eq [of t day_secs] mult_le_mono1 [of n "day_of t" day_secs]
    by (simp add: day_of_def diff_mult_distrib)
  then show ?thesis by (simp add: day_of_def time_SubDays_def day_secs_def)
qed

lemma nextStartOfDay_eq: "nextStartOfDay t = (day_of t + 1) * day_secs"
  by (simp add: nextStartOfDay_def time_AddDays_def midnight)

lemma nextStartOfDay_mono: "t \<le> t' \<Longrightarrow> nextStartOfDay t \<le> nextStartOfDay t'"
  by (simp add: nextStartOfDay_eq day_of_def div_le_mono)

lemma before_next_day: "t' \<le> t \<Longrightarrow> t < nextStartOfDay t' \<Longrightarrow> day_of t = day_of t'"
  using less_mult_imp_div_less [of t "day_of t' + 1" day_secs] div_le_mono [of t' t day_secs]
  by (simp add: nextStartOfDay_eq day_of_def)

lemma purge_eq:
  "purge b now is fs p = (if \<exists>i \<in> set is. p = day_file b (time_SubDays now i) then None else fs p)"
  by (induction "is" arbitrary: fs) (auto simp: Let_def)

text \<open>The files of the days that are kept are not among those deleted.\<close>

lemma purge_keeps:
  assumes "keep + 3 \<le> day_of now" and "day_of now < day_of t + keep"
  shows "purge b now [keep ..< keep + 4] fs (day_file b t) = fs (day_file b t)"
proof -
  have "day_of t \<noteq> day_of (time_SubDays now i)" if "i \<in> {keep ..< keep + 4}" for i
  proof -
    have "day_of (time_SubDays now i) = day_of now - i" using that assms(1) by (intro day_of_SubDays) auto
    then show ?thesis using that assms by auto
  qed
  then show ?thesis by (auto simp: purge_eq day_file_eq)
qed

text \<open>The file that is open is that of a day which has not ended before \<open>rf_nextStartOfDate\<close>.\<close>

definition rf_inv :: "rollingFile \<Rightarrow> nat \<Rightarrow> bool" where
  "rf_inv r t \<longleftrightarrow> rf_logKeepDays r \<ge> 1 \<and> rf_nextStartOfDate r \<le> nextStartOfDay t
     \<and> (\<forall>p. rf_file r = Some p \<longrightarrow>
          (\<exists>t' \<le> t. p = day_file (rf_basePath r) t' \<and> rf_nextStartOfDate r \<le> nextStartOfDay t'))"

lemma NewRollingFile_inv: "NewRollingFile traced frames now b k = Inr r \<Longrightarrow> rf_inv r now \<and> \<not> rf_closed r"
  by (auto simp: NewRollingFile_def rf_inv_def split: if_splits)

lemma rf_inv_mono: "rf_inv r t \<Longrightarrow> t \<le> t' \<Longrightarrow> rf_inv r t'"
  unfolding rf_inv_def by (meson le_trans nextStartOfDay_mono)

lemma rf_inv_open:
  assumes "rf_logKeepDays r \<ge> 1" "rf_nextStartOfDate r \<le> nextStartOfDay now" "rf_file r = Some (day_file (rf_basePath r) now)"
  shows "rf_inv r now"
  using assms by (auto simp: rf_inv_def)

lemma open_is_today:
  assumes "rf_inv r t" "t \<le> now" "now < rf_nextStartOfDate r" "rf_file r \<noteq> None"
  shows "rf_file r = Some (day_file (rf_basePath r) now)"
proof -
  obtain t' where t': "t' \<le> t" "rf_file r = Some (day_file (rf_basePath r) t')" "rf_nextStartOfDate r \<le> nextStartOfDay t'"
    using assms(1,4) by (auto simp: rf_inv_def)
  then have "day_of now = day_of t'" using assms(2,3) by (intro before_next_day) simp_all
  then show ?thesis using t'(2) by (simp add: day_file_eq)
qed

text \<open>The state after a roll that opens the file of the day.\<close>

definition rolled :: "nat \<Rightarrow> rollingFile \<Rightarrow> rollingFile" where
  "rolled now r = (let p = day_file (rf_basePath r) now in
     r\<lparr>rf_filePath := p, rf_file := Some p,
       rf_nextStartOfDate := (if rf_file r = None then rf_nextStartOfDate r else nextStartOfDay now)\<rparr>)"

lemma roll_cases:
  fixes fs :: files and r :: rollingFile and now :: nat
  assumes "day_of now' = day_of now" "open_err (day_file (rf_basePath r) now) = None"
  defines "p \<equiv> day_file (rf_basePath r) now"
  defines "fs1 \<equiv> (if rf_file r = None then fs else purge (rf_basePath r) now [rf_logKeepDays r ..< rf_logKeepDays r + 4] fs)"
  shows "roll traced frames open_err now now' r fs =
    (if rf_file r \<noteq> None \<and> now < rf_nextStartOfDate r then (None, r, fs)
     else (None, rolled now r, if fs1 p = None then fs1(p := Some []) else fs1))"
proof -
  have "day_file (rf_basePath r) now' = p" using assms(1) by (simp add: day_file_eq p_def)
  then show ?thesis using assms(2) by (simp add: roll_def rolled_def Let_def fs1_def p_def)
qed

lemma rolled_inv:
  assumes "rf_inv r t" "t \<le> now"
  shows "rf_inv (rolled now r) now"
  using assms rf_inv_mono [OF assms] by (intro rf_inv_open) (auto simp: rolled_def Let_def rf_inv_def)

text \<open>
  C21: A log line that is written to an open rolling file lands, complete and behind what was there
  before, in the file that is named after the current day, whenever the day changed; the files of
  the days that are to be kept are not touched. The file stays usable for the next line.
\<close>

theorem rolling_write:
  assumes inv: "rf_inv r t" "\<not> rf_closed r" and time: "t \<le> now" "now \<le> now'" "day_of now' = day_of now"
    and days: "rf_logKeepDays r + 3 \<le> day_of now" and ok: "open_err (day_file (rf_basePath r) now) = None"
  shows "\<exists>r' fs'. rollingFile_Write traced frames open_err None now now' b r fs = Ret (length b, None, r', fs')
    \<and> rf_inv r' now' \<and> \<not> rf_closed r' \<and> rf_basePath r' = rf_basePath r
    \<and> fs' (day_file (rf_basePath r) now) =
        Some ((case fs (day_file (rf_basePath r) now) of Some c \<Rightarrow> c | None \<Rightarrow> []) @ b)
    \<and> (\<forall>t'. day_of now < day_of t' + rf_logKeepDays r \<and> day_of t' \<noteq> day_of now \<longrightarrow>
        fs' (day_file (rf_basePath r) t') = fs (day_file (rf_basePath r) t'))"
proof -
  let ?p = "day_file (rf_basePath r) now"
  let ?same = "rf_file r \<noteq> None \<and> now < rf_nextStartOfDate r"
  define r' where "r' = (if ?same then r else rolled now r)"
  define fs1 where "fs1 = (if rf_file r = None \<or> ?same then fs
      else purge (rf_basePath r) now [rf_logKeepDays r ..< rf_logKeepDays r + 4] fs)"
  define fs2 where "fs2 = (if fs1 ?p = None \<and> \<not> ?same then fs1(?p := Some []) else fs1)"
  have roll: "roll traced frames open_err now now' r fs = (None, r', fs2)"
    using roll_cases [OF time(3), of open_err r traced frames fs] ok by (auto simp: r'_def fs1_def fs2_def)
  have fil: "rf_file r' = Some ?p" "rf_closed r' = rf_closed r" "rf_basePath r' = rf_basePath r"
    using open_is_today [OF inv(1) time(1)] by (auto simp: r'_def rolled_def Let_def)
  have "rf_inv r' now" using rolled_inv [OF inv(1) time(1)] rf_inv_mono [OF inv(1) time(1)] by (simp add: r'_def)
  then have inv': "rf_inv r' now'" using rf_inv_mono time(2) by blast
  have keep: "fs1 (day_file (rf_basePath r) t') = fs (day_file (rf_basePath r) t')"
    if "day_of now < day_of t' + rf_logKeepDays r" for t'
    using purge_keeps [OF days that] by (simp add: fs1_def)
  have today: "fs1 ?p = fs ?p" using keep [of now] inv(1) by (simp add: rf_inv_def)
  have "rollingFile_Write traced frames open_err None now now' b r fs =
      Ret (length b, None, r', fs2(?p := Some ((case fs2 ?p of Some c \<Rightarrow> c | None \<Rightarrow> []) @ b)))"
    using inv(2) roll fil by (simp add: rollingFile_Write_def Let_def)
  moreover have "(case fs2 ?p of Some c \<Rightarrow> c | None \<Rightarrow> []) = (case fs ?p of Some c \<Rightarrow> c | None \<Rightarrow> [])"
    using today by (auto simp: fs2_def split: option.splits)
  moreover have "fs2 (day_file (rf_basePath r) t') = fs (day_file (rf_basePath r) t')"
    if "day_of now < day_of t' + rf_logKeepDays r" "day_of t' \<noteq> day_of now" for t'
    using keep [OF that(1)] that(2) by (simp add: fs2_def day_file_eq)
  ultimately show ?thesis using inv' inv(2) fil(2,3) by (auto simp: day_file_eq)
qed

text \<open>A process that was started on one day and writes on the next.\<close>

theorem rolling_write_witness:
  "\<exists>r r' fs'. NewRollingFile True (\<lambda>_. None) (800000 * 86400) ''proxy.log'' 3 = Inr r
    \<and> rollingFile_Write True (\<lambda>_. None) (\<lambda>_. None) None (800001 * 86400) (800001 * 86400 + 1) [104, 105] r Map.empty =
        Ret (2, None, r', fs')
    \<and> fs' (day_file ''proxy.log'' (800001 * 86400)) = Some [104, 105]"
proof -
  obtain r where r: "NewRollingFile True (\<lambda>_. None) (800000 * 86400) ''proxy.log'' 3 = Inr r"
      "rf_logKeepDays r = 3" "rf_basePath r = ''proxy.log''"
    by (simp add: NewRollingFile_def path_Split_def)
  note i = NewRollingFile_inv [OF r(1)]
  show ?thesis
    using rolling_write [of r "800000 * 86400" "800001 * 86400" "800001 * 86400 + 1" "\<lambda>_. None" True "\<lambda>_. None" "[104, 105]" Map.empty]
      i r by (auto simp: day_of_def day_secs_def)
qed

end
