(* ===== verification/Command_Line.thy ===== *)
theory Command_Line
  imports Configuration Log_Files
begin

text \<open>
  \<open>RpcMain\<close> of \<open>proxy/rpc_command_line.go\<close>: from the arguments to the configuration a server is
  started with. The parser of the command line is not part of the repository: \<open>args\<close> is what it
  returned. \<open>file_out\<close> makes a rolling file the output of a logger.
\<close>

datatype arg = ArgBool bool | ArgString string

type_synonym main_args = "string \<Rightarrow> arg option"

datatype main_exit = BadUsage | ShowVersion | ExitPanic string | NoConfigFile

text \<open>\<open>s, ok := args[key].(string)\<close>: the empty string when there is none.\<close>

definition string_arg :: "main_args \<Rightarrow> string \<Rightarrow> string" where
  "string_arg args key = (case args key of Some (ArgString s) \<Rightarrow> s | _ \<Rightarrow> [])"

text \<open>\<open>strconv.ParseInt(s, 10, 32)\<close>, for a string that is not empty.\<close>

definition is_digit :: "char \<Rightarrow> bool" where
  "is_digit c \<longleftrightarrow> 48 \<le> (of_char c :: nat) \<and> (of_char c :: nat) \<le> 57"

definition ParseInt32 :: "string \<Rightarrow> int option" where
  "ParseInt32 s =
     (let neg = (s \<noteq> [] \<and> hd s = CHR ''-''); ds = (if s \<noteq> [] \<and> hd s \<in> {CHR ''-'', CHR ''+''} then tl s else s);
          n = int (dec_value ds); v = (if neg then - n else n) in
      if ds = [] \<or> \<not> list_all is_digit ds \<or> v < - (2 ^ 31) \<or> v \<ge> 2 ^ 31 then None else Some v)"

definition keep_days :: "main_args \<Rightarrow> main_exit + int" where
  "keep_days args =
     (let s = string_arg args ''--log-keep-days'' in
      if s = [] then Inr 3
      else case ParseInt32 s of None \<Rightarrow> Inl (ExitPanic (''invalid max log file keep days = '' @ s)) | Some v \<Rightarrow> Inr v)"

definition Lshortfile :: int where
  "Lshortfile = 16"

text \<open>The global logger after the options for the log.\<close>

definition main_logger :: "('v, 'o) log_env \<Rightarrow> (LogLevel \<Rightarrow> 'v) \<Rightarrow> (rollingFile \<Rightarrow> 'o) \<Rightarrow> bool \<Rightarrow> nat \<Rightarrow> main_args \<Rightarrow>
    'o Logger \<Rightarrow> main_exit + 'o Logger" where
  "main_logger E lv file_out traced now args StdLog =
     (case keep_days args of
        Inl x \<Rightarrow> Inl x
      | Inr maxKeepDays \<Rightarrow>
          let s = string_arg args ''-L'';
              l = log_SetLevel LEVEL_INFO StdLog in
          case (if s = [] then Inr l
                else case NewRollingFile traced (le_frames E) now s maxKeepDays of
                       Inl _ \<Rightarrow> Inl (ExitPanic (''open rolling log file failed: '' @ s))
                     | Inr f \<Rightarrow> Inr (log_New (file_out f) [])) of
            Inl x \<Rightarrow> Inl x
          | Inr l1 \<Rightarrow>
              let l2 = log_SetFlags (or (log_Flags l1) Lshortfile) (log_SetLevel LEVEL_INFO l1);
                  level = string_arg args ''--log-level'' in
              Inr (if level = [] then l2 else SetLogLevel E lv level l2))"

definition RpcMain :: "('v, 'o) log_env \<Rightarrow> (LogLevel \<Rightarrow> 'v) \<Rightarrow> (rollingFile \<Rightarrow> 'o) \<Rightarrow> bool \<Rightarrow> nat \<Rightarrow> (string \<Rightarrow> cfg) \<Rightarrow>
    string \<Rightarrow> net_ifaddr list list \<Rightarrow> go_error + main_args \<Rightarrow> (Config \<Rightarrow> string + unit) option \<Rightarrow> 'o Logger \<Rightarrow>
    main_exit + Config \<times> 'o Logger" where
  "RpcMain E lv file_out traced now cfgs dir ifaces parsed configCheck StdLog =
     (case parsed of
        Inl _ \<Rightarrow> Inl BadUsage
      | Inr args \<Rightarrow>
          if args ''-V'' = Some (ArgBool True) then Inl ShowVersion else
          case main_logger E lv file_out traced now args StdLog of
            Inl x \<Rightarrow> Inl x
          | Inr l \<Rightarrow>
              let wd = string_arg args ''--work-dir'';
                  workDir = (if length wd = 0 then dir else wd) in
              case args ''-c'' of
                Some (ArgString configFile) \<Rightarrow>
                  (case LoadConf (cfgs configFile) dir ifaces configFile of
                     Inl msg \<Rightarrow> Inl (ExitPanic msg)
                   | Inr conf \<Rightarrow>
                       let conf1 = conf\<lparr>WorkDir := workDir, CodeUrlVersion := string_arg args ''--code-url-version''\<rparr> in
                       (case configCheck of
                          None \<Rightarrow> Inl (ExitPanic ''No Config Check Given'')
                        | Some check \<Rightarrow>
                            (case check conf1 of Inl msg \<Rightarrow> Inl (ExitPanic msg) | Inr _ \<Rightarrow> Inr (conf1, l))))
              | _ \<Rightarrow> Inl NoConfigFile)"

text \<open>
  A server is started only with a configuration that was read from the named file and passed the
  check of its program; the log passes what the option names.
\<close>

lemma RpcMain_started:
  assumes "RpcMain E lv file_out traced now cfgs dir ifaces (Inr args) check StdLog = Inr (conf, l)"
  obtains cf conf0 chk where "args ''-c'' = Some (ArgString cf)" "LoadConf (cfgs cf) dir ifaces cf = Inr conf0"
    "conf = conf0\<lparr>WorkDir := WorkDir conf, CodeUrlVersion := CodeUrlVersion conf\<rparr>"
    "check = Some chk" "chk conf = Inr ()" "main_logger E lv file_out traced now args StdLog = Inr l"
    "dir \<noteq> [] \<Longrightarrow> WorkDir conf \<noteq> []"
  using assms
  by (auto simp: RpcMain_def Let_def split: if_splits sum.splits option.splits arg.splits)

lemma main_logger_level:
  assumes "main_logger E lv file_out traced now args StdLog = Inr l"
  shows "lg_level l = (if string_arg args ''--log-level'' = [] then LEVEL_INFO
    else level_of_name (string_arg args ''--log-level''))"
  using assms
  by (auto simp: main_logger_def Let_def SetLogLevel_level log_SetLevel_def log_SetFlags_def LogLevel_Set_def
      split: if_splits sum.splits)

end
