(* ===== verification/Byte_Size.thy ===== *)
theory Byte_Size
  imports Log_Files Go_Json "HOL-Library.Log_Nat"
begin

text \<open>
  \<open>utils/bytesize/bytesize.go\<close>: sizes such as \<open>1.5 kb\<close>. The two regular expressions are given by what
  they match, with a scanner that finds the submatches; floating-point numbers are the rational
  numbers that a \<open>float64\<close> holds, rounded to the nearest one and to even on a tie. What Go leaves to
  the implementation, the conversion of a float that no \<open>int64\<close> holds, is the parameter \<open>beyond\<close>.
\<close>

subsection \<open>The regular expressions\<close>

definition is_space :: "char \<Rightarrow> bool" where
  "is_space c \<longleftrightarrow> c \<in> {CHR 0x09, CHR 0x0A, CHR 0x0C, CHR 0x0D, CHR '' ''}"

definition is_number_char :: "char \<Rightarrow> bool" where
  "is_number_char c \<longleftrightarrow> is_digit c \<or> c = CHR ''.''"

text \<open>
  Under \<open>(?i)\<close> a letter stands for both cases, and \<open>K\<close> also for the Kelvin sign, whose three bytes in
  UTF-8 these are.
\<close>

definition kelvin_sign :: string where
  "kelvin_sign = [CHR 0xE2, CHR 0x84, CHR 0xAA]"

definition unit_letters :: "string list" where
  "unit_letters = [''K'', ''k'', kelvin_sign, ''M'', ''m'', ''G'', ''g'', ''T'', ''t'', ''P'', ''p'']"

definition unit_names :: "string list" where
  "unit_names = [[], ''B'', ''b''] @ unit_letters @ map (\<lambda>l. l @ ''B'') unit_letters @ map (\<lambda>l. l @ ''b'') unit_letters"

definition is_number :: "string \<Rightarrow> bool" where
  "is_number t \<longleftrightarrow> (let ds = (if t \<noteq> [] \<and> hd t = CHR ''-'' then tl t else t) in ds \<noteq> [] \<and> list_all is_number_char ds)"

text \<open>\<open>BytesizeRegexp\<close> matches \<open>s\<close> with these submatches.\<close>

definition bytesize_matches :: "string \<Rightarrow> string \<Rightarrow> string \<Rightarrow> bool" where
  "bytesize_matches s num u \<longleftrightarrow> is_number num \<and> u \<in> set unit_names \<and>
     (\<exists>a b c. list_all is_space a \<and> list_all is_space b \<and> list_all is_space c \<and> s = a @ num @ b @ u @ c)"

definition BytesizeRegexp_FindStringSubmatch :: "string \<Rightarrow> (string \<times> string) option" where
  "BytesizeRegexp_FindStringSubmatch s =
     (let s1 = dropWhile is_space s;
          sign = (if s1 \<noteq> [] \<and> hd s1 = CHR ''-'' then ''-'' else []);
          s2 = drop (length sign) s1;
          num = takeWhile is_number_char s2;
          s3 = dropWhile is_space (dropWhile is_number_char s2);
          u = takeWhile (\<lambda>c. \<not> is_space c) s3;
          s4 = dropWhile (\<lambda>c. \<not> is_space c) s3 in
      if num \<noteq> [] \<and> u \<in> set unit_names \<and> list_all is_space s4 then Some (sign @ num, u) else None)"

definition digitsRegexp_MatchString :: "string \<Rightarrow> bool" where
  "digitsRegexp_MatchString t \<longleftrightarrow> (let ds = (if t \<noteq> [] \<and> hd t = CHR ''-'' then tl t else t) in ds \<noteq> [] \<and> list_all is_digit ds)"

subsection \<open>Numbers\<close>

text \<open>\<open>strconv.ParseInt(t, 10, 64)\<close>, of a text that \<open>digitsRegexp\<close> matches.\<close>

definition signed_value :: "string \<Rightarrow> int" where
  "signed_value t = (if t \<noteq> [] \<and> hd t = CHR ''-'' then - int (dec_value (tl t)) else int (dec_value t))"

definition in_int64 :: "int \<Rightarrow> bool" where
  "in_int64 v \<longleftrightarrow> - (2 ^ 63) \<le> v \<and> v < 2 ^ 63"

definition ParseInt64 :: "string \<Rightarrow> int option" where
  "ParseInt64 t = (if in_int64 (signed_value t) then Some (signed_value t) else None)"

text \<open>The nearest integer, and the even one of two.\<close>

definition round_even :: "rat \<Rightarrow> int" where
  "round_even x = (let f = \<lfloor>x\<rfloor>; r = x - of_int f in if r < 1 / 2 \<or> r = 1 / 2 \<and> even f then f else f + 1)"

definition rat_log2 :: "rat \<Rightarrow> int" where
  "rat_log2 q = (case quotient_of q of (a, b) \<Rightarrow>
     let k = int (floorlog 2 (nat a)) - int (floorlog 2 (nat b)) in if 2 powi k \<le> q then k else k - 1)"

text \<open>A \<open>float64\<close> has 53 significant bits, its last bit is worth at least \<open>2\<close> to the power of \<open>MIN_EXP\<close>, and it is less than \<open>2\<close> to the power of \<open>MAX_EXP\<close>.\<close>

definition MIN_EXP :: int where "MIN_EXP = - 1074"
definition MAX_EXP :: int where "MAX_EXP = 1024"

definition ulp_exp :: "rat \<Rightarrow> int" where
  "ulp_exp q = max MIN_EXP (rat_log2 q - 52)"

definition float64_abs :: "rat \<Rightarrow> rat" where
  "float64_abs q = (if q = 0 then 0 else of_int (round_even (q / 2 powi ulp_exp q)) * 2 powi ulp_exp q)"

definition float64_round :: "rat \<Rightarrow> rat option" where
  "float64_round q = (let v = sgn q * float64_abs \<bar>q\<bar> in if \<bar>v\<bar> < 2 powi MAX_EXP then Some v else None)"

text \<open>\<open>strconv.ParseFloat(t, 64)\<close>, of a text of digits and dots after an optional sign.\<close>

definition decimal_value :: "string \<Rightarrow> rat option" where
  "decimal_value t =
     (let neg = (t \<noteq> [] \<and> hd t = CHR ''-''); ds = (if neg then tl t else t);
          a = takeWhile is_digit ds; r = dropWhile is_digit ds; b = (if r \<noteq> [] then tl r else []);
          v = of_nat (dec_value (a @ b)) / 10 ^ length b in
      if list_all is_digit b \<and> (r = [] \<or> hd r = CHR ''.'') \<and> a @ b \<noteq> [] then Some (if neg then - v else v) else None)"

definition ParseFloat64 :: "string \<Rightarrow> rat option" where
  "ParseFloat64 t = Option.bind (decimal_value t) float64_round"

definition int64_of_float :: "(rat option \<Rightarrow> int64) \<Rightarrow> rat option \<Rightarrow> int64" where
  "int64_of_float beyond f = (case f of
     None \<Rightarrow> beyond None
   | Some q \<Rightarrow> let t = (if 0 \<le> q then \<lfloor>q\<rfloor> else \<lceil>q\<rceil>) in if in_int64 t then word_of_int t else beyond (Some q))"

subsection \<open>Parse\<close>

definition bytesize_B :: int64 where "bytesize_B = 1"
definition bytesize_KB :: int64 where "bytesize_KB = push_bit 10 1"
definition bytesize_MB :: int64 where "bytesize_MB = push_bit 20 1"
definition bytesize_GB :: int64 where "bytesize_GB = push_bit 30 1"
definition bytesize_TB :: int64 where "bytesize_TB = push_bit 40 1"
definition bytesize_PB :: int64 where "bytesize_PB = push_bit 50 1"

lemmas bytesize_units = bytesize_B_def bytesize_KB_def bytesize_MB_def bytesize_GB_def bytesize_TB_def bytesize_PB_def

definition ErrBadBytesize :: traced_error where
  "ErrBadBytesize = errors_New ''invalid byte size''"

definition ErrBadBytesizeUnit :: traced_error where
  "ErrBadBytesizeUnit = errors_New ''invalid byte size unit''"

definition to_upper :: "string \<Rightarrow> string" where
  "to_upper = map (\<lambda>c. if 97 \<le> ord c \<and> ord c \<le> 122 then char_of (ord c - 32) else c)"

definition unit_size :: "string \<Rightarrow> int64 option" where
  "unit_size u =
     (if u = ''B'' \<or> u = [] then Some 1 else if u = ''KB'' \<or> u = ''K'' then Some bytesize_KB
      else if u = ''MB'' \<or> u = ''M'' then Some bytesize_MB else if u = ''GB'' \<or> u = ''G'' then Some bytesize_GB
      else if u = ''TB'' \<or> u = ''T'' then Some bytesize_TB else if u = ''PB'' \<or> u = ''P'' then Some bytesize_PB else None)"

definition bytesize_Parse :: "bool \<Rightarrow> runtime_frames \<Rightarrow> (rat option \<Rightarrow> int64) \<Rightarrow> string \<Rightarrow> traced_error + int64" where
  "bytesize_Parse traced frames beyond s =
     (let bad = (\<lambda>e. Inl (the (errors_Trace traced frames (Some e)))) in
      case BytesizeRegexp_FindStringSubmatch s of
        None \<Rightarrow> bad ErrBadBytesize
      | Some (t, u) \<Rightarrow>
          (case unit_size (to_upper u) of
             None \<Rightarrow> bad ErrBadBytesizeUnit
           | Some sz \<Rightarrow>
               if digitsRegexp_MatchString t
               then (case ParseInt64 t of None \<Rightarrow> bad ErrBadBytesize | Some n \<Rightarrow> Inr (sz * word_of_int n))
               else (case ParseFloat64 t of
                       None \<Rightarrow> bad ErrBadBytesize
                     | Some n \<Rightarrow> Inr (int64_of_float beyond (float64_round (of_int (sint sz) * n))))))"

text \<open>\<open>MustParse\<close> ends the process (\<open>Inl\<close>, with the logger as it leaves it) where \<open>Parse\<close> returns an error.\<close>

definition bytesize_MustParse :: "('v, 'o) log_env \<Rightarrow> (string \<Rightarrow> 'v) \<Rightarrow> bool \<Rightarrow> (rat option \<Rightarrow> int64) \<Rightarrow> 'o Logger \<Rightarrow> string \<Rightarrow>
    'o Logger + int64" where
  "bytesize_MustParse E val traced beyond StdLog s =
     (case bytesize_Parse traced (le_frames E) beyond s of
        Inl err \<Rightarrow> Inl (case log_PanicError E (Some err) [val ''parse bytesize failed''] StdLog of Inl l \<Rightarrow> l | Inr l \<Rightarrow> l)
      | Inr v \<Rightarrow> Inr v)"

subsection \<open>The scanner finds the submatches\<close>

lemma is_space_letters [simp]: "\<not> is_space CHR ''-''" "is_number_char c \<Longrightarrow> \<not> is_space c" "\<not> is_number_char CHR ''-''"
  by (auto simp: is_space_def is_number_char_def is_digit_def ord_def)

lemma unit_names_chars: "u \<in> set unit_names \<Longrightarrow> list_all (\<lambda>c. \<not> is_space c \<and> \<not> is_number_char c) u"
  by (auto simp: unit_names_def unit_letters_def kelvin_sign_def is_space_def is_number_char_def is_digit_def ord_def)

lemma dropWhile_all [simp]: "list_all P a \<Longrightarrow> dropWhile P (a @ s) = dropWhile P s"
  by (induction a) auto

lemma takeWhile_all [simp]: "list_all P a \<Longrightarrow> takeWhile P (a @ s) = a @ takeWhile P s"
  by (induction a) auto

lemma while_stop:
  "s = [] \<or> \<not> P (hd s) \<Longrightarrow> dropWhile P s = s" "s = [] \<or> \<not> P (hd s) \<Longrightarrow> takeWhile P s = []"
  by (cases s; simp)+

lemma list_all_hd: "list_all P s \<Longrightarrow> s \<noteq> [] \<Longrightarrow> P (hd s)"
  by (cases s) auto

lemma scan_complete:
  assumes "bytesize_matches s num u"
  shows "BytesizeRegexp_FindStringSubmatch s = Some (num, u)"
proof -
  obtain a b c where s: "s = a @ num @ b @ u @ c" and sp: "list_all is_space a" "list_all is_space b" "list_all is_space c"
    and num: "is_number num" and u: "u \<in> set unit_names" using assms by (auto simp: bytesize_matches_def)
  define ds where "ds = (if num \<noteq> [] \<and> hd num = CHR ''-'' then tl num else num)"
  define sign where "sign = (if num \<noteq> [] \<and> hd num = CHR ''-'' then ''-'' else [])"
  have ds: "ds \<noteq> []" "list_all is_number_char ds" and split: "num = sign @ ds"
    using num by (auto simp: is_number_def ds_def sign_def Let_def split: if_splits) (metis list.collapse)
  have hd: "hd ds \<noteq> CHR ''-''" "\<not> is_space (hd ds)" using list_all_hd [OF ds(2,1)] by auto
  have d1: "dropWhile is_space s = sign @ ds @ b @ u @ c"
  proof -
    have "s = a @ sign @ ds @ b @ u @ c" using s split by simp
    moreover have "sign = [] \<or> sign = ''-''" by (simp add: sign_def)
    ultimately show ?thesis using sp(1) hd ds(1) by (auto simp: while_stop)
  qed
  have sg: "(if sign @ ds @ b @ u @ c \<noteq> [] \<and> hd (sign @ ds @ b @ u @ c) = CHR ''-'' then ''-'' else []) = sign"
    using hd(1) ds(1) by (cases "num \<noteq> [] \<and> hd num = CHR ''-''") (simp_all add: sign_def)
  note uc = unit_names_chars [OF u]
  have nb: "b @ u @ c = [] \<or> \<not> is_number_char (hd (b @ u @ c))"
    using list_all_hd [OF sp(2)] list_all_hd [OF sp(3)] list_all_hd [OF uc] is_space_letters(2)
    by (cases "b = []"; cases "u = []"; cases "c = []") auto
  have n: "takeWhile is_number_char (ds @ b @ u @ c) = ds" "dropWhile is_number_char (ds @ b @ u @ c) = b @ u @ c"
    using ds(2) while_stop [where P = is_number_char, OF nb] by simp_all
  have nu: "list_all (\<lambda>c. \<not> is_space c) u" using uc by (simp add: list_all_iff)
  have c: "dropWhile is_space c = []" "c = [] \<or> \<not> \<not> is_space (hd c)" using sp(3) list_all_hd by (auto simp: list_all_iff)
  have d2: "dropWhile is_space (b @ u @ c) = (if u = [] then [] else u @ c)"
    using sp(2) nu c(1) by (cases u) simp_all
  have d3: "takeWhile (\<lambda>c. \<not> is_space c) (if u = [] then [] else u @ c) = u"
    "list_all is_space (dropWhile (\<lambda>c. \<not> is_space c) (if u = [] then [] else u @ c))"
    using nu sp(3) while_stop [where P = "\<lambda>c. \<not> is_space c", OF c(2)] by simp_all
  have d0: "drop (length sign) (sign @ ds @ b @ u @ c) = ds @ b @ u @ c" by simp
  show ?thesis unfolding BytesizeRegexp_FindStringSubmatch_def Let_def d1 sg d0 n d2 d3(1) using d3(2) ds(1) u split by simp
qed

lemma scan_sound:
  assumes "BytesizeRegexp_FindStringSubmatch s = Some (num, u)"
  shows "bytesize_matches s num u"
proof -
  define s1 where "s1 = dropWhile is_space s"
  define sign where "sign = (if s1 \<noteq> [] \<and> hd s1 = CHR ''-'' then ''-'' else [])"
  define s2 where "s2 = drop (length sign) s1"
  define s3 where "s3 = dropWhile is_space (dropWhile is_number_char s2)"
  let ?n = "takeWhile is_number_char s2" and ?u = "takeWhile (\<lambda>c. \<not> is_space c) s3" and ?c = "dropWhile (\<lambda>c. \<not> is_space c) s3"
  have r: "?n \<noteq> []" "u \<in> set unit_names" "list_all is_space ?c" "num = sign @ ?n" "u = ?u"
    using assms by (auto simp: BytesizeRegexp_FindStringSubmatch_def Let_def s1_def sign_def s2_def s3_def split: if_splits)
  have all: "list_all P (takeWhile P l)" for P and l :: string by (auto simp: list_all_iff dest: set_takeWhileD)
  have "s1 = sign @ s2" by (cases s1) (auto simp: sign_def s2_def)
  moreover have "s = takeWhile is_space s @ s1" by (simp add: s1_def)
  moreover have "s2 = ?n @ takeWhile is_space (dropWhile is_number_char s2) @ s3" by (simp add: s3_def)
  moreover have "s3 = ?u @ ?c" by simp
  ultimately have "s = takeWhile is_space s @ num @ takeWhile is_space (dropWhile is_number_char s2) @ u @ ?c"
    using r(4,5) by (metis append_assoc)
  moreover have "is_number num"
  proof -
    have "hd ?n \<noteq> CHR ''-''" using list_all_hd [OF all r(1)] by auto
    then show ?thesis using r(1) all by (auto simp: is_number_def r(4) sign_def Let_def)
  qed
  ultimately show ?thesis using r(2,3) all unfolding bytesize_matches_def by blast
qed

lemma scan_iff: "BytesizeRegexp_FindStringSubmatch s = Some (num, u) \<longleftrightarrow> bytesize_matches s num u"
  using scan_complete scan_sound by blast

subsection \<open>Rounding\<close>

lemma round_even_error: "\<bar>of_int (round_even x) - x\<bar> \<le> 1 / 2"
  using floor_correct [of x] by (auto simp: round_even_def Let_def abs_le_iff)

lemma round_even_of_int [simp]: "round_even (of_int n) = n"
  by (simp add: round_even_def Let_def)

lemma round_even_bounds:
  assumes "0 \<le> x" and "x < of_int n"
  shows "0 \<le> round_even x" and "round_even x \<le> n"
proof -
  have "0 \<le> \<lfloor>x\<rfloor>" "\<lfloor>x\<rfloor> < n" using assms by (simp_all add: floor_less_iff)
  then show "0 \<le> round_even x" and "round_even x \<le> n" by (auto simp: round_even_def Let_def)
qed

lemma rat_log2_bounds:
  assumes "0 < q"
  shows "2 powi rat_log2 q \<le> q" and "q < 2 powi (rat_log2 q + 1)"
proof -
  obtain a b where ab: "quotient_of q = (a, b)" by fastforce
  then have b: "0 < b" by (rule quotient_of_denom_pos)
  have q: "q = of_int a / of_int b" using ab by (rule quotient_of_div)
  then have a: "0 < a" using assms b by (simp add: zero_less_divide_iff)
  define la lb where "la = floorlog 2 (nat a)" and "lb = floorlog 2 (nat b)"
  have bound: "(2::rat) powi (int (floorlog 2 (nat z)) - 1) \<le> of_int z \<and> of_int z < (2::rat) powi (int (floorlog 2 (nat z)))" if "0 < z" for z
  proof -
    have n: "0 < nat z" using that by simp
    then have l: "1 \<le> floorlog 2 (nat z)" by (simp add: compute_floorlog)
    from floorlog_bounds [OF n, of 2] have "2 ^ (floorlog 2 (nat z) - 1) \<le> nat z" "nat z < 2 ^ floorlog 2 (nat z)" by simp_all
    then have "of_nat (2 ^ (floorlog 2 (nat z) - 1)) \<le> (of_nat (nat z) :: rat)" "(of_nat (nat z) :: rat) < of_nat (2 ^ floorlog 2 (nat z))"
      by (simp_all only: of_nat_le_iff of_nat_less_iff)
    moreover have "(2::rat) powi (int (floorlog 2 (nat z)) - 1) = 2 ^ (floorlog 2 (nat z) - 1)"
      using l power_int_of_nat [of "2::rat" "floorlog 2 (nat z) - 1"] by (simp add: of_nat_diff)
    ultimately show ?thesis using that by simp
  qed
  have A: "(2::rat) powi (int la - 1) \<le> of_int a" "of_int a < (2::rat) powi int la"
    and B: "(2::rat) powi (int lb - 1) \<le> of_int b" "of_int b < (2::rat) powi int lb" using bound a b by (simp_all add: la_def lb_def)
  have p: "(0::rat) < 2 powi e" for e by simp
  have lo: "2 powi (int la - int lb - 1) < q"
  proof -
    have "2 powi (int la - int lb - 1) = (2::rat) powi (int la - 1) / 2 powi int lb" by (simp add: power_int_diff)
    also have "\<dots> < of_int a / of_int b" using A(1) B(2) b a p by (intro frac_less2) simp_all
    finally show ?thesis using q by simp
  qed
  have hi: "q < 2 powi (int la - int lb + 1)"
  proof -
    have "of_int a / of_int b < (2::rat) powi int la / 2 powi (int lb - 1)" using A(2) B(1) a p by (intro frac_less) simp_all
    also have "\<dots> = 2 powi (int la - int lb + 1)" by (simp add: power_int_diff power_int_add)
    finally show ?thesis using q by simp
  qed
  have "rat_log2 q = (if 2 powi (int la - int lb) \<le> q then int la - int lb else int la - int lb - 1)"
    by (simp add: rat_log2_def ab la_def lb_def Let_def)
  then show "2 powi rat_log2 q \<le> q" and "q < 2 powi (rat_log2 q + 1)" using lo hi by (auto split: if_splits)
qed

lemma float64_abs_error:
  assumes "0 \<le> q"
  shows "\<bar>float64_abs q - q\<bar> \<le> max (2 powi MIN_EXP) (q / 2 ^ 52) / 2"
proof (cases "q = 0")
  case False
  then have q: "0 < q" using assms by simp
  let ?u = "2 powi ulp_exp q :: rat"
  have u: "0 < ?u" by simp
  have "?u \<le> max (2 powi MIN_EXP) (q / 2 ^ 52)"
  proof (cases "rat_log2 q - 52 \<le> MIN_EXP")
    case True
    then show ?thesis by (simp add: ulp_exp_def max_def)
  next
    case F: False
    then have "?u = 2 powi rat_log2 q / 2 ^ 52" by (simp add: ulp_exp_def max_def power_int_diff)
    then show ?thesis using rat_log2_bounds(1) [OF q] by (simp add: le_max_iff_disj divide_right_mono)
  qed
  moreover have "float64_abs q - q = (of_int (round_even (q / ?u)) - q / ?u) * ?u"
    using q u by (simp add: float64_abs_def left_diff_distrib)
  moreover have "\<bar>(of_int (round_even (q / ?u)) - q / ?u) * ?u\<bar> \<le> 1 / 2 * ?u"
    unfolding abs_mult using u round_even_error [of "q / ?u"] by (intro mult_mono) simp_all
  ultimately show ?thesis by simp
qed (simp add: float64_abs_def)

lemma float64_abs_repr:
  assumes "0 \<le> q"
  obtains m e where "float64_abs q = of_int m * 2 powi e" "0 \<le> m" "m < 2 ^ 53" "MIN_EXP \<le> e"
proof (cases "q = 0")
  case True
  then show ?thesis using that [of 0 0] by (simp add: float64_abs_def MIN_EXP_def)
next
  case False
  then have q: "0 < q" using assms by simp
  let ?e = "ulp_exp q" and ?m = "round_even (q / 2 powi ulp_exp q)"
  have "q < 2 powi (rat_log2 q + 1)" by (rule rat_log2_bounds(2) [OF q])
  also have "\<dots> \<le> 2 powi (?e + 53)" by (intro power_int_increasing) (simp_all add: ulp_exp_def)
  also have "\<dots> = 2 ^ 53 * 2 powi ?e" by (simp add: power_int_add)
  finally have "q / 2 powi ?e < of_int (2 ^ 53)" by (simp add: pos_divide_less_eq)
  then have m: "0 \<le> ?m" "?m \<le> 2 ^ 53" using round_even_bounds [of "q / 2 powi ?e" "2 ^ 53"] q by simp_all
  have v: "float64_abs q = of_int ?m * 2 powi ?e" "MIN_EXP \<le> ?e" using q by (simp_all add: float64_abs_def ulp_exp_def)
  show ?thesis
  proof (cases "?m = 2 ^ 53")
    case True
    then have "float64_abs q = of_int (2 ^ 52) * 2 powi (?e + 1)" using v(1) by (simp add: power_int_add)
    then show ?thesis using that [of "2 ^ 52" "?e + 1"] v(2) by simp
  next
    case False
    then show ?thesis using that [of ?m ?e] m v by simp
  qed
qed

lemma float64_abs_exact:
  assumes "0 \<le> m" and "m < 2 ^ 53" and "MIN_EXP \<le> e"
  shows "float64_abs (of_int m * 2 powi e) = of_int m * 2 powi e"
proof (cases "m = 0")
  case False
  let ?q = "of_int m * 2 powi e :: rat"
  have q: "0 < ?q" using assms(1) False by simp
  have "2 powi rat_log2 ?q \<le> ?q" by (rule rat_log2_bounds(1) [OF q])
  also have "\<dots> < of_int (2 ^ 53) * 2 powi e"
    using assms(2) by (intro mult_strict_right_mono; simp only: of_int_less_iff) simp_all
  also have "\<dots> = 2 powi (e + 53)" by (simp add: power_int_add)
  finally have "2 powi rat_log2 ?q < (2::rat) powi (e + 53)" .
  then have "rat_log2 ?q < e + 53" using power_int_increasing [of "e + 53" "rat_log2 ?q" "2::rat"] by (meson leD not_less one_le_numeral)
  then have e: "ulp_exp ?q \<le> e" using assms(3) by (simp add: ulp_exp_def)
  define u where "u = ulp_exp ?q"
  have "(2::rat) powi e = 2 powi (e - u) * 2 powi u" by (simp flip: power_int_add)
  moreover have "(2::rat) powi (e - u) = 2 ^ nat (e - u)" using e by (simp add: power_int_def u_def)
  ultimately have qu: "?q = of_int (m * 2 ^ nat (e - u)) * 2 powi u" by simp
  have "?q / 2 powi u = of_int (m * 2 ^ nat (e - u))" unfolding qu by simp
  then have "float64_abs ?q = of_int (m * 2 ^ nat (e - u)) * 2 powi u"
    using q unfolding float64_abs_def u_def [symmetric] by (simp only: round_even_of_int) simp
  then show ?thesis by (simp only: qu [symmetric])
qed (simp add: float64_abs_def)

lemma float64_abs_0: "float64_abs 0 = 0"
  by (simp add: float64_abs_def)

lemma float64_abs_nonneg: "0 \<le> q \<Longrightarrow> 0 \<le> float64_abs q"
  by (erule float64_abs_repr) simp

lemma float64_round_scaled:
  assumes "float64_round q = Some n" and "\<bar>2 ^ k * n\<bar> < 2 powi MAX_EXP"
  shows "float64_round (2 ^ k * n) = Some (2 ^ k * n)"
proof -
  have n: "n = sgn q * float64_abs \<bar>q\<bar>" using assms(1) by (auto simp: float64_round_def Let_def split: if_splits)
  obtain m e where r: "float64_abs \<bar>q\<bar> = of_int m * 2 powi e" "0 \<le> m" "m < 2 ^ 53" "MIN_EXP \<le> e"
    using float64_abs_repr [of "\<bar>q\<bar>"] by auto
  have "\<bar>n\<bar> = float64_abs \<bar>q\<bar>" using n float64_abs_nonneg [of "\<bar>q\<bar>"]
    by (cases "q = 0") (simp_all add: abs_mult abs_sgn_eq float64_abs_0)
  then have "\<bar>2 ^ k * n\<bar> = of_int m * 2 powi (e + int k)" using r(1) by (simp add: abs_mult power_int_add)
  then have "float64_abs \<bar>2 ^ k * n\<bar> = \<bar>2 ^ k * n\<bar>" using float64_abs_exact [OF r(2,3), of "e + int k"] r(4) by simp
  then show ?thesis using assms(2) unfolding float64_round_def Let_def by (simp add: sgn_mult_abs)
qed

lemma float64_round_error:
  assumes "float64_round q = Some n"
  shows "\<bar>n - q\<bar> \<le> max (2 powi MIN_EXP) (\<bar>q\<bar> / 2 ^ 52) / 2"
proof -
  have "n = sgn q * float64_abs \<bar>q\<bar>" using assms by (auto simp: float64_round_def Let_def split: if_splits)
  moreover have "q = sgn q * \<bar>q\<bar>" by (simp add: sgn_mult_abs)
  ultimately have "n - q = sgn q * (float64_abs \<bar>q\<bar> - \<bar>q\<bar>)" by (metis right_diff_distrib)
  then have "\<bar>n - q\<bar> \<le> \<bar>float64_abs \<bar>q\<bar> - \<bar>q\<bar>\<bar>" by (simp add: abs_mult abs_sgn_eq)
  then show ?thesis using float64_abs_error [of "\<bar>q\<bar>"] by simp
qed

text \<open>A number below \<open>2\<close> to the power of \<open>62\<close>, rounded, scaled and cut to an integer, is the integer part up to the rounding of its last bits.\<close>

definition rat_trunc :: "rat \<Rightarrow> int" where
  "rat_trunc q = (if 0 \<le> q then \<lfloor>q\<rfloor> else \<lceil>q\<rceil>)"

lemma rat_trunc_error: "\<bar>of_int (rat_trunc q) - q\<bar> < 1"
  unfolding rat_trunc_def abs_less_iff by (cases "0 \<le> q") (simp_all, linarith+)

lemma rat_trunc_abs: "\<bar>of_int (rat_trunc q)\<bar> \<le> \<bar>q\<bar>"
proof (cases "0 \<le> q")
  case True
  then show ?thesis by (simp add: rat_trunc_def)
next
  case False
  then have "\<lceil>q\<rceil> \<le> 0" by (simp add: ceiling_le_iff)
  moreover have "q \<le> of_int \<lceil>q\<rceil>" by (rule le_of_int_ceiling)
  ultimately show ?thesis using False by (simp add: rat_trunc_def)
qed

lemma rat_trunc_small: "\<bar>q\<bar> < 1 \<Longrightarrow> rat_trunc q = 0"
  by (auto simp: rat_trunc_def floor_eq_iff ceiling_eq_iff)

lemma scaled_error:
  assumes n: "float64_round q = Some n" and k: "k \<le> 50" and x: "\<bar>2 ^ k * q\<bar> \<le> 2 ^ 62"
  shows "\<bar>2 ^ k * n\<bar> < 2 ^ 63" and "\<bar>of_int (rat_trunc (2 ^ k * n)) - 2 ^ k * q\<bar> < 1 + \<bar>2 ^ k * q\<bar> / 2 ^ 53"
proof -
  have pk: "(0::rat) < 2 ^ k" "(2::rat) ^ k \<le> 2 ^ 50" using k by (simp, intro power_increasing) simp_all
  have "\<bar>2 ^ k * n\<bar> < 2 ^ 63 \<and> \<bar>of_int (rat_trunc (2 ^ k * n)) - 2 ^ k * q\<bar> < 1 + \<bar>2 ^ k * q\<bar> / 2 ^ 53"
  proof (cases "2 powi MIN_EXP \<le> \<bar>q\<bar> / 2 ^ 52")
    case True
    then have "\<bar>n - q\<bar> \<le> \<bar>q\<bar> / 2 ^ 53" using float64_round_error [OF n] by simp
    then have "2 ^ k * \<bar>n - q\<bar> \<le> 2 ^ k * (\<bar>q\<bar> / 2 ^ 53)" using pk(1) by (intro mult_left_mono) simp_all
    then have "\<bar>2 ^ k * n - 2 ^ k * q\<bar> \<le> \<bar>2 ^ k * q\<bar> / 2 ^ 53" by (simp add: abs_mult flip: right_diff_distrib)
    then show ?thesis using rat_trunc_error [of "2 ^ k * n"] x unfolding abs_less_iff abs_le_iff
      by (simp add: abs_le_iff abs_less_iff) linarith
  next
    case False
    have "2 powi MIN_EXP \<le> (2::rat) powi (- 200)" by (intro power_int_increasing) (simp_all add: MIN_EXP_def)
    then have e: "2 powi MIN_EXP \<le> (1::rat) / 2 ^ 200" by simp
    have "\<bar>n - q\<bar> \<le> 2 powi MIN_EXP / 2" "\<bar>q\<bar> < 2 ^ 52 * 2 powi MIN_EXP" using float64_round_error [OF n] False by (simp_all add: max_def)
    then have "\<bar>n\<bar> \<le> \<bar>q\<bar> + 1 / 2 ^ 200" "\<bar>q\<bar> \<le> 2 ^ 52 * (1 / 2 ^ 200)" using e by (linarith, simp)
    then have "\<bar>n\<bar> \<le> 1 / 2 ^ 100" "\<bar>q\<bar> \<le> 1 / 2 ^ 100" by simp_all
    then have "2 ^ k * \<bar>n\<bar> \<le> 2 ^ 50 * (1 / 2 ^ 100)" "2 ^ k * \<bar>q\<bar> \<le> 2 ^ 50 * (1 / 2 ^ 100)"
      using pk by (intro mult_mono; simp)+
    then have s: "\<bar>2 ^ k * n\<bar> < 1" "\<bar>2 ^ k * q\<bar> < 1" by (simp_all add: abs_mult)
    then show ?thesis using rat_trunc_small [OF s(1)] by simp linarith?
  qed
  then show "\<bar>2 ^ k * n\<bar> < 2 ^ 63" and "\<bar>of_int (rat_trunc (2 ^ k * n)) - 2 ^ k * q\<bar> < 1 + \<bar>2 ^ k * q\<bar> / 2 ^ 53" by simp_all
qed

lemma int64_of_scaled:
  assumes "float64_round q = Some n" and "k \<le> 50" and "\<bar>2 ^ k * q\<bar> \<le> 2 ^ 62"
  shows "int64_of_float beyond (float64_round (2 ^ k * n)) = word_of_int (rat_trunc (2 ^ k * n))" and "in_int64 (rat_trunc (2 ^ k * n))"
proof -
  have l: "\<bar>2 ^ k * n\<bar> < 2 ^ 63" by (rule scaled_error(1) [OF assms])
  have "(2::rat) powi 63 \<le> 2 powi MAX_EXP" by (intro power_int_increasing) (simp_all add: MAX_EXP_def)
  then have r: "float64_round (2 ^ k * n) = Some (2 ^ k * n)" using l by (intro float64_round_scaled [OF assms(1)]) simp
  have "\<bar>of_int (rat_trunc (2 ^ k * n))\<bar> < (of_int (2 ^ 63) :: rat)" using rat_trunc_abs [of "2 ^ k * n"] l by simp
  then have "\<bar>rat_trunc (2 ^ k * n)\<bar> < 2 ^ 63" by (simp only: of_int_abs [symmetric] of_int_less_iff)
  then show i: "in_int64 (rat_trunc (2 ^ k * n))" by (auto simp: in_int64_def)
  show "int64_of_float beyond (float64_round (2 ^ k * n)) = word_of_int (rat_trunc (2 ^ k * n))"
    using r i by (simp add: int64_of_float_def rat_trunc_def Let_def)
qed

lemma sint_in_int64: "in_int64 v \<Longrightarrow> sint (word_of_int v :: int64) = v"
  by (simp add: in_int64_def sint_sbintrunc' signed_take_bit_int_eq_self_iff signed_take_bit_int_eq_self)

lemma unit_size_power:
  assumes "unit_size v = Some sz"
  obtains k where "k \<le> 50" "sint sz = 2 ^ k" "sz = word_of_int (2 ^ k)"
proof -
  have "sz = 2 ^ 0 \<or> sz = 2 ^ 10 \<or> sz = 2 ^ 20 \<or> sz = 2 ^ 30 \<or> sz = 2 ^ 40 \<or> sz = 2 ^ 50"
    using assms by (auto simp: unit_size_def bytesize_units push_bit_eq_mult split: if_splits)
  then obtain k where "k \<in> {0, 10, 20, 30, 40, 50 :: nat}" and k2: "sz = 2 ^ k" by blast
  then have k: "k \<le> 50" "sz = 2 ^ k" by auto
  have "(2::int) ^ k \<le> 2 ^ 50" using k(1) by (intro power_increasing) simp_all
  moreover have "in_int64 z" if "0 \<le> z" "z \<le> 2 ^ 50" for z using that by (simp add: in_int64_def)
  ultimately have "in_int64 (2 ^ k)" by simp
  then show thesis using that [of k] k sint_in_int64 [of "2 ^ k"] by simp
qed

subsection \<open>The size of a text\<close>

lemma dec_digits_digits: "list_all is_digit (dec_digits n)" "dec_digits n \<noteq> []"
proof (induction n rule: dec_digits.induct)
  case (1 n)
  have d: "is_digit (char_of (48 + n mod 10))" "n < 10 \<Longrightarrow> is_digit (char_of (48 + n))"
    using pos_mod_bound by (simp_all add: is_digit_def less_Suc_eq_le [symmetric])
  { case 1 then show ?case using "1.IH"(1) d by (subst dec_digits.simps) simp }
  { case 2 then show ?case by (subst dec_digits.simps) simp }
qed

lemma fmt_d_number:
  "digitsRegexp_MatchString (fmt_d n)" "is_number (fmt_d n)" "signed_value (fmt_d n) = n"
proof -
  have h: "hd (dec_digits k) \<noteq> CHR ''-''" for k
    using list_all_hd [OF dec_digits_digits, of k] by (auto simp: is_digit_def ord_def)
  have "list_all is_number_char (dec_digits k)" for k
    using dec_digits_digits(1) [of k] by (auto simp: list_all_iff is_number_char_def)
  then show "digitsRegexp_MatchString (fmt_d n)" "is_number (fmt_d n)" "signed_value (fmt_d n) = n"
    using h dec_digits_digits by (simp_all add: fmt_d_def digitsRegexp_MatchString_def is_number_def signed_value_def dec_value_digits)
qed

lemma digits_decimal_value:
  assumes "digitsRegexp_MatchString t"
  shows "decimal_value t = Some (of_int (signed_value t))"
proof -
  define ds where "ds = (if t \<noteq> [] \<and> hd t = CHR ''-'' then tl t else t)"
  have "ds \<noteq> []" "list_all is_digit ds" using assms by (simp_all add: digitsRegexp_MatchString_def ds_def Let_def)
  then show ?thesis using takeWhile_all [of is_digit ds "[]"] dropWhile_all [of is_digit ds "[]"]
    by (cases "t \<noteq> [] \<and> hd t = CHR ''-''")
      (simp_all add: decimal_value_def signed_value_def ds_def Let_def takeWhile_eq_all_conv [THEN iffD2])
qed

lemma sint_bounds: "in_int64 (sint (w :: int64))"
  using sint_range_size [of w] by (simp add: in_int64_def word_size)

text \<open>
  A whole number is multiplied with its unit modulo \<open>2\<close> to the power of \<open>64\<close>: the size is the product
  exactly when the product is an \<open>int64\<close>, and nothing reports the others.
\<close>

lemma bytesize_whole_number:
  assumes "list_all is_space a" "list_all is_space b" "list_all is_space c" and "u \<in> set unit_names"
    and "unit_size (to_upper u) = Some sz" and "in_int64 n"
  shows "bytesize_Parse traced frames beyond (a @ fmt_d n @ b @ u @ c) = Inr (sz * word_of_int n)"
    and "sint (sz * word_of_int n) = sint sz * n \<longleftrightarrow> in_int64 (sint sz * n)"
proof -
  have "bytesize_matches (a @ fmt_d n @ b @ u @ c) (fmt_d n) u"
    using assms(1-4) fmt_d_number(2) unfolding bytesize_matches_def by blast
  then show "bytesize_Parse traced frames beyond (a @ fmt_d n @ b @ u @ c) = Inr (sz * word_of_int n)"
    using assms(5,6) by (simp add: bytesize_Parse_def scan_complete fmt_d_number ParseInt64_def)
  have "sz * word_of_int n = word_of_int (sint sz * n)" by simp
  then show "sint (sz * word_of_int n) = sint sz * n \<longleftrightarrow> in_int64 (sint sz * n)"
    using sint_in_int64 [of "sint sz * n"] sint_bounds [of "sz * word_of_int n"] by metis
qed

lemma float64_round_finite:
  assumes "\<bar>q\<bar> \<le> 2 ^ 62"
  obtains n where "float64_round q = Some n"
proof -
  have "2 powi MIN_EXP \<le> (2::rat) powi 0" by (intro power_int_increasing) (simp_all add: MIN_EXP_def)
  then have "max (2 powi MIN_EXP) (\<bar>q\<bar> / 2 ^ 52) / 2 \<le> 2 ^ 62" using assms by simp
  with float64_abs_error [of "\<bar>q\<bar>"] have "\<bar>float64_abs \<bar>q\<bar> - \<bar>q\<bar>\<bar> \<le> 2 ^ 62" by (rule order_trans) simp
  then have "\<bar>float64_abs \<bar>q\<bar>\<bar> \<le> 2 ^ 63" using assms by simp
  then have "\<bar>sgn q * float64_abs \<bar>q\<bar>\<bar> \<le> 2 ^ 63" by (simp add: abs_mult abs_sgn_eq)
  also have "(2::rat) ^ 63 < 2 powi MAX_EXP" using power_int_strict_increasing [of 63 MAX_EXP "2::rat"] by (simp add: MAX_EXP_def)
  finally show thesis using that by (simp add: float64_round_def Let_def)
qed

text \<open>
  C35: The text of a number with white space and a unit around it, whose value times the unit is at
  most \<open>2\<close> to the power of \<open>62\<close>, is parsed to this product: exactly when the number is whole, and
  otherwise up to the fraction of a byte and the rounding of the last of 53 bits.
\<close>

theorem bytesize_Parse_value:
  assumes sp: "list_all is_space a" "list_all is_space b" "list_all is_space c"
    and u: "u \<in> set unit_names" "unit_size (to_upper u) = Some sz"
    and t: "is_number t" "decimal_value t = Some q" and q: "\<bar>of_int (sint sz) * q\<bar> \<le> 2 ^ 62"
  shows "\<exists>r. bytesize_Parse traced frames beyond (a @ t @ b @ u @ c) = Inr r
    \<and> \<bar>of_int (sint r) - of_int (sint sz) * q\<bar> < 1 + \<bar>of_int (sint sz) * q\<bar> / 2 ^ 53
    \<and> (digitsRegexp_MatchString t \<longrightarrow> of_int (sint r) = of_int (sint sz) * q)"
proof -
  have m: "BytesizeRegexp_FindStringSubmatch (a @ t @ b @ u @ c) = Some (t, u)"
    using sp u(1) t(1) by (intro scan_complete) (auto simp: bytesize_matches_def)
  obtain k where k: "k \<le> 50" "sint sz = 2 ^ k" "sz = word_of_int (2 ^ k)" by (rule unit_size_power [OF u(2)])
  have x: "\<bar>2 ^ k * q\<bar> \<le> 2 ^ 62" using q k(2) by simp
  have "1 * \<bar>q\<bar> \<le> 2 ^ k * \<bar>q\<bar>" by (intro mult_right_mono) simp_all
  then have small: "\<bar>q\<bar> \<le> 2 ^ 62" using x by (simp add: abs_mult)
  show ?thesis
  proof (cases "digitsRegexp_MatchString t")
    case True
    let ?n = "signed_value t"
    have n: "q = of_int ?n" using digits_decimal_value [OF True] t(2) by simp
    have "\<bar>of_int (2 ^ k * ?n)\<bar> \<le> (of_int (2 ^ 62) :: rat)" "\<bar>of_int ?n\<bar> \<le> (of_int (2 ^ 62) :: rat)" using x small n by simp_all
    then have "\<bar>2 ^ k * ?n\<bar> \<le> 2 ^ 62" "\<bar>?n\<bar> \<le> 2 ^ 62" by (simp_all only: of_int_abs [symmetric] of_int_le_iff)
    then have i: "in_int64 (2 ^ k * ?n)" "in_int64 ?n" by (simp_all add: in_int64_def abs_le_iff)
    have "sz * word_of_int ?n = word_of_int (2 ^ k * ?n)" by (simp add: k(3))
    then have "sint (sz * word_of_int ?n) = 2 ^ k * ?n" using sint_in_int64 [OF i(1)] by simp
    then show ?thesis using m u(2) True i(2) n k(2) by (simp add: bytesize_Parse_def ParseInt64_def del: of_int_sint)
  next
    case False
    obtain n where n: "float64_round q = Some n" using small by (rule float64_round_finite)
    let ?r = "word_of_int (rat_trunc (2 ^ k * n)) :: int64"
    note s = int64_of_scaled [OF n k(1) x]
    have "bytesize_Parse traced frames beyond (a @ t @ b @ u @ c) = Inr ?r"
      using m u(2) False t(2) n s(1) k(2) by (simp add: bytesize_Parse_def ParseFloat64_def)
    moreover have "sint ?r = rat_trunc (2 ^ k * n)" by (rule sint_in_int64 [OF s(2)])
    ultimately show ?thesis using scaled_error(2) [OF n k(1) x] False k(2) by (simp del: of_int_sint)
  qed
qed

theorem bytesize_Parse_value_witness:
  "\<exists>r. bytesize_Parse False (\<lambda>_. None) (\<lambda>_. 0) '' 1.5 kb'' = Inr r \<and> \<bar>of_int (sint r) - (1536 :: rat)\<bar> < 1 + 1536 / 2 ^ 53"
proof -
  have "list_all is_space '' ''" "list_all is_space []" "''kb'' \<in> set unit_names"
    by (simp_all add: is_space_def unit_names_def unit_letters_def)
  moreover have "unit_size (to_upper ''kb'') = Some bytesize_KB" by code_simp
  moreover have "is_number ''1.5''" by (simp add: is_number_def is_number_char_def is_digit_def ord_def)
  moreover have "decimal_value ''1.5'' = Some (3 / 2)" by (simp add: decimal_value_def is_digit_def ord_def dec_value_def)
  moreover have "sint bytesize_KB = 1024" by (simp add: bytesize_KB_def)
  ultimately show ?thesis
    using bytesize_Parse_value [of "'' ''" "'' ''" "[]" "''kb''" bytesize_KB "''1.5''" "3 / 2" False "\<lambda>_. None" "\<lambda>_. 0"] by auto
qed

text \<open>The two sides of the range: the largest product, and one that wraps to the least \<open>int64\<close> without an error.\<close>

lemma bytesize_wraps:
  "bytesize_Parse traced frames beyond ''8191PB'' = Inr (word_of_int (8191 * 2 ^ 50))"
  "bytesize_Parse traced frames beyond ''8192PB'' = Inr (word_of_int (- (2 ^ 63)))"
  by (simp_all add: bytesize_Parse_def BytesizeRegexp_FindStringSubmatch_def is_space_def is_number_char_def is_digit_def ord_def
    unit_names_def unit_letters_def kelvin_sign_def unit_size_def to_upper_def bytesize_PB_def digitsRegexp_MatchString_def ParseInt64_def
    signed_value_def dec_value_def in_int64_def)

text \<open>\<open>ErrBadBytesizeUnit\<close> is returned for the Kelvin sign only: it is the one unit that the expression matches and the switch does not know.\<close>

lemma unit_unknown_all:
  "list_all (\<lambda>u. (unit_size (to_upper u) = None) = (u \<in> {kelvin_sign, kelvin_sign @ ''B'', kelvin_sign @ ''b''})) unit_names"
  by code_simp

lemma unit_unknown_iff:
  "u \<in> set unit_names \<Longrightarrow> unit_size (to_upper u) = None \<longleftrightarrow> u \<in> {kelvin_sign, kelvin_sign @ ''B'', kelvin_sign @ ''b''}"
  using unit_unknown_all by (simp add: list_all_iff)

lemma bytesize_Parse_error:
  assumes "bytesize_Parse traced frames beyond s = Inl e"
  shows "errors_Cause (Some e) = Some (if \<exists>num. \<exists>u \<in> {kelvin_sign, kelvin_sign @ ''B'', kelvin_sign @ ''b''}. bytesize_matches s num u
    then ErrBadBytesizeUnit else ErrBadBytesize)"
proof -
  have tr: "errors_Cause (Some (the (errors_Trace traced frames (Some x)))) = errors_Cause (Some x)" for x
    using Cause_Trace [of traced frames "Some x"] by (cases "errors_Trace traced frames (Some x)") (auto split: if_splits traced_error.splits)
  have c: "errors_Cause (Some ErrBadBytesize) = Some ErrBadBytesize" "errors_Cause (Some ErrBadBytesizeUnit) = Some ErrBadBytesizeUnit"
    by (simp_all add: ErrBadBytesize_def ErrBadBytesizeUnit_def errors_New_def)
  let ?K = "{kelvin_sign, kelvin_sign @ ''B'', kelvin_sign @ ''b''}"
  show ?thesis
  proof (cases "BytesizeRegexp_FindStringSubmatch s")
    case None
    then have "\<not> bytesize_matches s num u" for num u using scan_complete by fastforce
    then show ?thesis using assms None tr c by (auto simp: bytesize_Parse_def simp del: errors_Trace.simps)
  next
    case (Some p)
    obtain t u where p: "p = (t, u)" by (cases p)
    have m: "bytesize_matches s t u" using scan_sound Some p by simp
    then have u: "unit_size (to_upper u) = None \<longleftrightarrow> u \<in> ?K" by (intro unit_unknown_iff) (simp add: bytesize_matches_def)
    have "u' = u" if "bytesize_matches s num u'" for num u' using scan_complete [OF that] Some p by simp
    then have k: "(\<exists>num. \<exists>u \<in> ?K. bytesize_matches s num u) \<longleftrightarrow> u \<in> ?K" using m by blast
    have "errors_Cause (Some e) = Some (if unit_size (to_upper u) = None then ErrBadBytesizeUnit else ErrBadBytesize)"
      using assms Some p tr c
      by (auto simp: bytesize_Parse_def simp del: errors_Trace.simps split: option.splits if_splits)
    then show ?thesis unfolding k u .
  qed
qed

end
