(* ===== verification/Host_Utils.thy ===== *)
theory Host_Utils
  imports Log_Files Unix_Socket
begin

text \<open>
  Helpers around the operating system: the log files of \<open>utils/log/log.go\<close> that are opened by name,
  and paths, files and strings of \<open>utils/utils.go\<close>. The file system is the one of \<open>Log_Files\<close>; a file
  opened for writing has a position in it, or appends.
\<close>

subsection \<open>Log files opened by name\<close>

record os_file =
  of_name :: string
  of_pos :: nat
  of_append :: bool

text \<open>
  \<open>os.OpenFile(path, O_CREATE | O_WRONLY, 0666)\<close>, with \<open>O_APPEND\<close> or without; \<open>open_err\<close> is its error for a
  name, if any. A missing file is created, and the position is the start of the file.
\<close>

definition os_OpenFile :: "(string \<Rightarrow> go_error option) \<Rightarrow> bool \<Rightarrow> string \<Rightarrow> files \<Rightarrow> (go_error + os_file) \<times> files" where
  "os_OpenFile open_err app path fs =
     (case open_err path of
        Some e \<Rightarrow> (Inl e, fs)
      | None \<Rightarrow> (Inr \<lparr>of_name = path, of_pos = 0, of_append = app\<rparr>, if fs path = None then fs(path := Some []) else fs))"

definition os_file_Write :: "byte list \<Rightarrow> os_file \<Rightarrow> files \<Rightarrow> os_file \<times> files" where
  "os_file_Write b f fs =
     (let old = (case fs (of_name f) of Some c \<Rightarrow> c | None \<Rightarrow> []);
          pos = (if of_append f then length old else of_pos f) in
      (f\<lparr>of_pos := pos + length b\<rparr>, fs(of_name f := Some (take pos old @ b @ drop (pos + length b) old))))"

definition log_OpenFile :: "bool \<Rightarrow> runtime_frames \<Rightarrow> (string \<Rightarrow> go_error option) \<Rightarrow> string \<Rightarrow> files \<Rightarrow> (traced_error + os_file) \<times> files" where
  "log_OpenFile traced frames open_err path fs =
     (case os_OpenFile open_err False path fs of
        (Inl e, fs1) \<Rightarrow> (Inl (the (errors_Trace traced frames (Some (Plain e)))), fs1)
      | (Inr f, fs1) \<Rightarrow> (Inr f, fs1))"

text \<open>
  Loggers over such a file have the file as their output. The functions with \<open>Must\<close> end the process
  (\<open>Inl\<close>, with the global logger as it leaves it) when the file cannot be opened.
\<close>

definition log_FileLog :: "bool \<Rightarrow> runtime_frames \<Rightarrow> (string \<Rightarrow> go_error option) \<Rightarrow> string \<Rightarrow> files \<Rightarrow>
    (traced_error + os_file Logger) \<times> files" where
  "log_FileLog traced frames open_err path fs =
     (case log_OpenFile traced frames open_err path fs of
        (Inl e, fs1) \<Rightarrow> (Inl e, fs1)
      | (Inr f, fs1) \<Rightarrow> (Inr (log_New f []), fs1))"

definition log_MustOpenFile :: "('v, 'o) log_env \<Rightarrow> (string \<Rightarrow> 'v) \<Rightarrow> bool \<Rightarrow> (string \<Rightarrow> go_error option) \<Rightarrow> 'o Logger \<Rightarrow> string \<Rightarrow> files \<Rightarrow>
    ('o Logger + os_file) \<times> files" where
  "log_MustOpenFile E val traced open_err StdLog path fs =
     (case log_OpenFile traced (le_frames E) open_err path fs of
        (Inl e, fs1) \<Rightarrow>
          (Inl (case log_PanicErrorf E (Some e) (''open file log '' @ [CHR 0x27] @ ''%s'' @ [CHR 0x27] @ '' failed'') [val path] StdLog of Inl l \<Rightarrow> l | Inr l \<Rightarrow> l), fs1)
      | (Inr f, fs1) \<Rightarrow> (Inr f, fs1))"

definition log_MustFileLog :: "('v, 'o) log_env \<Rightarrow> (string \<Rightarrow> 'v) \<Rightarrow> bool \<Rightarrow> (string \<Rightarrow> go_error option) \<Rightarrow> 'o Logger \<Rightarrow> string \<Rightarrow> files \<Rightarrow>
    ('o Logger + os_file Logger) \<times> files" where
  "log_MustFileLog E val traced open_err StdLog path fs =
     (case log_MustOpenFile E val traced open_err StdLog path fs of
        (Inl l, fs1) \<Rightarrow> (Inl l, fs1)
      | (Inr f, fs1) \<Rightarrow> (Inr (log_New f []), fs1))"

text \<open>\<open>NopCloser\<close> gives a writer a \<open>Close\<close> that does nothing; the global logger is one over standard error.\<close>

definition nopCloser_Close :: "'o \<Rightarrow> go_error option \<times> 'o" where
  "nopCloser_Close w = (None, w)"

definition log_StdLog :: "'o \<Rightarrow> 'o Logger" where
  "log_StdLog stderr = log_New stderr []"

text \<open>
  A log file is opened without \<open>O_APPEND\<close> and without \<open>O_TRUNC\<close>: the first lines written to it replace as
  many bytes at the start of the file, and the rest of an older log stays behind them.
\<close>

lemma file_log_overwrites:
  assumes "open_err path = None" and "fs path = Some old"
  obtains f where "log_OpenFile traced frames open_err path fs = (Inr f, fs)"
    and "snd (os_file_Write b f fs) path = Some (b @ drop (length b) old)"
  using assms by (simp add: log_OpenFile_def os_OpenFile_def os_file_Write_def Let_def)

text \<open>Consecutive writes through one file are behind one another.\<close>

lemma file_writes_consecutive:
  assumes "fs (of_name f) = Some old" and "of_pos f \<le> length old \<or> of_append f"
  shows "os_file_Write b2 (fst (os_file_Write b1 f fs)) (snd (os_file_Write b1 f fs)) = os_file_Write (b1 @ b2) f fs"
  using assms by (auto simp: os_file_Write_def Let_def min_def ac_simps)

subsection \<open>The crash log\<close>

text \<open>
  \<open>SetCrashLog\<close> sends standard error to a file that is opened for appending; \<open>dup2\<close> replaces the file
  behind the descriptor. An error is logged, and standard error stays as it is.
\<close>

definition SetCrashLog :: "('v, 'o) log_env \<Rightarrow> (string \<Rightarrow> 'v) \<Rightarrow> (string \<Rightarrow> go_error option) \<Rightarrow> string \<Rightarrow> 'o Logger \<Rightarrow> os_file \<Rightarrow> files \<Rightarrow>
    'o Logger \<times> os_file \<times> files" where
  "SetCrashLog E val open_err path l stderr fs =
     (case os_OpenFile open_err True path fs of
        (Inl e, fs1) \<Rightarrow> (log_InfoErrorf E (Some (Plain e)) ''cannot open crash log file: %s'' [val path] l, stderr, fs1)
      | (Inr f, fs1) \<Rightarrow> (l, f, fs1))"

lemma crash_log_keeps_old:
  assumes "open_err path = None" and "fs path = Some old"
  obtains f where "SetCrashLog E val open_err path l stderr fs = (l, f, fs)"
    and "snd (os_file_Write b f fs) path = Some (old @ b)"
  using assms by (simp add: SetCrashLog_def os_OpenFile_def os_file_Write_def Let_def)

subsection \<open>Paths, files and strings\<close>

definition utils_GetZkLock :: "('c \<Rightarrow> string \<Rightarrow> 'l) \<Rightarrow> 'c \<Rightarrow> string \<Rightarrow> 'l" where
  "utils_GetZkLock CreateMutex zkConn productName = CreateMutex zkConn (''/zk/codis/db_'' @ productName @ ''/LOCK'')"

text \<open>\<open>filepath.Abs\<close>, for a working directory that the system gives or fails to give.\<close>

definition filepath_Abs :: "go_error + string \<Rightarrow> string \<Rightarrow> go_error + string" where
  "filepath_Abs wd path = (if take 1 path = ''/'' then Inr (path_Clean path)
     else case wd of Inl e \<Rightarrow> Inl e | Inr d \<Rightarrow> Inr (path_Join [d, path]))"

definition GetExecutorPath :: "('v, 'o) log_env \<Rightarrow> go_error + string \<Rightarrow> 'o Logger \<Rightarrow> string \<Rightarrow> 'o Logger + string" where
  "GetExecutorPath E wd StdLog arg0 =
     (case filepath_Abs wd (path_Dir arg0) of
        Inl e \<Rightarrow> Inl (case log_PanicErrorf E (Some (Plain e)) ''get executor path failed'' [] StdLog of Inl l \<Rightarrow> l | Inr l \<Rightarrow> l)
      | Inr execPath \<Rightarrow> Inr execPath)"

definition utils_FileExist :: "('l, 'c, 'w) os_net \<Rightarrow> string \<Rightarrow> 'w \<Rightarrow> bool" where
  "utils_FileExist N file w = (\<not> os_IsNotExist N (os_Stat N file w))"

text \<open>\<open>Copy\<close> reads the bytes of a string as a slice and makes a string of them.\<close>

definition utils_Copy :: "string \<Rightarrow> string" where
  "utils_Copy s = bytes_string (string_bytes s)"

lemma utils_Copy_same: "utils_Copy s = s"
  by (simp add: utils_Copy_def)

lemma GetExecutorPath_absolute:
  assumes "take 1 (path_Dir arg0) = ''/'' \<or> (\<exists>d. wd = Inr d)"
  shows "\<exists>p. GetExecutorPath E wd StdLog arg0 = Inr p"
  using assms by (auto simp: GetExecutorPath_def filepath_Abs_def)

end
