(* ===== verification/Spec2Isabelle.thy ===== *)
theory Spec2Isabelle
  imports End_To_End Conn_Run Discovery Server_Exit Worker_Machine Server_Trip Rpc_Service_Correct Command_Line Byte_Size Host_Utils
begin

text \<open>
  This development verifies \<open>rpc_proxy\<close>, a proxy and load balancer for Thrift RPC. Clients send
  framed Thrift messages named \<open>service:method\<close> to the proxy of their machine (\<open>cmds/rpc_proxy.go\<close>).
  The proxy finds the servers of the service in zookeeper, keeps one connection to each of them,
  gives every request a sequence number of its connection, and returns the reply under the
  client's number. A server is either a process that executes requests (\<open>ThriftRpcServer\<close>) or a
  load balancer (\<open>cmds/rpc_lb.go\<close>) to which workers connect.

  \<^bold>\<open>Theories and sources\<close> (files under \<open>src/\<close>).

  \<^item> \<open>Go_Prelude\<close>, \<open>Go_Memory\<close>, \<open>Go_Path\<close>, \<open>Go_Json\<close>, \<open>Bufio\<close>: what the code uses of Go. A call ends
    in an \<open>outcome\<close>: \<open>Ret\<close>, \<open>Panic\<close> or \<open>Block\<close>; errors are values of \<open>go_error\<close>; slices are windows
    into backing arrays; a channel is a list with a capacity and a flag that says whether it is closed.
  \<^item> \<open>Thrift_Lib\<close>: the Thrift library as a parameter, with the layout of message headers as its laws.
  \<^item> \<open>Memory_Alloc\<close> (\<open>proxy/memory_alloc.go\<close>, \<open>memory_buffer.go\<close>), \<open>Framed_Transport\<close>
    (\<open>buffered_framed_transport.go\<close>), \<open>Request\<close> (\<open>request.go\<close>, \<open>thrift_exception.go\<close>, \<open>heartbeat.go\<close>).
  \<^item> \<open>Conn_Pool\<close>, \<open>Seq_Table\<close>, \<open>Completion\<close>, \<open>Pending\<close>: interfaces that the connections of the proxy and
    those of the load balancer share: the array of active connections, the table from sequence
    numbers to requests, and the completion of a request. They are locales, interpreted in the
    theories of both kinds of connection.
  \<^item> \<open>Backend_Conn\<close>, \<open>Backend_Conn_Correct\<close> (\<open>backend_conn_proxy.go\<close>), \<open>Back_Service\<close>,
    \<open>Back_Service_Correct\<close> (\<open>backend_service_proxy.go\<close>), \<open>Router\<close> (\<open>router_proxy.go\<close>),
    \<open>Backend_Conn_LB\<close>, \<open>Backend_Conn_LB_Correct\<close> (\<open>backend_conn_lb.go\<close>, \<open>backend_service_lb.go\<close>).
  \<^item> \<open>Session\<close>, \<open>Session_Correct\<close>, \<open>Serve_Machine\<close> (\<open>session_proxy.go\<close>, \<open>session_nonblock.go\<close>), \<open>Stats\<close>
    (\<open>stats.go\<close>, \<open>utils/atomic2\<close>), \<open>Rpc_Server\<close> (\<open>server_general_rpc.go\<close>), \<open>Unix_Socket\<close>
    (\<open>socket_unix_domain.go\<close>, \<open>socket_server_unix_domain.go\<close>), \<open>Servers\<close> and \<open>Server_Exit\<close>
    (\<open>server_general_rpc.go\<close>, \<open>server_lb.go\<close>, \<open>server_proxy.go\<close>).
  \<^item> \<open>Zk_Conn\<close> (\<open>utils/zk.go\<close>), \<open>Topology\<close> (\<open>zk/topology.go\<close>), \<open>Zk_Tree\<close> (an instance of zookeeper in
    memory), \<open>Endpoint\<close> (\<open>endpoint.go\<close>, \<open>RegisterService\<close>), \<open>Discovery\<close> (the loops that watch
    zookeeper in \<open>router_proxy.go\<close> and \<open>backend_service_proxy.go\<close>).
  \<^item> \<open>Go_Errors\<close> (\<open>utils/errors\<close>, \<open>utils/trace\<close>), \<open>Configuration\<close> (\<open>utils/config.go\<close>, \<open>utils/utils.go\<close>,
    \<open>proxy/utils_config_checker.go\<close>), \<open>Go_Log\<close> and \<open>Log_Files\<close>
    (\<open>utils/log\<close>, \<open>utils/assert\<close>, \<open>utils_log.go\<close>), \<open>Command_Line\<close> (\<open>rpc_command_line.go\<close>), \<open>Byte_Size\<close>
    (\<open>utils/bytesize\<close>), \<open>Host_Utils\<close> (files, paths and strings of \<open>utils/log\<close>, \<open>utils/utils.go\<close>, \<open>utils_log.go\<close>).
  \<^item> \<open>Rpc_Service_Base\<close>, \<open>Rpc_Service_Correct\<close> (\<open>gen-go/rpc_thrift/services\<close>): the structures, the client stub
    and the processor that the Thrift compiler wrote for the service of every server.
  \<^item> \<open>Conn_Machine\<close>, \<open>Conn_Run\<close>, \<open>Worker_Machine\<close>, \<open>Proxy_Machine\<close>: one round of a connection of the proxy,
    its whole life with reconnections, one connection of the load balancer and the whole proxy as
    step relations, in which the goroutines interleave; \<open>End_To_End\<close>
    and this theory: the way of a request and of its reply through the proxy; \<open>Balancer_Trip\<close>:
    through the load balancer; \<open>Server_Trip\<close>: through the proxy and a server, for requests and heartbeats.

  A struct is a record with the names of its fields, a method is a definition with the name of
  the type and the method, a loop that may not end is given by its rounds or as a partial
  function, and the process is a record (\<open>heap\<close>, \<open>pstate\<close>, \<open>lstate\<close>) that the operations pass on.
  Pointers to requests, connections and services are numbers into it.

  \<^bold>\<open>What is shown.\<close>

  \<^item> The way of a request: frames are read as they were written, whatever the chunks of the network;
    a request is rewritten and its reply restored byte for byte; a reply is found under its number;
    the round trips through the proxy and through the load balancer compose these, and so does the way through
    proxy and server and the round trip of a heartbeat; unknown services and services without a
    server are answered with exceptions. A \<open>ping\<close> of the generated client, served by the generated
    processor in a session of a server, returns what the handler returned.
  \<^item> Connections: the pending requests of a connection stay consistent under every interleaving of
    its goroutines and through every reconnection, whatever the backend sends; a lost connection fails the requests sent on it,
    and a failed writer those in its queue, once each. The same holds for the workers of the load
    balancer, except for the two races named below.
  \<^item> Services: in every reachable state of the proxy the array of a service lists its connections
    that are up, requests go round robin, and each round of the watch loops makes services and
    connections agree with zookeeper. A registered server is found; a lost session registers again.
  \<^item> Sessions: no request is lost or answered twice between reader, handlers and writer; the proxy
    answers in order; channels are closed once and not used afterwards.
  \<^item> Memory: no sequence of operations gives a backing array to two users.
  \<^item> Encodings: an \<open>RpcException\<close> is read back as it was written, also by a peer with other fields; the
    scanner of sizes finds exactly the submatches of its regular expression, and a size is parsed
    to its value up to the rounding of a \<open>float64\<close>.
  \<^item> Behaviour that the code does not mean to have, each as a theorem on the model: see the
    properties on early replies, connections marked offline while they connect, the wait on a
    heartbeat timeout, requests pushed after the last round of a connection, stale indices of the load balancer, a worker lost between the choice and
    the push or between the flush and the table, misaligned and garbled messages,
    identities that collide, slices that are returned too early, and zookeeper errors that end
    the process.

  \<^bold>\<open>Bounds and environment.\<close> Capacities are those of the code: 1024 requests in the input of a
  connection, 1000 slices in a pool, 1000 tasks in a session, 4096 accepted connections, two
  events of a watch; sequence numbers run from 1 to 100000 in 32-bit words, and counters are
  64-bit words. No fuel is used: loops end by a measure, or are partial functions about which
  termination is proved as such (\<open>ensureConn\<close>, \<open>Stop\<close>, \<open>CreateRecursive\<close>, the retries of \<open>zk.go\<close>).
  Parameters, with what is assumed of them, are: the Thrift library (\<open>thrift_ok\<close>, met by
  \<open>strict_binary\<close>) and its protocol objects (\<open>binary_ok\<close>, met by \<open>binary_memory\<close>), the network (a list of chunks to read, a function that accepts or refuses
  writes), zookeeper and its client (\<open>zk_service\<close>, met by \<open>Zk_Tree\<close>), the processor of a server, the
  operating system's sockets, the library that reads configuration files, the clock, and the
  order in which Go traverses maps.

  \<^bold>\<open>Not modelled.\<close> The formatting of Go values in log messages and the colours of the terminal;
  the periodic reports to the log; and the command line of the test client that the Thrift
  compiler generates (\<open>rpc_service_base-remote.go\<close>), which the system does not run. Where the
  language leaves a result to the implementation, it is a parameter (the conversion of a float
  outside of \<open>int64\<close> in \<open>Byte_Size\<close>).
\<close>

section \<open>Properties of the whole proxy\<close>

text \<open>
  C1: A client's frame for \<open>service:method\<close>, read by its session, reaches the backend chosen
  by the service as the same message for \<open>method\<close> under a sequence number of the connection; and
  when the backend answers under this number with a message of the same name, in whatever chunks
  and whatever else has been read before, the client receives exactly that message with its own
  sequence number. Payloads pass through both directions byte for byte, and the request is no
  longer pending afterwards.
\<close>

theorem request_round_trip:
  fixes ps :: pstate
  assumes T: "thrift_ok T" and mem: "pool_ok (pmem ps)" and ses: "\<not> quit ses" "length tasks < maxPipeline"
    and client: "FrameSize cp = 0" "reader_bytes (Reader cp) = frame_bytes req @ behind"
      "length req \<le> maxLength cp" "length req < 2 ^ 32"
    and req: "req = msg_header T (svc @ '':'' @ name) ty seq @ payload" "msg_ok (svc @ '':'' @ name) ty"
      "CHR '':'' \<notin> set svc" "svc \<noteq> []" "ty \<noteq> MESSAGE_TYPE_HEART_BEAT"
    and service: "rt_services r svc = Some s" "activeConns (svcs ps s) \<noteq> []"
    and conn: "c = next_conn_of s ps" "conn_inv c ps" "\<not> bc_input_closed (conns ps c)" "bc_input (conns ps c) = []"
      "next_req ps \<notin> bc_pending c ps"
    and backend: "net_accepts bnet bsent" "werr (Writer bp) = None" "fbuf bp = []"
    and answer: "net_accepts cnet csent" "werr (Writer cw) = None" "fbuf cw = []"
  shows "\<exists>ses1 cp1 ps1 bp1 ps2.
      Session_loopReader_turn T t maxPipeline (Some (Router_Dispatch T t r)) ses cp tasks ps =
        Ret (Continue, ses1, cp1, tasks @ [next_req ps], ps1)
    \<and> BackendConn_loopWriter_turn T bnet now nano c bp ps1 = Ret (Continue, bp1, ps2)
    \<and> bsent (under (Writer bp1)) = framed_out bsent bp @
        frame_bytes (msg_header T name ty (bc_currentSeqId (conns ps c)) @ payload)
    \<and> (\<forall>m br reply ty' payload' rest. reply = msg_header T name ty' (bc_currentSeqId (conns ps c)) @ payload' \<longrightarrow>
        msg_ok name ty' \<longrightarrow> ty' \<noteq> MESSAGE_TYPE_HEART_BEAT \<longrightarrow> pool_ok m \<longrightarrow> FrameSize br = 0 \<longrightarrow>
        reader_bytes (Reader br) = frame_bytes reply @ rest \<longrightarrow> length reply \<le> maxLength br \<longrightarrow> length reply < 2 ^ 32 \<longrightarrow>
        (\<exists>br1 ps3 cw1 st1 ps4.
          BackendConn_loopReader_turn T now c ks (br :: 'n framed) (ps2\<lparr>pmem := m\<rparr>) = Ret (Continue, br1, ps3)
        \<and> next_req ps \<notin> bc_pending c ps3
        \<and> Session_loopWriter T cnet clock [next_req ps] cw st ps3 = Ret (None, cw1, st1, ps4)
        \<and> csent (under (Writer cw1)) = framed_out csent cw @ frame_bytes (msg_header T name ty' seq @ payload')))"
proof -
  let ?rid = "next_req ps" and ?k = "bc_currentSeqId (conns ps c)"
  have room: "length (bc_input (conns ps c)) < CHAN_CAP" using conn(4) by (simp add: CHAN_CAP_def)
  obtain ses1 cp1 ps1 where a: "Session_loopReader_turn T t maxPipeline (Some (Router_Dispatch T t r)) ses cp tasks ps =
      Ret (Continue, ses1, cp1, tasks @ [?rid], ps1)"
    and i1: "conn_inv c ps1" "bc_input (conns ps1 c) = [?rid]" "bc_currentSeqId (conns ps1 c) = ?k"
      "sendable (pmem ps1) (reqs ps1 ?rid) payload"
    and f1: "ReqName (reqs ps1 ?rid) = name" "ReqTypeId (reqs ps1 ?rid) = ty" "ReqSeqId (reqs ps1 ?rid) = seq"
      "Wait (reqs ps1 ?rid) = Some 1"
    using request_enters [OF T mem ses client req(1-4) service conn(1-3) room conn(5), of t] conn(4) by auto
  obtain bp1 ps2 where b: "BackendConn_loopWriter_turn T bnet now nano c bp ps1 = Ret (Continue, bp1, ps2)"
      "bsent (under (Writer bp1)) = framed_out bsent bp @ frame_bytes (msg_header T name ty ?k @ payload)"
    and i2: "conn_inv c ps2" "bc_seqNum2Request (conns ps2 c) ?k = Some ?rid"
    and f2: "ReqName (reqs ps2 ?rid) = name" "ReqSeqId (reqs ps2 ?rid) = seq" "Wait (reqs ps2 ?rid) = Some 1"
    using request_leaves [OF T i1(1,2,4) _ backend, of now nano] req(5) f1 i1(3) by auto
  have "\<exists>br1 ps3 cw1 st1 ps4. BackendConn_loopReader_turn T now c ks br (ps2\<lparr>pmem := m\<rparr>) = Ret (Continue, br1, ps3)
      \<and> ?rid \<notin> bc_pending c ps3 \<and> Session_loopWriter T cnet clock [?rid] cw st ps3 = Ret (None, cw1, st1, ps4)
      \<and> csent (under (Writer cw1)) = framed_out csent cw @ frame_bytes (msg_header T name ty' seq @ payload')"
    if h: "reply = msg_header T name ty' ?k @ payload'" "msg_ok name ty'" "ty' \<noteq> MESSAGE_TYPE_HEART_BEAT" "pool_ok m"
      "FrameSize br = 0" "reader_bytes (Reader br) = frame_bytes reply @ rest" "length reply \<le> maxLength br" "length reply < 2 ^ 32"
    for m reply ty' payload' rest and br :: "'n framed"
  proof -
    let ?qs = "ps2\<lparr>pmem := m\<rparr>"
    have "conn_inv c ?qs" "pool_ok (pmem ?qs)" "bc_seqNum2Request (conns ?qs c) ?k = Some ?rid" "Wait (reqs ?qs ?rid) = Some 1"
      "length name = length (ReqName (reqs ?qs ?rid))" using i2 f2 h(4) by simp_all
    from reply_returns [OF T this(1-4) h(5-8) h(1-3) this(5) answer, of now ks clock st] show ?thesis
      using f2 by (auto simp del: Session_loopWriter.simps)
  qed
  then show ?thesis using a b by blast
qed

theorem request_round_trip_witness:
  "\<exists>ses1 cp1 ps1 bp1 ps2 br1 ps3 cw1 st1 ps4.
      Session_loopReader_turn strict_binary 0 10 (Some (Router_Dispatch strict_binary 0 demo_router))
        (NewSession 0 ''client'' False) (demo_reader (frame_bytes (msg_header strict_binary ''math:add'' 1 7 @ [42]))) [] demo_ps =
        Ret (Continue, ses1, cp1, [0], ps1)
    \<and> BackendConn_loopWriter_turn strict_binary net_all 0 0 0 demo_writer ps1 = Ret (Continue, bp1, ps2)
    \<and> under (Writer bp1) = frame_bytes (msg_header strict_binary ''add'' 1 1 @ [42])
    \<and> BackendConn_loopReader_turn strict_binary 0 0 [] (demo_reader (frame_bytes (msg_header strict_binary ''add'' 2 1 @ [43])))
        (ps2\<lparr>pmem := empty_memory\<rparr>) = Ret (Continue, br1, ps3)
    \<and> Session_loopWriter strict_binary net_all (\<lambda>_. 0) [0] demo_writer init_cmdstats ps3 = Ret (None, cw1, st1, ps4)
    \<and> under (Writer cw1) = frame_bytes (msg_header strict_binary ''add'' 2 7 @ [43])"
proof -
  let ?T = strict_binary
  let ?req = "msg_header ?T (''math'' @ '':'' @ ''add'') 1 7 @ [42]" and ?reply = "msg_header ?T ''add'' 2 1 @ [43]"
  have ok: "msg_ok (''math'' @ '':'' @ ''add'') 1" "msg_ok ''add'' 2" by (simp_all add: msg_ok_def)
  have len: "length ?req = 21" "length ?reply = 16" using ok by simp_all
  have ses: "\<not> quit (NewSession 0 ''client'' False)" "length ([] :: nat list) < 10" by (simp_all add: NewSession_def)
  have cl: "FrameSize (demo_reader (frame_bytes ?req)) = 0" "reader_bytes (Reader (demo_reader (frame_bytes ?req))) = frame_bytes ?req @ []"
    "length ?req \<le> maxLength (demo_reader (frame_bytes ?req))" "length ?req < 2 ^ 32" using len by simp_all
  have hb: "CHR '':'' \<notin> set ''math''" "''math'' \<noteq> []" "(1 :: int32) \<noteq> MESSAGE_TYPE_HEART_BEAT" "(2 :: int32) \<noteq> MESSAGE_TYPE_HEART_BEAT"
    by (simp_all add: MESSAGE_TYPE_HEART_BEAT_def)
  have sv: "rt_services demo_router ''math'' = Some 0" "activeConns (svcs demo_ps 0) \<noteq> []" by (simp_all add: demo_router_def)
  have cn: "\<not> bc_input_closed (conns demo_ps 0)" "bc_input (conns demo_ps 0) = []" "next_req demo_ps \<notin> bc_pending 0 demo_ps"
    using demo_conn_inv by simp_all
  note rt = request_round_trip [OF thrift_ok_strict_binary demo_conn_inv(4) ses cl refl ok(1) hb(1-3) sv
      demo_conn_inv(3) [symmetric] demo_conn_inv(1) cn net_accepts_all demo_transport(1,2) net_accepts_all demo_transport(1,2),
      of 0 0 0 "[]" "\<lambda>_. 0" init_cmdstats, where ?'n = "byte list"]
  have rd: "?reply = msg_header ?T ''add'' 2 (bc_currentSeqId (conns demo_ps 0)) @ [43]" "pool_ok empty_memory"
    "FrameSize (demo_reader (frame_bytes ?reply)) = 0" "reader_bytes (Reader (demo_reader (frame_bytes ?reply))) = frame_bytes ?reply @ []"
    "length ?reply \<le> maxLength (demo_reader (frame_bytes ?reply))" "length ?reply < 2 ^ 32" using len by simp_all
  have seq: "bc_currentSeqId (conns demo_ps 0) = 1" "next_req demo_ps = 0" by simp_all
  obtain ses1 cp1 ps1 bp1 ps2 where
    a: "Session_loopReader_turn ?T 0 10 (Some (Router_Dispatch ?T 0 demo_router)) (NewSession 0 ''client'' False)
        (demo_reader (frame_bytes ?req)) [] demo_ps = Ret (Continue, ses1, cp1, [] @ [next_req demo_ps], ps1)"
      "BackendConn_loopWriter_turn ?T net_all 0 0 0 demo_writer ps1 = Ret (Continue, bp1, ps2)"
      "id (under (Writer bp1)) = framed_out id demo_writer @
        frame_bytes (msg_header ?T ''add'' 1 (bc_currentSeqId (conns demo_ps 0)) @ [42])"
    and b: "\<And>m (br :: byte list framed) reply ty' payload' rest. reply = msg_header ?T ''add'' ty' (bc_currentSeqId (conns demo_ps 0)) @ payload' \<Longrightarrow>
        msg_ok ''add'' ty' \<Longrightarrow> ty' \<noteq> MESSAGE_TYPE_HEART_BEAT \<Longrightarrow> pool_ok m \<Longrightarrow> FrameSize br = 0 \<Longrightarrow>
        reader_bytes (Reader br) = frame_bytes reply @ rest \<Longrightarrow> length reply \<le> maxLength br \<Longrightarrow> length reply < 2 ^ 32 \<Longrightarrow>
        \<exists>br1 ps3 cw1 st1 ps4. BackendConn_loopReader_turn ?T 0 0 [] br (ps2\<lparr>pmem := m\<rparr>) = Ret (Continue, br1, ps3)
        \<and> next_req demo_ps \<notin> bc_pending 0 ps3
        \<and> Session_loopWriter ?T net_all (\<lambda>_. 0) [next_req demo_ps] demo_writer init_cmdstats ps3 = Ret (None, cw1, st1, ps4)
        \<and> id (under (Writer cw1)) = framed_out id demo_writer @ frame_bytes (msg_header ?T ''add'' ty' 7 @ payload')"
    using rt by (elim exE conjE) (rule that, assumption+, simp only: simp_thms)
  from b [OF rd(1) ok(2) hb(4) rd(2-6)] obtain br1 ps3 cw1 st1 ps4 where
    "BackendConn_loopReader_turn ?T 0 0 [] (demo_reader (frame_bytes ?reply)) (ps2\<lparr>pmem := empty_memory\<rparr>) = Ret (Continue, br1, ps3)"
    "Session_loopWriter ?T net_all (\<lambda>_. 0) [next_req demo_ps] demo_writer init_cmdstats ps3 = Ret (None, cw1, st1, ps4)"
    "id (under (Writer cw1)) = framed_out id demo_writer @ frame_bytes (msg_header ?T ''add'' 2 7 @ [43])"
    by blast
  then show ?thesis using a unfolding seq by (intro exI conjI) simp_all
qed

text \<open>
  C26: A request for a service that the router does not know is answered by the proxy itself: the
  client gets, in its turn, a Thrift exception with its method name and its sequence number that
  says that the service is not found; no connection is touched.
\<close>

theorem unknown_service_answered:
  fixes ps :: pstate
  assumes T: "thrift_ok T" and mem: "pool_ok (pmem ps)" and ses: "\<not> quit ses" "length tasks < maxPipeline"
    and client: "FrameSize cp = 0" "reader_bytes (Reader cp) = frame_bytes req @ behind"
      "length req \<le> maxLength cp" "length req < 2 ^ 32"
    and req: "req = msg_header T (svc @ '':'' @ name) ty seq @ payload" "msg_ok (svc @ '':'' @ name) ty" "CHR '':'' \<notin> set svc"
    and unknown: "rt_services r svc = None"
    and answer: "net_accepts cnet csent" "werr (Writer cw) = None" "fbuf cw = []"
  shows "\<exists>ses1 cp1 ps1 cw1 st1 ps2. Session_loopReader_turn T t maxPipeline (Some (Router_Dispatch T t r)) ses cp tasks ps =
      Ret (Continue, ses1, cp1, tasks @ [next_req ps], ps1) \<and> conns ps1 = conns ps
    \<and> Session_loopWriter T cnet clock [next_req ps] cw st ps1 = Ret (None, cw1, st1, ps2)
    \<and> csent (under (Writer cw1)) = framed_out csent cw @ frame_bytes (msg_header T name (EXCEPTION T) seq @
        concat (WriteApplicationException T (UNKNOWN_APPLICATION_EXCEPTION T) (''Service: '' @ svc @ '' Not Found'')) @
        concat (WriteMessageEnd T))"
proof (rule dispatch_exception_answered [OF T mem ses client req _ answer])
  fix ps1 :: pstate
  assume h: "Service (reqs ps1 (next_req ps)) = svc" "ReqName (reqs ps1 (next_req ps)) = name" "ReqSeqId (reqs ps1 (next_req ps)) = seq"
  have "rt_services r (Service (reqs ps1 (next_req ps))) = None" using h unknown by simp
  from Dispatch_unknown [OF this, of T t] h
  show "\<exists>ps2 d. Router_Dispatch T t r (next_req ps) ps1 = Ret (None, ps2)
      \<and> reqs ps2 (next_req ps) = (reqs ps1 (next_req ps))\<lparr>RespTypeId := EXCEPTION T, RespData := Some d\<rparr>
      \<and> slice_ok (pmem ps2) d \<and> slice_bytes (pmem ps2) d = msg_header T name (EXCEPTION T) seq @
        concat (WriteApplicationException T (UNKNOWN_APPLICATION_EXCEPTION T) (''Service: '' @ svc @ '' Not Found'')) @
        concat (WriteMessageEnd T) \<and> conns ps2 = conns ps1"
    by auto
qed

theorem unknown_service_answered_witness:
  "\<exists>ses1 cp1 ps1 cw1 st1 ps2. Session_loopReader_turn strict_binary 0 10 (Some (Router_Dispatch strict_binary 0 demo_router))
        (NewSession 0 ''client'' False) (demo_reader (frame_bytes (msg_header strict_binary ''geo:add'' 1 7 @ [42]))) [] demo_ps =
      Ret (Continue, ses1, cp1, [0], ps1)
    \<and> Session_loopWriter strict_binary net_all (\<lambda>_. 0) [0] demo_writer init_cmdstats ps1 = Ret (None, cw1, st1, ps2)"
proof -
  let ?T = strict_binary
  let ?req = "msg_header ?T (''geo'' @ '':'' @ ''add'') 1 7 @ [42]"
  have ok: "msg_ok (''geo'' @ '':'' @ ''add'') 1" by (simp add: msg_ok_def)
  then have "length ?req = 20" by simp
  then show ?thesis
    using unknown_service_answered [of ?T demo_ps "NewSession 0 ''client'' False" "[]" 10 "demo_reader (frame_bytes ?req)" ?req "[]"
        "''geo''" "''add''" 1 7 "[42]" demo_router net_all id demo_writer 0 "\<lambda>_. 0" init_cmdstats] ok demo_conn_inv(4)
    by (auto simp: NewSession_def demo_router_def NewRouter_def simp del: Session_loopWriter.simps)
qed

text \<open>
  A request for a known service with no active connection is answered likewise, with an
  internal error that names the service and the method.
\<close>

lemma no_worker_answered:
  fixes ps :: pstate
  assumes T: "thrift_ok T" and mem: "pool_ok (pmem ps)" and ses: "\<not> quit ses" "length tasks < maxPipeline"
    and client: "FrameSize cp = 0" "reader_bytes (Reader cp) = frame_bytes req @ behind"
      "length req \<le> maxLength cp" "length req < 2 ^ 32"
    and req: "req = msg_header T (svc @ '':'' @ name) ty seq @ payload" "msg_ok (svc @ '':'' @ name) ty" "CHR '':'' \<notin> set svc"
    and service: "rt_services r svc = Some s" "activeConns (svcs ps s) = []"
    and answer: "net_accepts cnet csent" "werr (Writer cw) = None" "fbuf cw = []"
  shows "\<exists>ses1 cp1 ps1 cw1 st1 ps2. Session_loopReader_turn T t maxPipeline (Some (Router_Dispatch T t r)) ses cp tasks ps =
      Ret (Continue, ses1, cp1, tasks @ [next_req ps], ps1) \<and> conns ps1 = conns ps
    \<and> Session_loopWriter T cnet clock [next_req ps] cw st ps1 = Ret (None, cw1, st1, ps2)
    \<and> csent (under (Writer cw1)) = framed_out csent cw @ frame_bytes (msg_header T name (EXCEPTION T) seq @
        concat (WriteApplicationException T (INTERNAL_ERROR T) (''Worker FOR BackService#'' @ svc @ ''.'' @ name @ '' Not Found'')) @
        concat (WriteMessageEnd T))"
proof (rule dispatch_exception_answered [OF T mem ses client req _ answer])
  fix ps1 :: pstate
  assume h: "svcs ps1 = svcs ps" "Service (reqs ps1 (next_req ps)) = svc" "ReqName (reqs ps1 (next_req ps)) = name"
    "ReqSeqId (reqs ps1 (next_req ps)) = seq"
  have "activeConns (svcs ps1 s) = []" using h(1) service(2) by simp
  from HandleRequest_no_worker [OF this, of T t "next_req ps"] h(2-4) service(1)
  show "\<exists>ps2 d. Router_Dispatch T t r (next_req ps) ps1 = Ret (None, ps2)
      \<and> reqs ps2 (next_req ps) = (reqs ps1 (next_req ps))\<lparr>RespTypeId := EXCEPTION T, RespData := Some d\<rparr>
      \<and> slice_ok (pmem ps2) d \<and> slice_bytes (pmem ps2) d = msg_header T name (EXCEPTION T) seq @
        concat (WriteApplicationException T (INTERNAL_ERROR T) (''Worker FOR BackService#'' @ svc @ ''.'' @ name @ '' Not Found'')) @
        concat (WriteMessageEnd T) \<and> conns ps2 = conns ps1"
    by (auto simp: Dispatch_known)
qed

lemma no_worker_answered_witness:
  "\<exists>ses1 cp1 ps1 cw1 st1 ps2. Session_loopReader_turn strict_binary 0 10 (Some (Router_Dispatch strict_binary 0 demo_router))
        (NewSession 0 ''client'' False) (demo_reader (frame_bytes (msg_header strict_binary ''math:add'' 1 7 @ [42]))) [] empty_pstate =
      Ret (Continue, ses1, cp1, [0], ps1)
    \<and> Session_loopWriter strict_binary net_all (\<lambda>_. 0) [0] demo_writer init_cmdstats ps1 = Ret (None, cw1, st1, ps2)"
proof -
  let ?T = strict_binary
  let ?req = "msg_header ?T (''math'' @ '':'' @ ''add'') 1 7 @ [42]"
  have ok: "msg_ok (''math'' @ '':'' @ ''add'') 1" by (simp add: msg_ok_def)
  then have "length ?req = 21" by simp
  moreover have "pmem empty_pstate = empty_memory" "next_req empty_pstate = 0" "activeConns (svcs empty_pstate 0) = []"
    by (simp_all add: empty_pstate_def)
  ultimately show ?thesis
    using no_worker_answered [of ?T empty_pstate "NewSession 0 ''client'' False" "[]" 10 "demo_reader (frame_bytes ?req)" ?req "[]"
        "''math''" "''add''" 1 7 "[42]" demo_router 0 net_all id demo_writer 0 "\<lambda>_. 0" init_cmdstats] ok
    by (auto simp: NewSession_def demo_router_def simp del: Session_loopWriter.simps)
qed

end
